(* ===== verification/Prelude.thy ===== *)
theory Prelude
  imports Main "HOL-Library.Word" "HOL-Library.Sublist"
begin

text \<open>
  Shared vocabulary of the development: machine integers, the crate's error type
  (\<^verbatim>\<open>src/lib.rs\<close>, module \<^verbatim>\<open>error\<close>), and the operations of the Rust standard
  library on strings and integers that the components call.

  Strings are byte strings (\<^typ>\<open>string\<close>). The case and white-space operations act on
  the ASCII bytes only, so the model speaks about ASCII text; this is the range in which
  domain names, plugin tags and configuration keywords live.
\<close>

unbundle bit_operations_syntax

named_theorems string_simps \<open>equations of the string operations\<close>

section \<open>Machine integers\<close>

type_synonym u8 = "8 word"
type_synonym u16 = "16 word"
type_synonym u32 = "32 word"
type_synonym u64 = "64 word"

text \<open>Rust's \<^verbatim>\<open>saturating_sub\<close> on an unsigned type.\<close>

definition saturating_sub :: "'a::len word \<Rightarrow> 'a word \<Rightarrow> 'a word" where
  "saturating_sub a b = (if a \<le> b then 0 else a - b)"

lemma unat_saturating_sub [simp]: "unat (saturating_sub a b) = unat a - unat b"
proof (cases "a \<le> b")
  case True
  then show ?thesis by (simp add: saturating_sub_def word_le_nat_alt)
next
  case False
  then have "b \<le> a" by simp
  with False show ?thesis by (simp add: saturating_sub_def unat_sub)
qed

lemma saturating_sub_eq_0 [simp]: "saturating_sub a b = 0 \<longleftrightarrow> a \<le> b"
  by (auto simp: saturating_sub_def)

lemma saturating_sub_le: "saturating_sub a b \<le> a"
  by (simp add: word_le_nat_alt)

text \<open>Big-endian and little-endian bytes of the integers that are written out.\<close>

definition u16_to_be_bytes :: "u16 \<Rightarrow> u8 list" where
  "u16_to_be_bytes w = [ucast (drop_bit 8 w), ucast w]"

definition u16_from_be_bytes :: "u8 \<Rightarrow> u8 \<Rightarrow> u16" where
  "u16_from_be_bytes hi lo = push_bit 8 (ucast hi) OR ucast lo"

lemma u16_be_roundtrip [simp]:
  "u16_from_be_bytes (ucast (drop_bit 8 w)) (ucast w) = w"
  unfolding u16_from_be_bytes_def
  by (rule bit_word_eqI)
    (auto simp: bit_simps)

section \<open>Association lists\<close>

text \<open>\<^verbatim>\<open>entry(key).and_modify(f).or_insert_with(v)\<close>.\<close>

fun entry_or_insert :: "'k \<Rightarrow> ('v \<Rightarrow> 'v) \<Rightarrow> 'v \<Rightarrow> ('k \<times> 'v) list \<Rightarrow> ('k \<times> 'v) list" where
  "entry_or_insert k f v [] = [(k, v)]"
| "entry_or_insert k f v ((j, w) # m) = (if j = k then (j, f w) # m else (j, w) # entry_or_insert k f v m)"

section \<open>Errors\<close>

text \<open>
  The crate's \<^verbatim>\<open>Error\<close> enum. The payloads are the strings the code formats; an I/O
  error carries the operating system's description.
\<close>

datatype error =
    DnsProtocol string
  | UpstreamTimeout string u64
  | Config string
  | MissingConfigField string string
  | InvalidConfigValue string string string
  | PluginError string
  | Connection string string
  | InvalidAddress string
  | Io string
  | FileParse string string
  | Other string

type_synonym 'a result = "error + 'a"

section \<open>Strings\<close>

definition lower_char :: "char \<Rightarrow> char" where
  "lower_char c = (let n = (of_char c :: nat) in
     if 65 \<le> n \<and> n \<le> 90 then char_of (n + 32) else c)"

definition to_lowercase :: "string \<Rightarrow> string" where
  "to_lowercase s = map lower_char s"

definition upper_char :: "char \<Rightarrow> char" where
  "upper_char c = (let n = (of_char c :: nat) in if 97 \<le> n \<and> n \<le> 122 then char_of (n - 32) else c)"

definition to_uppercase :: "string \<Rightarrow> string" where
  "to_uppercase s = map upper_char s"

definition is_whitespace :: "char \<Rightarrow> bool" where
  "is_whitespace c = (let n = (of_char c :: nat) in (9 \<le> n \<and> n \<le> 13) \<or> n = 32)"

definition trim_end_matches :: "char \<Rightarrow> string \<Rightarrow> string" where
  "trim_end_matches c s = rev (dropWhile (\<lambda>x. x = c) (rev s))"

definition trim :: "string \<Rightarrow> string" where
  "trim s = rev (dropWhile is_whitespace (rev (dropWhile is_whitespace s)))"

definition strip_prefix :: "string \<Rightarrow> string \<Rightarrow> string option" where
  "strip_prefix p s = (if take (length p) s = p then Some (drop (length p) s) else None)"

definition strip_suffix :: "string \<Rightarrow> string \<Rightarrow> string option" where
  "strip_suffix p s = map_option rev (strip_prefix (rev p) (rev s))"

definition starts_with :: "string \<Rightarrow> string \<Rightarrow> bool" where
  "starts_with p s \<longleftrightarrow> strip_prefix p s \<noteq> None"

definition ends_with :: "string \<Rightarrow> string \<Rightarrow> bool" where
  "ends_with p s \<longleftrightarrow> strip_suffix p s \<noteq> None"

text \<open>\<^verbatim>\<open>str::split(c)\<close>: always at least one piece; separators are dropped.\<close>

fun split_on :: "char \<Rightarrow> string \<Rightarrow> string list" where
  "split_on c [] = [[]]"
| "split_on c (x # xs) =
     (if x = c then [] # split_on c xs
      else (x # hd (split_on c xs)) # tl (split_on c xs))"

definition split_once :: "char \<Rightarrow> string \<Rightarrow> (string \<times> string) option" where
  "split_once c s =
     (if c \<in> set s then Some (takeWhile (\<lambda>x. x \<noteq> c) s, tl (dropWhile (\<lambda>x. x \<noteq> c) s)) else None)"

fun join_with :: "char \<Rightarrow> string list \<Rightarrow> string" where
  "join_with c [] = []"
| "join_with c [p] = p"
| "join_with c (p # ps) = p @ c # join_with c ps"

text \<open>\<^verbatim>\<open>split_whitespace\<close>: the maximal runs of non-space characters.\<close>

fun words_acc :: "string \<Rightarrow> string \<Rightarrow> string list" where
  "words_acc w [] = (if w = [] then [] else [rev w])"
| "words_acc w (x # xs) =
     (if is_whitespace x then (if w = [] then words_acc [] xs else rev w # words_acc [] xs)
      else words_acc (x # w) xs)"

definition split_whitespace :: "string \<Rightarrow> string list" where
  "split_whitespace s = words_acc [] s"

fun str_contains :: "string \<Rightarrow> string \<Rightarrow> bool" where
  "str_contains p [] = (p = [])"
| "str_contains p (x # xs) = (starts_with p (x # xs) \<or> str_contains p xs)"

text \<open>\<^verbatim>\<open>str::lines\<close>: split at newlines, a final empty line and a trailing carriage
  return dropped.\<close>

definition str_lines :: "string \<Rightarrow> string list" where
  "str_lines s =
     (let ps = split_on (CHR 0x0A) s;
          qs = (if last ps = [] then butlast ps else ps)
      in map (\<lambda>l. case strip_suffix [CHR 0x0D] l of None \<Rightarrow> l | Some l' \<Rightarrow> l') qs)"

text \<open>Decimal printing and the checked parsing of \<^verbatim>\<open>str::parse::<uN>\<close>.\<close>

fun show_nat :: "nat \<Rightarrow> string" where
  "show_nat n =
     (if n < 10 then [char_of (48 + n)] else show_nat (n div 10) @ [char_of (48 + n mod 10)])"

declare show_nat.simps [simp del]

definition digit_val :: "char \<Rightarrow> nat option" where
  "digit_val c = (let n = (of_char c :: nat) in if 48 \<le> n \<and> n \<le> 57 then Some (n - 48) else None)"

fun parse_digits :: "nat \<Rightarrow> string \<Rightarrow> nat option" where
  "parse_digits acc [] = Some acc"
| "parse_digits acc (c # cs) =
     (case digit_val c of None \<Rightarrow> None | Some d \<Rightarrow> parse_digits (10 * acc + d) cs)"

text \<open>The optional sign, at least one digit, and the range check against the type's
  maximum (an overflow is an error).\<close>

definition parse_uint :: "nat \<Rightarrow> string \<Rightarrow> nat option" where
  "parse_uint mx s =
     (let ds = (case s of c # cs \<Rightarrow> if c = CHR ''+'' then cs else s | [] \<Rightarrow> s) in
      if ds = [] then None
      else case parse_digits 0 ds of None \<Rightarrow> None | Some n \<Rightarrow> if n \<le> mx then Some n else None)"

definition parse_u8 :: "string \<Rightarrow> u8 option" where
  "parse_u8 s = map_option of_nat (parse_uint 255 s)"

definition parse_u16 :: "string \<Rightarrow> u16 option" where
  "parse_u16 s = map_option of_nat (parse_uint 65535 s)"

definition parse_u32 :: "string \<Rightarrow> u32 option" where
  "parse_u32 s = map_option of_nat (parse_uint 4294967295 s)"

definition parse_u64 :: "string \<Rightarrow> u64 option" where
  "parse_u64 s = map_option of_nat (parse_uint 18446744073709551615 s)"

text \<open>\<^verbatim>\<open>trim_end_matches\<close> with a string pattern removes the pattern as often as it occurs at the end.\<close>

function trim_end_str :: "string \<Rightarrow> string \<Rightarrow> string" where
  "trim_end_str p s =
     (case strip_suffix p s of
        Some r \<Rightarrow> if p = [] then s else trim_end_str p r
      | None \<Rightarrow> s)"
  by pat_completeness auto

termination trim_end_str
  by (relation "measure (length \<circ> snd)")
    (auto simp: strip_suffix_def strip_prefix_def split: if_splits dest!: arg_cong [of _ _ length]
      intro: diff_less simp flip: length_greater_0_conv)

declare trim_end_str.simps [simp del]

text \<open>\<^verbatim>\<open>Path::join\<close>, on an optional base.\<close>

definition path_join :: "string option \<Rightarrow> string \<Rightarrow> string" where
  "path_join base p =
     (case base of
        None \<Rightarrow> p
      | Some b \<Rightarrow>
          if starts_with ''/'' p \<or> b = [] then p else if ends_with ''/'' b then b @ p else b @ ''/'' @ p)"

text \<open>\<^verbatim>\<open>str::replace\<close> with a nonempty pattern.\<close>

function replace_all :: "string \<Rightarrow> string \<Rightarrow> string \<Rightarrow> string" where
  "replace_all pat new [] = []"
| "replace_all pat new (x # xs) =
     (if pat \<noteq> [] \<and> starts_with pat (x # xs) then new @ replace_all pat new (drop (length pat - 1) xs)
      else x # replace_all pat new xs)"
  by pat_completeness auto

termination replace_all
  by (relation "measure (\<lambda>(pat, new, s). length s)") auto

text \<open>The \<^verbatim>\<open>Display\<close> texts of the errors.\<close>

fun error_fmt :: "error \<Rightarrow> string" where
  "error_fmt (DnsProtocol s) = ''DNS protocol error: '' @ s"
| "error_fmt (UpstreamTimeout u ms) = ''Upstream timeout: '' @ u @ '' ('' @ show_nat (unat ms) @ ''ms)''"
| "error_fmt (Config s) = ''Configuration error: '' @ s"
| "error_fmt (MissingConfigField f c) = ''Missing required config field: '' @ f @ '' in '' @ c"
| "error_fmt (InvalidConfigValue f v r) = ''Invalid config value for '' @ f @ '': '' @ v @ '' - '' @ r"
| "error_fmt (PluginError s) = ''Plugin error: '' @ s"
| "error_fmt (Connection a r) = ''Connection error to '' @ a @ '': '' @ r"
| "error_fmt (InvalidAddress i) = ''Invalid address: '' @ i"
| "error_fmt (Io s) = ''IO error: '' @ s"
| "error_fmt (FileParse p r) = ''Failed to parse file '' @ [CHR 0x27] @ p @ [CHR 0x27] @ '': '' @ r"
| "error_fmt (Other s) = ''Error: '' @ s"

subsection \<open>Case folding\<close>

lemma of_char_char_of_less: "n < 256 \<Longrightarrow> (of_char (char_of (n :: nat)) :: nat) = n"
  by simp

lemma lower_char_idem [simp]: "lower_char (lower_char c) = lower_char c"
proof -
  have "(of_char c :: nat) < 256" by simp
  then show ?thesis by (auto simp: lower_char_def Let_def)
qed

lemma to_lowercase_idem [simp]: "to_lowercase (to_lowercase s) = to_lowercase s"
  by (simp add: to_lowercase_def)

lemma to_lowercase_Nil [simp]: "to_lowercase [] = []"
  and to_lowercase_append [simp]: "to_lowercase (s @ t) = to_lowercase s @ to_lowercase t"
  and to_lowercase_eq_Nil [simp]: "to_lowercase s = [] \<longleftrightarrow> s = []"
  and length_to_lowercase [simp]: "length (to_lowercase s) = length s"
  by (simp_all add: to_lowercase_def)

lemma lower_char_eq_dot [simp]: "lower_char c = CHR ''.'' \<longleftrightarrow> c = CHR ''.''"
proof
  assume a: "lower_char c = CHR ''.''"
  have "(of_char c :: nat) < 256" by simp
  moreover from a have "(of_char (lower_char c) :: nat) = 46" by simp
  ultimately have "(of_char c :: nat) = 46"
    by (auto simp: lower_char_def Let_def split: if_splits)
  then have "(of_char c :: nat) = of_char (CHR ''.'')" by simp
  then show "c = CHR ''.''" by (simp only: of_char_eq_iff)
next
  assume "c = CHR ''.''"
  then show "lower_char c = CHR ''.''" by (simp add: lower_char_def)
qed

lemma trim_end_dot_lower:
  "trim_end_matches (CHR ''.'') (to_lowercase s) = to_lowercase (trim_end_matches (CHR ''.'') s)"
proof -
  have "dropWhile (\<lambda>x. x = CHR ''.'') (map lower_char t) =
        map lower_char (dropWhile (\<lambda>x. x = CHR ''.'') t)" for t
    by (induction t) auto
  then show ?thesis
    by (simp add: trim_end_matches_def to_lowercase_def rev_map)
qed

lemma trim_end_matches_idem [simp]:
  "trim_end_matches c (trim_end_matches c s) = trim_end_matches c s"
proof -
  have "dropWhile (\<lambda>x. x = c) (dropWhile (\<lambda>x. x = c) t) = dropWhile (\<lambda>x. x = c) t" for t
    by (induction t) auto
  then show ?thesis by (simp add: trim_end_matches_def)
qed

lemma trim_end_matches_snoc_same [simp]: "trim_end_matches c (s @ [c]) = trim_end_matches c s"
  by (simp add: trim_end_matches_def)

subsection \<open>Prefixes and suffixes\<close>

lemma strip_prefix_append [simp]: "strip_prefix p (p @ s) = Some s"
  by (simp add: strip_prefix_def)

lemma strip_prefix_Some_iff: "strip_prefix p s = Some r \<longleftrightarrow> s = p @ r"
  by (auto simp: strip_prefix_def split: if_splits)
    (metis append_take_drop_id)

lemma strip_suffix_Some_iff: "strip_suffix p s = Some r \<longleftrightarrow> s = r @ p"
proof -
  have "strip_suffix p s = Some r \<longleftrightarrow> strip_prefix (rev p) (rev s) = Some (rev r)"
    by (auto simp: strip_suffix_def)
  also have "\<dots> \<longleftrightarrow> rev s = rev p @ rev r" by (rule strip_prefix_Some_iff)
  also have "\<dots> \<longleftrightarrow> s = r @ p" by (metis rev_append rev_rev_ident)
  finally show ?thesis .
qed

lemma starts_with_iff: "starts_with p s \<longleftrightarrow> (\<exists>r. s = p @ r)"
  by (auto simp: starts_with_def strip_prefix_Some_iff)

lemma ends_with_iff: "ends_with p s \<longleftrightarrow> (\<exists>r. s = r @ p)"
  by (auto simp: ends_with_def strip_suffix_Some_iff)

lemma str_contains_iff: "str_contains p s \<longleftrightarrow> (\<exists>a b. s = a @ p @ b)"
proof (induction s)
  case Nil
  then show ?case by auto
next
  case (Cons x xs)
  have "(\<exists>a b. x # xs = a @ p @ b) \<longleftrightarrow> (\<exists>b. x # xs = p @ b) \<or> (\<exists>a b. xs = a @ p @ b)"
    by (auto simp: Cons_eq_append_conv)
  with Cons show ?case by (simp add: starts_with_iff)
qed

subsection \<open>Splitting and joining\<close>

lemma split_on_not_Nil [simp]: "split_on c s \<noteq> []"
  by (cases s) auto

text \<open>Equations that traverse the rest once, for evaluation.\<close>

lemma split_on_code [code]:
  "split_on c [] = [[]]"
  "split_on c (x # xs) =
     (case split_on c xs of
        [] \<Rightarrow> [[x]]
      | p # ps \<Rightarrow> if x = c then [] # p # ps else (x # p) # ps)"
  by (simp_all split: list.splits)

lemma join_with_Cons: "ps \<noteq> [] \<Longrightarrow> join_with c (p # ps) = p @ c # join_with c ps"
  by (cases ps) auto

lemma join_split [simp]: "join_with c (split_on c s) = s"
proof (induction s)
  case Nil
  then show ?case by simp
next
  case (Cons x xs)
  obtain p ps where ps: "split_on c xs = p # ps"
    by (cases "split_on c xs") auto
  with Cons show ?case
    by (cases ps) (auto simp: join_with_Cons)
qed

lemma split_on_no_sep: "\<forall>p \<in> set (split_on c s). c \<notin> set p"
proof (induction s)
  case Nil
  then show ?case by simp
next
  case (Cons x xs)
  obtain p ps where "split_on c xs = p # ps"
    by (cases "split_on c xs") auto
  with Cons show ?case by auto
qed

lemma split_on_none: "c \<notin> set s \<Longrightarrow> split_on c s = [s]"
  by (induction s) auto

lemma split_on_append_sep: "c \<notin> set p \<Longrightarrow> split_on c (p @ c # s) = p # split_on c s"
  by (induction p) auto

lemma split_join:
  assumes "ps \<noteq> []" and "\<And>p. p \<in> set ps \<Longrightarrow> c \<notin> set p"
  shows "split_on c (join_with c ps) = ps"
  using assms
proof (induction ps)
  case Nil
  then show ?case by simp
next
  case (Cons p ps)
  then show ?case
    by (cases "ps = []") (auto simp: join_with_Cons split_on_append_sep split_on_none)
qed

subsection \<open>Decimal numbers\<close>

lemma digit_chars [string_simps]:
  "char_of (48 :: nat) = CHR ''0''" "char_of (49 :: nat) = CHR ''1''"
  "char_of (50 :: nat) = CHR ''2''" "char_of (51 :: nat) = CHR ''3''"
  "char_of (52 :: nat) = CHR ''4''" "char_of (53 :: nat) = CHR ''5''"
  "char_of (54 :: nat) = CHR ''6''" "char_of (55 :: nat) = CHR ''7''"
  "char_of (56 :: nat) = CHR ''8''" "char_of (57 :: nat) = CHR ''9''"
  by (simp_all add: char_of_def bit_iff_odd)

lemma digit_val_char_of [simp]: "n < 10 \<Longrightarrow> digit_val (char_of (48 + n)) = Some n"
  by (simp add: digit_val_def Let_def)

lemma parse_digits_append:
  "parse_digits acc (s @ t) = Option.bind (parse_digits acc s) (\<lambda>n. parse_digits n t)"
  by (induction s arbitrary: acc) (auto split: option.splits)

lemma parse_digits_show_nat: "parse_digits 0 (show_nat n) = Some n"
proof (induction n rule: show_nat.induct)
  case (1 n)
  show ?case
  proof (cases "n < 10")
    case True
    then show ?thesis by (subst show_nat.simps) simp
  next
    case False
    with "1.IH" show ?thesis
      by (subst show_nat.simps) (simp add: parse_digits_append)
  qed
qed

lemma show_nat_inject [simp]: "show_nat m = show_nat n \<longleftrightarrow> m = n"
  by (metis option.inject parse_digits_show_nat)

lemma show_nat_not_Nil [simp]: "show_nat n \<noteq> []"
  by (subst show_nat.simps) simp

lemma show_nat_digits: "c \<in> set (show_nat n) \<Longrightarrow> digit_val c \<noteq> None"
proof (induction n rule: show_nat.induct)
  case (1 n)
  then show ?case
    by (subst (asm) (2) show_nat.simps) (auto split: if_splits)
qed

lemma colon_notin_show_nat [simp]: "CHR '':'' \<notin> set (show_nat n)"
  using show_nat_digits [of "CHR '':''" n] by (auto simp: digit_val_def)

lemma parse_uint_show_nat: "n \<le> mx \<Longrightarrow> parse_uint mx (show_nat n) = Some n"
proof -
  assume le: "n \<le> mx"
  have "hd (show_nat n) \<noteq> CHR ''+''"
    using show_nat_digits [of "hd (show_nat n)" n] by (auto simp: digit_val_def)
  then obtain c cs where s: "show_nat n = c # cs" "c \<noteq> CHR ''+''"
    by (cases "show_nat n") auto
  with parse_digits_show_nat [of n] le show ?thesis
    by (simp add: parse_uint_def)
qed

subsection \<open>Words, splitting and replacing\<close>

lemma words_acc_word:
  "\<forall>x \<in> set w. \<not> is_whitespace x \<Longrightarrow> words_acc acc (w @ rest) = words_acc (rev w @ acc) rest"
  by (induction w arbitrary: acc) auto

lemma words_acc_hd: "acc \<noteq> [] \<Longrightarrow> \<exists>ws. words_acc acc s = (rev acc @ takeWhile (\<lambda>x. \<not> is_whitespace x) s) # ws"
  by (induction acc s rule: words_acc.induct) auto

lemma split_whitespace_join:
  assumes "\<forall>w \<in> set ws. w \<noteq> [] \<and> (\<forall>x \<in> set w. \<not> is_whitespace x)"
  shows "split_whitespace (join_with (CHR '' '') ws) = ws"
  using assms unfolding split_whitespace_def
proof (induction ws)
  case (Cons w ws)
  have sp: "is_whitespace (CHR '' '')" by (simp add: is_whitespace_def)
  have w: "w \<noteq> []" "\<forall>x \<in> set w. \<not> is_whitespace x" using Cons.prems by auto
  show ?case
  proof (cases "ws = []")
    case True
    then show ?thesis using words_acc_word [OF w(2), of "[]" "[]"] w(1) by simp
  next
    case False
    then show ?thesis
      using words_acc_word [OF w(2), of "[]" "CHR '' '' # join_with (CHR '' '') ws"] w(1) Cons sp
      by (simp add: join_with_Cons)
  qed
qed simp

lemma digit_not_whitespace: "digit_val x \<noteq> None \<Longrightarrow> \<not> is_whitespace x"
  by (auto simp: digit_val_def is_whitespace_def Let_def split: if_splits)

lemma replace_all_absent: "c \<notin> set s \<Longrightarrow> replace_all [c] new s = s"
  by (induction s) (auto simp: starts_with_iff)

lemma replace_all_append_absent:
  "c \<notin> set s \<Longrightarrow> replace_all [c] new (s @ c # t) = s @ new @ replace_all [c] new t"
  by (induction s) (auto simp: starts_with_iff)

lemma trim_end_str_once:
  assumes "\<not> ends_with p s" and "p \<noteq> []"
  shows "trim_end_str p (s @ p) = s"
proof -
  have "strip_suffix p (s @ p) = Some s" by (simp add: strip_suffix_Some_iff)
  moreover have "strip_suffix p s = None" using assms(1) by (simp add: ends_with_def)
  ultimately show ?thesis using assms(2) by (simp add: trim_end_str.simps)
qed

lemma set_join_with: "set (join_with c xs) \<subseteq> insert c (\<Union>x\<in>set xs. set x)"
  by (induction c xs rule: join_with.induct) auto

lemma split_once_append: "c \<notin> set s \<Longrightarrow> split_once c (s @ c # t) = Some (s, t)"
  by (induction s) (auto simp: split_once_def)

lemma parse_digits_ge: "parse_digits n s = Some v \<Longrightarrow> n \<le> v"
  by (induction n s rule: parse_digits.induct) (auto split: option.splits)

section \<open>Lists\<close>

lemma map_of_filter_fst_neq: "map_of (filter (\<lambda>p. fst p \<noteq> k) xs) = (map_of xs)(k := None)"
  by (induction xs) (auto simp: fun_eq_iff)

lemma distinct_map_fst_filter: "distinct (map fst xs) \<Longrightarrow> distinct (map fst (filter P xs))"
  by (induction xs) auto

lemma foldl_append_concat: "foldl (\<lambda>acc x. acc @ f x) old xs = old @ concat (map f xs)"
  by (induction xs arbitrary: old) auto

lemma map_of_entry: "map_of (entry_or_insert k f v m) j =
    (if j = k then Some (case map_of m k of Some w \<Rightarrow> f w | None \<Rightarrow> v) else map_of m j)"
  by (induction m) auto

lemma keys_entry: "map fst (entry_or_insert k f v m) = map fst m @ (if k \<in> fst ` set m then [] else [k])"
  by (induction m) (auto simp: rev_image_eqI)

lemma key_set_entry [simp]: "fst ` set (entry_or_insert k f v m) = insert k (fst ` set m)"
  using arg_cong [OF keys_entry [of k f v m], of set] by (simp add: insert_absorb split: if_splits)

lemma distinct_entry: "distinct (map fst m) \<Longrightarrow> distinct (map fst (entry_or_insert k f v m))"
  by (simp add: keys_entry)

lemma length_entry: "length (entry_or_insert k f v m) = length m + (if k \<in> fst ` set m then 0 else 1)"
  using arg_cong [OF keys_entry, of length k f v m] by (simp split: if_splits)

end
