(* ===== verification/Dns_Types.thy ===== *)
theory Dns_Types
  imports Prelude
begin

text \<open>
  The protocol enumerations of \<^verbatim>\<open>src/dns/types.rs\<close>: record types, record classes,
  operation codes and response codes, with their numeric conversions and their
  \<^verbatim>\<open>Display\<close> texts. Constructors carry the prefix of their enum
  (\<^verbatim>\<open>RecordType::A\<close> is \<open>RT_A\<close>, \<^verbatim>\<open>ResponseCode::Refused\<close> is \<open>RC_Refused\<close>).

  The decoders are total and the encoders invert them on every wire value. The other
  direction holds exactly for the canonical values: an \<^verbatim>\<open>Unknown(v)\<close> whose \<open>v\<close> has
  a named variant is decoded to that variant.
\<close>

section \<open>Record types\<close>

datatype record_type =
    RT_A | RT_NS | RT_CNAME | RT_SOA | RT_PTR | RT_MX | RT_TXT | RT_AAAA | RT_SRV | RT_OPT
     | RT_DS | RT_RRSIG | RT_NSEC | RT_DNSKEY | RT_NSEC3 | RT_NSEC3PARAM | RT_SVCB | RT_HTTPS
     | RT_CAA | RT_Unknown u16

definition record_type_from_u16 :: "u16 \<Rightarrow> record_type" where
  "record_type_from_u16 value =
    (if value = 1 then RT_A
     else if value = 2 then RT_NS
     else if value = 5 then RT_CNAME
     else if value = 6 then RT_SOA
     else if value = 12 then RT_PTR
     else if value = 15 then RT_MX
     else if value = 16 then RT_TXT
     else if value = 28 then RT_AAAA
     else if value = 33 then RT_SRV
     else if value = 41 then RT_OPT
     else if value = 43 then RT_DS
     else if value = 46 then RT_RRSIG
     else if value = 47 then RT_NSEC
     else if value = 48 then RT_DNSKEY
     else if value = 50 then RT_NSEC3
     else if value = 51 then RT_NSEC3PARAM
     else if value = 64 then RT_SVCB
     else if value = 65 then RT_HTTPS
     else if value = 257 then RT_CAA
     else RT_Unknown value)"

fun record_type_to_u16 :: "record_type \<Rightarrow> u16" where
  "record_type_to_u16 RT_A = 1"
| "record_type_to_u16 RT_NS = 2"
| "record_type_to_u16 RT_CNAME = 5"
| "record_type_to_u16 RT_SOA = 6"
| "record_type_to_u16 RT_PTR = 12"
| "record_type_to_u16 RT_MX = 15"
| "record_type_to_u16 RT_TXT = 16"
| "record_type_to_u16 RT_AAAA = 28"
| "record_type_to_u16 RT_SRV = 33"
| "record_type_to_u16 RT_OPT = 41"
| "record_type_to_u16 RT_DS = 43"
| "record_type_to_u16 RT_RRSIG = 46"
| "record_type_to_u16 RT_NSEC = 47"
| "record_type_to_u16 RT_DNSKEY = 48"
| "record_type_to_u16 RT_NSEC3 = 50"
| "record_type_to_u16 RT_NSEC3PARAM = 51"
| "record_type_to_u16 RT_SVCB = 64"
| "record_type_to_u16 RT_HTTPS = 65"
| "record_type_to_u16 RT_CAA = 257"
| "record_type_to_u16 (RT_Unknown v) = v"

fun record_type_fmt :: "record_type \<Rightarrow> string" where
  "record_type_fmt RT_A = ''A''"
| "record_type_fmt RT_NS = ''NS''"
| "record_type_fmt RT_CNAME = ''CNAME''"
| "record_type_fmt RT_SOA = ''SOA''"
| "record_type_fmt RT_PTR = ''PTR''"
| "record_type_fmt RT_MX = ''MX''"
| "record_type_fmt RT_TXT = ''TXT''"
| "record_type_fmt RT_AAAA = ''AAAA''"
| "record_type_fmt RT_SRV = ''SRV''"
| "record_type_fmt RT_OPT = ''OPT''"
| "record_type_fmt RT_DS = ''DS''"
| "record_type_fmt RT_RRSIG = ''RRSIG''"
| "record_type_fmt RT_NSEC = ''NSEC''"
| "record_type_fmt RT_DNSKEY = ''DNSKEY''"
| "record_type_fmt RT_NSEC3 = ''NSEC3''"
| "record_type_fmt RT_NSEC3PARAM = ''NSEC3PARAM''"
| "record_type_fmt RT_SVCB = ''SVCB''"
| "record_type_fmt RT_HTTPS = ''HTTPS''"
| "record_type_fmt RT_CAA = ''CAA''"
| "record_type_fmt (RT_Unknown v) = ''TYPE'' @ show_nat (unat v)"

section \<open>Record classes\<close>

datatype record_class =
    CL_IN | CL_CH | CL_HS | CL_Unknown u16

definition record_class_from_u16 :: "u16 \<Rightarrow> record_class" where
  "record_class_from_u16 value =
    (if value = 1 then CL_IN
     else if value = 3 then CL_CH
     else if value = 4 then CL_HS
     else CL_Unknown value)"

fun record_class_to_u16 :: "record_class \<Rightarrow> u16" where
  "record_class_to_u16 CL_IN = 1"
| "record_class_to_u16 CL_CH = 3"
| "record_class_to_u16 CL_HS = 4"
| "record_class_to_u16 (CL_Unknown v) = v"

fun record_class_fmt :: "record_class \<Rightarrow> string" where
  "record_class_fmt CL_IN = ''IN''"
| "record_class_fmt CL_CH = ''CH''"
| "record_class_fmt CL_HS = ''HS''"
| "record_class_fmt (CL_Unknown v) = ''CLASS'' @ show_nat (unat v)"

section \<open>Operation codes\<close>

datatype op_code =
    OP_Query | OP_IQuery | OP_Status | OP_Notify | OP_Update | OP_Unknown u8

definition op_code_from_u8 :: "u8 \<Rightarrow> op_code" where
  "op_code_from_u8 value =
    (if value = 0 then OP_Query
     else if value = 1 then OP_IQuery
     else if value = 2 then OP_Status
     else if value = 4 then OP_Notify
     else if value = 5 then OP_Update
     else OP_Unknown value)"

fun op_code_to_u8 :: "op_code \<Rightarrow> u8" where
  "op_code_to_u8 OP_Query = 0"
| "op_code_to_u8 OP_IQuery = 1"
| "op_code_to_u8 OP_Status = 2"
| "op_code_to_u8 OP_Notify = 4"
| "op_code_to_u8 OP_Update = 5"
| "op_code_to_u8 (OP_Unknown v) = v"

section \<open>Response codes\<close>

datatype response_code =
    RC_NoError | RC_FormErr | RC_ServFail | RC_NXDomain | RC_NotImp | RC_Refused | RC_YXDomain
     | RC_YXRRSet | RC_NXRRSet | RC_NotAuth | RC_NotZone | RC_Unknown u8

definition response_code_from_u8 :: "u8 \<Rightarrow> response_code" where
  "response_code_from_u8 value =
    (if value = 0 then RC_NoError
     else if value = 1 then RC_FormErr
     else if value = 2 then RC_ServFail
     else if value = 3 then RC_NXDomain
     else if value = 4 then RC_NotImp
     else if value = 5 then RC_Refused
     else if value = 6 then RC_YXDomain
     else if value = 7 then RC_YXRRSet
     else if value = 8 then RC_NXRRSet
     else if value = 9 then RC_NotAuth
     else if value = 10 then RC_NotZone
     else RC_Unknown value)"

fun response_code_to_u8 :: "response_code \<Rightarrow> u8" where
  "response_code_to_u8 RC_NoError = 0"
| "response_code_to_u8 RC_FormErr = 1"
| "response_code_to_u8 RC_ServFail = 2"
| "response_code_to_u8 RC_NXDomain = 3"
| "response_code_to_u8 RC_NotImp = 4"
| "response_code_to_u8 RC_Refused = 5"
| "response_code_to_u8 RC_YXDomain = 6"
| "response_code_to_u8 RC_YXRRSet = 7"
| "response_code_to_u8 RC_NXRRSet = 8"
| "response_code_to_u8 RC_NotAuth = 9"
| "response_code_to_u8 RC_NotZone = 10"
| "response_code_to_u8 (RC_Unknown v) = v"

fun response_code_fmt :: "response_code \<Rightarrow> string" where
  "response_code_fmt RC_NoError = ''NOERROR''"
| "response_code_fmt RC_FormErr = ''FORMERR''"
| "response_code_fmt RC_ServFail = ''SERVFAIL''"
| "response_code_fmt RC_NXDomain = ''NXDOMAIN''"
| "response_code_fmt RC_NotImp = ''NOTIMP''"
| "response_code_fmt RC_Refused = ''REFUSED''"
| "response_code_fmt RC_YXDomain = ''YXDOMAIN''"
| "response_code_fmt RC_YXRRSet = ''YXRRSET''"
| "response_code_fmt RC_NXRRSet = ''NXRRSET''"
| "response_code_fmt RC_NotAuth = ''NOTAUTH''"
| "response_code_fmt RC_NotZone = ''NOTZONE''"
| "response_code_fmt (RC_Unknown v) = ''RCODE'' @ show_nat (unat v)"

text \<open>The derived \<^verbatim>\<open>Debug\<close> text.\<close>

fun response_code_debug :: "response_code \<Rightarrow> string" where
  "response_code_debug RC_NoError = ''NoError''"
| "response_code_debug RC_FormErr = ''FormErr''"
| "response_code_debug RC_ServFail = ''ServFail''"
| "response_code_debug RC_NXDomain = ''NXDomain''"
| "response_code_debug RC_NotImp = ''NotImp''"
| "response_code_debug RC_Refused = ''Refused''"
| "response_code_debug RC_YXDomain = ''YXDomain''"
| "response_code_debug RC_YXRRSet = ''YXRRSet''"
| "response_code_debug RC_NXRRSet = ''NXRRSet''"
| "response_code_debug RC_NotAuth = ''NotAuth''"
| "response_code_debug RC_NotZone = ''NotZone''"
| "response_code_debug (RC_Unknown v) = ''Unknown('' @ show_nat (unat v) @ '')''"

section \<open>Conversions\<close>

text \<open>A value is canonical when the decoder produces it.\<close>

definition canonical_type :: "record_type \<Rightarrow> bool" where
  "canonical_type t \<longleftrightarrow> record_type_from_u16 (record_type_to_u16 t) = t"

definition canonical_class :: "record_class \<Rightarrow> bool" where
  "canonical_class c \<longleftrightarrow> record_class_from_u16 (record_class_to_u16 c) = c"

lemma record_type_to_from [simp]: "record_type_to_u16 (record_type_from_u16 v) = v"
  by (simp add: record_type_from_u16_def)

lemma record_class_to_from [simp]: "record_class_to_u16 (record_class_from_u16 v) = v"
  by (simp add: record_class_from_u16_def)

lemma op_code_to_from [simp]: "op_code_to_u8 (op_code_from_u8 v) = v"
  by (simp add: op_code_from_u8_def)

lemma response_code_to_from [simp]: "response_code_to_u8 (response_code_from_u8 v) = v"
  by (simp add: response_code_from_u8_def)

lemma canonical_from_u16 [simp]:
  "canonical_type (record_type_from_u16 v)" "canonical_class (record_class_from_u16 v)"
  by (simp_all add: canonical_type_def canonical_class_def)

lemma record_type_to_u16_inj:
  "canonical_type s \<Longrightarrow> canonical_type t \<Longrightarrow> record_type_to_u16 s = record_type_to_u16 t \<longleftrightarrow> s = t"
  by (metis canonical_type_def)

lemma record_class_to_u16_inj:
  "canonical_class s \<Longrightarrow> canonical_class t \<Longrightarrow>
     record_class_to_u16 s = record_class_to_u16 t \<longleftrightarrow> s = t"
  by (metis canonical_class_def)

lemma canonical_named [simp]:
  "canonical_type RT_A" "canonical_type RT_AAAA" "canonical_type RT_CNAME"
  "canonical_type RT_PTR" "canonical_type RT_OPT" "canonical_class CL_IN"
  by (simp_all add: canonical_type_def canonical_class_def
      record_type_from_u16_def record_class_from_u16_def)

end
