(* ===== verification/Ip_Addr.thy ===== *)
theory Ip_Addr
  imports Prelude
begin

text \<open>
  \<^verbatim>\<open>std::net::IpAddr\<close> as the plugins use it: addresses as 32- and 128-bit words, their
  octets and segments, the \<^verbatim>\<open>Display\<close> texts and the \<^verbatim>\<open>FromStr\<close> parsers of the Rust
  standard library.
\<close>

type_synonym ipv4 = "32 word"
type_synonym ipv6 = "128 word"

datatype ip_addr = V4 ipv4 | V6 ipv6

definition v4_octets :: "ipv4 \<Rightarrow> u8 list" where
  "v4_octets a = [ucast (drop_bit 24 a), ucast (drop_bit 16 a), ucast (drop_bit 8 a), ucast a]"

definition v4_new :: "u8 \<Rightarrow> u8 \<Rightarrow> u8 \<Rightarrow> u8 \<Rightarrow> ipv4" where
  "v4_new a b c d =
     push_bit 24 (ucast a) OR push_bit 16 (ucast b) OR push_bit 8 (ucast c) OR ucast d"

definition v6_octets :: "ipv6 \<Rightarrow> u8 list" where
  "v6_octets a = map (\<lambda>i. ucast (drop_bit (8 * i) a)) (rev [0..<16])"

definition v6_from_octets :: "u8 list \<Rightarrow> ipv6" where
  "v6_from_octets bs = foldl (\<lambda>acc b. push_bit 8 acc OR ucast b) 0 bs"

definition v6_segments :: "ipv6 \<Rightarrow> u16 list" where
  "v6_segments a = map (\<lambda>i. ucast (drop_bit (16 * i) a)) (rev [0..<8])"

definition v6_from_segments :: "u16 list \<Rightarrow> ipv6" where
  "v6_from_segments gs = foldl (\<lambda>acc g. push_bit 16 acc OR ucast g) 0 gs"

lemma length_octets [simp]: "length (v4_octets a) = 4" "length (v6_octets b) = 16"
  by (simp_all add: v4_octets_def v6_octets_def)

lemma unat_less_2p8: "unat (v :: u8) < 256"
proof -
  have "unat v < 2 ^ LENGTH(8)" by (rule unsigned_less)
  then show ?thesis by simp
qed

lemma u8_bit_high: "8 \<le> n \<Longrightarrow> \<not> bit (w :: u8) n"
  using bit_imp_le_length [of w n] by auto

lemma v4_octets_new [simp]: "v4_octets (v4_new a b c d) = [a, b, c, d]"
  by (auto simp: v4_octets_def v4_new_def bit_simps u8_bit_high intro!: bit_word_eqI)

lemma v4_new_octets: "v4_octets a = [w, x, y, z] \<Longrightarrow> v4_new w x y z = a"
proof -
  assume "v4_octets a = [w, x, y, z]"
  then have o: "w = ucast (drop_bit 24 a)" "x = ucast (drop_bit 16 a)"
    "y = ucast (drop_bit 8 a)" "z = ucast a"
    by (simp_all add: v4_octets_def)
  show ?thesis
  proof (rule bit_word_eqI)
    fix n assume "n < LENGTH(32)"
    then have "n < 8 \<or> (8 \<le> n \<and> n < 16) \<or> (16 \<le> n \<and> n < 24) \<or> (24 \<le> n \<and> n < 32)"
      by auto
    then show "bit (v4_new w x y z) n = bit a n"
      unfolding v4_new_def o by (auto simp: bit_simps)
  qed
qed

section \<open>Display\<close>

definition v4_to_string :: "ipv4 \<Rightarrow> string" where
  "v4_to_string a = join_with (CHR ''.'') (map (\<lambda>b. show_nat (unat b)) (v4_octets a))"

definition hex_digit :: "nat \<Rightarrow> char" where
  "hex_digit n = (if n < 10 then char_of (48 + n) else char_of (87 + n))"

fun show_hex :: "nat \<Rightarrow> string" where
  "show_hex n = (if n < 16 then [hex_digit n] else show_hex (n div 16) @ [hex_digit (n mod 16)])"

declare show_hex.simps [simp del]

text \<open>The first longest run of zero segments, as (start, length).\<close>

fun zero_run :: "nat \<Rightarrow> nat \<times> nat \<Rightarrow> nat \<times> nat \<Rightarrow> u16 list \<Rightarrow> nat \<times> nat" where
  "zero_run i cur best [] = best"
| "zero_run i (cs, cl) (bs, bl) (g # gs) =
     (if g = 0 then
        (let cs' = (if cl = 0 then i else cs); cl' = cl + 1 in
         zero_run (i + 1) (cs', cl') (if cl' > bl then (cs', cl') else (bs, bl)) gs)
      else zero_run (i + 1) (0, 0) (bs, bl) gs)"

definition hex_groups :: "u16 list \<Rightarrow> string" where
  "hex_groups gs = join_with (CHR '':'') (map (\<lambda>g. show_hex (unat g)) gs)"

definition v6_to_string :: "ipv6 \<Rightarrow> string" where
  "v6_to_string a =
     (let gs = v6_segments a in
      if take 6 gs = [0, 0, 0, 0, 0, 0xFFFF] then ''::ffff:'' @ v4_to_string (ucast a)
      else case zero_run 0 (0, 0) (0, 0) gs of (start, len) \<Rightarrow>
        if len > 1 then hex_groups (take start gs) @ ''::'' @ hex_groups (drop (start + len) gs)
        else hex_groups gs)"

fun ip_to_string :: "ip_addr \<Rightarrow> string" where
  "ip_to_string (V4 a) = v4_to_string a"
| "ip_to_string (V6 a) = v6_to_string a"

section \<open>Parsing\<close>

text \<open>
  \<^verbatim>\<open>Parser::read_number\<close>: a maximal run of digits of the radix, at most \<open>maxd\<close> of
  them, within the bound; in decimal a multi-digit number may not start with zero.
  The result carries the rest of the input.
\<close>

definition hex_val :: "char \<Rightarrow> nat option" where
  "hex_val c = (let n = (of_char c :: nat) in
     if 48 \<le> n \<and> n \<le> 57 then Some (n - 48)
     else if 97 \<le> n \<and> n \<le> 102 then Some (n - 87)
     else if 65 \<le> n \<and> n \<le> 70 then Some (n - 55) else None)"

fun read_run :: "(char \<Rightarrow> nat option) \<Rightarrow> nat \<Rightarrow> nat \<Rightarrow> nat \<Rightarrow> nat \<Rightarrow> string \<Rightarrow> (nat \<times> nat \<times> string) option" where
  "read_run dv radix maxd count acc [] = Some (count, acc, [])"
| "read_run dv radix maxd count acc (c # cs) =
     (case dv c of
        None \<Rightarrow> Some (count, acc, c # cs)
      | Some d \<Rightarrow> if count + 1 > maxd then None
                  else read_run dv radix maxd (count + 1) (radix * acc + d) cs)"

definition read_dec_octet :: "string \<Rightarrow> (nat \<times> string) option" where
  "read_dec_octet s =
     (case read_run digit_val 10 3 0 0 s of
        None \<Rightarrow> None
      | Some (count, n, rest) \<Rightarrow>
          if count = 0 \<or> n > 255 \<or> (count > 1 \<and> hd s = CHR ''0'') then None
          else Some (n, rest))"

definition read_hex_group :: "string \<Rightarrow> (nat \<times> string) option" where
  "read_hex_group s =
     (case read_run hex_val 16 4 0 0 s of
        None \<Rightarrow> None
      | Some (count, n, rest) \<Rightarrow> if count = 0 then None else Some (n, rest))"

text \<open>\<^verbatim>\<open>read_separator\<close>: before every group but the first the separator is required.\<close>

definition read_sep :: "char \<Rightarrow> nat \<Rightarrow> (string \<Rightarrow> ('a \<times> string) option) \<Rightarrow> string \<Rightarrow> ('a \<times> string) option" where
  "read_sep sep i p s =
     (if i = 0 then p s
      else case s of [] \<Rightarrow> None | c # cs \<Rightarrow> if c = sep then p cs else None)"

fun read_octets :: "nat \<Rightarrow> nat \<Rightarrow> string \<Rightarrow> (nat list \<times> string) option" where
  "read_octets i 0 s = Some ([], s)"
| "read_octets i (Suc n) s =
     (case read_sep (CHR ''.'') i read_dec_octet s of
        None \<Rightarrow> None
      | Some (d, rest) \<Rightarrow>
          map_option (\<lambda>(ds, r). (d # ds, r)) (read_octets (i + 1) n rest))"

definition read_ipv4 :: "string \<Rightarrow> (ipv4 \<times> string) option" where
  "read_ipv4 s =
     (case read_octets 0 4 s of
        Some ([a, b, c, d], rest) \<Rightarrow> Some (v4_new (of_nat a) (of_nat b) (of_nat c) (of_nat d), rest)
      | _ \<Rightarrow> None)"

text \<open>\<^verbatim>\<open>read_groups\<close>: up to \<open>limit\<close> groups; an embedded IPv4 address takes two and
  ends the run (the flag). Running out of groups is not an error.\<close>

fun read_groups :: "nat \<Rightarrow> nat \<Rightarrow> string \<Rightarrow> u16 list \<times> bool \<times> string" where
  "read_groups i 0 s = ([], False, s)"
| "read_groups i (Suc n) s =
     (case (if n > 0 then read_sep (CHR '':'') i read_ipv4 s else None) of
        Some (a, rest) \<Rightarrow> ([ucast (drop_bit 16 a), ucast a], True, rest)
      | None \<Rightarrow>
          (case read_sep (CHR '':'') i read_hex_group s of
             None \<Rightarrow> ([], False, s)
           | Some (g, rest) \<Rightarrow>
               (case read_groups (i + 1) n rest of (gs, v4, r) \<Rightarrow> (of_nat g # gs, v4, r))))"

definition read_ipv6 :: "string \<Rightarrow> (ipv6 \<times> string) option" where
  "read_ipv6 s =
     (case read_groups 0 8 s of (head, v4, rest) \<Rightarrow>
        if length head = 8 then Some (v6_from_segments head, rest)
        else if v4 then None
        else case strip_prefix ''::'' rest of
               None \<Rightarrow> None
             | Some rest' \<Rightarrow>
                 (case read_groups 0 (8 - (length head + 1)) rest' of (tail, _, r) \<Rightarrow>
                    Some (v6_from_segments
                      (head @ replicate (8 - length head - length tail) 0 @ tail), r)))"

definition parse_ipv4 :: "string \<Rightarrow> ipv4 option" where
  "parse_ipv4 s =
     (if length s > 15 then None
      else case read_ipv4 s of Some (a, []) \<Rightarrow> Some a | _ \<Rightarrow> None)"

definition parse_ipv6 :: "string \<Rightarrow> ipv6 option" where
  "parse_ipv6 s = (case read_ipv6 s of Some (a, []) \<Rightarrow> Some a | _ \<Rightarrow> None)"

text \<open>\<^verbatim>\<open>IpAddr::from_str\<close> reads an IPv4 address, else an IPv6 address, and must consume
  the whole text.\<close>

definition parse_ip :: "string \<Rightarrow> ip_addr option" where
  "parse_ip s =
     (case (case read_ipv4 s of Some (a, r) \<Rightarrow> Some (V4 a, r)
            | None \<Rightarrow> map_option (\<lambda>(a, r). (V6 a, r)) (read_ipv6 s)) of
        Some (ip, []) \<Rightarrow> Some ip
      | _ \<Rightarrow> None)"

section \<open>Round trip for IPv4\<close>

lemma read_run_digits:
  assumes "set ds \<subseteq> {c. digit_val c \<noteq> None}" and "rest = [] \<or> digit_val (hd rest) = None"
    and "count + length ds \<le> maxd"
  shows "read_run digit_val 10 maxd count acc (ds @ rest) =
    Some (count + length ds, the (parse_digits acc ds), rest)"
  using assms
proof (induction ds arbitrary: count acc)
  case Nil
  then show ?case by (cases rest) auto
next
  case (Cons c cs)
  then show ?case by auto
qed

lemma length_show_nat_le3: "n < 256 \<Longrightarrow> length (show_nat n) \<le> 3"
proof -
  assume n: "n < 256"
  have "n div 10 < 26" using n by simp
  then show ?thesis
    by (simp add: show_nat.simps [of n] show_nat.simps [of "n div 10"]
        show_nat.simps [of "n div 10 div 10"])
qed

lemma show_nat_hd_0: "n < 256 \<Longrightarrow> length (show_nat n) > 1 \<Longrightarrow> hd (show_nat n) \<noteq> CHR ''0''"
proof -
  have nz: "0 < k \<Longrightarrow> k < 10 \<Longrightarrow> char_of (48 + k) \<noteq> CHR ''0''" for k :: nat
  proof
    assume k: "0 < k" "k < 10" and "char_of (48 + k) = CHR ''0''"
    then have "(of_char (char_of (48 + k)) :: nat) = of_char (CHR ''0'')" by simp
    with k show False by simp
  qed
  assume n: "n < 256" and l: "length (show_nat n) > 1"
  from l have "n \<ge> 10" by (auto simp: show_nat.simps [of n] split: if_splits)
  then consider "n < 100" | "100 \<le> n" by linarith
  then show ?thesis
  proof cases
    case 1
    with \<open>n \<ge> 10\<close> have "0 < n div 10" "n div 10 < 10" by auto
    with \<open>n \<ge> 10\<close> show ?thesis
      by (simp add: show_nat.simps [of n] show_nat.simps [of "n div 10"] nz)
  next
    case 2
    with n have "0 < n div 10 div 10" "n div 10 div 10 < 10" "10 \<le> n div 10" by auto
    with \<open>n \<ge> 10\<close> show ?thesis
      by (simp add: show_nat.simps [of n] show_nat.simps [of "n div 10"]
          show_nat.simps [of "n div 10 div 10"] nz)
  qed
qed

lemma read_dec_octet_show:
  assumes "n < 256" and "rest = [] \<or> digit_val (hd rest) = None"
  shows "read_dec_octet (show_nat n @ rest) = Some (n, rest)"
proof -
  have "read_run digit_val 10 3 0 0 (show_nat n @ rest) = Some (length (show_nat n), n, rest)"
    using read_run_digits [of "show_nat n" rest 0 3 0] assms show_nat_digits [of _ n]
      length_show_nat_le3 [OF assms(1)]
    by (auto simp: parse_digits_show_nat)
  then show ?thesis
    using assms show_nat_hd_0 [OF assms(1)] by (auto simp: read_dec_octet_def)
qed

lemma digit_val_dot [simp]: "digit_val (CHR ''.'') = None"
  by (simp add: digit_val_def)

lemma read_ipv4_show:
  assumes "rest = [] \<or> digit_val (hd rest) = None"
  shows "read_ipv4 (v4_to_string a @ rest) = Some (a, rest)"
proof -
  obtain w x y z where o: "v4_octets a = [w, x, y, z]"
    by (auto simp: v4_octets_def)
  have b: "unat v < 256" for v :: u8
    using unat_less_2p8 [of v] .
  have "read_octets 0 4 (v4_to_string a @ rest) = Some ([unat w, unat x, unat y, unat z], rest)"
    using assms b
    by (simp add: v4_to_string_def o read_sep_def numeral_eq_Suc read_dec_octet_show)
  with v4_new_octets [OF o] show ?thesis by (simp add: read_ipv4_def)
qed

lemma parse_ip_v4_show [simp]: "parse_ip (v4_to_string a) = Some (V4 a)"
  using read_ipv4_show [of "[]" a] by (simp add: parse_ip_def)

lemma v4_to_string_inject [simp]: "v4_to_string a = v4_to_string b \<longleftrightarrow> a = b"
  by (metis ip_addr.inject(1) option.inject parse_ip_v4_show)

end
