(* ===== verification/Dns_Message.thy ===== *)
theory Dns_Message
  imports Dns_Types Ip_Addr
begin

text \<open>
  The in-memory DNS message: \<^verbatim>\<open>src/dns/rdata.rs\<close>, \<^verbatim>\<open>question.rs\<close>, \<^verbatim>\<open>record.rs\<close>
  and \<^verbatim>\<open>message.rs\<close>. \<^verbatim>\<open>Arc<str>\<close> is a string; a struct is a record whose fields carry
  the prefix \<open>q_\<close>, \<open>rr_\<close> or \<open>msg_\<close>; a mutating method returns the updated value. The
  getters are the record selectors.
\<close>

section \<open>Resource data\<close>

datatype rdata =
    RD_A ipv4
  | RD_AAAA ipv6
  | RD_CNAME string
  | RD_MX u16 string
  | RD_NS string
  | RD_PTR string
  | RD_TXT "string list"
  | RD_SOA string string u32 u32 u32 u32 u32
  | RD_SRV u16 u16 u16 string
  | RD_CAA u8 string string
  | RD_SVCB u16 string "u8 list"
  | RD_HTTPS u16 string "u8 list"
  | RD_DS u16 u8 u8 "u8 list"
  | RD_RRSIG u16 u8 u8 u32 u32 u32 u16 string "u8 list"
  | RD_NSEC string "u8 list"
  | RD_DNSKEY u16 u8 u8 "u8 list"
  | RD_NSEC3 u8 u8 u16 "u8 list" "u8 list" "u8 list"
  | RD_NSEC3PARAM u8 u8 u16 "u8 list"
  | RD_OPT u8 u8 u16 "u8 list"
  | RD_Unknown "u8 list"

abbreviation show_word :: "'a::len word \<Rightarrow> string" where
  "show_word w \<equiv> show_nat (unat w)"

definition spaced :: "string list \<Rightarrow> string" where
  "spaced ps = join_with (CHR '' '') ps"

definition quoted :: "string \<Rightarrow> string" where
  "quoted s = [CHR 0x22] @ s @ [CHR 0x22]"

fun rdata_fmt :: "rdata \<Rightarrow> string" where
  "rdata_fmt (RD_A a) = v4_to_string a"
| "rdata_fmt (RD_AAAA a) = v6_to_string a"
| "rdata_fmt (RD_CNAME n) = n"
| "rdata_fmt (RD_MX p e) = spaced [show_word p, e]"
| "rdata_fmt (RD_NS n) = n"
| "rdata_fmt (RD_PTR n) = n"
| "rdata_fmt (RD_TXT ts) = spaced (map quoted ts)"
| "rdata_fmt (RD_SOA m r se re rt ex mi) =
     spaced [m, r, show_word se, show_word re, show_word rt, show_word ex, show_word mi]"
| "rdata_fmt (RD_SRV p w q t) = spaced [show_word p, show_word w, show_word q, t]"
| "rdata_fmt (RD_CAA f t v) = spaced [show_word f, t, quoted v]"
| "rdata_fmt (RD_SVCB p t ps) =
     spaced [show_word p, t, ''<params: '' @ show_nat (length ps) @ '' bytes>'']"
| "rdata_fmt (RD_HTTPS p t ps) =
     spaced [show_word p, t, ''<params: '' @ show_nat (length ps) @ '' bytes>'']"
| "rdata_fmt (RD_DS k a d ds) =
     spaced [show_word k, show_word a, show_word d, ''<digest: '' @ show_nat (length ds) @ '' bytes>'']"
| "rdata_fmt (RD_RRSIG c a _ _ _ _ _ s _) = spaced [show_word c, show_word a, s, ''...'']"
| "rdata_fmt (RD_NSEC n t) = spaced [n, ''<'' @ show_nat (length t) @ '' types>'']"
| "rdata_fmt (RD_DNSKEY f p a k) =
     spaced [show_word f, show_word p, show_word a, ''<key: '' @ show_nat (length k) @ '' bytes>'']"
| "rdata_fmt (RD_NSEC3 h _ i _ _ _) = spaced [show_word h, show_word i, ''...'']"
| "rdata_fmt (RD_NSEC3PARAM h _ i _) = spaced [show_word h, show_word i, ''...'']"
| "rdata_fmt (RD_OPT _ v f os) =
     ''EDNS v'' @ show_word v @ '' flags:0x'' @ show_hex (unat f) @
       '' <'' @ show_nat (length os) @ '' bytes>''"
| "rdata_fmt (RD_Unknown d) = ''<'' @ show_nat (length d) @ '' bytes>''"

section \<open>Questions and resource records\<close>

record question =
  qname :: string
  qtype :: record_type
  qclass :: record_class

definition question_new :: "string \<Rightarrow> record_type \<Rightarrow> record_class \<Rightarrow> question" where
  "question_new n t c = \<lparr>qname = n, qtype = t, qclass = c\<rparr>"

definition set_qname :: "string \<Rightarrow> question \<Rightarrow> question" where
  "set_qname n q = q\<lparr>qname := n\<rparr>"

definition set_qtype :: "record_type \<Rightarrow> question \<Rightarrow> question" where
  "set_qtype t q = q\<lparr>qtype := t\<rparr>"

definition set_qclass :: "record_class \<Rightarrow> question \<Rightarrow> question" where
  "set_qclass c q = q\<lparr>qclass := c\<rparr>"

definition tabbed :: "string list \<Rightarrow> string" where
  "tabbed ps = join_with (CHR 0x09) ps"

definition question_fmt :: "question \<Rightarrow> string" where
  "question_fmt q = tabbed [qname q, record_class_fmt (qclass q), record_type_fmt (qtype q)]"

record resource_record =
  rr_name :: string
  rr_rtype :: record_type
  rr_rclass :: record_class
  rr_ttl :: u32
  rr_rdata :: rdata

definition rr_new :: "string \<Rightarrow> record_type \<Rightarrow> record_class \<Rightarrow> u32 \<Rightarrow> rdata \<Rightarrow> resource_record" where
  "rr_new n t c ttl d = \<lparr>rr_name = n, rr_rtype = t, rr_rclass = c, rr_ttl = ttl, rr_rdata = d\<rparr>"

definition set_name :: "string \<Rightarrow> resource_record \<Rightarrow> resource_record" where
  "set_name n r = r\<lparr>rr_name := n\<rparr>"

definition set_ttl :: "u32 \<Rightarrow> resource_record \<Rightarrow> resource_record" where
  "set_ttl t r = r\<lparr>rr_ttl := t\<rparr>"

definition set_rtype :: "record_type \<Rightarrow> resource_record \<Rightarrow> resource_record" where
  "set_rtype t r = r\<lparr>rr_rtype := t\<rparr>"

definition set_rclass :: "record_class \<Rightarrow> resource_record \<Rightarrow> resource_record" where
  "set_rclass c r = r\<lparr>rr_rclass := c\<rparr>"

definition set_rdata :: "rdata \<Rightarrow> resource_record \<Rightarrow> resource_record" where
  "set_rdata d r = r\<lparr>rr_rdata := d\<rparr>"

definition record_fmt :: "resource_record \<Rightarrow> string" where
  "record_fmt r = tabbed [rr_name r, show_word (rr_ttl r), record_class_fmt (rr_rclass r),
     record_type_fmt (rr_rtype r), rdata_fmt (rr_rdata r)]"

section \<open>Messages\<close>

record message =
  msg_id :: u16
  msg_qr :: bool
  msg_opcode :: op_code
  msg_aa :: bool
  msg_tc :: bool
  msg_rd :: bool
  msg_ra :: bool
  msg_ad :: bool
  msg_cd :: bool
  msg_rcode :: response_code
  msg_questions :: "question list"
  msg_answers :: "resource_record list"
  msg_authority :: "resource_record list"
  msg_additional :: "resource_record list"

definition message_new :: message where
  "message_new = \<lparr>msg_id = 0, msg_qr = False, msg_opcode = OP_Query, msg_aa = False,
     msg_tc = False, msg_rd = True, msg_ra = False, msg_ad = False, msg_cd = False,
     msg_rcode = RC_NoError, msg_questions = [], msg_answers = [], msg_authority = [],
     msg_additional = []\<rparr>"

definition set_id :: "u16 \<Rightarrow> message \<Rightarrow> message" where
  "set_id i m = m\<lparr>msg_id := i\<rparr>"

definition set_query :: "bool \<Rightarrow> message \<Rightarrow> message" where
  "set_query is_query m = m\<lparr>msg_qr := \<not> is_query\<rparr>"

definition set_response :: "bool \<Rightarrow> message \<Rightarrow> message" where
  "set_response is_response m = m\<lparr>msg_qr := is_response\<rparr>"

definition set_opcode :: "op_code \<Rightarrow> message \<Rightarrow> message" where
  "set_opcode c m = m\<lparr>msg_opcode := c\<rparr>"

definition set_authoritative :: "bool \<Rightarrow> message \<Rightarrow> message" where
  "set_authoritative b m = m\<lparr>msg_aa := b\<rparr>"

definition set_truncated :: "bool \<Rightarrow> message \<Rightarrow> message" where
  "set_truncated b m = m\<lparr>msg_tc := b\<rparr>"

definition set_recursion_desired :: "bool \<Rightarrow> message \<Rightarrow> message" where
  "set_recursion_desired b m = m\<lparr>msg_rd := b\<rparr>"

definition set_recursion_available :: "bool \<Rightarrow> message \<Rightarrow> message" where
  "set_recursion_available b m = m\<lparr>msg_ra := b\<rparr>"

definition set_authentic_data :: "bool \<Rightarrow> message \<Rightarrow> message" where
  "set_authentic_data b m = m\<lparr>msg_ad := b\<rparr>"

definition set_checking_disabled :: "bool \<Rightarrow> message \<Rightarrow> message" where
  "set_checking_disabled b m = m\<lparr>msg_cd := b\<rparr>"

definition set_response_code :: "response_code \<Rightarrow> message \<Rightarrow> message" where
  "set_response_code c m = m\<lparr>msg_rcode := c\<rparr>"

definition add_question :: "question \<Rightarrow> message \<Rightarrow> message" where
  "add_question q m = m\<lparr>msg_questions := msg_questions m @ [q]\<rparr>"

definition add_answer :: "resource_record \<Rightarrow> message \<Rightarrow> message" where
  "add_answer r m = m\<lparr>msg_answers := msg_answers m @ [r]\<rparr>"

definition add_authority :: "resource_record \<Rightarrow> message \<Rightarrow> message" where
  "add_authority r m = m\<lparr>msg_authority := msg_authority m @ [r]\<rparr>"

definition add_additional :: "resource_record \<Rightarrow> message \<Rightarrow> message" where
  "add_additional r m = m\<lparr>msg_additional := msg_additional m @ [r]\<rparr>"

definition question_count :: "message \<Rightarrow> nat" where
  "question_count m = length (msg_questions m)"

definition answer_count :: "message \<Rightarrow> nat" where
  "answer_count m = length (msg_answers m)"

definition authority_count :: "message \<Rightarrow> nat" where
  "authority_count m = length (msg_authority m)"

definition additional_count :: "message \<Rightarrow> nat" where
  "additional_count m = length (msg_additional m)"

text \<open>\<^verbatim>\<open>records()\<close> chains the three record sections; \<^verbatim>\<open>records_mut()\<close> is used to update
  each record in place.\<close>

definition records :: "message \<Rightarrow> resource_record list" where
  "records m = msg_answers m @ msg_authority m @ msg_additional m"

definition update_records :: "(resource_record \<Rightarrow> resource_record) \<Rightarrow> message \<Rightarrow> message" where
  "update_records f m = m\<lparr>msg_answers := map f (msg_answers m),
     msg_authority := map f (msg_authority m), msg_additional := map f (msg_additional m)\<rparr>"

definition clear_questions :: "message \<Rightarrow> message" where
  "clear_questions m = m\<lparr>msg_questions := []\<rparr>"

definition clear_answers :: "message \<Rightarrow> message" where
  "clear_answers m = m\<lparr>msg_answers := []\<rparr>"

definition clear_authority :: "message \<Rightarrow> message" where
  "clear_authority m = m\<lparr>msg_authority := []\<rparr>"

definition clear_additional :: "message \<Rightarrow> message" where
  "clear_additional m = m\<lparr>msg_additional := []\<rparr>"

subsection \<open>Display\<close>

definition show_bool :: "bool \<Rightarrow> string" where
  "show_bool b = (if b then ''true'' else ''false'')"

fun op_code_debug :: "op_code \<Rightarrow> string" where
  "op_code_debug OP_Query = ''Query''"
| "op_code_debug OP_IQuery = ''IQuery''"
| "op_code_debug OP_Status = ''Status''"
| "op_code_debug OP_Notify = ''Notify''"
| "op_code_debug OP_Update = ''Update''"
| "op_code_debug (OP_Unknown v) = ''Unknown('' @ show_word v @ '')''"

definition ln :: "string \<Rightarrow> string" where
  "ln s = s @ [CHR 0x0A]"

definition section_fmt :: "string \<Rightarrow> ('a \<Rightarrow> string) \<Rightarrow> 'a list \<Rightarrow> string" where
  "section_fmt title f xs =
     (if xs = [] then [] else ln [] @ ln (title) @ concat (map (\<lambda>x. ln (f x)) xs))"

definition message_fmt :: "message \<Rightarrow> string" where
  "message_fmt m =
     ln '';; DNS Message''
     @ ln ('';; ID: '' @ show_word (msg_id m))
     @ ln ('';; QR: '' @ show_bool (msg_qr m) @ '' ('' @
           (if msg_qr m then ''Response'' else ''Query'') @ '')'')
     @ ln ('';; OPCODE: '' @ op_code_debug (msg_opcode m))
     @ ln ('';; RCODE: '' @ response_code_fmt (msg_rcode m))
     @ ln ('';; Flags: AA='' @ show_bool (msg_aa m) @ '' TC='' @ show_bool (msg_tc m) @
           '' RD='' @ show_bool (msg_rd m) @ '' RA='' @ show_bool (msg_ra m))
     @ ln ('';; Counts: QUESTION='' @ show_nat (question_count m) @
           '' ANSWER='' @ show_nat (answer_count m) @
           '' AUTHORITY='' @ show_nat (authority_count m) @
           '' ADDITIONAL='' @ show_nat (additional_count m))
     @ section_fmt '';; QUESTION SECTION:'' question_fmt (msg_questions m)
     @ section_fmt '';; ANSWER SECTION:'' record_fmt (msg_answers m)
     @ section_fmt '';; AUTHORITY SECTION:'' record_fmt (msg_authority m)
     @ section_fmt '';; ADDITIONAL SECTION:'' record_fmt (msg_additional m)"

section \<open>Facts\<close>

lemmas message_ops =
  set_id_def set_query_def set_response_def set_opcode_def set_authoritative_def
  set_truncated_def set_recursion_desired_def set_recursion_available_def
  set_authentic_data_def set_checking_disabled_def set_response_code_def
  add_question_def add_answer_def add_authority_def add_additional_def
  clear_questions_def clear_answers_def clear_authority_def clear_additional_def

lemma message_new_sel [simp]:
  "msg_id message_new = 0" "msg_qr message_new = False" "msg_rcode message_new = RC_NoError"
  "msg_questions message_new = []" "msg_answers message_new = []"
  "msg_authority message_new = []" "msg_additional message_new = []"
  "msg_rd message_new = True" "msg_ra message_new = False" "msg_tc message_new = False"
  "msg_opcode message_new = OP_Query"
  by (simp_all add: message_new_def)

lemma question_new_sel [simp]:
  "qname (question_new n t c) = n" "qtype (question_new n t c) = t"
  "qclass (question_new n t c) = c"
  by (simp_all add: question_new_def)

lemma set_ttl_sel [simp]:
  "rr_ttl (set_ttl t r) = t" "rr_rtype (set_ttl t r) = rr_rtype r"
  "rr_name (set_ttl t r) = rr_name r" "rr_rdata (set_ttl t r) = rr_rdata r"
  "rr_rclass (set_ttl t r) = rr_rclass r"
  by (simp_all add: set_ttl_def)

lemma set_ttl_same [simp]: "set_ttl (rr_ttl r) r = r"
  by (simp add: set_ttl_def)

lemma set_ttl_set_ttl [simp]: "set_ttl t (set_ttl u r) = set_ttl t r"
  by (simp add: set_ttl_def)

lemma set_id_sel [simp]:
  "msg_id (set_id i m) = i" "msg_questions (set_id i m) = msg_questions m"
  "msg_rcode (set_id i m) = msg_rcode m" "msg_answers (set_id i m) = msg_answers m"
  "msg_authority (set_id i m) = msg_authority m" "msg_additional (set_id i m) = msg_additional m"
  "msg_qr (set_id i m) = msg_qr m"
  by (simp_all add: set_id_def)

lemma update_records_sel [simp]:
  "msg_id (update_records f m) = msg_id m" "msg_questions (update_records f m) = msg_questions m"
  "msg_rcode (update_records f m) = msg_rcode m" "msg_qr (update_records f m) = msg_qr m"
  "records (update_records f m) = map f (records m)"
  by (simp_all add: update_records_def records_def)

lemma records_set_id [simp]: "records (set_id i m) = records m"
  by (simp add: records_def)

lemma update_records_id [simp]: "update_records (\<lambda>r. r) m = m"
  by (simp add: update_records_def)

lemma update_records_comp [simp]:
  "update_records f (update_records g m) = update_records (\<lambda>r. f (g r)) m"
  by (simp add: update_records_def o_def)

lemma fold_add_answer: "fold add_answer rs m = m\<lparr>msg_answers := msg_answers m @ rs\<rparr>"
  by (induction rs arbitrary: m) (simp_all add: add_answer_def)

lemma fold_add_authority: "fold add_authority rs m = m\<lparr>msg_authority := msg_authority m @ rs\<rparr>"
  by (induction rs arbitrary: m) (simp_all add: add_authority_def)

lemma fold_add_additional: "fold add_additional rs m = m\<lparr>msg_additional := msg_additional m @ rs\<rparr>"
  by (induction rs arbitrary: m) (simp_all add: add_additional_def)

end
