(* ===== verification/Context.thy ===== *)
theory Context
  imports Dns_Message
begin

text \<open>
  \<^verbatim>\<open>src/plugin/context.rs\<close>: the value a query carries through the plugin chain. The
  metadata map holds boxed values of any type; \<^verbatim>\<open>get_metadata::<T>\<close> downcasts, so a key
  whose value has another type reads as absent. Here a value is tagged by its Rust type and
  a typed getter answers only for its own tag.

  The registry and the handler that \<^verbatim>\<open>PluginHandler::handle\<close> stores in the metadata are
  shared references to the objects of the run; \<open>MRegistry\<close> and \<open>MHandler\<close> stand for those
  references, and the executor has the objects themselves.
\<close>

record sock_addr =
  sa_ip :: ip_addr
  sa_port :: u16

datatype meta_value =
    MBool bool
  | MString string
  | MU16 u16
  | MIp ip_addr
  | MSockAddr sock_addr
  | MInstant nat
  | MHandler string
  | MRegistry
  | MOptions "(u16 \<times> u8 list) list"
  | MEdns0 "(u16 \<times> u8 list) list"
  | MPairs "(string \<times> string) list"
  | MShared string

record ctx =
  request :: message
  response :: "message option"
  metadata :: "string \<rightharpoonup> meta_value"

definition RETURN_FLAG :: string where
  "RETURN_FLAG = ''__return_flag''"

definition context_new :: "message \<Rightarrow> ctx" where
  "context_new m = \<lparr>request = m, response = None, metadata = Map.empty\<rparr>"

definition ctx_set_response :: "message option \<Rightarrow> ctx \<Rightarrow> ctx" where
  "ctx_set_response r c = c\<lparr>response := r\<rparr>"

text \<open>\<^verbatim>\<open>response_mut\<close> gives in-place access to a response when there is one; on a shared
  \<^verbatim>\<open>Arc\<close> it copies first, so other owners keep the old value.\<close>

definition update_response :: "(message \<Rightarrow> message) \<Rightarrow> ctx \<Rightarrow> ctx" where
  "update_response f c = c\<lparr>response := map_option f (response c)\<rparr>"

definition set_refused :: "ctx \<Rightarrow> ctx" where
  "set_refused c =
     (let r = set_response_code RC_Refused
                (set_response True (set_id (msg_id (request c)) message_new))
      in ctx_set_response (Some (r\<lparr>msg_questions := msg_questions (request c)\<rparr>)) c)"

definition take_response :: "ctx \<Rightarrow> message option \<times> ctx" where
  "take_response c = (response c, c\<lparr>response := None\<rparr>)"

definition has_response :: "ctx \<Rightarrow> bool" where
  "has_response c \<longleftrightarrow> response c \<noteq> None"

definition set_metadata :: "string \<Rightarrow> meta_value \<Rightarrow> ctx \<Rightarrow> ctx" where
  "set_metadata k v c = c\<lparr>metadata := (metadata c)(k \<mapsto> v)\<rparr>"

definition get_bool :: "string \<Rightarrow> ctx \<Rightarrow> bool option" where
  "get_bool k c = (case metadata c k of Some (MBool b) \<Rightarrow> Some b | _ \<Rightarrow> None)"

definition get_string :: "string \<Rightarrow> ctx \<Rightarrow> string option" where
  "get_string k c = (case metadata c k of Some (MString s) \<Rightarrow> Some s | _ \<Rightarrow> None)"

definition get_ip :: "string \<Rightarrow> ctx \<Rightarrow> ip_addr option" where
  "get_ip k c = (case metadata c k of Some (MIp a) \<Rightarrow> Some a | _ \<Rightarrow> None)"

definition get_options :: "string \<Rightarrow> ctx \<Rightarrow> (u16 \<times> u8 list) list option" where
  "get_options k c = (case metadata c k of Some (MOptions os) \<Rightarrow> Some os | _ \<Rightarrow> None)"

definition get_handler :: "string \<Rightarrow> ctx \<Rightarrow> string option" where
  "get_handler k c = (case metadata c k of Some (MHandler e) \<Rightarrow> Some e | _ \<Rightarrow> None)"

definition get_registry :: "string \<Rightarrow> ctx \<Rightarrow> bool" where
  "get_registry k c \<longleftrightarrow> metadata c k = Some MRegistry"

definition remove_metadata :: "string \<Rightarrow> ctx \<Rightarrow> ctx" where
  "remove_metadata k c = c\<lparr>metadata := (metadata c)(k := None)\<rparr>"

definition has_metadata :: "string \<Rightarrow> ctx \<Rightarrow> bool" where
  "has_metadata k c \<longleftrightarrow> metadata c k \<noteq> None"

definition clear_metadata :: "ctx \<Rightarrow> ctx" where
  "clear_metadata c = c\<lparr>metadata := Map.empty\<rparr>"

section \<open>Facts\<close>

lemmas ctx_get_defs = get_bool_def get_string_def get_ip_def get_options_def get_handler_def
  get_registry_def has_metadata_def

lemma set_metadata_sel [simp]:
  "request (set_metadata k v c) = request c" "response (set_metadata k v c) = response c"
  "metadata (set_metadata k v c) = (metadata c)(k \<mapsto> v)"
  by (simp_all add: set_metadata_def)

lemma remove_metadata_sel [simp]:
  "request (remove_metadata k c) = request c" "response (remove_metadata k c) = response c"
  "metadata (remove_metadata k c) = (metadata c)(k := None)"
  by (simp_all add: remove_metadata_def)

lemma ctx_set_response_sel [simp]:
  "request (ctx_set_response r c) = request c" "response (ctx_set_response r c) = r"
  "metadata (ctx_set_response r c) = metadata c"
  by (simp_all add: ctx_set_response_def)

lemma update_response_sel [simp]:
  "request (update_response f c) = request c"
  "response (update_response f c) = map_option f (response c)"
  "metadata (update_response f c) = metadata c"
  by (simp_all add: update_response_def)

lemma context_new_sel [simp]:
  "request (context_new m) = m" "response (context_new m) = None"
  "metadata (context_new m) = Map.empty"
  by (simp_all add: context_new_def)

lemma get_set_response [simp]:
  "get_bool k (ctx_set_response r c) = get_bool k c"
  "get_string k (ctx_set_response r c) = get_string k c"
  "get_ip k (ctx_set_response r c) = get_ip k c"
  "has_metadata k (ctx_set_response r c) = has_metadata k c"
  "get_registry k (ctx_set_response r c) = get_registry k c"
  "get_bool k (update_response f c) = get_bool k c"
  "get_string k (update_response f c) = get_string k c"
  "has_metadata k (update_response f c) = has_metadata k c"
  by (simp_all add: ctx_get_defs)

lemma get_set_metadata [simp]:
  "get_bool k (set_metadata k (MBool b) c) = Some b"
  "get_string k (set_metadata k (MString t) c) = Some t"
  "get_ip k (set_metadata k (MIp a) c) = Some a"
  "has_metadata k (set_metadata k v c)"
  by (simp_all add: ctx_get_defs)

lemma get_set_metadata_other [simp]:
  assumes "k \<noteq> k'"
  shows "get_bool k (set_metadata k' v c) = get_bool k c"
    "get_string k (set_metadata k' v c) = get_string k c"
    "get_ip k (set_metadata k' v c) = get_ip k c"
    "get_registry k (set_metadata k' v c) = get_registry k c"
    "has_metadata k (set_metadata k' v c) = has_metadata k c"
    "get_bool k (remove_metadata k' c) = get_bool k c"
    "get_string k (remove_metadata k' c) = get_string k c"
    "get_ip k (remove_metadata k' c) = get_ip k c"
    "get_registry k (remove_metadata k' c) = get_registry k c"
    "has_metadata k (remove_metadata k' c) = has_metadata k c"
  using assms by (simp_all add: ctx_get_defs)

lemma get_remove_metadata [simp]:
  "get_bool k (remove_metadata k c) = None" "get_string k (remove_metadata k c) = None"
  "\<not> has_metadata k (remove_metadata k c)"
  by (simp_all add: ctx_get_defs)

lemma set_refused_sel [simp]:
  "request (set_refused c) = request c" "metadata (set_refused c) = metadata c"
  "\<exists>r. response (set_refused c) = Some r \<and> msg_id r = msg_id (request c) \<and> msg_qr r \<and>
     msg_rcode r = RC_Refused \<and> msg_questions r = msg_questions (request c) \<and> records r = []"
  by (simp_all add: set_refused_def Let_def records_def message_ops)

end
