(* ===== verification/Flow_Plugins.thy ===== *)
theory Flow_Plugins
  imports Context
begin

text \<open>
  The control-flow plugins of \<^verbatim>\<open>src/plugins/flow/\<close>. A plugin's \<^verbatim>\<open>execute\<close> takes the
  context and returns the error, if any, with the updated context; \<^verbatim>\<open>quick_setup\<close> builds
  the plugin from the exec string of a configuration rule.
\<close>

type_synonym exec_result = "error option \<times> ctx"

datatype flow_plugin =
    AcceptPlugin
  | ReturnPlugin
  | GotoPlugin string
  | JumpPlugin string
  | PreferIpv4Plugin
  | PreferIpv6Plugin
  | RejectPlugin u8

section \<open>Execution\<close>

definition accept_execute :: "ctx \<Rightarrow> exec_result" where
  "accept_execute c = (None, set_metadata RETURN_FLAG (MBool True) c)"

definition return_execute :: "ctx \<Rightarrow> exec_result" where
  "return_execute c = (None, set_metadata RETURN_FLAG (MBool True) c)"

definition goto_execute :: "string \<Rightarrow> ctx \<Rightarrow> exec_result" where
  "goto_execute label c =
     (None, set_metadata RETURN_FLAG (MBool True) (set_metadata ''goto_label'' (MString label) c))"

definition jump_execute :: "string \<Rightarrow> ctx \<Rightarrow> exec_result" where
  "jump_execute target c =
     (None, set_metadata RETURN_FLAG (MBool True) (set_metadata ''jump_target'' (MString target) c))"

definition retain_not_type :: "record_type \<Rightarrow> message \<Rightarrow> message" where
  "retain_not_type t m = m\<lparr>msg_answers := filter (\<lambda>r. rr_rtype r \<noteq> t) (msg_answers m),
     msg_additional := filter (\<lambda>r. rr_rtype r \<noteq> t) (msg_additional m)\<rparr>"

definition prefer_ipv4_execute :: "ctx \<Rightarrow> exec_result" where
  "prefer_ipv4_execute c = (None, update_response (retain_not_type RT_AAAA) c)"

definition prefer_ipv6_execute :: "ctx \<Rightarrow> exec_result" where
  "prefer_ipv6_execute c = (None, update_response (retain_not_type RT_A) c)"

definition reject_execute :: "u8 \<Rightarrow> ctx \<Rightarrow> exec_result" where
  "reject_execute rcode c =
     (let r = set_response True (set_response_code (response_code_from_u8 rcode)
                (set_id (msg_id (request c)) message_new));
          r = fold add_question (msg_questions (request c)) r
      in (None, set_metadata RETURN_FLAG (MBool True) (ctx_set_response (Some r) c)))"

fun flow_execute :: "flow_plugin \<Rightarrow> ctx \<Rightarrow> exec_result" where
  "flow_execute AcceptPlugin c = accept_execute c"
| "flow_execute ReturnPlugin c = return_execute c"
| "flow_execute (GotoPlugin l) c = goto_execute l c"
| "flow_execute (JumpPlugin t) c = jump_execute t c"
| "flow_execute PreferIpv4Plugin c = prefer_ipv4_execute c"
| "flow_execute PreferIpv6Plugin c = prefer_ipv6_execute c"
| "flow_execute (RejectPlugin r) c = reject_execute r c"

fun flow_name :: "flow_plugin \<Rightarrow> string" where
  "flow_name AcceptPlugin = ''accept''"
| "flow_name ReturnPlugin = ''return''"
| "flow_name (GotoPlugin _) = ''goto''"
| "flow_name (JumpPlugin _) = ''jump''"
| "flow_name PreferIpv4Plugin = ''prefer_ipv4''"
| "flow_name PreferIpv6Plugin = ''prefer_ipv6''"
| "flow_name (RejectPlugin _) = ''reject''"

section \<open>Quick setup\<close>

definition bad_prefix :: "string \<Rightarrow> string \<Rightarrow> error" where
  "bad_prefix pfx expected =
     Config (''ExecPlugin quick_setup: unsupported prefix '' @ [CHR 0x27] @ pfx @ [CHR 0x27] @
       '', expected '' @ [CHR 0x27] @ expected @ [CHR 0x27])"

definition strip_dollar :: "string \<Rightarrow> string" where
  "strip_dollar s = (case strip_prefix ''$'' s of Some r \<Rightarrow> r | None \<Rightarrow> s)"

definition accept_quick_setup :: "string \<Rightarrow> string \<Rightarrow> flow_plugin result" where
  "accept_quick_setup pfx s =
     (if pfx \<noteq> ''accept'' then Inl (bad_prefix pfx ''accept'') else Inr AcceptPlugin)"

definition return_quick_setup :: "string \<Rightarrow> string \<Rightarrow> flow_plugin result" where
  "return_quick_setup pfx s =
     (if pfx \<noteq> ''return'' then Inl (bad_prefix pfx ''return'')
      else if trim s \<noteq> [] then Inl (Config ''return exec does not take any arguments'')
      else Inr ReturnPlugin)"

definition goto_quick_setup :: "string \<Rightarrow> string \<Rightarrow> flow_plugin result" where
  "goto_quick_setup pfx s =
     (if pfx \<noteq> ''goto'' then Inl (bad_prefix pfx ''goto'')
      else let target = trim s in
        if target = [] then Inl (Config ''goto exec action requires a label argument'')
        else Inr (GotoPlugin (strip_dollar target)))"

definition jump_quick_setup :: "string \<Rightarrow> string \<Rightarrow> flow_plugin result" where
  "jump_quick_setup pfx s =
     (if pfx \<noteq> ''jump'' then Inl (bad_prefix pfx ''jump'')
      else let target = trim s in
        if target = [] then Inl (Config ''jump exec requires a target argument'')
        else Inr (JumpPlugin (strip_dollar target)))"

definition prefer_ipv4_quick_setup :: "string \<Rightarrow> string \<Rightarrow> flow_plugin result" where
  "prefer_ipv4_quick_setup pfx s =
     (if pfx \<noteq> ''prefer_ipv4'' then Inl (bad_prefix pfx ''prefer_ipv4'')
      else Inr PreferIpv4Plugin)"

definition prefer_ipv6_quick_setup :: "string \<Rightarrow> string \<Rightarrow> flow_plugin result" where
  "prefer_ipv6_quick_setup pfx s =
     (if pfx \<noteq> ''prefer_ipv6'' then Inl (bad_prefix pfx ''prefer_ipv6'')
      else Inr PreferIpv6Plugin)"

definition reject_quick_setup :: "string \<Rightarrow> string \<Rightarrow> flow_plugin result" where
  "reject_quick_setup pfx exec_str =
     (if pfx \<noteq> ''reject'' then Inl (bad_prefix pfx ''reject'')
      else let s = trim exec_str in
        if s = [] then Inr (RejectPlugin 3)
        else let lower = to_lowercase s in
          if lower = ''nxdomain'' \<or> lower = ''nx'' then Inr (RejectPlugin 3)
          else if lower = ''refused'' \<or> lower = ''ref'' then Inr (RejectPlugin 5)
          else if lower = ''servfail'' \<or> lower = ''serv'' then Inr (RejectPlugin 2)
          else case parse_u8 s of
                 Some n \<Rightarrow> Inr (RejectPlugin n)
               | None \<Rightarrow> Inl (Config (''reject exec invalid argument: '' @ exec_str)))"

section \<open>Facts\<close>

lemma fold_add_question [simp]:
  "fold add_question qs m = m\<lparr>msg_questions := msg_questions m @ qs\<rparr>"
  by (induction qs arbitrary: m) (simp_all add: add_question_def)

lemma flow_execute_ok [simp]: "fst (flow_execute p c) = None"
  by (cases p) (simp_all add: accept_execute_def return_execute_def goto_execute_def
      jump_execute_def prefer_ipv4_execute_def prefer_ipv6_execute_def reject_execute_def Let_def)

lemma flow_requests [simp]:
  "request (snd (accept_execute c)) = request c" "request (snd (return_execute c)) = request c"
  "request (snd (goto_execute l c)) = request c" "request (snd (jump_execute l c)) = request c"
  "request (snd (prefer_ipv4_execute c)) = request c"
  "request (snd (prefer_ipv6_execute c)) = request c"
  "request (snd (reject_execute v c)) = request c"
  by (simp_all add: accept_execute_def return_execute_def goto_execute_def
      jump_execute_def prefer_ipv4_execute_def prefer_ipv6_execute_def reject_execute_def Let_def)

lemma flow_execute_request [simp]: "request (snd (flow_execute p c)) = request c"
  by (cases p) simp_all

text \<open>The names the control flow communicates through are distinct keys.\<close>

lemma flow_keys_distinct [simp]:
  "RETURN_FLAG \<noteq> ''goto_label''" "RETURN_FLAG \<noteq> ''jump_target''"
  "''goto_label'' \<noteq> RETURN_FLAG" "''jump_target'' \<noteq> RETURN_FLAG"
  "RETURN_FLAG \<noteq> ''__plugin_registry''" "''__plugin_registry'' \<noteq> RETURN_FLAG"
  by (simp_all add: RETURN_FLAG_def)

lemma jump_execute_meta:
  "metadata (snd (jump_execute t c)) =
     (metadata c)(''jump_target'' \<mapsto> MString t, RETURN_FLAG \<mapsto> MBool True)"
  by (simp add: jump_execute_def)

lemma reject_execute_response:
  "\<exists>r. response (snd (reject_execute v c)) = Some r \<and> msg_id r = msg_id (request c) \<and>
     msg_qr r \<and> msg_rcode r = response_code_from_u8 v \<and>
     msg_questions r = msg_questions (request c) \<and> records r = []"
  by (simp add: reject_execute_def Let_def records_def message_ops)

end
