(* ===== verification/Pipeline.thy ===== *)
theory Pipeline
  imports Flow_Plugins "HOL-Library.AList"
begin

text \<open>
  Execution of plugins: the registry (\<^verbatim>\<open>src/plugin/registry.rs\<close>), sequences
  (\<^verbatim>\<open>executable/sequence.rs\<close>), fallbacks (\<^verbatim>\<open>executable/fallback.rs\<close>), the request types
  of \<^verbatim>\<open>src/server/handler.rs\<close> and \<^verbatim>\<open>PluginHandler::handle\<close> of \<^verbatim>\<open>src/plugin/mod.rs\<close>.

  An \<^verbatim>\<open>Arc<dyn Plugin>\<close> is an address into a heap of plugins, because fallbacks are
  resolved in place while sequences and the registry share them. A plugin other than a
  sequence or a fallback is a leaf: its \<^verbatim>\<open>execute\<close> as a function of the context and of the
  plugins' shared state \<open>'s\<close>, left abstract here and instantiated by the other components.

  Jumps and gotos make the chain a program that need not stop, so the executor carries
  fuel: \<open>None\<close> means that the fuel ran out. More fuel never changes a result; executions
  end when jumps and references descend along a rank; a sequence that jumps to itself never
  ends. Each query runs alone here: the state \<open>'s\<close> changes only through its own steps.
\<close>

section \<open>Plugins and the registry\<close>

type_synonym addr = nat

type_synonym 's outcome = "error option \<times> ctx \<times> 's"

record 's leaf =
  leaf_name :: string
  leaf_execute :: "ctx \<Rightarrow> 's \<Rightarrow> 's outcome"
  leaf_save_ips_after :: "(message \<Rightarrow> message \<Rightarrow> 's \<Rightarrow> 's) option"

datatype 's sequence_step =
    Exec addr
  | If "ctx \<Rightarrow> 's \<Rightarrow> bool" addr string

datatype 's plugin =
    Leaf "'s leaf"
  | SequencePlugin "'s sequence_step list" "string option"
  | FallbackPlugin "addr list" "string list" bool "string option"

type_synonym 's heap = "addr \<Rightarrow> 's plugin"

fun plugin_name :: "'s plugin \<Rightarrow> string" where
  "plugin_name (Leaf l) = leaf_name l"
| "plugin_name (SequencePlugin _ _) = ''sequence''"
| "plugin_name (FallbackPlugin _ _ _ _) = ''fallback''"

text \<open>The registry is a hash map; the order of the list stands for the map's iteration
  order.\<close>

type_synonym registry = "(string \<times> addr) list"

definition registry_new :: registry where
  "registry_new = []"

definition registry_get :: "registry \<Rightarrow> string \<Rightarrow> addr option" where
  "registry_get r name = map_of r name"

definition registry_contains :: "registry \<Rightarrow> string \<Rightarrow> bool" where
  "registry_contains r name \<longleftrightarrow> map_of r name \<noteq> None"

definition register_replace_with_name :: "string \<Rightarrow> addr \<Rightarrow> registry \<Rightarrow> registry" where
  "register_replace_with_name name a r = AList.update name a r"

definition register_replace :: "'s heap \<Rightarrow> addr \<Rightarrow> registry \<Rightarrow> registry" where
  "register_replace h a r = AList.update (plugin_name (h a)) a r"

definition register :: "'s heap \<Rightarrow> addr \<Rightarrow> registry \<Rightarrow> registry result" where
  "register h a r =
     (let name = plugin_name (h a) in
      if registry_contains r name
      then Inl (PluginError (''Plugin '' @ [CHR 0x27] @ name @ [CHR 0x27] @ '' is already registered''))
      else Inr (AList.update name a r))"

definition registry_remove :: "string \<Rightarrow> registry \<Rightarrow> addr option \<times> registry" where
  "registry_remove name r = (map_of r name, AList.delete name r)"

definition plugin_names :: "registry \<Rightarrow> string list" where
  "plugin_names r = map fst r"

definition registry_len :: "registry \<Rightarrow> nat" where
  "registry_len r = length r"

definition registry_clear :: "registry \<Rightarrow> registry" where
  "registry_clear r = []"

section \<open>Fallbacks\<close>

definition fallback_with_names :: "string list \<Rightarrow> 's plugin" where
  "fallback_with_names names = FallbackPlugin [] names False None"

definition should_fallback :: "bool \<Rightarrow> ctx \<Rightarrow> bool \<Rightarrow> bool" where
  "should_fallback error_only c had_error =
     (if had_error then True
      else if error_only then False
      else case response c of Some r \<Rightarrow> msg_answers r = [] | None \<Rightarrow> True)"

fun resolve_children :: "registry \<Rightarrow> 's plugin \<Rightarrow> 's plugin" where
  "resolve_children reg (FallbackPlugin resolved pending eo tag) =
     FallbackPlugin (resolved @ List.map_filter (registry_get reg) pending) [] eo tag"
| "resolve_children reg p = p"

fun step_plugin :: "'s sequence_step \<Rightarrow> addr" where
  "step_plugin (Exec a) = a"
| "step_plugin (If _ a _) = a"

definition resolve_at :: "registry \<Rightarrow> addr \<Rightarrow> 's heap \<Rightarrow> 's heap" where
  "resolve_at reg a h = h(a := resolve_children reg (h a))"

definition resolve_fallback_children :: "registry \<Rightarrow> 's sequence_step list \<Rightarrow> 's heap \<Rightarrow> 's heap" where
  "resolve_fallback_children reg steps h = fold (\<lambda>st. resolve_at reg (step_plugin st)) steps h"

definition fallback_quick_setup :: "string \<Rightarrow> string \<Rightarrow> 's plugin result" where
  "fallback_quick_setup pfx exec_str =
     (if pfx \<noteq> ''fallback'' then Inl (bad_prefix pfx ''fallback'')
      else let names = filter (\<lambda>s. s \<noteq> []) (map trim (split_on (CHR '','') exec_str)) in
        if names = [] then Inl (Config ''fallback plugin requires at least one plugin name'')
        else Inr (fallback_with_names names))"

section \<open>The executor\<close>

text \<open>\<open>and_then\<close> runs the continuation after an execution that returned \<^verbatim>\<open>Ok\<close>; an error
  and exhausted fuel stop it.\<close>

fun and_then :: "'s outcome option \<Rightarrow> (ctx \<Rightarrow> 's \<Rightarrow> 's outcome option) \<Rightarrow> 's outcome option" where
  "and_then None k = None"
| "and_then (Some (Some e, c, s)) k = Some (Some e, c, s)"
| "and_then (Some (None, c, s)) k = k c s"

lemma outcome_cases:
  obtains (Fuel) "x = None" | (Err) e c s where "x = Some (Some e, c, s)"
    | (Ok) c s where "x = Some (None, c, s)"
  by (metis not_None_eq prod_cases3)

definition restore_flag :: "bool option \<Rightarrow> ctx \<Rightarrow> ctx" where
  "restore_flag saved c =
     (case saved of Some b \<Rightarrow> set_metadata RETURN_FLAG (MBool b) c
      | None \<Rightarrow> remove_metadata RETURN_FLAG c)"

function (sequential) exec_plugin :: "'s heap \<Rightarrow> registry \<Rightarrow> nat \<Rightarrow> addr \<Rightarrow> ctx \<Rightarrow> 's \<Rightarrow> 's outcome option"
and exec_steps :: "'s heap \<Rightarrow> registry \<Rightarrow> nat \<Rightarrow> 's sequence_step list \<Rightarrow> ctx \<Rightarrow> 's \<Rightarrow> 's outcome option"
and exec_jumps :: "'s heap \<Rightarrow> registry \<Rightarrow> nat \<Rightarrow> ctx \<Rightarrow> 's \<Rightarrow> 's outcome option"
and exec_fallback :: "'s heap \<Rightarrow> registry \<Rightarrow> nat \<Rightarrow> bool \<Rightarrow> addr list \<Rightarrow> ctx \<Rightarrow> 's \<Rightarrow> 's outcome option"
where
  "exec_plugin h reg 0 a c s = None"
| "exec_plugin h reg (Suc n) a c s =
     (case h a of
        Leaf l \<Rightarrow> Some (leaf_execute l c s)
      | SequencePlugin steps tag \<Rightarrow> exec_steps h reg n steps c s
      | FallbackPlugin resolved pending eo tag \<Rightarrow> exec_fallback h reg n eo resolved c s)"
| "exec_steps h reg 0 steps c s = None"
| "exec_steps h reg (Suc n) [] c s = Some (None, c, s)"
| "exec_steps h reg (Suc n) (st # rest) c s =
     and_then
       (case st of
          Exec a \<Rightarrow> exec_plugin h reg n a c s
        | If cond a desc \<Rightarrow> (if cond c s then exec_plugin h reg n a c s else Some (None, c, s)))
       (\<lambda>c s. and_then (exec_jumps h reg n c s)
         (\<lambda>c s. if has_metadata ''goto_label'' c
                then Some (None, set_metadata RETURN_FLAG (MBool True) c, s)
                else if get_bool RETURN_FLAG c = Some True then Some (None, c, s)
                else exec_steps h reg n rest c s))"
| "exec_jumps h reg 0 c s = None"
| "exec_jumps h reg (Suc n) c s =
     (if has_metadata ''jump_target'' c then
        case get_string ''jump_target'' c of
          None \<Rightarrow> Some (None, c, s)
        | Some target \<Rightarrow>
            let c = remove_metadata RETURN_FLAG (remove_metadata ''jump_target'' c) in
            if get_registry ''__plugin_registry'' c then
              case registry_get reg target of
                Some a \<Rightarrow>
                  let saved = get_bool RETURN_FLAG c in
                  and_then (exec_plugin h reg n a c s)
                    (\<lambda>c s. exec_jumps h reg n (restore_flag saved c) s)
              | None \<Rightarrow> exec_jumps h reg n c s
            else exec_jumps h reg n c s
      else Some (None, c, s))"
| "exec_fallback h reg 0 eo ps c s = None"
| "exec_fallback h reg (Suc n) eo [] c s = Some (None, c, s)"
| "exec_fallback h reg (Suc n) eo (a # as) c s =
     (case exec_plugin h reg n a c s of
        None \<Rightarrow> None
      | Some (err, c, s) \<Rightarrow>
          if \<not> should_fallback eo c (err \<noteq> None) then Some (None, c, s)
          else exec_fallback h reg n eo as c s)"
  by pat_completeness simp_all

termination
  by (relation "measure (case_sum
        (case_sum (\<lambda>(h, reg, n, a, c, s). n) (\<lambda>(h, reg, n, st, c, s). n))
        (case_sum (\<lambda>(h, reg, n, c, s). n) (\<lambda>(h, reg, n, eo, ps, c, s). n)))")
    simp_all

section \<open>The request handler\<close>

record client_info =
  ci_addr :: sock_addr
  ci_ip :: ip_addr
  ci_port :: u16

definition client_info_from :: "sock_addr \<Rightarrow> client_info" where
  "client_info_from a = \<lparr>ci_addr = a, ci_ip = sa_ip a, ci_port = sa_port a\<rparr>"

datatype protocol = Udp | Tcp | DoH | DoT | DoQ

fun protocol_fmt :: "protocol \<Rightarrow> string" where
  "protocol_fmt Udp = ''udp''"
| "protocol_fmt Tcp = ''tcp''"
| "protocol_fmt DoH = ''doh''"
| "protocol_fmt DoT = ''dot''"
| "protocol_fmt DoQ = ''doq''"

record request_context =
  rc_message :: message
  rc_client_info :: "client_info option"
  rc_protocol :: protocol

definition request_context_new :: "message \<Rightarrow> protocol \<Rightarrow> request_context" where
  "request_context_new m p = \<lparr>rc_message = m, rc_client_info = None, rc_protocol = p\<rparr>"

definition request_context_with_client :: "message \<Rightarrow> sock_addr option \<Rightarrow> protocol \<Rightarrow> request_context" where
  "request_context_with_client m a p =
     \<lparr>rc_message = m, rc_client_info = map_option client_info_from a, rc_protocol = p\<rparr>"

definition default_handle :: "request_context \<Rightarrow> message result" where
  "default_handle rc = Inr (set_recursion_available False (set_response True (rc_message rc)))"

text \<open>The context that \<^verbatim>\<open>PluginHandler::handle\<close> prepares before it runs the entry plugin.\<close>

definition initial_context :: "string \<Rightarrow> nat \<Rightarrow> request_context \<Rightarrow> ctx" where
  "initial_context entry now rc =
     (let c = set_metadata ''request_start_time'' (MInstant now) (context_new (rc_message rc));
          c = (case rc_client_info rc of
                 None \<Rightarrow> c
               | Some ci \<Rightarrow> set_metadata ''client_port'' (MU16 (ci_port ci))
                   (set_metadata ''client_addr'' (MSockAddr (ci_addr ci))
                     (set_metadata ''client_ip'' (MIp (ci_ip ci)) c)));
          c = set_metadata ''protocol'' (MString (protocol_fmt (rc_protocol rc))) c;
          c = (if msg_id (rc_message rc) = 0xFFFF
               then set_metadata ''background_lazy_refresh'' (MBool True) c else c);
          c = set_metadata ''lazy_refresh_handler'' (MHandler entry) c;
          c = set_metadata ''lazy_refresh_entry'' (MString entry) c
      in set_metadata ''__plugin_registry'' MRegistry c)"

fun handle_gotos :: "'s heap \<Rightarrow> registry \<Rightarrow> nat \<Rightarrow> ctx \<Rightarrow> 's \<Rightarrow> 's outcome option" where
  "handle_gotos h reg 0 c s = None"
| "handle_gotos h reg (Suc n) c s =
     (if has_metadata ''goto_label'' c then
        case get_string ''goto_label'' c of
          None \<Rightarrow> Some (None, c, s)
        | Some target \<Rightarrow>
            let c = remove_metadata RETURN_FLAG (remove_metadata ''goto_label'' c) in
            (case registry_get reg target of
               Some a \<Rightarrow> and_then (exec_plugin h reg n a c s) (\<lambda>c s. handle_gotos h reg n c s)
             | None \<Rightarrow> Some (None, c, s))
      else Some (None, c, s))"

text \<open>The write phase: every registered cache runs once more; its errors are logged.\<close>

fun cache_writes :: "'s heap \<Rightarrow> registry \<Rightarrow> nat \<Rightarrow> string list \<Rightarrow> ctx \<Rightarrow> 's \<Rightarrow> (ctx \<times> 's) option" where
  "cache_writes h reg n [] c s = Some (c, s)"
| "cache_writes h reg n (name # names) c s =
     (case registry_get reg name of
        Some a \<Rightarrow>
          if plugin_name (h a) = ''cache'' then
            (case exec_plugin h reg n a c s of
               None \<Rightarrow> None
             | Some (err, c, s) \<Rightarrow> cache_writes h reg n names c s)
          else cache_writes h reg n names c s
      | None \<Rightarrow> cache_writes h reg n names c s)"

definition reverse_hook :: "'s plugin \<Rightarrow> (message \<Rightarrow> message \<Rightarrow> 's \<Rightarrow> 's) option" where
  "reverse_hook p =
     (case p of Leaf l \<Rightarrow> if leaf_name l = ''reverse_lookup'' then leaf_save_ips_after l else None
      | _ \<Rightarrow> None)"

fun reverse_saves :: "'s heap \<Rightarrow> registry \<Rightarrow> string list \<Rightarrow> message \<Rightarrow> message \<Rightarrow> 's \<Rightarrow> 's" where
  "reverse_saves h reg [] req resp s = s"
| "reverse_saves h reg (name # names) req resp s =
     reverse_saves h reg names req resp
       (case registry_get reg name of
          Some a \<Rightarrow> (case reverse_hook (h a) of Some f \<Rightarrow> f req resp s | None \<Rightarrow> s)
        | None \<Rightarrow> s)"

definition servfail_message :: message where
  "servfail_message = set_response_code RC_ServFail message_new"

definition finish_response :: "ctx \<Rightarrow> message" where
  "finish_response c =
     set_id (msg_id (request c))
       (case fst (take_response c) of Some r \<Rightarrow> r | None \<Rightarrow> servfail_message)"

definition handle :: "'s heap \<Rightarrow> registry \<Rightarrow> string \<Rightarrow> nat \<Rightarrow> nat \<Rightarrow> request_context \<Rightarrow> 's
    \<Rightarrow> (message result \<times> 's) option" where
  "handle h reg entry fuel now rc s =
     (let c = initial_context entry now rc in
      case and_then
        (case registry_get reg entry of
           Some a \<Rightarrow> exec_plugin h reg fuel a c s
         | None \<Rightarrow> Some (None, c, s))
        (\<lambda>c s. handle_gotos h reg fuel c s) of
        None \<Rightarrow> None
      | Some (Some e, c, s) \<Rightarrow> Some (Inl e, s)
      | Some (None, c, s) \<Rightarrow>
          (case (if has_response c then cache_writes h reg fuel (plugin_names reg) c s
                 else Some (c, s)) of
             None \<Rightarrow> None
           | Some (c, s) \<Rightarrow>
               let s = (case response c of
                          Some resp \<Rightarrow> reverse_saves h reg (plugin_names reg) (request c) resp s
                        | None \<Rightarrow> s)
               in Some (Inr (finish_response c), s)))"

section \<open>Fuel\<close>

text \<open>The flat order on fuel-bounded results: out of fuel, or the same result.\<close>

definition below :: "'a option \<Rightarrow> 'a option \<Rightarrow> bool" where
  "below x y \<longleftrightarrow> x = None \<or> x = y"

lemma below_refl [simp]: "below x x" and below_None [simp]: "below None x"
  by (simp_all add: below_def)

lemma below_SomeD: "below x y \<Longrightarrow> x = Some r \<Longrightarrow> y = Some r"
  by (auto simp: below_def)

lemma below_and_then:
  assumes "below x y" and "\<And>c s. below (k c s) (l c s)"
  shows "below (and_then x k) (and_then y l)"
proof (cases "(x, k)" rule: and_then.cases)
  case (3 c s k)
  with assms(1) have "y = Some (None, c, s)" by (simp add: below_def)
  with 3 assms(2) [of c s] show ?thesis by simp
qed (use assms(1) in \<open>auto simp: below_def\<close>)

lemmas exec_simps = exec_plugin.simps exec_steps.simps exec_jumps.simps exec_fallback.simps

declare exec_simps [simp del]

lemma exec_0 [simp]:
  "exec_plugin h reg 0 a c s = None" "exec_steps h reg 0 st c s = None"
  "exec_jumps h reg 0 c s = None" "exec_fallback h reg 0 eo ps c s = None"
  by (simp_all add: exec_simps)

lemma fuel_step:
  "(\<forall>a c s. below (exec_plugin h reg n a c s) (exec_plugin h reg (Suc n) a c s)) \<and>
   (\<forall>st c s. below (exec_steps h reg n st c s) (exec_steps h reg (Suc n) st c s)) \<and>
   (\<forall>c s. below (exec_jumps h reg n c s) (exec_jumps h reg (Suc n) c s)) \<and>
   (\<forall>eo ps c s. below (exec_fallback h reg n eo ps c s) (exec_fallback h reg (Suc n) eo ps c s))"
proof (induction n)
  case 0
  show ?case by simp
next
  case (Suc n)
  have p: "below (exec_plugin h reg (Suc n) a c s) (exec_plugin h reg (Suc (Suc n)) a c s)" for a c s
    using Suc by (simp add: exec_plugin.simps(2) split: plugin.split)
  have st: "below (exec_steps h reg (Suc n) st c s) (exec_steps h reg (Suc (Suc n)) st c s)" for st c s
  proof (cases st)
    case Nil
    then show ?thesis by (simp add: exec_simps)
  next
    case (Cons x xs)
    show ?thesis
      unfolding Cons exec_steps.simps(3) [of h reg _ x xs c s]
      by (intro below_and_then) (use Suc in \<open>auto split: sequence_step.split\<close>)
  qed
  have j: "below (exec_jumps h reg (Suc n) c s) (exec_jumps h reg (Suc (Suc n)) c s)" for c s
    unfolding exec_jumps.simps(2) [of h reg n c s] exec_jumps.simps(2) [of h reg "Suc n" c s]
    using Suc by (auto simp: Let_def split: option.split intro!: below_and_then)
  have f: "below (exec_fallback h reg (Suc n) eo ps c s) (exec_fallback h reg (Suc (Suc n)) eo ps c s)" for eo ps c s
  proof (cases ps)
    case Nil
    then show ?thesis by (simp add: exec_simps)
  next
    case (Cons x xs)
    have "below (exec_plugin h reg n x c s) (exec_plugin h reg (Suc n) x c s)"
      using Suc by blast
    then show ?thesis
      unfolding Cons exec_fallback.simps(3) [of h reg _ eo x xs c s] using Suc
      by (cases "exec_plugin h reg n x c s") (auto dest!: below_SomeD)
  qed
  from p st j f show ?case by blast
qed

lemma below_trans: "below x y \<Longrightarrow> below y z \<Longrightarrow> below x z"
  by (auto simp: below_def)

lemma below_add:
  assumes "\<And>n. below (f n) (f (Suc n))"
  shows "n \<le> m \<Longrightarrow> below (f n) (f (m :: nat))"
proof (induction m)
  case 0
  then show ?case by simp
next
  case (Suc m)
  then show ?case
    using assms below_trans by (cases "n = Suc m") (auto simp: le_Suc_eq)
qed

lemma below_exec:
  assumes "n \<le> m"
  shows "below (exec_plugin h reg n a c s) (exec_plugin h reg m a c s)"
    and "below (exec_steps h reg n st c s) (exec_steps h reg m st c s)"
    and "below (exec_jumps h reg n c s) (exec_jumps h reg m c s)"
    and "below (exec_fallback h reg n eo ps c s) (exec_fallback h reg m eo ps c s)"
  using fuel_step [of h reg]
  by (auto intro: below_add [OF _ assms, where f = "\<lambda>n. exec_plugin h reg n a c s"]
      below_add [OF _ assms, where f = "\<lambda>n. exec_steps h reg n st c s"]
      below_add [OF _ assms, where f = "\<lambda>n. exec_jumps h reg n c s"]
      below_add [OF _ assms, where f = "\<lambda>n. exec_fallback h reg n eo ps c s"])

section \<open>Relations kept by an execution\<close>

text \<open>
  A relation between the context before and after that is reflexive, transitive and
  indifferent to metadata carries over from the leaves to every execution.
\<close>

definition leaves_respect :: "(ctx \<Rightarrow> ctx \<Rightarrow> bool) \<Rightarrow> 's heap \<Rightarrow> bool" where
  "leaves_respect R h \<longleftrightarrow>
     (\<forall>a l c s. h a = Leaf l \<longrightarrow> R c (fst (snd (leaf_execute l c s))))"

definition ends_in :: "(ctx \<Rightarrow> bool) \<Rightarrow> 's outcome option \<Rightarrow> bool" where
  "ends_in P x \<longleftrightarrow> (case x of None \<Rightarrow> True | Some (e, c, s) \<Rightarrow> P c)"

lemma ends_in_simps [simp]: "ends_in P None" "ends_in P (Some (e, c, s)) = P c"
  by (simp_all add: ends_in_def)

lemma ends_in_and_then:
  "ends_in P x \<Longrightarrow> (\<And>c s. P c \<Longrightarrow> ends_in P (k c s)) \<Longrightarrow> ends_in P (and_then x k)"
  by (cases "(x, k)" rule: and_then.cases) auto

locale ctx_relation =
  fixes R :: "ctx \<Rightarrow> ctx \<Rightarrow> bool"
  assumes R_refl: "R c c"
    and R_trans: "R c d \<Longrightarrow> R d e \<Longrightarrow> R c e"
    and R_set: "R c d \<Longrightarrow> R c (set_metadata k v d)"
    and R_remove: "R c d \<Longrightarrow> R c (remove_metadata k d)"
begin

lemma restore: "R c d \<Longrightarrow> R c (restore_flag f d)"
  by (auto simp: restore_flag_def R_set R_remove split: option.split)

lemma exec_respects:
  assumes "leaves_respect R h"
  shows "(\<forall>a b c s. R b c \<longrightarrow> ends_in (R b) (exec_plugin h reg n a c s)) \<and>
    (\<forall>st b c s. R b c \<longrightarrow> ends_in (R b) (exec_steps h reg n st c s)) \<and>
    (\<forall>b c s. R b c \<longrightarrow> ends_in (R b) (exec_jumps h reg n c s)) \<and>
    (\<forall>eo ps b c s. R b c \<longrightarrow> ends_in (R b) (exec_fallback h reg n eo ps c s))"
proof (induction n)
  case 0
  show ?case by simp
next
  case (Suc n)
  have p: "ends_in (R b) (exec_plugin h reg (Suc n) a c s)" if "R b c" for a b c s
    using Suc that assms
    by (auto simp: exec_simps leaves_respect_def ends_in_def intro: R_trans
        split: plugin.split option.split prod.split) (metis R_trans fst_conv snd_conv)
  have st: "ends_in (R b) (exec_steps h reg (Suc n) st c s)" if "R b c" for st b c s
    using Suc that
    by (cases st) (auto simp: exec_simps R_set split: sequence_step.split
        intro!: ends_in_and_then)
  have j: "ends_in (R b) (exec_jumps h reg (Suc n) c s)" if "R b c" for b c s
    unfolding exec_jumps.simps(2) [of h reg n c s] using Suc that
    by (auto simp: Let_def R_remove restore split: option.split intro!: ends_in_and_then)
  have f: "ends_in (R b) (exec_fallback h reg (Suc n) eo ps c s)" if "R b c" for eo ps b c s
  proof (cases ps)
    case Nil
    with that show ?thesis by (simp add: exec_simps)
  next
    case (Cons x xs)
    have "ends_in (R b) (exec_plugin h reg n x c s)" using Suc that by blast
    with Cons Suc show ?thesis
      by (cases "exec_plugin h reg n x c s") (auto simp: exec_simps)
  qed
  from p st j f show ?case by blast
qed

lemma exec_plugin_respects:
  "leaves_respect R h \<Longrightarrow> R b c \<Longrightarrow> ends_in (R b) (exec_plugin h reg n a c s)"
  using exec_respects by blast

lemma gotos_respect:
  "leaves_respect R h \<Longrightarrow> R b c \<Longrightarrow> ends_in (R b) (handle_gotos h reg n c s)"
proof (induction n arbitrary: c s)
  case 0
  then show ?case by simp
next
  case (Suc n)
  then show ?case
    by (auto simp: Let_def R_remove split: option.split
        intro!: ends_in_and_then exec_plugin_respects)
qed

lemma cache_writes_respect:
  "leaves_respect R h \<Longrightarrow> R b c \<Longrightarrow> cache_writes h reg n names c s = Some (c', s') \<Longrightarrow> R b c'"
proof (induction names arbitrary: c s)
  case Nil
  then show ?case by simp
next
  case (Cons x xs)
  have "ends_in (R b) (exec_plugin h reg n a c s)" for a
    by (rule exec_plugin_respects [OF Cons.prems(1,2)])
  with Cons show ?case
    by (fastforce simp: ends_in_def split: option.splits if_splits)
qed

lemma handle_respects:
  assumes "leaves_respect R h" and "handle h reg entry fuel now rc s = Some (Inr m, s')"
  shows "\<exists>c. R (initial_context entry now rc) c \<and> m = finish_response c"
proof -
  let ?b = "initial_context entry now rc"
  let ?x = "case registry_get reg entry of Some a \<Rightarrow> exec_plugin h reg fuel a ?b s
              | None \<Rightarrow> Some (None, ?b, s)"
  let ?y = "and_then ?x (\<lambda>c s. handle_gotos h reg fuel c s)"
  have "ends_in (R ?b) ?x"
    using assms(1) by (auto simp: R_refl intro: exec_plugin_respects split: option.split)
  then have y: "ends_in (R ?b) ?y"
    using assms(1) by (auto intro!: ends_in_and_then gotos_respect)
  from assms(2) obtain c s1 where c: "?y = Some (None, c, s1)"
    by (auto simp: handle_def Let_def split: option.splits)
  with y have "R ?b c" by simp
  with assms c show ?thesis
    by (auto simp: handle_def Let_def intro: cache_writes_respect split: option.splits if_splits)
qed

end

text \<open>The requests' ids, and the requests themselves.\<close>

definition same_request_id :: "ctx \<Rightarrow> ctx \<Rightarrow> bool" where
  "same_request_id c d \<longleftrightarrow> msg_id (request d) = msg_id (request c)"

interpretation rid: ctx_relation same_request_id
  by unfold_locales (simp_all add: same_request_id_def)

lemma request_initial_context [simp]: "request (initial_context entry now rc) = rc_message rc"
  by (simp add: initial_context_def Let_def split: option.split)

lemma metadata_initial_context [simp]:
  "metadata (initial_context entry now rc) ''jump_target'' = None"
  "metadata (initial_context entry now rc) ''goto_label'' = None"
  "metadata (initial_context entry now rc) RETURN_FLAG = None"
  "metadata (initial_context entry now rc) ''__plugin_registry'' = Some MRegistry"
  "response (initial_context entry now rc) = None"
  by (simp_all add: initial_context_def Let_def RETURN_FLAG_def split: option.split)

section \<open>Termination along a rank\<close>

text \<open>
  A rank on plugins that decreases along the references of sequences and fallbacks and
  along the jumps that leaves request. \<open>jump_below\<close> bounds the pending jump of a context.
\<close>

definition jump_below :: "registry \<Rightarrow> (addr \<Rightarrow> nat) \<Rightarrow> nat \<Rightarrow> ctx \<Rightarrow> bool" where
  "jump_below reg r k c \<longleftrightarrow>
     (\<forall>t a. get_string ''jump_target'' c = Some t \<longrightarrow> registry_get reg t = Some a \<longrightarrow> r a < k)"

definition ranked :: "'s heap \<Rightarrow> registry \<Rightarrow> (addr \<Rightarrow> nat) \<Rightarrow> bool" where
  "ranked h reg r \<longleftrightarrow>
     (\<forall>a. case h a of
        Leaf l \<Rightarrow> (\<forall>c s. let c' = fst (snd (leaf_execute l c s)) in
            get_string ''jump_target'' c' = get_string ''jump_target'' c \<or>
            jump_below reg r (r a) c')
      | SequencePlugin steps tag \<Rightarrow> (\<forall>st \<in> set steps. r (step_plugin st) < r a)
      | FallbackPlugin resolved pending eo tag \<Rightarrow> (\<forall>b \<in> set resolved. r b < r a))"

lemma rankedD:
  assumes "ranked h reg r"
  shows "h a = Leaf l \<Longrightarrow> leaf_execute l c s = (e, c', s') \<Longrightarrow>
      get_string ''jump_target'' c' = get_string ''jump_target'' c \<or> jump_below reg r (r a) c'"
    and "h a = SequencePlugin steps tag \<Longrightarrow> st \<in> set steps \<Longrightarrow> r (step_plugin st) < r a"
    and "h a = FallbackPlugin resolved pending eo tag \<Longrightarrow> b \<in> set resolved \<Longrightarrow> r b < r a"
proof -
  note a = assms [unfolded ranked_def, rule_format, of a]
  show "h a = Leaf l \<Longrightarrow> leaf_execute l c s = (e, c', s') \<Longrightarrow>
      get_string ''jump_target'' c' = get_string ''jump_target'' c \<or> jump_below reg r (r a) c'"
    using a by (simp add: Let_def) (metis fst_conv snd_conv)
  show "h a = SequencePlugin steps tag \<Longrightarrow> st \<in> set steps \<Longrightarrow> r (step_plugin st) < r a"
    using a by simp
  show "h a = FallbackPlugin resolved pending eo tag \<Longrightarrow> b \<in> set resolved \<Longrightarrow> r b < r a"
    using a by simp
qed

lemma jump_below_mono: "jump_below reg r k c \<Longrightarrow> k \<le> l \<Longrightarrow> jump_below reg r l c"
  by (auto simp: jump_below_def intro: less_le_trans)

lemma jump_below_none: "get_string ''jump_target'' c = None \<Longrightarrow> jump_below reg r k c"
  by (simp add: jump_below_def)

lemma get_string_restore_flag [simp]:
  "get_string ''jump_target'' (restore_flag f c) = get_string ''jump_target'' c"
  by (simp add: restore_flag_def split: option.split)

lemma jump_below_restore_flag [simp]:
  "jump_below reg r k (restore_flag f c) = jump_below reg r k c"
  by (simp add: jump_below_def)

definition settles :: "(nat \<Rightarrow> 's outcome option) \<Rightarrow> (ctx \<Rightarrow> bool) \<Rightarrow> bool" where
  "settles f P \<longleftrightarrow> (\<exists>n e c s. f n = Some (e, c, s) \<and> P c)"

definition rising :: "(nat \<Rightarrow> 's outcome option) \<Rightarrow> bool" where
  "rising f \<longleftrightarrow> (\<forall>n m. n \<le> m \<longrightarrow> below (f n) (f m))"

lemma rising_exec [simp]:
  "rising (\<lambda>n. exec_plugin h reg n a c s)" "rising (\<lambda>n. exec_steps h reg n st c s)"
  "rising (\<lambda>n. exec_jumps h reg n c s)" "rising (\<lambda>n. exec_fallback h reg n eo ps c s)"
  by (simp_all add: rising_def below_exec)

lemma rising_const [simp]: "rising (\<lambda>n. x)"
  by (simp add: rising_def)

lemma rising_and_then:
  "rising f \<Longrightarrow> (\<And>c s. rising (\<lambda>n. k n c s)) \<Longrightarrow> rising (\<lambda>n. and_then (f n) (k n))"
  by (simp add: rising_def below_and_then)

lemma risingD: "rising f \<Longrightarrow> f n = Some x \<Longrightarrow> f (max n m) = Some x"
  "rising f \<Longrightarrow> f m = Some x \<Longrightarrow> f (max n m) = Some x"
  by (auto simp: rising_def below_def) (metis max.cobounded1 max.cobounded2 option.distinct(1))+

lemma settles_Suc: "settles (\<lambda>n. f (Suc n)) P \<Longrightarrow> settles f P"
  by (auto simp: settles_def)

lemma settles_const [simp]: "settles (\<lambda>n. Some (e, c, s)) P = P c"
  by (simp add: settles_def)

lemma settles_if [simp]:
  "settles (\<lambda>n. if b then f n else g n) P = (if b then settles f P else settles g P)"
  by simp

lemma rising_if [simp]: "rising f \<Longrightarrow> rising g \<Longrightarrow> rising (\<lambda>n. if b then f n else g n)"
  by (cases b) simp_all

lemma settles_mono: "settles f P \<Longrightarrow> (\<And>c. P c \<Longrightarrow> Q c) \<Longrightarrow> settles f Q"
  by (auto simp: settles_def)

lemma settles_and_then:
  assumes "rising f" and "\<And>c s. rising (\<lambda>n. k n c s)" and f: "settles f P"
    and k: "\<And>c s. P c \<Longrightarrow> settles (\<lambda>n. k n c s) Q" and "\<And>c. P c \<Longrightarrow> Q c"
  shows "settles (\<lambda>n. and_then (f n) (k n)) Q"
proof -
  from f obtain n e c s where n: "f n = Some (e, c, s)" "P c" by (auto simp: settles_def)
  show ?thesis
  proof (cases e)
    case None
    from k [OF n(2), of s] obtain m e' c' s' where m: "k m c s = Some (e', c', s')" "Q c'"
      by (auto simp: settles_def)
    have "f (max n m) = Some (e, c, s)" "k (max n m) c s = Some (e', c', s')"
      using risingD(1) [OF assms(1) n(1)] risingD(2) [OF assms(2) m(1)] by auto
    with None m show ?thesis by (auto simp: settles_def intro!: exI [of _ "max n m"])
  next
    case (Some x)
    with n assms(5) show ?thesis by (auto simp: settles_def intro!: exI [of _ n])
  qed
qed

text \<open>The jump loop: every jump leads to a plugin of smaller rank.\<close>

lemma jumps_settle:
  assumes IH: "\<And>d c s. r d < k \<Longrightarrow> get_string ''jump_target'' c = None \<Longrightarrow>
      settles (\<lambda>n. exec_plugin h reg n d c s) (jump_below reg r (r d))"
    and "jump_below reg r k c"
  shows "settles (\<lambda>n. exec_jumps h reg n c s) (jump_below reg r k)"
  using assms
proof (induction k arbitrary: c s rule: less_induct)
  case (less k)
  let ?c = "remove_metadata RETURN_FLAG (remove_metadata ''jump_target'' c)"
  have fin: "settles (\<lambda>n. exec_jumps h reg n d s) (jump_below reg r k)"
    if "get_string ''jump_target'' d = None" for d s
    using that
    by (intro settles_Suc [where f = "\<lambda>n. exec_jumps h reg n d s"],
        cases "has_metadata ''jump_target'' d")
      (simp_all add: exec_simps jump_below_none)
  have c: "get_string ''jump_target'' ?c = None" by simp
  show ?case
  proof (cases "get_string ''jump_target'' c")
    case None
    then show ?thesis by (rule fin)
  next
    case (Some t)
    then have has: "has_metadata ''jump_target'' c"
      by (auto simp: ctx_get_defs split: option.splits)
    show ?thesis
    proof (cases "get_registry ''__plugin_registry'' c \<and> registry_get reg t \<noteq> None")
      case False
      with fin [OF c] show ?thesis
        by (intro settles_Suc [where f = "\<lambda>n. exec_jumps h reg n c s"])
          (auto simp: exec_jumps.simps(2) [of h reg _ c s] Some has Let_def)
    next
      case True
      then obtain d where d: "registry_get reg t = Some d" by auto
      with Some less.prems(2) have rd: "r d < k" by (simp add: jump_below_def)
      have "settles (\<lambda>n. and_then (exec_plugin h reg n d ?c s)
              (\<lambda>c s. exec_jumps h reg n (restore_flag (get_bool RETURN_FLAG ?c) c) s))
              (jump_below reg r k)"
      proof (rule settles_and_then [where P = "jump_below reg r (r d)"])
        show "settles (\<lambda>n. exec_plugin h reg n d ?c s) (jump_below reg r (r d))"
          using less.prems(1) [OF rd c] .
      next
        fix c' s'
        assume "jump_below reg r (r d) c'"
        then have "settles (\<lambda>n. exec_jumps h reg n (restore_flag (get_bool RETURN_FLAG ?c) c') s')
            (jump_below reg r (r d))"
          using less.IH [OF rd] less.prems(1) rd by (meson jump_below_restore_flag order.strict_trans)
        then show "settles (\<lambda>n. exec_jumps h reg n (restore_flag (get_bool RETURN_FLAG ?c) c') s')
            (jump_below reg r k)"
          using rd by (auto elim!: settles_mono intro: jump_below_mono)
      qed (use rd in \<open>auto intro: jump_below_mono\<close>)
      with True d show ?thesis
        by (intro settles_Suc [where f = "\<lambda>n. exec_jumps h reg n c s"])
          (simp add: exec_jumps.simps(2) [of h reg _ c s] Some has)
    qed
  qed
qed


lemma step_settles:
  assumes "settles (\<lambda>n. exec_plugin h reg n (step_plugin st) c s) P" and "P c"
  shows "settles (\<lambda>n. case st of Exec a \<Rightarrow> exec_plugin h reg n a c s
     | If cond a desc \<Rightarrow> if cond c s then exec_plugin h reg n a c s else Some (None, c, s)) P"
  using assms by (cases st) (auto split: if_split)

lemma rising_step [simp]:
  "rising (\<lambda>n. case st of Exec a \<Rightarrow> exec_plugin h reg n a c s
     | If cond a desc \<Rightarrow> if cond c s then exec_plugin h reg n a c s else Some (None, c, s))"
  by (cases st) (auto split: if_split)

lemma jump_below_set_flag [simp]:
  "jump_below reg r k (set_metadata RETURN_FLAG v c) = jump_below reg r k c"
  by (simp add: jump_below_def)

lemma steps_settle:
  assumes step: "\<And>st c s. st \<in> set steps \<Longrightarrow> jump_below reg r k c \<Longrightarrow>
      settles (\<lambda>n. exec_plugin h reg n (step_plugin st) c s) (jump_below reg r k)"
    and jumps: "\<And>c s. jump_below reg r k c \<Longrightarrow>
      settles (\<lambda>n. exec_jumps h reg n c s) (jump_below reg r k)"
    and "jump_below reg r k c"
  shows "settles (\<lambda>n. exec_steps h reg n steps c s) (jump_below reg r k)"
  using assms
proof (induction steps arbitrary: c s)
  case Nil
  then show ?case
    by (intro settles_Suc [where f = "\<lambda>n. exec_steps h reg n [] c s"]) (simp add: exec_simps)
next
  case (Cons st rest)
  show ?case
  proof (rule settles_Suc, unfold exec_steps.simps(3),
      intro settles_and_then rising_and_then step_settles rising_step)
    fix c s
    assume c: "jump_below reg r k c"
    then show "settles (\<lambda>n. exec_jumps h reg n c s) (jump_below reg r k)"
      by (rule Cons.prems)
    show "settles (\<lambda>n. if has_metadata ''goto_label'' c
        then Some (None, set_metadata RETURN_FLAG (MBool True) c, s)
        else if get_bool RETURN_FLAG c = Some True then Some (None, c, s)
        else exec_steps h reg n rest c s) (jump_below reg r k)"
      using c Cons by (auto split: if_split)
  qed (use Cons.prems in \<open>auto split: if_split\<close>)
qed

lemma fallback_settles:
  assumes "\<And>a c s. a \<in> set ps \<Longrightarrow> jump_below reg r k c \<Longrightarrow>
      settles (\<lambda>n. exec_plugin h reg n a c s) (jump_below reg r k)"
    and "jump_below reg r k c"
  shows "settles (\<lambda>n. exec_fallback h reg n eo ps c s) (jump_below reg r k)"
  using assms
proof (induction ps arbitrary: c s)
  case Nil
  then show ?case
    by (intro settles_Suc [where f = "\<lambda>n. exec_fallback h reg n eo [] c s"])
      (simp add: exec_simps)
next
  case (Cons a as)
  obtain n e d t where n: "exec_plugin h reg n a c s = Some (e, d, t)" "jump_below reg r k d"
    using Cons.prems(1) [of a c s] Cons.prems(2) by (auto simp: settles_def)
  obtain m e' d' t' where m: "exec_fallback h reg m eo as d t = Some (e', d', t')"
    "jump_below reg r k d'"
    using Cons.IH [of d t] Cons.prems(1) n(2) by (auto simp: settles_def)
  have "exec_plugin h reg (max n m) a c s = Some (e, d, t)"
    "exec_fallback h reg (max n m) eo as d t = Some (e', d', t')"
    using risingD(1) [OF rising_exec(1) n(1)] risingD(2) [OF rising_exec(4) m(1)] by auto
  then show ?case
    unfolding settles_def using n m
    by (intro exI [of _ "Suc (max n m)"]) (simp add: exec_fallback.simps(3))
qed

lemma ranked_settles:
  assumes "ranked h reg r"
  shows "r a \<le> k \<Longrightarrow> jump_below reg r k c \<Longrightarrow>
    settles (\<lambda>n. exec_plugin h reg n a c s) (jump_below reg r k)"
proof (induction k arbitrary: a c s rule: less_induct)
  case (less k)
  have jumps: "settles (\<lambda>n. exec_jumps h reg n c s) (jump_below reg r k)"
    if "jump_below reg r k c" for c s
    using that less.IH by (intro jumps_settle) (auto simp: jump_below_none)
  from less.prems show ?case
  proof (induction "r a" arbitrary: a c s rule: less_induct)
    case (less a)
    note inner = less.hyps
    show ?case
    proof (rule settles_Suc, cases "h a")
      case (Leaf l)
      obtain e c' s' where o: "leaf_execute l c s = (e, c', s')" by (metis prod_cases3)
      have "get_string ''jump_target'' c' = get_string ''jump_target'' c \<or> jump_below reg r (r a) c'"
        using rankedD(1) [OF assms Leaf o] .
      then have "jump_below reg r k c'"
        using less.prems by (auto simp: jump_below_def intro: less_le_trans)
      with Leaf o show "settles (\<lambda>n. exec_plugin h reg (Suc n) a c s) (jump_below reg r k)"
        by (simp add: exec_simps)
    next
      case (SequencePlugin steps tag)
      have "settles (\<lambda>n. exec_steps h reg n steps c s) (jump_below reg r k)"
      proof (rule steps_settle [OF _ jumps less.prems(2)])
        fix st c s
        assume "st \<in> set steps" "jump_below reg r k c"
        moreover from \<open>st \<in> set steps\<close> have "r (step_plugin st) < r a"
          by (rule rankedD(2) [OF assms SequencePlugin])
        ultimately show "settles (\<lambda>n. exec_plugin h reg n (step_plugin st) c s) (jump_below reg r k)"
          using inner less.prems(1) by simp
      qed
      with SequencePlugin show "settles (\<lambda>n. exec_plugin h reg (Suc n) a c s) (jump_below reg r k)"
        by (simp add: exec_plugin.simps(2))
    next
      case (FallbackPlugin resolved pending eo tag)
      have "settles (\<lambda>n. exec_fallback h reg n eo resolved c s) (jump_below reg r k)"
      proof (rule fallback_settles [OF _ less.prems(2)])
        fix b c s
        assume "b \<in> set resolved" "jump_below reg r k c"
        moreover from \<open>b \<in> set resolved\<close> have "r b < r a"
          by (rule rankedD(3) [OF assms FallbackPlugin])
        ultimately show "settles (\<lambda>n. exec_plugin h reg n b c s) (jump_below reg r k)"
          using inner less.prems(1) by simp
      qed
      with FallbackPlugin show "settles (\<lambda>n. exec_plugin h reg (Suc n) a c s) (jump_below reg r k)"
        by (simp add: exec_plugin.simps(2))
    qed
  qed
qed


section \<open>Control flow\<close>

definition flow_leaf :: "flow_plugin \<Rightarrow> 's leaf" where
  "flow_leaf p = \<lparr>leaf_name = flow_name p,
     leaf_execute = (\<lambda>c s. case flow_execute p c of (e, c') \<Rightarrow> (e, c', s)),
     leaf_save_ips_after = None\<rparr>"

lemma flow_leaf_sel [simp]:
  "leaf_name (flow_leaf p) = flow_name p" "leaf_save_ips_after (flow_leaf p) = None"
  "leaf_execute (flow_leaf p) c s = (None, snd (flow_execute p c), s)"
  by (simp_all add: flow_leaf_def split: prod.split) (metis flow_execute_ok fst_conv)

lemma exec_flow_leaf [simp]:
  "h a = Leaf (flow_leaf p) \<Longrightarrow>
     exec_plugin h reg (Suc n) a c s = Some (None, snd (flow_execute p c), s)"
  by (simp add: exec_simps)

lemma exec_jumps_none [simp]:
  "\<not> has_metadata ''jump_target'' c \<Longrightarrow> exec_jumps h reg (Suc n) c s = Some (None, c, s)"
  by (simp add: exec_simps)

lemma exec_jumps_to:
  assumes "registry_get reg t = Some a" and "get_registry ''__plugin_registry'' c"
    and "get_string ''jump_target'' c = Some t"
  shows "exec_jumps h reg (Suc n) c s =
    and_then (exec_plugin h reg n a (remove_metadata RETURN_FLAG (remove_metadata ''jump_target'' c)) s)
      (\<lambda>c s. exec_jumps h reg n (remove_metadata RETURN_FLAG c) s)"
proof -
  have "has_metadata ''jump_target'' c"
    using assms(3) by (auto simp: ctx_get_defs split: option.splits)
  with assms show ?thesis
    by (simp add: exec_jumps.simps(2) [of h reg n c s] restore_flag_def)
qed

text \<open>What a jump step does to the caller's context before the target runs.\<close>

definition jump_entry :: "ctx \<Rightarrow> ctx" where
  "jump_entry c = remove_metadata RETURN_FLAG (remove_metadata ''jump_target'' c)"

lemma jump_entry_after_jump:
  "remove_metadata RETURN_FLAG (remove_metadata ''jump_target'' (snd (jump_execute t c))) = jump_entry c"
  by (simp add: jump_execute_def jump_entry_def remove_metadata_def set_metadata_def fun_upd_twist)

lemma jump_execute_get [simp]:
  "get_string ''jump_target'' (snd (jump_execute t c)) = Some t"
  "get_registry ''__plugin_registry'' (snd (jump_execute t c)) = get_registry ''__plugin_registry'' c"
  by (simp_all add: jump_execute_def)

lemma exec_steps_append:
  assumes "steps \<noteq> []" and "exec_steps h reg n steps c s = Some (e, c', s')"
    and "e \<noteq> None \<or> get_bool RETURN_FLAG c' = Some True"
  shows "exec_steps h reg n (steps @ rest) c s = Some (e, c', s')"
  using assms
proof (induction steps arbitrary: n c s)
  case Nil
  then show ?case by simp
next
  case (Cons st steps)
  obtain m where n: "n = Suc m" using Cons.prems(2) by (cases n) auto
  let ?x = "case st of Exec a \<Rightarrow> exec_plugin h reg m a c s
     | If cond a desc \<Rightarrow> if cond c s then exec_plugin h reg m a c s else Some (None, c, s)"
  let ?k = "\<lambda>steps c s. and_then (exec_jumps h reg m c s)
         (\<lambda>c s. if has_metadata ''goto_label'' c
                then Some (None, set_metadata RETURN_FLAG (MBool True) c, s)
                else if get_bool RETURN_FLAG c = Some True then Some (None, c, s)
                else exec_steps h reg m steps c s)"
  have eq: "exec_steps h reg n (st # zs) c s = and_then ?x (?k zs)" for zs
    by (simp add: n exec_steps.simps(3))
  have tail: "exec_steps h reg m (steps @ rest) c1 s1 = Some (e, c', s')"
    if "exec_steps h reg m steps c1 s1 = Some (e, c', s')" "get_bool RETURN_FLAG c1 \<noteq> Some True" for c1 s1
  proof (cases "steps = []")
    case True
    with that Cons.prems(3) show ?thesis by (cases m) (auto simp: exec_simps)
  next
    case False
    with that Cons show ?thesis by blast
  qed
  have k: "?k (steps @ rest) c1 s1 = Some (e, c', s')" if "?k steps c1 s1 = Some (e, c', s')" for c1 s1
    using that
    by (cases "exec_jumps h reg m c1 s1" rule: outcome_cases) (auto simp: tail split: if_splits)
  show ?case
    using Cons.prems(2) unfolding append_Cons eq
    by (cases ?x rule: outcome_cases) (auto simp: k)
qed

lemma self_jump_stuck:
  assumes "h a = SequencePlugin (Exec j # rest) tag" and "h j = Leaf (flow_leaf (JumpPlugin t))"
    and "registry_get reg t = Some a"
  shows "get_registry ''__plugin_registry'' c \<Longrightarrow> exec_plugin h reg n a c s = None"
proof (induction n arbitrary: c rule: less_induct)
  case (less n)
  show ?case
  proof (cases "n < 4")
    case True
    then have "n = 0 \<or> n = 1 \<or> n = 2 \<or> n = 3" by auto
    then show ?thesis
      using assms less.prems
      by (auto simp: numeral_eq_Suc exec_plugin.simps(2) [of h reg _ a] exec_steps.simps(3) [of h reg _ "Exec j"]
          exec_jumps_to [OF assms(3)])
  next
    case False
    then have "n = Suc (Suc (Suc (Suc (n - 4))))" by simp
    then obtain m where n: "n = Suc (Suc (Suc (Suc m)))" ..
    have "exec_plugin h reg (Suc m) a (jump_entry c) s = None"
      using less.prems by (intro less.IH) (simp_all add: n jump_entry_def)
    then show ?thesis
      unfolding n using assms less.prems
      by (simp add: exec_plugin.simps(2) [of h reg _ a] exec_steps.simps(3) [of h reg _ "Exec j"]
          exec_jumps_to [OF assms(3)] jump_entry_after_jump)
  qed
qed


section \<open>Properties\<close>

text \<open>
  A small chain used to instantiate the properties: \<^verbatim>\<open>main\<close> jumps to \<^verbatim>\<open>sub\<close>, which
  accepts, and then refuses the query; \<^verbatim>\<open>spin\<close> jumps to itself.
\<close>

definition demo_heap :: "unit heap" where
  "demo_heap a =
     (if a = 0 then SequencePlugin [Exec 1, Exec 2] (Some ''main'')
      else if a = 1 then Leaf (flow_leaf (JumpPlugin ''sub''))
      else if a = 2 then Leaf (flow_leaf (RejectPlugin 5))
      else if a = 3 then SequencePlugin [Exec 4] (Some ''sub'')
      else if a = 5 then SequencePlugin [Exec 6] (Some ''spin'')
      else if a = 6 then Leaf (flow_leaf (JumpPlugin ''spin''))
      else Leaf (flow_leaf AcceptPlugin))"

definition demo_registry :: registry where
  "demo_registry = [(''main'', 0), (''sub'', 3)]"

definition demo_query :: message where
  "demo_query = add_question (question_new ''a.example'' RT_A CL_IN) (set_id 7 message_new)"

definition demo_context :: ctx where
  "demo_context = set_metadata ''__plugin_registry'' MRegistry (context_new demo_query)"

lemma demo_heap_simps [simp]:
  "demo_heap 0 = SequencePlugin [Exec 1, Exec 2] (Some ''main'')"
  "demo_heap (Suc 0) = Leaf (flow_leaf (JumpPlugin ''sub''))"
  "demo_heap 2 = Leaf (flow_leaf (RejectPlugin 5))"
  "demo_heap 3 = SequencePlugin [Exec 4] (Some ''sub'')"
  "demo_heap 4 = Leaf (flow_leaf AcceptPlugin)"
  "demo_heap 5 = SequencePlugin [Exec 6] (Some ''spin'')"
  "demo_heap 6 = Leaf (flow_leaf (JumpPlugin ''spin''))"
  by (simp_all add: demo_heap_def)

lemma demo_registry_get [simp]:
  "registry_get demo_registry ''main'' = Some 0" "registry_get demo_registry ''sub'' = Some 3"
  by (simp_all add: registry_get_def demo_registry_def)

lemma demo_leaves_respect: "leaves_respect same_request_id demo_heap"
  by (auto simp: leaves_respect_def demo_heap_def same_request_id_def split: if_splits)

text \<open>
  C3: a response that the plugin handler returns carries the id of the request it was
  given, whatever chain of sequences, fallbacks, jumps and gotos produced it, provided no
  leaf plugin changes the id of the request in the context.
\<close>

theorem handle_response_id:
  assumes "leaves_respect same_request_id h"
    and "handle h reg entry fuel now rc s = Some (Inr m, s')"
  shows "msg_id m = msg_id (rc_message rc)"
  using rid.handle_respects [OF assms]
  by (auto simp: same_request_id_def finish_response_def)

lemma demo_handle_entry:
  "handle demo_heap [(''refuse'', 2)] ''refuse'' 1 0 (request_context_new demo_query Udp) () =
     Some (Inr (the (response (snd (reject_execute 5
       (initial_context ''refuse'' 0 (request_context_new demo_query Udp)))))), ())"
  by (simp add: handle_def registry_get_def reject_execute_def has_metadata_def plugin_names_def
      finish_response_def take_response_def request_context_new_def demo_query_def
      Let_def has_response_def
      add_question_def set_id_def set_response_def set_response_code_def reverse_hook_def
      message_new_def)

theorem handle_response_id_witness:
  "msg_id (the (response (snd (reject_execute 5
     (initial_context ''refuse'' 0 (request_context_new demo_query Udp)))))) = 7"
  using handle_response_id [OF demo_leaves_respect demo_handle_entry]
  by (simp add: request_context_new_def demo_query_def add_question_def set_id_def)

text \<open>
  The fuel of the executor is only a bound. A result that some amount of fuel gives is
  the result for every larger amount.
\<close>

theorem exec_plugin_fuel_mono:
  assumes "exec_plugin h reg n a c s = Some x" and "n \<le> m"
  shows "exec_plugin h reg m a c s = Some x"
  using below_SomeD [OF below_exec(1) [OF assms(2)] assms(1)] .

theorem exec_plugin_fuel_mono_witness:
  "exec_plugin demo_heap demo_registry 100 4 demo_context () =
     Some (None, set_metadata RETURN_FLAG (MBool True) demo_context, ())"
  by (rule exec_plugin_fuel_mono [where n = 1])
    (simp_all add: exec_plugin.simps(2) demo_heap_def accept_execute_def)

text \<open>
  C18: a chain whose references and jumps descend along a rank always comes to an end: from
  a context without a pending jump, some amount of fuel gives a result, and the same result
  for every larger amount.
\<close>

theorem ranked_chain_terminates:
  assumes "ranked h reg r" and "get_string ''jump_target'' c = None"
  shows "\<exists>n x. \<forall>m\<ge>n. exec_plugin h reg m a c s = Some x"
proof -
  obtain n e c' s' where "exec_plugin h reg n a c s = Some (e, c', s')"
    using ranked_settles [OF assms(1) order_refl jump_below_none [OF assms(2)], of a s]
    by (auto simp: settles_def)
  then show ?thesis
    by (intro exI [of _ n] exI [of _ "(e, c', s')"]) (auto intro: below_SomeD [OF below_exec(1)])
qed

definition demo_rank :: "addr \<Rightarrow> nat" where
  "demo_rank a = (if a = 0 then 3 else if a = 1 then 2 else if a = 3 then 1
     else if a = 5 then 2 else if a = 6 then 1 else 0)"

theorem ranked_chain_terminates_witness:
  "\<exists>n x. \<forall>m\<ge>n. exec_plugin demo_heap demo_registry m 0 demo_context () = Some x"
proof (rule ranked_chain_terminates [where r = demo_rank])
  show "get_string ''jump_target'' demo_context = None"
    by (simp add: demo_context_def ctx_get_defs)
  show "ranked demo_heap demo_registry demo_rank"
    by (auto simp: ranked_def demo_heap_def demo_rank_def jump_below_def demo_registry_def
        registry_get_def Let_def accept_execute_def jump_execute_def reject_execute_def
        split: if_splits)
qed

text \<open>
  Nothing detects a jump cycle. A registered sequence whose first step jumps to itself
  never ends: no amount of fuel gives a result.
\<close>

theorem self_jump_never_returns:
  assumes "h a = SequencePlugin (Exec j # rest) tag"
    and "h j = Leaf (flow_leaf (JumpPlugin t))"
    and "registry_get reg t = Some a"
    and "get_registry ''__plugin_registry'' c"
  shows "exec_plugin h reg n a c s = None"
  using self_jump_stuck [OF assms] .

theorem self_jump_never_returns_witness:
  "exec_plugin demo_heap [(''spin'', 5)] 50 5 demo_context () = None"
  by (rule self_jump_never_returns [where j = 6 and t = "''spin''" and rest = "[]"])
    (simp_all add: registry_get_def demo_context_def ctx_get_defs)

text \<open>
  A jump is a call. The target runs with the return flag cleared, and once it is done
  the calling sequence goes on with its next step with the flag cleared again, whether or
  not the target set it.
\<close>

theorem jump_calls_and_returns:
  assumes "h j = Leaf (flow_leaf (JumpPlugin t))"
    and "registry_get reg t = Some a"
    and "get_registry ''__plugin_registry'' c"
    and "exec_plugin h reg (Suc n) a (jump_entry c) s = Some (None, c', s')"
    and "\<not> has_metadata ''jump_target'' c'" and "\<not> has_metadata ''goto_label'' c'"
  shows "exec_steps h reg (Suc (Suc (Suc n))) (Exec j # rest) c s =
    exec_steps h reg (Suc (Suc n)) rest (remove_metadata RETURN_FLAG c') s'"
  using assms
  by (simp add: exec_steps.simps(3) [of h reg _ "Exec j"] exec_jumps_to [OF assms(2)]
      jump_entry_after_jump)

theorem jump_calls_and_returns_witness:
  "exec_steps demo_heap demo_registry 6 [Exec 1, Exec 2] demo_context () =
    exec_steps demo_heap demo_registry 5 [Exec 2]
      (remove_metadata RETURN_FLAG (set_metadata RETURN_FLAG (MBool True) (jump_entry demo_context))) ()"
proof -
  have "exec_plugin demo_heap demo_registry (Suc 3) 3 (jump_entry demo_context) () =
      Some (None, set_metadata RETURN_FLAG (MBool True) (jump_entry demo_context), ())"
    by (simp add: numeral_3_eq_3 numeral_2_eq_2 exec_plugin.simps(2) [of _ _ _ "Suc (Suc (Suc 0))"] exec_steps.simps(3)
        demo_heap_def accept_execute_def jump_entry_def demo_context_def ctx_get_defs)
  from jump_calls_and_returns [OF _ _ _ this, of 1 "''sub''" "[Exec 2]"] show ?thesis
    by (simp add: demo_context_def ctx_get_defs jump_entry_def numeral_eq_Suc)
qed

text \<open>
  Once a step of a sequence fails, or ends with the return flag set, the steps after it
  have no effect: the sequence ends there with the same error, context and state.
\<close>

theorem sequence_stops:
  assumes "steps \<noteq> []" and "exec_steps h reg n steps c s = Some (e, c', s')"
    and "e \<noteq> None \<or> get_bool RETURN_FLAG c' = Some True"
  shows "exec_steps h reg n (steps @ rest) c s = Some (e, c', s')"
  using exec_steps_append [OF assms] .

theorem sequence_stops_witness:
  "exec_steps demo_heap demo_registry 2 ([Exec 4] @ [Exec 2]) demo_context () =
     Some (None, set_metadata RETURN_FLAG (MBool True) demo_context, ())"
  by (rule sequence_stops)
    (simp_all add: numeral_2_eq_2 exec_steps.simps exec_plugin.simps(2) demo_heap_def
      accept_execute_def demo_context_def ctx_get_defs)

text \<open>
  When the chain ends without a response the client gets a SERVFAIL with its own id,
  but the message is not marked as a response and its question section is empty.
\<close>

theorem handle_without_response:
  assumes "registry_get reg entry = Some a" and "h a = Leaf l"
    and "leaf_execute l (initial_context entry now rc) s = (None, c, s')"
    and "response c = None" and "\<not> has_metadata ''goto_label'' c" and "request c = rc_message rc"
  shows "\<exists>m. handle h reg entry (Suc fuel) now rc s = Some (Inr m, s') \<and>
    msg_id m = msg_id (rc_message rc) \<and> msg_rcode m = RC_ServFail \<and>
    \<not> msg_qr m \<and> msg_questions m = []"
  using assms
  by (simp add: handle_def exec_plugin.simps(2) has_response_def finish_response_def
      take_response_def servfail_message_def set_response_code_def)

theorem handle_without_response_witness:
  "\<exists>m. handle demo_heap [(''ok'', 4)] ''ok'' (Suc 0) 0 (request_context_new demo_query Udp) () =
     Some (Inr m, ()) \<and> msg_id m = msg_id (rc_message (request_context_new demo_query Udp)) \<and>
     msg_rcode m = RC_ServFail \<and> \<not> msg_qr m \<and> msg_questions m = []"
  by (rule handle_without_response [where a = 4])
    (auto simp: registry_get_def demo_heap_def accept_execute_def has_metadata_def)

end
