(* ===== verification/Config_Value.thy ===== *)
theory Config_Value
  imports Prelude
begin

text \<open>
  Configuration values: the \<^verbatim>\<open>serde_yaml::Value\<close> a plugin receives and \<^verbatim>\<open>PluginConfig\<close> of
  \<^verbatim>\<open>src/config/types.rs\<close>. A YAML number is an integer or a float; the float is kept as its
  bit pattern, since no operation here computes with it. Mappings keep their order.
\<close>

datatype yaml_number = YInt int | YFloat u64

datatype yaml =
    YNull
  | YBool bool
  | YNumber yaml_number
  | YString string
  | YSequence "yaml list"
  | YMapping "(yaml \<times> yaml) list"

fun as_i64 :: "yaml_number \<Rightarrow> int option" where
  "as_i64 (YInt i) = (if - (2 ^ 63) \<le> i \<and> i < 2 ^ 63 then Some i else None)"
| "as_i64 (YFloat _) = None"

fun as_u64 :: "yaml_number \<Rightarrow> u64 option" where
  "as_u64 (YInt i) = (if 0 \<le> i \<and> i < 2 ^ 64 then Some (of_int i) else None)"
| "as_u64 (YFloat _) = None"

fun as_str :: "yaml \<Rightarrow> string option" where
  "as_str (YString s) = Some s"
| "as_str _ = None"

fun as_bool :: "yaml \<Rightarrow> bool option" where
  "as_bool (YBool b) = Some b"
| "as_bool _ = None"

text \<open>\<^verbatim>\<open>as usize\<close> on a 64-bit target.\<close>

definition i64_as_usize :: "int \<Rightarrow> nat" where
  "i64_as_usize i = nat (i mod 2 ^ 64)"

record plugin_config =
  pc_tag :: "string option"
  pc_plugin_type :: string
  pc_args :: yaml

definition effective_name :: "plugin_config \<Rightarrow> string" where
  "effective_name c = (case pc_tag c of Some t \<Rightarrow> t | None \<Rightarrow> pc_plugin_type c)"

definition with_arg :: "string \<Rightarrow> yaml \<Rightarrow> plugin_config \<Rightarrow> plugin_config" where
  "with_arg key v c =
     (case pc_args c of
        YMapping m \<Rightarrow>
          c\<lparr>pc_args := YMapping
            (if YString key \<in> fst ` set m
             then map (\<lambda>(k, w). (k, if k = YString key then v else w)) m
             else m @ [(YString key, v)])\<rparr>
      | _ \<Rightarrow> c\<lparr>pc_args := YMapping [(YString key, v)]\<rparr>)"

text \<open>\<^verbatim>\<open>effective_args\<close>: the string keys of a mapping, later ones winning.\<close>

definition effective_args :: "plugin_config \<Rightarrow> (string \<rightharpoonup> yaml)" where
  "effective_args c =
     (case pc_args c of
        YMapping m \<Rightarrow> foldl (\<lambda>acc (k, v). case k of YString key \<Rightarrow> acc(key \<mapsto> v) | _ \<Rightarrow> acc) Map.empty m
      | _ \<Rightarrow> Map.empty)"

text \<open>What the code writes as \<^verbatim>\<open>.get(key).and_then(|v| v.as_str())\<close>.\<close>

definition arg_str :: "string \<Rightarrow> (string \<rightharpoonup> yaml) \<Rightarrow> string option" where
  "arg_str key args = Option.bind (args key) as_str"

lemma effective_args_with_arg_new:
  "pc_args c = YMapping m \<Longrightarrow> YString key \<notin> fst ` set m \<Longrightarrow>
     effective_args (with_arg key v c) = (effective_args c)(key \<mapsto> v)"
  by (simp add: with_arg_def effective_args_def)

end
