(* ===== verification/Forward.thy ===== *)
theory Forward
  imports Pipeline Config_Value
begin

text \<open>
  Forwarding to upstream servers: \<^verbatim>\<open>src/plugins/forward/\<close> (\<^verbatim>\<open>types.rs\<close>, \<^verbatim>\<open>engine.rs\<close>,
  \<^verbatim>\<open>builder.rs\<close>, \<^verbatim>\<open>mod.rs\<close>).

  The network is an argument: \<open>ask\<close> gives, for the attempt and the chosen upstream, the
  time taken and the result of one query. The shared UDP socket with its table of pending
  queries is a separate state machine (\<open>mux_step\<close>), in which queries, packets from any
  source, timeouts and aborts interleave. Counters are 64-bit words with Rust's wrapping
  \<^verbatim>\<open>fetch_add\<close>.
\<close>

section \<open>Upstreams and their health\<close>

datatype load_balance_strategy = RoundRobin | Random | Fastest

record upstream_health =
  uh_queries :: u64
  uh_successes :: u64
  uh_failures :: u64
  uh_avg_us :: u64
  uh_last_success :: "nat option"

definition upstream_health_new :: upstream_health where
  "upstream_health_new =
     \<lparr>uh_queries = 0, uh_successes = 0, uh_failures = 0, uh_avg_us = 0, uh_last_success = None\<rparr>"

text \<open>Durations are nanoseconds; \<^verbatim>\<open>as_micros() as u64\<close> truncates.\<close>

definition health_record_success :: "nat \<Rightarrow> nat \<Rightarrow> upstream_health \<Rightarrow> upstream_health" where
  "health_record_success now response_time h =
     (let success_count = uh_successes h;
          new_time = of_nat (response_time div 1000) :: u64;
          avg = (if success_count = 0 then new_time
                 else (uh_avg_us h * success_count + new_time) div (success_count + 1))
      in h\<lparr>uh_queries := uh_queries h + 1, uh_successes := uh_successes h + 1,
           uh_avg_us := avg, uh_last_success := Some now\<rparr>)"

definition health_record_failure :: "upstream_health \<Rightarrow> upstream_health" where
  "health_record_failure h =
     h\<lparr>uh_queries := uh_queries h + 1, uh_failures := uh_failures h + 1\<rparr>"

definition health_counters :: "upstream_health \<Rightarrow> u64 \<times> u64 \<times> u64" where
  "health_counters h = (uh_queries h, uh_successes h, uh_failures h)"

record upstream =
  up_addr :: string
  up_tag :: "string option"
  up_health :: upstream_health

definition upstream_new :: "string \<Rightarrow> upstream" where
  "upstream_new addr = \<lparr>up_addr = addr, up_tag = None, up_health = upstream_health_new\<rparr>"

definition upstream_with_tag :: "string \<Rightarrow> string \<Rightarrow> upstream" where
  "upstream_with_tag addr tag = \<lparr>up_addr = addr, up_tag = Some tag, up_health = upstream_health_new\<rparr>"

section \<open>The engine\<close>

record forward =
  fw_upstreams :: "upstream list"
  fw_timeout :: nat
  fw_strategy :: load_balance_strategy
  fw_health_checks_enabled :: bool
  fw_max_attempts :: nat

definition forward_new :: "upstream list \<Rightarrow> nat \<Rightarrow> load_balance_strategy \<Rightarrow> forward" where
  "forward_new ups timeout strategy =
     \<lparr>fw_upstreams = ups, fw_timeout = timeout, fw_strategy = strategy,
      fw_health_checks_enabled = False, fw_max_attempts = 3\<rparr>"

definition with_health_checks :: "bool \<Rightarrow> forward \<Rightarrow> forward" where
  "with_health_checks enabled f = f\<lparr>fw_health_checks_enabled := enabled\<rparr>"

definition with_max_attempts :: "nat \<Rightarrow> forward \<Rightarrow> forward" where
  "with_max_attempts mx f = f\<lparr>fw_max_attempts := mx\<rparr>"

definition record_outcome :: "nat \<Rightarrow> nat \<Rightarrow> nat \<Rightarrow> bool \<Rightarrow> forward \<Rightarrow> forward" where
  "record_outcome now idx elapsed success f =
     (if \<not> fw_health_checks_enabled f then f
      else f\<lparr>fw_upstreams := (fw_upstreams f)[idx :=
        (let u = fw_upstreams f ! idx in
         u\<lparr>up_health := (if success then health_record_success now elapsed (up_health u)
                         else health_record_failure (up_health u))\<rparr>)]\<rparr>)"

text \<open>The scan of the \<^verbatim>\<open>Fastest\<close> strategy over the remaining upstreams.\<close>

fun fastest_from :: "nat \<Rightarrow> nat \<Rightarrow> u64 \<Rightarrow> upstream list \<Rightarrow> nat" where
  "fastest_from idx best_idx best_time [] = best_idx"
| "fastest_from idx best_idx best_time (u # us) =
     (let avg_time = uh_avg_us (up_health u) in
      if best_time = 0 then fastest_from (idx + 1) best_idx best_time us
      else if avg_time = 0 \<or> avg_time < best_time then fastest_from (idx + 1) idx avg_time us
      else fastest_from (idx + 1) best_idx best_time us)"

definition select_upstream :: "nat \<Rightarrow> nat \<Rightarrow> forward \<Rightarrow> nat option" where
  "select_upstream nanos current_idx f =
     (case fw_upstreams f of
        [] \<Rightarrow> None
      | u # us \<Rightarrow>
          (case fw_strategy f of
             RoundRobin \<Rightarrow> Some (current_idx mod length (fw_upstreams f))
           | Random \<Rightarrow> Some ((nanos mod 2 ^ 64) mod length (fw_upstreams f))
           | Fastest \<Rightarrow> Some (fastest_from 1 0 (uh_avg_us (up_health u)) us)))"

definition is_doh :: "string \<Rightarrow> bool" where
  "is_doh addr \<longleftrightarrow> starts_with ''http://'' addr \<or> starts_with ''https://'' addr"

text \<open>\<^verbatim>\<open>forward_query\<close> dispatches on the address.\<close>

definition forward_query :: "(message \<Rightarrow> string \<Rightarrow> message result) \<Rightarrow> (message \<Rightarrow> string \<Rightarrow> message result)
    \<Rightarrow> message \<Rightarrow> upstream \<Rightarrow> message result" where
  "forward_query doh udp req u =
     (if is_doh (up_addr u) then doh req (up_addr u) else udp req (up_addr u))"

section \<open>The plugin\<close>

record forward_plugin =
  fp_core :: forward
  fp_current :: u64
  fp_concurrent_queries :: bool
  fp_tag :: "string option"

definition upstream_from_entry :: "string \<Rightarrow> upstream" where
  "upstream_from_entry entry =
     (case split_once (CHR ''|'') entry of
        Some (addr, tag) \<Rightarrow> upstream_with_tag addr tag
      | None \<Rightarrow> upstream_new entry)"

definition forward_plugin_new :: "string list \<Rightarrow> forward_plugin" where
  "forward_plugin_new entries =
     \<lparr>fp_core = with_max_attempts 3 (with_health_checks False
        (forward_new (map upstream_from_entry entries) (5 * 1000000000) RoundRobin)),
      fp_current = 0, fp_concurrent_queries = False, fp_tag = None\<rparr>"

text \<open>The plugin is shared by all queries: its counter and the health records of its upstreams are
  atomics that other queries advance and update at any time. One attempt of a query therefore
  runs with a \<open>turn\<close>: the clock reading of the random strategy, how often other queries drew from
  the counter since this query's previous draw, and what they recorded of the upstreams before the
  choice and while this query waited for its upstream.\<close>

record turn =
  tn_nanos :: nat
  tn_draws :: u64
  tn_records :: "nat \<Rightarrow> upstream_health \<Rightarrow> upstream_health"
  tn_meanwhile :: "nat \<Rightarrow> upstream_health \<Rightarrow> upstream_health"

definition others_record :: "(nat \<Rightarrow> upstream_health \<Rightarrow> upstream_health) \<Rightarrow> forward \<Rightarrow> forward" where
  "others_record g f =
     f\<lparr>fw_upstreams := map (\<lambda>(i, u). u\<lparr>up_health := g i (up_health u)\<rparr>) (enumerate 0 (fw_upstreams f))\<rparr>"

definition plugin_select_upstream :: "turn \<Rightarrow> forward_plugin \<Rightarrow> nat option \<times> forward_plugin" where
  "plugin_select_upstream tn p =
     (let f = others_record (tn_records tn) (fp_core p); idx = fp_current p + tn_draws tn in
      (select_upstream (tn_nanos tn) (unat idx) f, p\<lparr>fp_core := f, fp_current := idx + 1\<rparr>))"

definition while_waiting :: "turn \<Rightarrow> forward_plugin \<Rightarrow> forward_plugin" where
  "while_waiting tn p = p\<lparr>fp_core := others_record (tn_meanwhile tn) (fp_core p)\<rparr>"

text \<open>The network of a plugin run: for every attempt the instant and duration of the query and
  its result.\<close>

type_synonym ask = "nat \<Rightarrow> nat \<Rightarrow> message \<Rightarrow> nat \<times> nat \<times> message result"

definition forward_query_with_health :: "ask \<Rightarrow> nat \<Rightarrow> message \<Rightarrow> nat \<Rightarrow> forward_plugin
    \<Rightarrow> message result \<times> forward_plugin" where
  "forward_query_with_health ask attempt req idx p =
     (case ask attempt idx req of (now, elapsed, r) \<Rightarrow>
        (r, p\<lparr>fp_core := record_outcome now idx elapsed (case r of Inr _ \<Rightarrow> True | Inl _ \<Rightarrow> False)
                 (fp_core p)\<rparr>))"

lemma record_outcome_sel [simp]:
  "length (fw_upstreams (record_outcome now idx el ok f)) = length (fw_upstreams f)"
  "fw_max_attempts (record_outcome now idx el ok f) = fw_max_attempts f"
  "fw_strategy (record_outcome now idx el ok f) = fw_strategy f"
  "fw_health_checks_enabled (record_outcome now idx el ok f) = fw_health_checks_enabled f"
  by (simp_all add: record_outcome_def)

lemma others_record_sel [simp]:
  "length (fw_upstreams (others_record g f)) = length (fw_upstreams f)"
  "fw_upstreams (others_record g f) = [] \<longleftrightarrow> fw_upstreams f = []"
  "fw_max_attempts (others_record g f) = fw_max_attempts f"
  "fw_strategy (others_record g f) = fw_strategy f"
  "fw_health_checks_enabled (others_record g f) = fw_health_checks_enabled f"
  "i < length (fw_upstreams f) \<Longrightarrow>
     up_health (fw_upstreams (others_record g f) ! i) = g i (up_health (fw_upstreams f ! i))"
  by (simp_all add: others_record_def nth_enumerate_eq enumerate_eq_zip)

function sequential_loop :: "ask \<Rightarrow> (nat \<Rightarrow> turn) \<Rightarrow> message \<Rightarrow> nat \<Rightarrow> error option \<Rightarrow> ctx \<Rightarrow> forward_plugin
    \<Rightarrow> error option \<times> ctx \<times> forward_plugin" where
  "sequential_loop ask turns req attempts last_error c p =
     (if attempts < fw_max_attempts (fp_core p) \<and> attempts < length (fw_upstreams (fp_core p)) then
        (case plugin_select_upstream (turns attempts) p of
           (None, p) \<Rightarrow> (Some (Config ''No upstream servers configured''), c, p)
         | (Some idx, p) \<Rightarrow>
             (case forward_query_with_health ask attempts req idx (while_waiting (turns attempts) p) of
                (Inr r, p) \<Rightarrow> (None, ctx_set_response (Some r) c, p)
              | (Inl e, p) \<Rightarrow> sequential_loop ask turns req (attempts + 1) (Some e) c p))
      else (Some (case last_error of Some e \<Rightarrow> e | None \<Rightarrow> Other ''All upstream servers failed''), c, p))"
  by pat_completeness auto

termination
  by (relation "measure (\<lambda>(ask, turns, req, attempts, le, c, p). fw_max_attempts (fp_core p) - attempts)")
    (auto simp: plugin_select_upstream_def while_waiting_def Let_def forward_query_with_health_def split: prod.splits)

declare sequential_loop.simps [simp del]

definition execute_sequential :: "ask \<Rightarrow> (nat \<Rightarrow> turn) \<Rightarrow> message \<Rightarrow> ctx \<Rightarrow> forward_plugin
    \<Rightarrow> error option \<times> ctx \<times> forward_plugin" where
  "execute_sequential ask turns req c p = sequential_loop ask turns req 0 None c p"

text \<open>Racing: the spawned tasks that finish, in the order in which they are joined. A task
  that was joined has recorded its outcome (\<open>None\<close>: it panicked).\<close>

type_synonym joined = "nat \<times> (nat \<times> nat \<times> message result) option"

fun race :: "joined list \<Rightarrow> error option \<Rightarrow> forward_plugin \<Rightarrow> message result \<times> forward_plugin" where
  "race [] last_error p =
     (Inl (case last_error of Some e \<Rightarrow> e | None \<Rightarrow> Other ''All concurrent queries failed''), p)"
| "race ((idx, None) # js) last_error p = race js (Some (Other ''concurrent task failed'')) p"
| "race ((idx, Some (now, elapsed, Inr r)) # js) last_error p =
     (Inr r, p\<lparr>fp_core := record_outcome now idx elapsed True (fp_core p)\<rparr>)"
| "race ((idx, Some (now, elapsed, Inl e)) # js) last_error p =
     race js (Some e) (p\<lparr>fp_core := record_outcome now idx elapsed False (fp_core p)\<rparr>)"

definition forward_execute :: "joined list \<Rightarrow> ask \<Rightarrow> (nat \<Rightarrow> turn) \<Rightarrow> ctx \<Rightarrow> forward_plugin
    \<Rightarrow> error option \<times> ctx \<times> forward_plugin" where
  "forward_execute joins ask turns c p =
     (if has_response c then (None, c, p)
      else if fp_concurrent_queries p \<and> length (fw_upstreams (fp_core p)) > 1 then
        (case race joins None p of
           (Inr r, p) \<Rightarrow> (None, ctx_set_response (Some r) c, p)
         | (Inl e, p) \<Rightarrow> execute_sequential ask turns (request c) c p)
      else execute_sequential ask turns (request c) c p)"

section \<open>Configuration\<close>

text \<open>\<^verbatim>\<open>trim_start_matches\<close> removes the pattern as often as it occurs at the start.\<close>

fun trim_start_matches :: "string \<Rightarrow> nat \<Rightarrow> string \<Rightarrow> string" where
  "trim_start_matches pat 0 s = s"
| "trim_start_matches pat (Suc n) s =
     (case strip_prefix pat s of Some r \<Rightarrow> trim_start_matches pat n r | None \<Rightarrow> s)"

definition normalize_addr :: "string \<Rightarrow> string" where
  "normalize_addr input =
     (if is_doh input then input
      else let addr = trim_start_matches ''tcp://'' (length input)
                        (trim_start_matches ''udp://'' (length input) input)
           in if CHR '':'' \<notin> set addr then addr @ '':53'' else addr)"

definition mapping_get :: "string \<Rightarrow> (yaml \<times> yaml) list \<Rightarrow> yaml option" where
  "mapping_get key m = map_of m (YString key)"

definition upstream_from_yaml :: "yaml \<Rightarrow> upstream result" where
  "upstream_from_yaml item =
     (case item of
        YString s \<Rightarrow> Inr (upstream_from_entry (normalize_addr s))
      | YMapping m \<Rightarrow>
          (case Option.bind (mapping_get ''addr'' m) as_str of
             None \<Rightarrow> Inl (Config ''upstream mapping must contain addr'')
           | Some a \<Rightarrow>
               let addr = normalize_addr a in
               (case Option.bind (mapping_get ''tag'' m) as_str of
                  Some t \<Rightarrow> Inr (upstream_with_tag addr t)
                | None \<Rightarrow> Inr (upstream_new addr)))
      | _ \<Rightarrow> Inl (Config ''upstreams must be array of strings or mappings''))"

fun upstreams_from_yaml :: "yaml list \<Rightarrow> upstream list result" where
  "upstreams_from_yaml [] = Inr []"
| "upstreams_from_yaml (y # ys) =
     (case upstream_from_yaml y of
        Inl e \<Rightarrow> Inl e
      | Inr u \<Rightarrow> (case upstreams_from_yaml ys of Inl e \<Rightarrow> Inl e | Inr us \<Rightarrow> Inr (u # us)))"

definition forward_from_args :: "bool \<Rightarrow> (string \<rightharpoonup> yaml) \<Rightarrow> forward result" where
  "forward_from_args default_health_checks args =
     (case args ''upstreams'' of
        None \<Rightarrow> Inl (Config ''upstreams is required for forward plugin'')
      | Some (YSequence ys) \<Rightarrow>
          (case upstreams_from_yaml ys of
             Inl e \<Rightarrow> Inl e
           | Inr ups \<Rightarrow>
               (case (case args ''timeout'' of
                        Some (YNumber n) \<Rightarrow>
                          (case as_i64 n of None \<Rightarrow> Inl (Config ''Invalid timeout value'')
                           | Some secs \<Rightarrow> Inr (i64_as_usize secs * 1000000000))
                      | _ \<Rightarrow> Inr (5 * 1000000000)) of
                  Inl e \<Rightarrow> Inl e
                | Inr timeout \<Rightarrow>
                    (case (case args ''strategy'' of
                             Some (YString s) \<Rightarrow>
                               if s = ''round_robin'' \<or> s = ''roundrobin'' then Inr RoundRobin
                               else if s = ''random'' then Inr Random
                               else if s = ''fastest'' then Inr Fastest
                               else Inl (Config (''Unknown strategy: '' @ s))
                           | _ \<Rightarrow> Inr RoundRobin) of
                       Inl e \<Rightarrow> Inl e
                     | Inr strategy \<Rightarrow>
                         let hc = (case args ''health_checks'' of
                                     Some (YBool b) \<Rightarrow> b | _ \<Rightarrow> default_health_checks) in
                         (case (case args ''max_attempts'' of
                                  Some (YNumber n) \<Rightarrow>
                                    (case as_i64 n of None \<Rightarrow> Inl (Config ''Invalid max_attempts value'')
                                     | Some i \<Rightarrow> Inr (i64_as_usize i))
                                | _ \<Rightarrow> Inr 3) of
                            Inl e \<Rightarrow> Inl e
                          | Inr mx \<Rightarrow> Inr (with_max_attempts mx (with_health_checks hc
                              (forward_new ups timeout strategy)))))))
      | Some _ \<Rightarrow> Inl (Config ''upstreams must be an array''))"

definition forward_init :: "bool \<Rightarrow> plugin_config \<Rightarrow> forward_plugin result" where
  "forward_init default_health_checks config =
     (let args = effective_args config in
      case forward_from_args default_health_checks args of
        Inl e \<Rightarrow> Inl e
      | Inr core \<Rightarrow>
          Inr \<lparr>fp_core = core, fp_current = 0,
               fp_concurrent_queries =
                 (case args ''concurrent'' of
                    Some (YNumber n) \<Rightarrow> (case as_i64 n of Some i \<Rightarrow> i > 1 | None \<Rightarrow> False)
                  | _ \<Rightarrow> False),
               fp_tag = pc_tag config\<rparr>)"

section \<open>The shared UDP socket\<close>

record mux =
  mx_pending :: "u16 \<rightharpoonup> sock_addr \<times> nat"
  mx_next_qid :: u16

definition mux_new :: mux where
  "mux_new = \<lparr>mx_pending = Map.empty, mx_next_qid = 1\<rparr>"

definition remap_request :: "u16 \<Rightarrow> u8 list \<Rightarrow> u8 list" where
  "remap_request qid data = data[0 := ucast (drop_bit 8 qid), 1 := ucast (qid AND 0xFF)]"

text \<open>One packet in \<^verbatim>\<open>read_loop\<close>: the waiter that gets the response, if any.\<close>

definition receive_packet :: "sock_addr \<Rightarrow> message \<Rightarrow> mux \<Rightarrow> nat option \<times> mux" where
  "receive_packet addr r m =
     (case mx_pending m (msg_id r) of
        Some (peer, w) \<Rightarrow>
          if addr = peer then (Some w, m\<lparr>mx_pending := (mx_pending m)(msg_id r := None)\<rparr>) else (None, m)
      | None \<Rightarrow> (None, m))"

definition pending_guard_drop :: "u16 \<Rightarrow> mux \<Rightarrow> mux" where
  "pending_guard_drop qid m = m\<lparr>mx_pending := (mx_pending m)(qid := None)\<rparr>"

text \<open>Where a task is in the loop that allocates its qid: about to draw from the counter, about to
  look a drawn qid up in the table, or out of the loop with its qid. The draw
  (\<^verbatim>\<open>fetch_add\<close>), the lookup (\<^verbatim>\<open>contains_key\<close>) and the later insertion are separate atomic
  operations; other tasks run between any two of them.\<close>

datatype qid_loop = Drawing | Drawn u16 | Assigned u16

text \<open>A query's qid, upstream and original id; what its channel received and from where.\<close>

record mux_system =
  ms_mux :: mux
  ms_loop :: "nat \<rightharpoonup> qid_loop"
  ms_query :: "nat \<rightharpoonup> u16 \<times> sock_addr \<times> u16"
  ms_active :: "nat set"
  ms_received :: "nat \<rightharpoonup> sock_addr \<times> message"

definition mux_system_new :: mux_system where
  "mux_system_new = \<lparr>ms_mux = mux_new, ms_loop = Map.empty, ms_query = Map.empty, ms_active = {},
     ms_received = Map.empty\<rparr>"

definition enter_loop :: "nat \<Rightarrow> mux_system \<Rightarrow> mux_system" where
  "enter_loop w s = s\<lparr>ms_loop := (ms_loop s)(w \<mapsto> Drawing)\<rparr>"

definition fetch_qid :: "nat \<Rightarrow> mux_system \<Rightarrow> mux_system" where
  "fetch_qid w s =
     (let qid = mx_next_qid (ms_mux s) in
      s\<lparr>ms_mux := (ms_mux s)\<lparr>mx_next_qid := qid + 1\<rparr>, ms_loop := (ms_loop s)(w \<mapsto> Drawn qid)\<rparr>)"

definition check_qid :: "nat \<Rightarrow> u16 \<Rightarrow> mux_system \<Rightarrow> mux_system" where
  "check_qid w qid s =
     s\<lparr>ms_loop := (ms_loop s)(w \<mapsto>
        if qid \<noteq> 0 \<and> mx_pending (ms_mux s) qid = None then Assigned qid else Drawing)\<rparr>"

definition start_query :: "nat \<Rightarrow> sock_addr \<Rightarrow> u16 \<Rightarrow> u16 \<Rightarrow> mux_system \<Rightarrow> mux_system" where
  "start_query w peer original qid s =
     s\<lparr>ms_mux := (ms_mux s)\<lparr>mx_pending := (mx_pending (ms_mux s))(qid \<mapsto> (peer, w))\<rparr>,
       ms_loop := (ms_loop s)(w := None),
       ms_query := (ms_query s)(w \<mapsto> (qid, peer, original)), ms_active := insert w (ms_active s)\<rparr>"

definition packet :: "sock_addr \<Rightarrow> message \<Rightarrow> mux_system \<Rightarrow> mux_system" where
  "packet addr r s =
     (case receive_packet addr r (ms_mux s) of
        (None, m) \<Rightarrow> s\<lparr>ms_mux := m\<rparr>
      | (Some w, m) \<Rightarrow>
          s\<lparr>ms_mux := m, ms_received :=
            (if w \<in> ms_active s then (ms_received s)(w \<mapsto> (addr, r)) else ms_received s)\<rparr>)"

text \<open>The end of a query: answered, timed out or aborted; its guard is dropped.\<close>

definition end_query :: "nat \<Rightarrow> mux_system \<Rightarrow> mux_system" where
  "end_query w s =
     (case ms_query s w of
        Some (qid, _, _) \<Rightarrow>
          s\<lparr>ms_mux := pending_guard_drop qid (ms_mux s), ms_active := ms_active s - {w}\<rparr>
      | None \<Rightarrow> s)"

inductive mux_step :: "mux_system \<Rightarrow> mux_system \<Rightarrow> bool" where
  enter: "ms_loop s w = None \<Longrightarrow> ms_query s w = None \<Longrightarrow> mux_step s (enter_loop w s)"
| fetch: "ms_loop s w = Some Drawing \<Longrightarrow> mux_step s (fetch_qid w s)"
| check: "ms_loop s w = Some (Drawn qid) \<Longrightarrow> mux_step s (check_qid w qid s)"
| start: "ms_loop s w = Some (Assigned qid) \<Longrightarrow> ms_query s w = None \<Longrightarrow>
     mux_step s (start_query w peer original qid s)"
| packet: "mux_step s (packet addr r s)"
| finish: "w \<in> ms_active s \<Longrightarrow> mux_step s (end_query w s)"

text \<open>A stretch of a run in which every state satisfies \<open>P\<close>, with the draws all tasks made in it:
  which task drew which qid. Only a draw moves the counter.\<close>

inductive mux_run :: "(mux_system \<Rightarrow> bool) \<Rightarrow> (nat \<times> u16) list \<Rightarrow> mux_system \<Rightarrow> mux_system \<Rightarrow> bool"
  for P :: "mux_system \<Rightarrow> bool" where
  here: "P s \<Longrightarrow> mux_run P [] s s"
| draw: "mux_run P ds s t \<Longrightarrow> ms_loop t w = Some Drawing \<Longrightarrow> P (fetch_qid w t) \<Longrightarrow>
     mux_run P (ds @ [(w, mx_next_qid (ms_mux t))]) s (fetch_qid w t)"
| other: "mux_run P ds s t \<Longrightarrow> mux_step t u \<Longrightarrow> mx_next_qid (ms_mux u) = mx_next_qid (ms_mux t) \<Longrightarrow> P u \<Longrightarrow>
     mux_run P ds s u"

text \<open>What \<^verbatim>\<open>forward_query_udp\<close> returns for a query whose channel has a message.\<close>

definition query_answer :: "mux_system \<Rightarrow> nat \<Rightarrow> message option" where
  "query_answer s w =
     (case (ms_received s w, ms_query s w) of
        (Some (_, r), Some (_, _, original)) \<Rightarrow> Some (set_id original r)
      | _ \<Rightarrow> None)"

section \<open>Facts\<close>

lemma loop_ops_sel [simp]:
  "ms_mux (enter_loop w s) = ms_mux s" "ms_query (enter_loop w s) = ms_query s"
  "ms_received (enter_loop w s) = ms_received s"
  "mx_pending (ms_mux (fetch_qid w s)) = mx_pending (ms_mux s)" "ms_query (fetch_qid w s) = ms_query s"
  "ms_received (fetch_qid w s) = ms_received s"
  "ms_mux (check_qid w q s) = ms_mux s" "ms_query (check_qid w q s) = ms_query s"
  "ms_received (check_qid w q s) = ms_received s"
  by (simp_all add: enter_loop_def fetch_qid_def check_qid_def Let_def)

text \<open>Only the task itself moves in its loop, and the counter moves only by a draw.\<close>

lemma fetch_qid_sel [simp]:
  "mx_next_qid (ms_mux (fetch_qid w s)) = mx_next_qid (ms_mux s) + 1"
  "ms_loop (fetch_qid w s) = (ms_loop s)(w \<mapsto> Drawn (mx_next_qid (ms_mux s)))"
  by (simp_all add: fetch_qid_def Let_def)

lemma mux_other_sel [simp]:
  "ms_loop (packet addr r s) = ms_loop s" "ms_loop (end_query w s) = ms_loop s"
  "ms_loop (enter_loop w s) = (ms_loop s)(w \<mapsto> Drawing)"
  "ms_loop (check_qid w q s) = (ms_loop s)(w \<mapsto>
     if q \<noteq> 0 \<and> mx_pending (ms_mux s) q = None then Assigned q else Drawing)"
  "ms_loop (start_query w p orig q s) = (ms_loop s)(w := None)"
  by (simp_all add: packet_def end_query_def enter_loop_def check_qid_def start_query_def
      split: option.split prod.split)

lemma mux_run_steps: "mux_run P ds s t \<Longrightarrow> mux_step\<^sup>*\<^sup>* s t"
  by (induction rule: mux_run.induct) (auto intro: rtranclp.rtrancl_into_rtrancl mux_step.fetch)

lemma mux_run_holds: "mux_run P ds s t \<Longrightarrow> P t"
  by (erule mux_run.cases) simp_all

text \<open>The draws of all tasks together walk through the ids one after the other.\<close>

lemma mux_run_draws:
  "mux_run P ds s t \<Longrightarrow>
     map snd ds = map (\<lambda>k. mx_next_qid (ms_mux s) + of_nat k) [0..<length ds] \<and>
     mx_next_qid (ms_mux t) = mx_next_qid (ms_mux s) + of_nat (length ds)"
  by (induction rule: mux_run.induct) (simp_all add: add.assoc)

lemma mux_run_draws_all:
  assumes "mux_run P ds s t" and "65536 \<le> length ds"
  shows "q \<in> snd ` set ds"
proof -
  let ?k = "unat (q - mx_next_qid (ms_mux s))"
  have "?k < 2 ^ LENGTH(16)" by (rule unsigned_less)
  then have k: "?k \<in> set [0..<length ds]" using assms(2) by simp
  have "mx_next_qid (ms_mux s) + of_nat ?k = q" by simp
  with k have "q \<in> set (map (\<lambda>k. mx_next_qid (ms_mux s) + of_nat k) [0..<length ds])"
    by (metis (no_types, lifting) image_eqI list.set_map)
  then show ?thesis using mux_run_draws [OF assms(1)] by (metis list.set_map)
qed

text \<open>While a non-zero id stays out of the table, a task that drew it still holds it.\<close>

definition holds_qid :: "u16 \<Rightarrow> mux_system \<Rightarrow> nat \<Rightarrow> bool" where
  "holds_qid q s w \<longleftrightarrow> ms_loop s w = Some (Drawn q) \<or> ms_loop s w = Some (Assigned q)"

lemma mux_step_holds:
  assumes "mux_step s s'" and "q \<noteq> 0" and "mx_pending (ms_mux s) q = None"
    and "mx_pending (ms_mux s') q = None" and "holds_qid q s w"
  shows "holds_qid q s' w"
  using assms by cases (auto simp: holds_qid_def start_query_def)

lemma mux_run_holds_qid:
  assumes "mux_run (\<lambda>t. mx_pending (ms_mux t) q = None) ds s t" and "q \<noteq> 0" and "(w, q) \<in> set ds"
  shows "holds_qid q t w"
  using assms
proof (induction rule: mux_run.induct)
  case (draw ds s t v)
  then have "holds_qid q (fetch_qid v t) w" if "(w, q) \<in> set ds"
    using that mux_run_holds [OF draw.hyps(1)]
    by (intro mux_step_holds [OF mux_step.fetch [OF draw.hyps(2)]]) simp_all
  then show ?case using draw.prems(2) by (auto simp: holds_qid_def)
next
  case (other ds s t u)
  then show ?case using mux_run_holds [OF other.hyps(1)] mux_step_holds [OF other.hyps(2)] by blast
qed simp

lemma mux_run_full:
  assumes "mux_run (\<lambda>t. \<forall>q. q \<noteq> 0 \<longrightarrow> mx_pending (ms_mux t) q \<noteq> None) ds s t"
    and "ms_loop t w = Some (Assigned q)"
  shows "ms_loop s w = Some (Assigned q)"
  using assms
proof (induction rule: mux_run.induct)
  case (draw ds s t v)
  then show ?case by (auto split: if_splits)
next
  case (other ds s t u)
  note full = mux_run_holds [OF other.hyps(1)]
  from other.hyps(2) have "ms_loop t w = Some (Assigned q)"
    using other.prems full by cases (auto split: if_splits)
  then show ?case by (rule other.IH)
qed simp

definition mux_inv :: "mux_system \<Rightarrow> bool" where
  "mux_inv s \<longleftrightarrow>
     (\<forall>q p w. mx_pending (ms_mux s) q = Some (p, w) \<longrightarrow> (\<exists>original. ms_query s w = Some (q, p, original))) \<and>
     (\<forall>w a r. ms_received s w = Some (a, r) \<longrightarrow> (\<exists>original. ms_query s w = Some (msg_id r, a, original)))"

lemma mux_step_inv:
  assumes "mux_step s s'" and "mux_inv s"
  shows "mux_inv s'"
  using assms
proof cases
  case (start w qid peer original)
  show ?thesis
    using assms(2) start(3) unfolding start(1) mux_inv_def start_query_def
    by simp (metis option.distinct(1))
next
  case (packet addr r)
  then show ?thesis
    using assms(2)
    by (auto simp: mux_inv_def packet_def receive_packet_def split: option.splits if_splits prod.splits)
next
  case (finish w)
  then show ?thesis
    using assms(2)
    by (auto simp: mux_inv_def end_query_def pending_guard_drop_def split: option.splits)
qed (use assms(2) in \<open>simp_all add: mux_inv_def\<close>)

lemma mux_reachable_inv: "mux_step\<^sup>*\<^sup>* mux_system_new s \<Longrightarrow> mux_inv s"
proof (induction rule: rtranclp_induct)
  case base
  then show ?case by (simp add: mux_inv_def mux_system_new_def mux_new_def)
next
  case (step s s')
  then show ?case using mux_step_inv by blast
qed

lemma fastest_from_range: "fastest_from idx best t us = best \<or> fastest_from idx best t us < idx + length us"
proof (induction us arbitrary: idx best t)
  case Nil
  then show ?case by simp
next
  case (Cons u us)
  show ?case
    using Cons [of "idx + 1" best t] Cons [of "idx + 1" idx "uh_avg_us (up_health u)"]
    by (auto simp: Let_def)
qed

lemma fastest_from_zero [simp]: "fastest_from idx best 0 us = best"
  by (induction us arbitrary: idx) (simp_all add: Let_def)

lemma select_upstream_range:
  "select_upstream nanos i f = Some j \<Longrightarrow> j < length (fw_upstreams f)"
proof (cases "fw_upstreams f")
  case (Cons u us)
  then show "select_upstream nanos i f = Some j \<Longrightarrow> j < length (fw_upstreams f)"
    using fastest_from_range [of 1 0 "uh_avg_us (up_health u)" us]
    by (auto simp: select_upstream_def split: load_balance_strategy.splits)
qed (simp add: select_upstream_def)

lemma select_upstream_None: "select_upstream nanos i f = None \<longleftrightarrow> fw_upstreams f = []"
  by (auto simp: select_upstream_def split: list.splits load_balance_strategy.splits)


lemma plugin_select_facts:
  "fst (plugin_select_upstream tn p) =
     select_upstream (tn_nanos tn) (unat (fp_current p + tn_draws tn)) (others_record (tn_records tn) (fp_core p))"
  "fp_core (snd (plugin_select_upstream tn p)) = others_record (tn_records tn) (fp_core p)"
  "fp_current (snd (plugin_select_upstream tn p)) = fp_current p + tn_draws tn + 1"
  "fp_core (while_waiting tn p) = others_record (tn_meanwhile tn) (fp_core p)"
  "fp_current (while_waiting tn p) = fp_current p"
  by (simp_all add: plugin_select_upstream_def while_waiting_def Let_def)

lemma query_with_health_facts:
  "fst (forward_query_with_health ask a req i p) = snd (snd (ask a i req))"
  "fp_current (snd (forward_query_with_health ask a req i p)) = fp_current p"
  "length (fw_upstreams (fp_core (snd (forward_query_with_health ask a req i p)))) =
     length (fw_upstreams (fp_core p))"
  "fw_strategy (fp_core (snd (forward_query_with_health ask a req i p))) = fw_strategy (fp_core p)"
  "fw_max_attempts (fp_core (snd (forward_query_with_health ask a req i p))) = fw_max_attempts (fp_core p)"
  by (simp_all add: forward_query_with_health_def split: prod.split)

text \<open>One turn of the loop: the upstream it asks, the plugin after it and what it does with the
  result.\<close>

definition after_attempt :: "ask \<Rightarrow> turn \<Rightarrow> message \<Rightarrow> nat \<Rightarrow> nat \<Rightarrow> forward_plugin \<Rightarrow> forward_plugin" where
  "after_attempt ask tn req attempts idx p =
     snd (forward_query_with_health ask attempts req idx (while_waiting tn (snd (plugin_select_upstream tn p))))"

lemma after_attempt_sel [simp]:
  "fp_current (after_attempt ask tn req a i p) = fp_current p + tn_draws tn + 1"
  "length (fw_upstreams (fp_core (after_attempt ask tn req a i p))) = length (fw_upstreams (fp_core p))"
  "fw_strategy (fp_core (after_attempt ask tn req a i p)) = fw_strategy (fp_core p)"
  "fw_max_attempts (fp_core (after_attempt ask tn req a i p)) = fw_max_attempts (fp_core p)"
  by (simp_all add: after_attempt_def query_with_health_facts plugin_select_facts)

lemma sequential_loop_step:
  assumes "attempts < fw_max_attempts (fp_core p)" and "attempts < length (fw_upstreams (fp_core p))"
    and "fst (plugin_select_upstream (turns attempts) p) = Some idx"
  shows "sequential_loop ask turns req attempts le c p =
    (let q = after_attempt ask (turns attempts) req attempts idx p
     in case snd (snd (ask attempts idx req)) of
          Inr r \<Rightarrow> (None, ctx_set_response (Some r) c, q)
        | Inl e \<Rightarrow> sequential_loop ask turns req (attempts + 1) (Some e) c q)"
proof -
  obtain p1 where p1: "plugin_select_upstream (turns attempts) p = (Some idx, p1)"
    using assms(3) by (metis prod.collapse)
  obtain r q where q: "forward_query_with_health ask attempts req idx (while_waiting (turns attempts) p1) = (r, q)"
    by fastforce
  have "snd (snd (ask attempts idx req)) = r"
    using query_with_health_facts(1) [of ask attempts req idx "while_waiting (turns attempts) p1"] q by simp
  with assms(1,2) p1 q show ?thesis
    by (subst sequential_loop.simps) (simp add: after_attempt_def split: sum.split)
qed

lemma round_robin_choice:
  assumes "fw_strategy (fp_core p) = RoundRobin" and "fw_upstreams (fp_core p) \<noteq> []"
  shows "fst (plugin_select_upstream tn p) =
    Some (unat (fp_current p + tn_draws tn) mod length (fw_upstreams (fp_core p)))"
proof -
  have "fw_upstreams (others_record (tn_records tn) (fp_core p)) \<noteq> []" using assms(2) by simp
  then obtain u us where u: "fw_upstreams (others_record (tn_records tn) (fp_core p)) = u # us"
    by (meson neq_Nil_conv)
  then have "length (fw_upstreams (fp_core p)) = Suc (length us)"
    by (metis length_Cons others_record_sel(1))
  with u assms(1) show ?thesis by (simp add: plugin_select_facts select_upstream_def)
qed

lemma round_robin_reaches:
  assumes "fw_strategy (fp_core p) = RoundRobin" and "length (fw_upstreams (fp_core p)) = n"
    and "\<And>a. \<exists>r. snd (snd (ask a i req)) = Inr r" and "\<And>a. tn_draws (turns a) = 0"
    and "attempts + k < n" and "n \<le> fw_max_attempts (fp_core p)"
    and "unat (fp_current p) + k < 2 ^ 64" and "(unat (fp_current p) + k) mod n = i"
  shows "\<exists>r. fst (sequential_loop ask turns req attempts le c p) = None \<and>
    response (fst (snd (sequential_loop ask turns req attempts le c p))) = Some r"
  using assms(1,2,5-8)
proof (induction k arbitrary: attempts le p)
  case (0 attempts le p)
  then have sel: "fst (plugin_select_upstream (turns attempts) p) = Some i"
    using round_robin_choice [of p "turns attempts"] assms(4) by fastforce
  obtain r where "snd (snd (ask attempts i req)) = Inr r" using assms(3) by blast
  with sequential_loop_step [where turns = turns and attempts = attempts and p = p, OF _ _ sel, of ask req le c] "0.prems" show ?case
    by (simp add: Let_def)
next
  case (Suc k attempts le p)
  define j where "j = unat (fp_current p) mod n"
  have sel: "fst (plugin_select_upstream (turns attempts) p) = Some j"
    using Suc.prems round_robin_choice [of p "turns attempts"] assms(4) by (fastforce simp: j_def)
  let ?q = "after_attempt ask (turns attempts) req attempts j p"
  have cur: "unat (fp_current ?q) = unat (fp_current p) + 1"
    using Suc.prems(5) by (simp add: assms(4) unat_word_ariths)
  note step = sequential_loop_step [where turns = turns and attempts = attempts and p = p, OF _ _ sel, of ask req le c]
  show ?case
  proof (cases "snd (snd (ask attempts j req))")
    case (Inr r)
    with step Suc.prems show ?thesis by (simp add: Let_def)
  next
    case (Inl e)
    have "\<exists>r. fst (sequential_loop ask turns req (attempts + 1) (Some e) c ?q) = None \<and>
      response (fst (snd (sequential_loop ask turns req (attempts + 1) (Some e) c ?q))) = Some r"
      using Suc.prems cur by (intro Suc.IH) simp_all
    with Inl step Suc.prems show ?thesis by (simp add: Let_def)
  qed
qed

lemma exists_turn:
  assumes "i < n"
  shows "\<exists>k < n. (c + k) mod n = (i :: nat)"
proof -
  let ?k = "(i + n - c mod n) mod n"
  have "0 < n" using assms by simp
  then have "c mod n \<le> n" by (simp add: less_imp_le)
  then have "(c + (i + n - c mod n)) mod n = i"
  proof -
    have "(c + (i + n - c mod n)) mod n = (c mod n + (i + n - c mod n)) mod n"
      by (metis mod_add_left_eq)
    also have "\<dots> = (i + n) mod n" using \<open>c mod n \<le> n\<close> by simp
    finally show ?thesis using assms by simp
  qed
  then have "(c + ?k) mod n = i" by (metis mod_add_right_eq)
  moreover have "?k < n" using \<open>0 < n\<close> by simp
  ultimately show ?thesis by blast
qed

text \<open>What other queries record may leave the average of the first upstream alone.\<close>

definition keeps_first_avg :: "turn \<Rightarrow> bool" where
  "keeps_first_avg tn \<longleftrightarrow>
     (\<forall>h. uh_avg_us (tn_records tn 0 h) = uh_avg_us h \<and> uh_avg_us (tn_meanwhile tn 0 h) = uh_avg_us h)"

lemma failure_keeps_avg:
  assumes "ask a i req = (now, el, Inl e)" and "keeps_first_avg tn" and "fw_upstreams (fp_core p) \<noteq> []"
  shows "uh_avg_us (up_health (fw_upstreams (fp_core (after_attempt ask tn req a i p)) ! 0)) =
    uh_avg_us (up_health (fw_upstreams (fp_core p) ! 0))"
  using assms
  by (cases i) (simp_all add: after_attempt_def forward_query_with_health_def record_outcome_def
      health_record_failure_def Let_def plugin_select_facts keeps_first_avg_def)

lemma fastest_first_choice:
  assumes "fw_strategy (fp_core p) = Fastest" and "fw_upstreams (fp_core p) \<noteq> []"
    and "uh_avg_us (up_health (fw_upstreams (fp_core p) ! 0)) = 0" and "keeps_first_avg tn"
  shows "fst (plugin_select_upstream tn p) = Some 0"
proof -
  let ?f = "others_record (tn_records tn) (fp_core p)"
  have "fw_upstreams ?f \<noteq> []" using assms(2) by simp
  then obtain u us where u: "fw_upstreams ?f = u # us" by (meson neq_Nil_conv)
  have "uh_avg_us (up_health (fw_upstreams ?f ! 0)) = 0"
    using assms(2-4) by (simp add: keeps_first_avg_def)
  with u assms(1) show ?thesis by (simp add: plugin_select_facts select_upstream_def)
qed

lemma fastest_sticks:
  assumes "fw_strategy (fp_core p) = Fastest" and "fw_upstreams (fp_core p) \<noteq> []"
    and "uh_avg_us (up_health (fw_upstreams (fp_core p) ! 0)) = 0"
    and "\<And>a. \<exists>now el e. ask a 0 req = (now, el, Inl e)" and "\<And>a. keeps_first_avg (turns a)"
  shows "fst (sequential_loop ask turns req attempts le c p) \<noteq> None"
  using assms(1-3)
proof (induction "fw_max_attempts (fp_core p) - attempts" arbitrary: attempts le p)
  case 0
  then show ?case by (subst sequential_loop.simps) simp
next
  case (Suc k)
  show ?case
  proof (cases "attempts < length (fw_upstreams (fp_core p))")
    case False
    then show ?thesis by (subst sequential_loop.simps) simp
  next
    case True
    note sel = fastest_first_choice [OF Suc.prems assms(5)]
    obtain now el e where a: "ask attempts 0 req = (now, el, Inl e)" using assms(4) by blast
    let ?q = "after_attempt ask (turns attempts) req attempts 0 p"
    have "fst (sequential_loop ask turns req (attempts + 1) (Some e) c ?q) \<noteq> None"
    proof (rule Suc.hyps(1))
      show "k = fw_max_attempts (fp_core ?q) - (attempts + 1)" "fw_strategy (fp_core ?q) = Fastest"
        using Suc by simp_all
      show "fw_upstreams (fp_core ?q) \<noteq> []"
        using Suc.prems(2) by (metis after_attempt_sel(2) length_0_conv)
      show "uh_avg_us (up_health (fw_upstreams (fp_core ?q) ! 0)) = 0"
        using Suc.prems(2,3) failure_keeps_avg [of ask attempts 0 req, OF a assms(5)] by simp
    qed
    moreover have "attempts < fw_max_attempts (fp_core p)" using Suc.hyps(2) by simp
    from sequential_loop_step [where turns = turns and attempts = attempts and p = p, OF this True sel, of ask req le c]
    have "sequential_loop ask turns req attempts le c p =
        sequential_loop ask turns req (attempts + 1) (Some e) c ?q" by (simp add: a Let_def)
    ultimately show ?thesis by simp
  qed
qed


section \<open>Properties\<close>

definition demo_peer :: sock_addr where
  "demo_peer = \<lparr>sa_ip = V4 0x01010101, sa_port = 53\<rparr>"

definition demo_mux :: mux_system where
  "demo_mux = packet demo_peer (set_id 1 message_new)
     (start_query 0 demo_peer 7 1 (check_qid 0 1 (fetch_qid 0 (enter_loop 0 mux_system_new))))"

lemma demo_mux_reachable: "mux_step\<^sup>*\<^sup>* mux_system_new demo_mux"
proof -
  let ?s1 = "enter_loop 0 mux_system_new"
  let ?s2 = "fetch_qid 0 ?s1"
  let ?s3 = "check_qid 0 1 ?s2"
  have "mux_step mux_system_new ?s1" by (rule mux_step.enter) (simp_all add: mux_system_new_def)
  moreover have "mux_step ?s1 ?s2" by (rule mux_step.fetch) simp
  moreover have "mux_step ?s2 ?s3" by (rule mux_step.check) (simp add: mux_system_new_def mux_new_def)
  moreover have "mux_step ?s3 (start_query 0 demo_peer 7 1 ?s3)"
    by (rule mux_step.start) (simp_all add: mux_system_new_def mux_new_def)
  moreover have "mux_step (start_query 0 demo_peer 7 1 ?s3) demo_mux"
    unfolding demo_mux_def by (rule mux_step.packet)
  ultimately show ?thesis by (meson rtranclp.rtrancl_into_rtrancl rtranclp.rtrancl_refl)
qed

definition demo_forward :: "load_balance_strategy \<Rightarrow> forward_plugin" where
  "demo_forward strategy =
     \<lparr>fp_core = forward_new [upstream_new ''1.1.1.1:53'', upstream_new ''2.2.2.2:53''] 5000000000 strategy,
      fp_current = 0, fp_concurrent_queries = False, fp_tag = None\<rparr>"

text \<open>The first upstream is down, the second one answers.\<close>

definition demo_ask :: ask where
  "demo_ask attempt idx req =
     (0, 1000, if idx = 0 then Inl (Other ''down'') else Inr (set_response True req))"

text \<open>An attempt that no other query interferes with.\<close>

definition quiet :: "nat \<Rightarrow> turn" where
  "quiet attempt = \<lparr>tn_nanos = 0, tn_draws = 0, tn_records = \<lambda>i h. h, tn_meanwhile = \<lambda>i h. h\<rparr>"

text \<open>Another query draws once from the counter before every later attempt.\<close>

definition rival :: "nat \<Rightarrow> turn" where
  "rival attempt = (quiet attempt)\<lparr>tn_draws := (if attempt = 0 then 0 else 1)\<rparr>"



text \<open>
  C23: allocation of query ids under any interleaving of the tasks that share the socket. The
  draws of all tasks together walk through the 16-bit ids, so whenever 65536 draws were made while
  some non-zero id stayed out of the table of pending queries, some task has drawn that id and has
  either left the loop with it or leaves it with its very next lookup: the loop cannot go round
  for ever for all tasks while an id is free. As long as all 65535 non-zero ids are
  pending, on the other hand, no task gets out of the loop, however often it draws.
\<close>

theorem qid_allocation_progress:
  "(q \<noteq> 0 \<longrightarrow> mux_run (\<lambda>t. mx_pending (ms_mux t) q = None) draws s t \<longrightarrow> 65536 \<le> length draws \<longrightarrow>
     (\<exists>w. (w, q) \<in> set draws \<and>
        (ms_loop t w = Some (Assigned q) \<or>
         ms_loop t w = Some (Drawn q) \<and> ms_loop (check_qid w q t) w = Some (Assigned q)))) \<and>
   (mux_run (\<lambda>t. \<forall>q. q \<noteq> 0 \<longrightarrow> mx_pending (ms_mux t) q \<noteq> None) draws s t \<longrightarrow>
     ms_loop t w = Some (Assigned q) \<longrightarrow> ms_loop s w = Some (Assigned q))"
proof (intro conjI impI)
  assume q: "q \<noteq> 0" and run: "mux_run (\<lambda>t. mx_pending (ms_mux t) q = None) draws s t"
    and many: "65536 \<le> length draws"
  obtain w where w: "(w, q) \<in> set draws" using mux_run_draws_all [OF run many, of q] by force
  with mux_run_holds_qid [OF run q w] mux_run_holds [OF run] q
  show "\<exists>w. (w, q) \<in> set draws \<and> (ms_loop t w = Some (Assigned q) \<or>
      ms_loop t w = Some (Drawn q) \<and> ms_loop (check_qid w q t) w = Some (Assigned q))"
    by (auto simp: holds_qid_def)
qed (rule mux_run_full)

text \<open>As many tasks as wanted enter the loop and draw, one after the other.\<close>

lemma mux_demo_run:
  "\<exists>draws t. length draws = n \<and> mux_run (\<lambda>t. mx_pending (ms_mux t) q = None) draws mux_system_new t \<and>
     (\<forall>w\<ge>n. ms_loop t w = None) \<and> ms_query t = Map.empty"
proof (induction n)
  case 0
  have "mux_run (\<lambda>t. mx_pending (ms_mux t) q = None) [] mux_system_new mux_system_new"
    by (rule mux_run.here) (simp add: mux_system_new_def mux_new_def)
  then show ?case by (intro exI [of _ "[]"] exI [of _ mux_system_new]) (simp add: mux_system_new_def)
next
  case (Suc n)
  then obtain draws t where d: "length draws = n" "mux_run (\<lambda>t. mx_pending (ms_mux t) q = None) draws mux_system_new t"
    "\<forall>w\<ge>n. ms_loop t w = None" "ms_query t = Map.empty" by blast
  have "mux_run (\<lambda>t. mx_pending (ms_mux t) q = None) draws mux_system_new (enter_loop n t)"
    using d mux_run_holds [OF d(2)] by (intro mux_run.other [OF d(2) mux_step.enter]) simp_all
  from mux_run.draw [OF this, of n] d mux_run_holds [OF d(2)]
  have "mux_run (\<lambda>t. mx_pending (ms_mux t) q = None) (draws @ [(n, mx_next_qid (ms_mux t))]) mux_system_new
      (fetch_qid n (enter_loop n t))" by simp
  then show ?case using d
    by (intro exI [of _ "draws @ [(n, mx_next_qid (ms_mux t))]"] exI [of _ "fetch_qid n (enter_loop n t)"]) simp
qed

theorem qid_allocation_progress_witness:
  "\<exists>draws t w. length draws = 65536 \<and>
     mux_run (\<lambda>t. mx_pending (ms_mux t) 7 = None) draws mux_system_new t \<and> (w, 7) \<in> set draws \<and>
     (ms_loop t w = Some (Assigned 7) \<or>
      ms_loop t w = Some (Drawn 7) \<and> ms_loop (check_qid w 7 t) w = Some (Assigned 7))"
proof -
  obtain draws t where d: "length draws = 65536" "mux_run (\<lambda>t. mx_pending (ms_mux t) 7 = None) draws mux_system_new t"
    using mux_demo_run [of 65536 7] by blast
  have "(7 :: u16) \<noteq> 0" by simp
  moreover have "65536 \<le> length draws" using d(1) by simp
  ultimately show ?thesis using qid_allocation_progress [of 7 draws mux_system_new t] d by blast
qed

text \<open>
  C19: round robin reaches every upstream. If no other query draws from the plugin's shared
  counter while this query makes its attempts (other queries may record the health of upstreams
  meanwhile as they like), if some upstream always answers this query, the number of attempts is
  not limited below the number of upstreams and the counter does not wrap round during the
  attempts, then the query succeeds and the context has a response, whatever the other upstreams
  do. (When other queries draw from the counter in between, the query may fail although an
  upstream is up: \<open>round_robin_starved_by_rival\<close>.)
\<close>

theorem round_robin_finds_working_upstream:
  assumes "fw_strategy (fp_core p) = RoundRobin" and "i < length (fw_upstreams (fp_core p))"
    and "length (fw_upstreams (fp_core p)) \<le> fw_max_attempts (fp_core p)"
    and "\<And>attempt. \<exists>r. snd (snd (ask attempt i req)) = Inr r"
    and "\<And>attempt. tn_draws (turns attempt) = 0"
    and "unat (fp_current p) + length (fw_upstreams (fp_core p)) \<le> 2 ^ 64"
  shows "\<exists>c' p' r. execute_sequential ask turns req c p = (None, c', p') \<and> response c' = Some r"
proof -
  let ?n = "length (fw_upstreams (fp_core p))"
  obtain k where "k < ?n" "(unat (fp_current p) + k) mod ?n = i"
    using exists_turn [OF assms(2)] by blast
  then have "\<exists>r. fst (sequential_loop ask turns req 0 None c p) = None \<and>
      response (fst (snd (sequential_loop ask turns req 0 None c p))) = Some r"
    using assms by (intro round_robin_reaches [where n = ?n and i = i and k = k]) auto
  then show ?thesis
    unfolding execute_sequential_def by (metis prod.collapse)
qed

theorem round_robin_finds_working_upstream_witness:
  "\<exists>c' p' r. execute_sequential demo_ask quiet demo_query demo_context (demo_forward RoundRobin) =
     (None, c', p') \<and> response c' = Some r"
  by (rule round_robin_finds_working_upstream [where i = 1])
    (simp_all add: demo_forward_def forward_new_def demo_ask_def quiet_def)

text \<open>
  The counter is shared: with two upstreams, the first of them down, and one other query drawing
  from the counter between two attempts of this query, this query asks the dead upstream twice and
  fails, although the other upstream is up.
\<close>

lemma round_robin_starved_by_rival:
  "fst (execute_sequential demo_ask rival demo_query demo_context (demo_forward RoundRobin)) =
     Some (Other ''down'')"
  by (simp add: execute_sequential_def sequential_loop.simps demo_forward_def forward_new_def demo_ask_def
      rival_def quiet_def plugin_select_upstream_def select_upstream_def others_record_def while_waiting_def
      forward_query_with_health_def record_outcome_def flip: numeral_2_eq_2)

text \<open>
  With the fastest strategy a first upstream that was never measured is chosen again
  after every failure, as long as no other query measures it. If it is down, the query fails, even
  when other upstreams would have answered.
\<close>

theorem fastest_never_leaves_unmeasured_upstream:
  assumes "fw_strategy (fp_core p) = Fastest" and "fw_upstreams (fp_core p) \<noteq> []"
    and "uh_avg_us (up_health (fw_upstreams (fp_core p) ! 0)) = 0"
    and "\<And>attempt. \<exists>now elapsed e. ask attempt 0 req = (now, elapsed, Inl e)"
    and "\<And>attempt. keeps_first_avg (turns attempt)"
  shows "fst (execute_sequential ask turns req c p) \<noteq> None"
  unfolding execute_sequential_def
  by (rule fastest_sticks [where ask = ask and req = req and p = p]) (use assms in blast)+

theorem fastest_never_leaves_unmeasured_upstream_witness:
  "fst (execute_sequential demo_ask quiet demo_query demo_context (demo_forward Fastest)) \<noteq> None"
  by (rule fastest_never_leaves_unmeasured_upstream)
    (simp_all add: demo_forward_def forward_new_def demo_ask_def upstream_new_def upstream_health_new_def
      keeps_first_avg_def quiet_def)

lemma weighted_mean_bounds:
  fixes a b n :: nat
  shows "min a b \<le> (a * n + b) div (n + 1) \<and> (a * n + b) div (n + 1) \<le> max a b"
proof -
  have l: "min a b * (n + 1) \<le> a * n + b"
    using mult_le_mono1 [of "min a b" a n] by (simp add: algebra_simps add_mono)
  have u: "a * n + b \<le> max a b * (n + 1)"
    using mult_le_mono1 [of a "max a b" n] by (simp add: algebra_simps add_mono)
  have "min a b * (n + 1) div (n + 1) \<le> (a * n + b) div (n + 1)" by (rule div_le_mono [OF l])
  moreover have "(a * n + b) div (n + 1) \<le> max a b * (n + 1) div (n + 1)" by (rule div_le_mono [OF u])
  moreover have "x * (n + 1) div (n + 1) = x" for x by (rule nonzero_mult_div_cancel_right) simp
  ultimately show ?thesis by metis
qed

text \<open>
  The running average of response times stays between the previous average and the new
  measurement as long as the sum does not overflow 64 bits.
\<close>

theorem health_average_bounds:
  fixes h :: upstream_health
  assumes "uh_successes h \<noteq> 0"
    and "unat (uh_avg_us h) * unat (uh_successes h) + response_time div 1000 < 2 ^ 64"
    and "unat (uh_successes h) + 1 < 2 ^ 64"
  shows "min (unat (uh_avg_us h)) (response_time div 1000) \<le> unat (uh_avg_us (health_record_success now response_time h)) \<and>
    unat (uh_avg_us (health_record_success now response_time h)) \<le> max (unat (uh_avg_us h)) (response_time div 1000)"
proof -
  define new where "new = response_time div 1000"
  have new: "unat (of_nat new :: u64) = new" using assms(2) by (simp add: unat_of_nat new_def)
  have "unat (uh_avg_us (health_record_success now response_time h)) =
      (unat (uh_avg_us h) * unat (uh_successes h) + new) div (unat (uh_successes h) + 1)"
    using assms new
    by (simp add: health_record_success_def Let_def unat_div unat_word_ariths new_def)
  with weighted_mean_bounds [of "unat (uh_avg_us h)" new "unat (uh_successes h)"] show ?thesis
    by (simp add: new_def)
qed

theorem health_average_bounds_witness:
  "min (unat (10 :: u64)) (50000 div 1000) \<le>
     unat (uh_avg_us (health_record_success 0 50000 (upstream_health_new\<lparr>uh_successes := 3, uh_avg_us := 10\<rparr>))) \<and>
   unat (uh_avg_us (health_record_success 0 50000 (upstream_health_new\<lparr>uh_successes := 3, uh_avg_us := 10\<rparr>)))
     \<le> max (unat (10 :: u64)) (50000 div 1000)"
  using health_average_bounds [of "upstream_health_new\<lparr>uh_successes := 3, uh_avg_us := 10\<rparr>" 50000 0]
  by (simp add: upstream_health_new_def)

text \<open>
  The default port is appended to the whole entry, tag included. An upstream given as
  an address without port and a tag keeps no port, and the port ends up in the tag.
\<close>

theorem tagged_upstream_loses_port:
  assumes "CHR '':'' \<notin> set addr" and "CHR '':'' \<notin> set tag" and "CHR ''|'' \<notin> set addr"
  shows "upstream_from_yaml (YString (addr @ ''|'' @ tag)) = Inr (upstream_with_tag addr (tag @ '':53''))"
proof -
  let ?s = "addr @ ''|'' @ tag"
  have c: "CHR '':'' \<notin> set ?s" using assms by simp
  have sp: "strip_prefix pat ?s = None" if "CHR '':'' \<in> set pat" for pat
  proof (cases "strip_prefix pat ?s")
    case (Some r)
    then have "?s = pat @ r" by (simp only: strip_prefix_Some_iff)
    then have "set pat \<subseteq> set ?s" by (metis Un_upper1 set_append)
    with that c show ?thesis by blast
  qed
  have t: "trim_start_matches pat n ?s = ?s" if "CHR '':'' \<in> set pat" for pat n
    using sp [OF that] by (cases n) (simp_all del: append_Cons)
  have "\<not> is_doh ?s" using sp [of "''http://''"] sp [of "''https://''"] by (simp add: is_doh_def starts_with_def)
  then have "normalize_addr ?s = ?s @ '':53''"
    unfolding normalize_addr_def Let_def using c t [of "''udp://''"] t [of "''tcp://''"]
    by (simp del: trim_start_matches.simps)
  moreover have "split_once (CHR ''|'') (?s @ '':53'') = Some (addr, tag @ '':53'')"
    using assms(3) by (induction addr) (auto simp: split_once_def)
  ultimately show ?thesis by (simp add: upstream_from_yaml_def upstream_from_entry_def)
qed

theorem tagged_upstream_loses_port_witness:
  "upstream_from_yaml (YString (''1.1.1.1'' @ ''|'' @ ''cf'')) = Inr (upstream_with_tag ''1.1.1.1'' (''cf'' @ '':53''))"
  by (rule tagged_upstream_loses_port) simp_all

end
