(* ===== verification/Sharded_Cache.thy ===== *)
theory Sharded_Cache
  imports Dns_Message
begin

text \<open>
  The cache's storage: \<^verbatim>\<open>src/plugins/cache/sharded.rs\<close> over entries of
  \<^verbatim>\<open>src/plugins/cache/entry.rs\<close>.

  A shard is an \<^verbatim>\<open>LruCache\<close> of the \<^verbatim>\<open>lru\<close> crate, which is not part of the sources: the
  definitions take its operations as an argument (\<open>lru_ops\<close>), and the locale \<open>lru_cache\<close>
  states its documented behaviour through \<^verbatim>\<open>iter\<close>, most recently used pair first. A list
  implementation interprets the locale, so the laws can hold.

  The sharded cache is shown to be a map: a push stores its key and forgets at most the pair
  it returns; the total never exceeds the configured capacity; and when the capacity is not
  a multiple of a power of two the mask leaves shards unused.

  An \<^verbatim>\<open>Instant\<close> is a number of nanoseconds; each reading of the clock is an argument.
\<close>

section \<open>Entries\<close>

record cache_entry =
  ce_response :: message
  ce_cached_at :: nat
  ce_ttl :: u32
  ce_cache_ttl :: u32
  ce_original_ttl :: u32
  ce_last_accessed :: nat
  ce_cached_at_unix :: u64

definition nanos_per_sec :: nat where
  "nanos_per_sec = 1000000000"

definition cache_entry_new :: "nat \<Rightarrow> u64 \<Rightarrow> message \<Rightarrow> u32 \<Rightarrow> u32 \<Rightarrow> cache_entry" where
  "cache_entry_new now now_unix r ttl cache_ttl =
     \<lparr>ce_response = r, ce_cached_at = now, ce_ttl = ttl, ce_cache_ttl = cache_ttl,
      ce_original_ttl = ttl, ce_last_accessed = now, ce_cached_at_unix = now_unix\<rparr>"

text \<open>\<^verbatim>\<open>Instant::elapsed\<close> saturates at zero, as subtraction on \<^typ>\<open>nat\<close> does.\<close>

definition is_cache_expired :: "nat \<Rightarrow> cache_entry \<Rightarrow> bool" where
  "is_cache_expired now e \<longleftrightarrow>
     ce_cache_ttl e = 0 \<or> now - ce_cached_at e \<ge> unat (ce_cache_ttl e) * nanos_per_sec"

definition touch :: "nat \<Rightarrow> cache_entry \<Rightarrow> cache_entry" where
  "touch now e = e\<lparr>ce_last_accessed := now\<rparr>"

definition elapsed_secs :: "nat \<Rightarrow> cache_entry \<Rightarrow> u32" where
  "elapsed_secs now e = of_nat ((now - ce_cached_at e) div nanos_per_sec)"

definition remaining_ttl :: "nat \<Rightarrow> cache_entry \<Rightarrow> u32" where
  "remaining_ttl now e = saturating_sub (ce_ttl e) (elapsed_secs now e)"

definition remaining_cache_ttl :: "nat \<Rightarrow> cache_entry \<Rightarrow> u32" where
  "remaining_cache_ttl now e = saturating_sub (ce_cache_ttl e) (elapsed_secs now e)"

section \<open>The LRU crate\<close>

record ('v, 'l) lru_ops =
  lru_new :: "nat \<Rightarrow> 'l"
  lru_cap :: "'l \<Rightarrow> nat"
  lru_iter :: "'l \<Rightarrow> (string \<times> 'v) list"
  lru_get :: "string \<Rightarrow> 'l \<Rightarrow> 'v option \<times> 'l"
  lru_peek :: "string \<Rightarrow> 'l \<Rightarrow> 'v option"
  lru_contains :: "string \<Rightarrow> 'l \<Rightarrow> bool"
  lru_push :: "string \<Rightarrow> 'v \<Rightarrow> 'l \<Rightarrow> (string \<times> 'v) option \<times> 'l"
  lru_pop :: "string \<Rightarrow> 'l \<Rightarrow> 'v option \<times> 'l"
  lru_len :: "'l \<Rightarrow> nat"
  lru_clear :: "'l \<Rightarrow> 'l"

definition del :: "string \<Rightarrow> (string \<times> 'v) list \<Rightarrow> (string \<times> 'v) list" where
  "del k xs = filter (\<lambda>p. fst p \<noteq> k) xs"

text \<open>What \<^verbatim>\<open>push\<close> returns and leaves behind, on the pairs in recency order.\<close>

definition push_spec :: "nat \<Rightarrow> string \<Rightarrow> 'v \<Rightarrow> (string \<times> 'v) list
    \<Rightarrow> (string \<times> 'v) option \<times> (string \<times> 'v) list" where
  "push_spec cap k v xs =
     (case map_of xs k of
        Some w \<Rightarrow> (Some (k, w), (k, v) # del k xs)
      | None \<Rightarrow> if length xs < cap then (None, (k, v) # xs)
                else (Some (last xs), (k, v) # butlast xs))"

locale lru_cache =
  fixes ops :: "('v, 'l) lru_ops" and ok :: "'l \<Rightarrow> bool"
  assumes ok_new: "0 < n \<Longrightarrow> ok (lru_new ops n)"
    and iter_new: "lru_iter ops (lru_new ops n) = []"
    and cap_new: "0 < n \<Longrightarrow> lru_cap ops (lru_new ops n) = n"
    and ok_distinct: "ok l \<Longrightarrow> distinct (map fst (lru_iter ops l))"
    and ok_bound: "ok l \<Longrightarrow> length (lru_iter ops l) \<le> lru_cap ops l"
    and ok_cap: "ok l \<Longrightarrow> 0 < lru_cap ops l"
    and get: "ok l \<Longrightarrow> lru_get ops k l = (r, l') \<Longrightarrow>
      r = map_of (lru_iter ops l) k \<and> ok l' \<and> lru_cap ops l' = lru_cap ops l \<and>
      lru_iter ops l' = (case r of Some v \<Rightarrow> (k, v) # del k (lru_iter ops l) | None \<Rightarrow> lru_iter ops l)"
    and peek: "ok l \<Longrightarrow> lru_peek ops k l = map_of (lru_iter ops l) k"
    and contains: "ok l \<Longrightarrow> lru_contains ops k l \<longleftrightarrow> map_of (lru_iter ops l) k \<noteq> None"
    and push: "ok l \<Longrightarrow> lru_push ops k v l = (e, l') \<Longrightarrow>
      ok l' \<and> lru_cap ops l' = lru_cap ops l \<and>
      (e, lru_iter ops l') = push_spec (lru_cap ops l) k v (lru_iter ops l)"
    and pop: "ok l \<Longrightarrow> lru_pop ops k l = (r, l') \<Longrightarrow>
      r = map_of (lru_iter ops l) k \<and> ok l' \<and> lru_cap ops l' = lru_cap ops l \<and>
      lru_iter ops l' = del k (lru_iter ops l)"
    and len: "ok l \<Longrightarrow> lru_len ops l = length (lru_iter ops l)"
    and clear: "ok l \<Longrightarrow> ok (lru_clear ops l) \<and> lru_iter ops (lru_clear ops l) = [] \<and>
      lru_cap ops (lru_clear ops l) = lru_cap ops l"

section \<open>The sharded cache\<close>

record 'l sharded =
  shards :: "'l list"
  mask :: u64

definition SHARDS :: nat where
  "SHARDS = 16"

definition sharded_new :: "('v, 'l) lru_ops \<Rightarrow> nat \<Rightarrow> 'l sharded" where
  "sharded_new ops capacity =
     (let capacity = max capacity 1;
          shard_count = min SHARDS capacity;
          per_shard = capacity div shard_count;
          remainder = capacity mod shard_count
      in \<lparr>shards = map (\<lambda>i. lru_new ops (max 1 (per_shard + (if i < remainder then 1 else 0))))
                     [0..<shard_count],
          mask = of_nat (shard_count - 1)\<rparr>)"

definition fnv1a :: "string \<Rightarrow> u64" where
  "fnv1a key = foldl (\<lambda>h b. (h XOR of_nat (of_char b)) * 0x100000001b3) 0xcbf29ce484222325 key"

definition shard_index :: "'l sharded \<Rightarrow> string \<Rightarrow> nat" where
  "shard_index c key = unat (fnv1a key AND mask c)"

definition shard_for :: "'l sharded \<Rightarrow> string \<Rightarrow> 'l" where
  "shard_for c key = shards c ! shard_index c key"

definition set_shard :: "'l sharded \<Rightarrow> string \<Rightarrow> 'l \<Rightarrow> 'l sharded" where
  "set_shard c key l = c\<lparr>shards := (shards c)[shard_index c key := l]\<rparr>"

definition sharded_get :: "('v, 'l) lru_ops \<Rightarrow> string \<Rightarrow> 'l sharded \<Rightarrow> 'v option \<times> 'l sharded" where
  "sharded_get ops key c =
     (case lru_get ops key (shard_for c key) of (r, l) \<Rightarrow> (r, set_shard c key l))"

definition sharded_peek :: "('v, 'l) lru_ops \<Rightarrow> string \<Rightarrow> 'l sharded \<Rightarrow> 'v option" where
  "sharded_peek ops key c = lru_peek ops key (shard_for c key)"

definition sharded_contains :: "('v, 'l) lru_ops \<Rightarrow> string \<Rightarrow> 'l sharded \<Rightarrow> bool" where
  "sharded_contains ops key c = lru_contains ops key (shard_for c key)"

definition sharded_push :: "('v, 'l) lru_ops \<Rightarrow> string \<Rightarrow> 'v \<Rightarrow> 'l sharded
    \<Rightarrow> (string \<times> 'v) option \<times> 'l sharded" where
  "sharded_push ops key v c =
     (case lru_push ops key v (shard_for c key) of (r, l) \<Rightarrow> (r, set_shard c key l))"

definition sharded_pop :: "('v, 'l) lru_ops \<Rightarrow> string \<Rightarrow> 'l sharded \<Rightarrow> 'v option \<times> 'l sharded" where
  "sharded_pop ops key c =
     (case lru_pop ops key (shard_for c key) of (r, l) \<Rightarrow> (r, set_shard c key l))"

definition sharded_len :: "('v, 'l) lru_ops \<Rightarrow> 'l sharded \<Rightarrow> nat" where
  "sharded_len ops c = sum_list (map (lru_len ops) (shards c))"

definition sharded_clear :: "('v, 'l) lru_ops \<Rightarrow> 'l sharded \<Rightarrow> 'l sharded" where
  "sharded_clear ops c = c\<lparr>shards := map (lru_clear ops) (shards c)\<rparr>"

definition sharded_entries :: "('v, 'l) lru_ops \<Rightarrow> 'l sharded \<Rightarrow> (string \<times> 'v) list" where
  "sharded_entries ops c = concat (map (lru_iter ops) (shards c))"

text \<open>\<^verbatim>\<open>retain\<close> collects the stale keys of a shard and pops them one by one.\<close>

fun pop_all :: "('v, 'l) lru_ops \<Rightarrow> string list \<Rightarrow> nat \<Rightarrow> 'l \<Rightarrow> nat \<times> 'l" where
  "pop_all ops [] dropped l = (dropped, l)"
| "pop_all ops (key # keys) dropped l =
     (case lru_pop ops key l of (r, l) \<Rightarrow>
        pop_all ops keys (if r \<noteq> None then dropped + 1 else dropped) l)"

definition retain_shard :: "('v, 'l) lru_ops \<Rightarrow> ('v \<Rightarrow> bool) \<Rightarrow> 'l \<Rightarrow> nat \<times> 'l" where
  "retain_shard ops keep l =
     pop_all ops (map fst (filter (\<lambda>(k, e). \<not> keep e) (lru_iter ops l))) 0 l"

definition sharded_retain :: "('v, 'l) lru_ops \<Rightarrow> ('v \<Rightarrow> bool) \<Rightarrow> 'l sharded \<Rightarrow> nat \<times> 'l sharded" where
  "sharded_retain ops keep c =
     (let rs = map (retain_shard ops keep) (shards c)
      in (sum_list (map fst rs), c\<lparr>shards := map snd rs\<rparr>))"

section \<open>The abstract map\<close>

definition lookup :: "('v, 'l) lru_ops \<Rightarrow> 'l sharded \<Rightarrow> string \<rightharpoonup> 'v" where
  "lookup ops c k = map_of (lru_iter ops (shard_for c k)) k"

definition total_cap :: "('v, 'l) lru_ops \<Rightarrow> 'l sharded \<Rightarrow> nat" where
  "total_cap ops c = sum_list (map (lru_cap ops) (shards c))"

text \<open>Well-formed caches: one shard per mask value, every shard legal, and every key in
  the shard its hash names.\<close>

definition sharded_ok :: "('v, 'l) lru_ops \<Rightarrow> ('l \<Rightarrow> bool) \<Rightarrow> 'l sharded \<Rightarrow> bool" where
  "sharded_ok ops ok c \<longleftrightarrow>
     length (shards c) = unat (mask c) + 1 \<and>
     (\<forall>i < length (shards c). ok (shards c ! i) \<and>
        (\<forall>k \<in> fst ` set (lru_iter ops (shards c ! i)). shard_index c k = i))"

text \<open>The states a cache of the given capacity can be in.\<close>

inductive sharded_reachable :: "('v, 'l) lru_ops \<Rightarrow> nat \<Rightarrow> 'l sharded \<Rightarrow> bool"
  for ops capacity where
  init: "sharded_reachable ops capacity (sharded_new ops capacity)"
| get: "sharded_reachable ops capacity c \<Longrightarrow> sharded_reachable ops capacity (snd (sharded_get ops k c))"
| push: "sharded_reachable ops capacity c \<Longrightarrow> sharded_reachable ops capacity (snd (sharded_push ops k v c))"
| pop: "sharded_reachable ops capacity c \<Longrightarrow> sharded_reachable ops capacity (snd (sharded_pop ops k c))"
| clear: "sharded_reachable ops capacity c \<Longrightarrow> sharded_reachable ops capacity (sharded_clear ops c)"
| retain: "sharded_reachable ops capacity c \<Longrightarrow>
     sharded_reachable ops capacity (snd (sharded_retain ops keep c))"

lemma set_shard_sel [simp]:
  "mask (set_shard c k l) = mask c" "shard_index (set_shard c k l) = shard_index c"
  "length (shards (set_shard c k l)) = length (shards c)"
  by (simp_all add: set_shard_def shard_index_def fun_eq_iff)

lemma shard_index_less: "sharded_ok ops ok c \<Longrightarrow> shard_index c k < length (shards c)"
proof -
  assume "sharded_ok ops ok c"
  then have "length (shards c) = unat (mask c) + 1" by (simp add: sharded_ok_def)
  moreover have "fnv1a k AND mask c \<le> mask c" by (rule word_and_le1)
  ultimately show ?thesis by (simp add: shard_index_def word_le_nat_alt less_Suc_eq_le)
qed

lemma sharded_ok_shard: "sharded_ok ops ok c \<Longrightarrow> ok (shard_for c k)"
  using shard_index_less [of ops ok c k] by (auto simp: sharded_ok_def shard_for_def)

lemma sharded_ok_home:
  "sharded_ok ops ok c \<Longrightarrow> k' \<in> fst ` set (lru_iter ops (shard_for c k)) \<Longrightarrow>
     shard_index c k' = shard_index c k"
  using shard_index_less [of ops ok c k] unfolding sharded_ok_def shard_for_def by blast

lemma sharded_ok_set_shard:
  assumes "sharded_ok ops ok c" and "ok l"
    and "fst ` set (lru_iter ops l) \<subseteq> insert k (fst ` set (lru_iter ops (shard_for c k)))"
  shows "sharded_ok ops ok (set_shard c k l)"
proof -
  have "shard_index c k' = shard_index c k" if "k' \<in> fst ` set (lru_iter ops l)" for k'
    using that assms(3) sharded_ok_home [OF assms(1)] by blast
  then have "ok (shards (set_shard c k l) ! i) \<and>
      (\<forall>k' \<in> fst ` set (lru_iter ops (shards (set_shard c k l) ! i)). shard_index c k' = i)"
    if "i < length (shards c)" for i
    using that assms(1,2) unfolding sharded_ok_def
    by (cases "i = shard_index c k") (simp_all add: set_shard_def)
  with assms(1) show ?thesis by (simp add: sharded_ok_def)
qed

lemma lookup_set_shard:
  assumes "sharded_ok ops ok c"
  shows "lookup ops (set_shard c k l) k' =
    (if shard_index c k' = shard_index c k then map_of (lru_iter ops l) k' else lookup ops c k')"
  using shard_index_less [OF assms]
  by (simp add: lookup_def shard_for_def) (simp add: set_shard_def)

lemma lookup_home:
  "shard_index c x = shard_index c k \<Longrightarrow> lookup ops c x = map_of (lru_iter ops (shard_for c k)) x"
  by (simp add: lookup_def shard_for_def)

lemma lookup_set_shard_eq:
  assumes "sharded_ok ops ok c"
    and "\<And>x. shard_index c x = shard_index c k \<Longrightarrow>
      map_of (lru_iter ops l) x = g (map_of (lru_iter ops (shard_for c k))) x"
    and "\<And>m m' x. m x = m' x \<Longrightarrow> g m x = g m' x"
    and "\<And>x. shard_index c x \<noteq> shard_index c k \<Longrightarrow> g (lookup ops c) x = lookup ops c x"
  shows "lookup ops (set_shard c k l) = g (lookup ops c)"
proof
  fix x
  show "lookup ops (set_shard c k l) x = g (lookup ops c) x"
  proof (cases "shard_index c x = shard_index c k")
    case True
    then have "g (lookup ops c) x = g (map_of (lru_iter ops (shard_for c k))) x"
      by (intro assms(3) lookup_home)
    with True show ?thesis
      by (simp add: lookup_set_shard [OF assms(1)] assms(2))
  next
    case False
    then show ?thesis by (simp add: lookup_set_shard [OF assms(1)] assms(4))
  qed
qed

lemma total_cap_set_shard:
  assumes "sharded_ok ops ok c" and "lru_cap ops l = lru_cap ops (shard_for c k)"
  shows "total_cap ops (set_shard c k l) = total_cap ops c"
proof -
  have "map (lru_cap ops) ((shards c)[shard_index c k := l]) = map (lru_cap ops) (shards c)"
    using assms(2) by (metis list_update_id map_update shard_for_def)
  then show ?thesis by (simp add: total_cap_def set_shard_def)
qed

lemma del_simps [simp]:
  "map_of (del k xs) = (map_of xs)(k := None)" "fst ` set (del k xs) = fst ` set xs - {k}"
  "k \<notin> fst ` set xs \<Longrightarrow> del k xs = xs"
  by (auto simp: del_def map_of_filter_fst_neq image_iff) (auto simp: filter_id_conv)

lemma distinct_del: "distinct (map fst xs) \<Longrightarrow> distinct (map fst (del k xs))"
  by (simp add: del_def distinct_map_fst_filter)

lemma map_of_butlast:
  "distinct (map fst xs) \<Longrightarrow> xs \<noteq> [] \<Longrightarrow> map_of (butlast xs) = (map_of xs)(fst (last xs) := None)"
proof (induction xs rule: rev_induct)
  case Nil
  then show ?case by simp
next
  case (snoc x xs)
  then have "fst x \<notin> fst ` set xs" by auto
  then have "map_of xs (fst x) = None" by (simp add: map_of_eq_None_iff)
  then show ?case by (cases x) (auto simp: fun_eq_iff map_add_def split: option.split)
qed

text \<open>The effect of \<^verbatim>\<open>push\<close> on the map: the returned pair is forgotten, the key stored.\<close>

definition forget :: "(string \<times> 'v) option \<Rightarrow> (string \<rightharpoonup> 'v) \<Rightarrow> (string \<rightharpoonup> 'v)" where
  "forget e m = (case e of None \<Rightarrow> m | Some (k, _) \<Rightarrow> m(k := None))"

lemma push_spec_map:
  assumes "push_spec cap k v xs = (e, ys)" and "distinct (map fst xs)" and "0 < cap"
  shows "map_of ys = (forget e (map_of xs))(k \<mapsto> v)"
  using assms map_of_butlast [of xs]
  by (auto simp: push_spec_def forget_def split: option.splits if_splits prod.split)
    (metis length_0_conv prod.collapse fst_conv)+

lemma push_spec_keys:
  "push_spec cap k v xs = (e, ys) \<Longrightarrow> fst ` set ys \<subseteq> insert k (fst ` set xs)"
  by (auto simp: push_spec_def split: option.splits if_splits dest: in_set_butlastD) (force dest: in_set_butlastD simp: del_def)+

lemma push_spec_evicted:
  "push_spec cap k v xs = (Some (k', v'), ys) \<Longrightarrow> 0 < cap \<Longrightarrow> map_of xs k' = Some v' \<or> length xs \<ge> cap \<and> (k', v') \<in> set xs"
  by (auto simp: push_spec_def split: option.splits if_splits) (metis last_in_set length_0_conv not_less0)


section \<open>What the operations do\<close>

context lru_cache begin

lemma shard_distinct: "sharded_ok ops ok c \<Longrightarrow> distinct (map fst (lru_iter ops (shard_for c k)))"
  by (simp add: ok_distinct sharded_ok_shard)

lemma get_facts:
  assumes "sharded_ok ops ok c" and "sharded_get ops k c = (r, c')"
  shows "r = lookup ops c k" and "sharded_ok ops ok c'" and "lookup ops c' = lookup ops c"
    and "total_cap ops c' = total_cap ops c" and "mask c' = mask c"
proof -
  obtain l where g: "lru_get ops k (shard_for c k) = (r, l)" and c': "c' = set_shard c k l"
    using assms(2) by (auto simp: sharded_get_def split: prod.splits)
  note f = get [OF sharded_ok_shard [OF assms(1)] g]
  show r: "r = lookup ops c k" using f by (simp add: lookup_def)
  show "sharded_ok ops ok c'"
    unfolding c' using f by (intro sharded_ok_set_shard assms(1)) (auto split: option.splits)
  show "lookup ops c' = lookup ops c"
    unfolding c' using f
    by (intro lookup_set_shard_eq [OF assms(1), where g = "\<lambda>m. m"]) (auto split: option.split)
  show "total_cap ops c' = total_cap ops c"
    unfolding c' using f by (intro total_cap_set_shard [OF assms(1)]) simp
  show "mask c' = mask c" by (simp add: c')
qed

lemma push_facts:
  assumes "sharded_ok ops ok c" and "sharded_push ops k v c = (e, c')"
  shows "sharded_ok ops ok c'" and "lookup ops c' = (forget e (lookup ops c))(k \<mapsto> v)"
    and "total_cap ops c' = total_cap ops c" and "mask c' = mask c"
proof -
  obtain l where g: "lru_push ops k v (shard_for c k) = (e, l)" and c': "c' = set_shard c k l"
    using assms(2) by (auto simp: sharded_push_def split: prod.splits)
  note sok = sharded_ok_shard [OF assms(1), of k]
  note f = push [OF sok g]
  then have ps: "push_spec (lru_cap ops (shard_for c k)) k v (lru_iter ops (shard_for c k)) =
      (e, lru_iter ops l)" by simp
  show "sharded_ok ops ok c'"
    unfolding c' using f push_spec_keys [OF ps] by (intro sharded_ok_set_shard assms(1)) auto
  have m: "map_of (lru_iter ops l) = (forget e (map_of (lru_iter ops (shard_for c k))))(k \<mapsto> v)"
    by (rule push_spec_map [OF ps shard_distinct [OF assms(1)] ok_cap [OF sok]])
  have home: "shard_index c k1 = shard_index c k" if "e = Some (k1, v1)" for k1 v1
    using that push_spec_evicted [of _ _ _ _ k1 v1] ps ok_cap [OF sok]
    by (intro sharded_ok_home [OF assms(1)]) (force dest: map_of_SomeD)
  show "lookup ops c' = (forget e (lookup ops c))(k \<mapsto> v)"
    unfolding c' using home m
    by (intro lookup_set_shard_eq [OF assms(1), where g = "\<lambda>m. (forget e m)(k \<mapsto> v)"])
      (auto simp: forget_def split: option.split)
  show "total_cap ops c' = total_cap ops c"
    unfolding c' using f by (intro total_cap_set_shard [OF assms(1)]) simp
  show "mask c' = mask c" by (simp add: c')
qed

lemma pop_facts:
  assumes "sharded_ok ops ok c" and "sharded_pop ops k c = (r, c')"
  shows "r = lookup ops c k" and "sharded_ok ops ok c'" and "lookup ops c' = (lookup ops c)(k := None)"
    and "total_cap ops c' = total_cap ops c" and "mask c' = mask c"
proof -
  obtain l where g: "lru_pop ops k (shard_for c k) = (r, l)" and c': "c' = set_shard c k l"
    using assms(2) by (auto simp: sharded_pop_def split: prod.splits)
  note f = pop [OF sharded_ok_shard [OF assms(1)] g]
  show "r = lookup ops c k" using f by (simp add: lookup_def)
  show "sharded_ok ops ok c'"
    unfolding c' using f by (intro sharded_ok_set_shard assms(1)) auto
  show "lookup ops c' = (lookup ops c)(k := None)"
    unfolding c' using f
    by (intro lookup_set_shard_eq [OF assms(1), where g = "\<lambda>m. m(k := None)"]) auto
  show "total_cap ops c' = total_cap ops c"
    unfolding c' using f by (intro total_cap_set_shard [OF assms(1)]) simp
  show "mask c' = mask c" by (simp add: c')
qed

lemma contains_iff: "sharded_ok ops ok c \<Longrightarrow> sharded_contains ops k c \<longleftrightarrow> lookup ops c k \<noteq> None"
  by (simp add: sharded_contains_def lookup_def contains sharded_ok_shard)

lemma peek_eq: "sharded_ok ops ok c \<Longrightarrow> sharded_peek ops k c = lookup ops c k"
  by (simp add: sharded_peek_def lookup_def peek sharded_ok_shard)

text \<open>Operations that act on every shard at once.\<close>

lemma map_shards_ok:
  assumes "sharded_ok ops ok c"
    and "\<And>l. ok l \<Longrightarrow> ok (f l) \<and> fst ` set (lru_iter ops (f l)) \<subseteq> fst ` set (lru_iter ops l)"
  shows "sharded_ok ops ok (c\<lparr>shards := map f (shards c)\<rparr>)"
proof -
  let ?c = "c\<lparr>shards := map f (shards c)\<rparr>"
  have i: "shard_index ?c = shard_index c" by (simp add: fun_eq_iff shard_index_def)
  have "ok (shards ?c ! j) \<and> (\<forall>k \<in> fst ` set (lru_iter ops (shards ?c ! j)). shard_index ?c k = j)"
    if "j < length (shards c)" for j
  proof -
    have o: "ok (shards c ! j)" and k: "\<forall>k \<in> fst ` set (lru_iter ops (shards c ! j)). shard_index c k = j"
      using that assms(1) unfolding sharded_ok_def by simp_all
    show ?thesis
    proof
      show "ok (shards ?c ! j)" using that assms(2) [OF o] by simp
      show "\<forall>k \<in> fst ` set (lru_iter ops (shards ?c ! j)). shard_index ?c k = j"
      proof
        fix k
        assume "k \<in> fst ` set (lru_iter ops (shards ?c ! j))"
        then have "k \<in> fst ` set (lru_iter ops (f (shards c ! j)))" using that by simp
        with assms(2) [OF o] have "k \<in> fst ` set (lru_iter ops (shards c ! j))" by blast
        with k show "shard_index ?c k = j" unfolding i by (rule bspec)
      qed
    qed
  qed
  with assms(1) show ?thesis by (simp add: sharded_ok_def)
qed

lemma lookup_map_shards:
  "sharded_ok ops ok c \<Longrightarrow>
     lookup ops (c\<lparr>shards := map f (shards c)\<rparr>) k = map_of (lru_iter ops (f (shard_for c k))) k"
  using shard_index_less [of ops ok c k] by (simp add: lookup_def shard_for_def shard_index_def)

lemma total_cap_map_shards:
  assumes "sharded_ok ops ok c" and "\<And>l. ok l \<Longrightarrow> lru_cap ops (f l) = lru_cap ops l"
  shows "total_cap ops (c\<lparr>shards := map f (shards c)\<rparr>) = total_cap ops c"
proof -
  have "\<forall>l \<in> set (shards c). ok l"
    using assms(1) by (auto simp: sharded_ok_def in_set_conv_nth)
  with assms(2) show ?thesis
    by (simp add: total_cap_def o_def cong: map_cong)
qed

lemma clear_facts:
  assumes "sharded_ok ops ok c"
  shows "sharded_ok ops ok (sharded_clear ops c)" and "lookup ops (sharded_clear ops c) = Map.empty"
    and "total_cap ops (sharded_clear ops c) = total_cap ops c"
    and "mask (sharded_clear ops c) = mask c"
  unfolding sharded_clear_def
  by (auto intro!: map_shards_ok total_cap_map_shards assms
      simp: clear fun_eq_iff lookup_map_shards [OF assms] sharded_ok_shard [OF assms])

lemma pop_all_facts:
  "ok l \<Longrightarrow> distinct ks \<Longrightarrow> set ks \<subseteq> fst ` set (lru_iter ops l) \<Longrightarrow> pop_all ops ks n l = (m, l') \<Longrightarrow>
     m = n + length ks \<and> ok l' \<and> lru_cap ops l' = lru_cap ops l \<and>
     lru_iter ops l' = filter (\<lambda>p. fst p \<notin> set ks) (lru_iter ops l)"
proof (induction ks arbitrary: n l)
  case Nil
  then show ?case by simp
next
  case (Cons k ks)
  obtain r l1 where p: "lru_pop ops k l = (r, l1)" by fastforce
  note f = pop [OF Cons.prems(1) p]
  have "r \<noteq> None"
    using f Cons.prems(3) by (auto simp: map_of_eq_None_iff)
  moreover have "set ks \<subseteq> fst ` set (lru_iter ops l1)"
    using f Cons.prems(2,3) by auto
  ultimately show ?case
    using Cons.IH [of l1 "n + 1"] Cons.prems(2,4) f p
    by (auto simp: del_def intro!: filter_cong)
qed

lemma retain_shard_facts:
  assumes "ok l" and "retain_shard ops keep l = (m, l')"
  shows "ok l' \<and> lru_cap ops l' = lru_cap ops l \<and>
    lru_iter ops l' = filter (\<lambda>p. keep (snd p)) (lru_iter ops l) \<and>
    m = length (filter (\<lambda>p. \<not> keep (snd p)) (lru_iter ops l))"
proof -
  let ?ks = "map fst (filter (\<lambda>(k, e). \<not> keep e) (lru_iter ops l))"
  have d: "distinct (map fst (lru_iter ops l))" by (rule ok_distinct [OF assms(1)])
  have "fst p \<notin> set ?ks \<longleftrightarrow> keep (snd p)" if "p \<in> set (lru_iter ops l)" for p
  proof -
    have "snd p = v" if "(fst p, v) \<in> set (lru_iter ops l)" for v
      using eq_key_imp_eq_value [OF d that, of "snd p"] \<open>p \<in> set (lru_iter ops l)\<close> by simp
    with that show ?thesis by (force simp: image_iff)
  qed
  then have "filter (\<lambda>p. fst p \<notin> set ?ks) (lru_iter ops l) = filter (\<lambda>p. keep (snd p)) (lru_iter ops l)"
    by (rule filter_cong [OF refl])
  moreover have "distinct ?ks" "set ?ks \<subseteq> fst ` set (lru_iter ops l)"
    using d by (auto simp: distinct_map_fst_filter)
  ultimately show ?thesis
    using pop_all_facts [OF assms(1), of ?ks 0 m l'] assms(2)
    by (auto simp: retain_shard_def case_prod_unfold)
qed

lemma retain_facts:
  assumes "sharded_ok ops ok c" and "sharded_retain ops keep c = (n, c')"
  shows "sharded_ok ops ok c'" and "total_cap ops c' = total_cap ops c" and "mask c' = mask c"
    and "lookup ops c' = (\<lambda>k. case lookup ops c k of Some v \<Rightarrow> if keep v then Some v else None | None \<Rightarrow> None)"
proof -
  let ?f = "\<lambda>l. snd (retain_shard ops keep l)"
  have c': "c' = c\<lparr>shards := map ?f (shards c)\<rparr>"
    using assms(2) by (auto simp: sharded_retain_def Let_def o_def)
  have f: "ok (?f l) \<and> lru_cap ops (?f l) = lru_cap ops l \<and>
      lru_iter ops (?f l) = filter (\<lambda>p. keep (snd p)) (lru_iter ops l)" if "ok l" for l
    using retain_shard_facts [OF that, of keep "fst (retain_shard ops keep l)" "?f l"] by simp
  show "sharded_ok ops ok c'"
    unfolding c' using f by (intro map_shards_ok assms(1)) auto
  show "total_cap ops c' = total_cap ops c"
    unfolding c' using f by (intro total_cap_map_shards assms(1)) auto
  show "mask c' = mask c" by (simp add: c')
  have flt: "map_of (filter (\<lambda>p. keep (snd p)) xs) k =
      (case map_of xs k of Some v \<Rightarrow> if keep v then Some v else None | None \<Rightarrow> None)"
    if "distinct (map fst xs)" for xs :: "(string \<times> 'v) list" and k
    using that by (induction xs) (auto simp: map_of_eq_None_iff image_iff split: option.split)
  show "lookup ops c' = (\<lambda>k. case lookup ops c k of Some v \<Rightarrow> if keep v then Some v else None | None \<Rightarrow> None)"
    unfolding c' using f
    by (simp add: fun_eq_iff lookup_map_shards [OF assms(1)] sharded_ok_shard [OF assms(1)] flt
        shard_distinct [OF assms(1)]) (simp add: lookup_def)
qed

end

section \<open>Capacity\<close>

lemma sum_list_first:
  "sum_list (map (\<lambda>i. a + (if i < r then 1 else 0)) [0..<n]) = n * a + min r (n :: nat)"
  by (induction n) auto

lemma unat_mask_new: "unat (mask (sharded_new ops capacity)) = min SHARDS (max capacity 1) - 1"
proof -
  have "min SHARDS (max capacity 1) - 1 < 2 ^ LENGTH(64)" by (simp add: SHARDS_def)
  then show ?thesis
    unfolding sharded_new_def Let_def
    by (simp only: sharded.simps(2) unat_of_nat mod_less)
qed

context lru_cache begin

lemma new_facts:
  "sharded_ok ops ok (sharded_new ops capacity)"
  "lookup ops (sharded_new ops capacity) = Map.empty"
  "total_cap ops (sharded_new ops capacity) = max capacity 1"
proof -
  let ?c = "sharded_new ops capacity" and ?n = "min SHARDS (max capacity 1)"
  have n: "0 < ?n" "?n \<le> max capacity 1" by (auto simp: SHARDS_def)
  have sh: "shards ?c = map (\<lambda>i. lru_new ops (max capacity 1 div ?n +
      (if i < max capacity 1 mod ?n then 1 else 0))) [0..<?n]"
    using div_greater_zero_iff [of "max capacity 1" ?n] n
    by (auto simp: sharded_new_def Let_def max_def)
  have pos: "0 < max capacity 1 div ?n" using n by (simp add: div_greater_zero_iff)
  show ok: "sharded_ok ops ok ?c"
    using n pos by (auto simp: sharded_ok_def unat_mask_new sh ok_new iter_new)
  show "lookup ops ?c = Map.empty"
    using shard_index_less [OF ok] by (auto simp: fun_eq_iff lookup_def shard_for_def sh iter_new)
  have "total_cap ops ?c = ?n * (max capacity 1 div ?n) + min (max capacity 1 mod ?n) ?n"
    using pos by (simp add: total_cap_def sh cap_new o_def sum_list_first [symmetric])
  also have "min (max capacity 1 mod ?n) ?n = max capacity 1 mod ?n"
    using mod_less_divisor [OF n(1), of "max capacity 1"] by linarith
  also have "?n * (max capacity 1 div ?n) + max capacity 1 mod ?n = max capacity 1"
    by (rule mult_div_mod_eq)
  finally show "total_cap ops ?c = max capacity 1" .
qed

lemma len_eq: "sharded_ok ops ok c \<Longrightarrow> sharded_len ops c = length (sharded_entries ops c)"
proof -
  assume "sharded_ok ops ok c"
  then have "\<forall>l \<in> set (shards c). ok l" by (auto simp: sharded_ok_def in_set_conv_nth)
  then show ?thesis
    by (simp add: sharded_len_def sharded_entries_def length_concat o_def len cong: map_cong)
qed

lemma len_le_total: "sharded_ok ops ok c \<Longrightarrow> sharded_len ops c \<le> total_cap ops c"
proof -
  assume "sharded_ok ops ok c"
  then have "\<forall>l \<in> set (shards c). ok l" by (auto simp: sharded_ok_def in_set_conv_nth)
  then show ?thesis
    unfolding sharded_len_def total_cap_def by (intro sum_list_mono) (simp add: len ok_bound)
qed

lemma reachable_facts:
  "sharded_reachable ops capacity c \<Longrightarrow>
     sharded_ok ops ok c \<and> total_cap ops c = max capacity 1 \<and> mask c = mask (sharded_new ops capacity)"
proof (induction rule: sharded_reachable.induct)
  case init
  then show ?case by (simp add: new_facts)
next
  case (get c k)
  then show ?case using get_facts [OF _ prod.collapse [symmetric]] by metis
next
  case (push c k v)
  then show ?case using push_facts [OF _ prod.collapse [symmetric]] by metis
next
  case (pop c k)
  then show ?case using pop_facts [OF _ prod.collapse [symmetric]] by metis
next
  case (clear c)
  then show ?case using clear_facts by metis
next
  case (retain c keep)
  then show ?case using retain_facts [OF _ prod.collapse [symmetric]] by metis
qed

text \<open>Shards whose index the mask never yields stay empty.\<close>

lemma unreached_shard_empty:
  assumes "sharded_ok ops ok c" and "i < length (shards c)" and "\<And>k. shard_index c k \<noteq> i"
  shows "lru_iter ops (shards c ! i) = []"
  using assms unfolding sharded_ok_def by (metis image_is_empty list.set_sel(1) imageI set_empty)

end

section \<open>A list implementation of the LRU interface\<close>

definition list_lru :: "('v, nat \<times> (string \<times> 'v) list) lru_ops" where
  "list_lru =
     \<lparr>lru_new = (\<lambda>n. (n, [])), lru_cap = fst, lru_iter = snd,
      lru_get = (\<lambda>k (n, xs). (map_of xs k,
        (n, case map_of xs k of Some v \<Rightarrow> (k, v) # del k xs | None \<Rightarrow> xs))),
      lru_peek = (\<lambda>k (n, xs). map_of xs k),
      lru_contains = (\<lambda>k (n, xs). map_of xs k \<noteq> None),
      lru_push = (\<lambda>k v (n, xs). case push_spec n k v xs of (e, ys) \<Rightarrow> (e, (n, ys))),
      lru_pop = (\<lambda>k (n, xs). (map_of xs k, (n, del k xs))),
      lru_len = (\<lambda>(n, xs). length xs), lru_clear = (\<lambda>(n, xs). (n, []))\<rparr>"

definition list_lru_ok :: "nat \<times> (string \<times> 'v) list \<Rightarrow> bool" where
  "list_lru_ok l \<longleftrightarrow> 0 < fst l \<and> distinct (map fst (snd l)) \<and> length (snd l) \<le> fst l"

lemma length_del_in: "k \<in> fst ` set xs \<Longrightarrow> length (del k xs) < length xs"
  by (auto simp: del_def intro!: length_filter_less)

lemma length_del: "length (del k xs) \<le> length xs"
  by (simp add: del_def)

lemma map_of_Some_length_del: "map_of xs k = Some v \<Longrightarrow> Suc (length (del k xs)) \<le> length xs"
  using length_del_in [of k xs] by (force dest: map_of_SomeD intro!: Suc_leI)

lemma push_spec_ok:
  assumes n: "0 < n" and d: "distinct (map fst xs)" and l: "length xs \<le> n"
    and p: "push_spec n k v xs = (e, ys)"
  shows "distinct (map fst ys) \<and> length ys \<le> n"
proof (cases "map_of xs k")
  case None
  then have k: "k \<notin> fst ` set xs" by (simp add: map_of_eq_None_iff)
  then have "k \<notin> fst ` set (butlast xs)" by (auto dest: in_set_butlastD)
  moreover have "distinct (map fst (butlast xs))"
    using d by (simp add: map_butlast distinct_butlast)
  ultimately show ?thesis
    using None k n d l p by (auto simp: push_spec_def split: if_splits)
next
  case (Some w)
  with d l p map_of_Some_length_del [OF Some] show ?thesis
    by (auto simp: push_spec_def distinct_del)
qed

lemma get_spec_ok:
  assumes "distinct (map fst xs)" "length xs \<le> n" "map_of xs k = Some v"
  shows "distinct (map fst ((k, v) # del k xs)) \<and> length ((k, v) # del k xs) \<le> n"
  using assms map_of_Some_length_del [OF assms(3)] by (auto simp: distinct_del)

interpretation ll: lru_cache list_lru list_lru_ok
proof unfold_locales
  fix k :: string and v :: 'a and l l' :: "nat \<times> (string \<times> 'a) list" and r e
  assume ok: "list_lru_ok l"
  {
    assume "lru_get list_lru k l = (r, l')"
    with ok get_spec_ok [of "snd l" "fst l" k] show "r = map_of (lru_iter list_lru l) k \<and> list_lru_ok l' \<and>
      lru_cap list_lru l' = lru_cap list_lru l \<and> lru_iter list_lru l' =
        (case r of Some v \<Rightarrow> (k, v) # del k (lru_iter list_lru l) | None \<Rightarrow> lru_iter list_lru l)"
      by (cases l; cases "map_of (snd l) k") (auto simp: list_lru_def list_lru_ok_def)
  }
  {
    assume "lru_push list_lru k v l = (e, l')"
    with ok push_spec_ok [of "fst l" "snd l" k v] show "list_lru_ok l' \<and>
      lru_cap list_lru l' = lru_cap list_lru l \<and>
      (e, lru_iter list_lru l') = push_spec (lru_cap list_lru l) k v (lru_iter list_lru l)"
      by (auto simp: list_lru_def list_lru_ok_def split: prod.splits)
  }
  {
    assume "lru_pop list_lru k l = (r, l')"
    with ok length_del [of k "snd l"] show "r = map_of (lru_iter list_lru l) k \<and> list_lru_ok l' \<and>
      lru_cap list_lru l' = lru_cap list_lru l \<and> lru_iter list_lru l' = del k (lru_iter list_lru l)"
      by (auto simp: list_lru_def list_lru_ok_def distinct_del split: prod.splits)
  }
qed (auto simp: list_lru_def list_lru_ok_def split: prod.splits)

section \<open>Properties\<close>

lemma and_9_cases: "unat (x AND (9 :: u64)) \<in> {0, 1, 8, 9}"
proof -
  let ?y = "x AND 9"
  have "?y \<le> 9" by (rule word_and_le1)
  then have le: "unat ?y \<le> 9" by (simp add: word_le_nat_alt)
  have "of_nat (unat ?y) AND 9 = (of_nat (unat ?y) :: u64)" by (simp add: and.assoc)
  moreover have "n \<in> {0, 1, 8, 9}" if "n \<le> 9" "of_nat n AND 9 = (of_nat n :: u64)" for n
  proof -
    have "n = 0 \<or> n = 1 \<or> n = 2 \<or> n = 3 \<or> n = 4 \<or> n = 5 \<or> n = 6 \<or> n = 7 \<or> n = 8 \<or> n = 9"
      using that(1) by auto
    with that(2) show ?thesis by auto
  qed
  ultimately show ?thesis using le by blast
qed

lemma lru_list_len_bound:
  "lru_cache ops ok \<Longrightarrow> ok l \<Longrightarrow> lru_len ops l \<le> lru_cap ops l \<and> 0 < lru_cap ops l"
  by (simp add: lru_cache.len lru_cache.ok_bound lru_cache.ok_cap)

text \<open>
  C13: the sharded cache is a map. After a push, a lookup of the pushed key finds the
  pushed value, and a lookup of any other key finds what it found before, unless the push
  returned that key as evicted.
\<close>

theorem sharded_push_then_get:
  assumes "lru_cache ops ok" and "sharded_reachable ops capacity c"
    and "sharded_push ops k v c = (e, c')"
  shows "fst (sharded_get ops k' c') =
    (if k' = k then Some v
     else if \<exists>w. e = Some (k', w) then None else fst (sharded_get ops k' c))"
proof -
  have ok: "sharded_ok ops ok c" using lru_cache.reachable_facts [OF assms(1,2)] by blast
  note p = lru_cache.push_facts [OF assms(1) ok assms(3)]
  have "fst (sharded_get ops k' c') = lookup ops c' k'" "fst (sharded_get ops k' c) = lookup ops c k'"
    using lru_cache.get_facts(1) [OF assms(1) p(1) prod.collapse [symmetric]]
      lru_cache.get_facts(1) [OF assms(1) ok prod.collapse [symmetric]] by simp_all
  then show ?thesis by (auto simp: p(2) forget_def split: option.split)
qed

theorem sharded_push_then_get_witness:
  "fst (sharded_get list_lru ''b''
     (snd (sharded_push list_lru ''a'' (1 :: nat) (sharded_new list_lru 4)))) = None"
proof -
  obtain e c' where p: "sharded_push list_lru ''a'' (1 :: nat) (sharded_new list_lru 4) = (e, c')"
    by fastforce
  have "fst (sharded_get list_lru ''b'' (sharded_new list_lru 4 :: (nat \<times> (string \<times> nat) list) sharded)) = None"
    using ll.get_facts(1) [OF ll.new_facts(1) prod.collapse [symmetric]]
    by (simp add: ll.new_facts(2))
  with sharded_push_then_get [OF ll.lru_cache_axioms sharded_reachable.init p, of "''b''"] p
  show ?thesis by (simp split: if_splits)
qed

text \<open>
  C20: whatever operations are applied, a cache created for a capacity never holds more
  entries than that capacity (a capacity of zero counts as one).
\<close>

theorem sharded_len_bounded:
  assumes "lru_cache ops ok" and "sharded_reachable ops capacity c"
  shows "sharded_len ops c \<le> max capacity 1"
  using lru_cache.reachable_facts [OF assms] lru_cache.len_le_total [OF assms(1), of c] by simp

theorem sharded_len_bounded_witness:
  "sharded_len list_lru (snd (sharded_push list_lru ''a'' (1 :: nat) (sharded_new list_lru 20))) \<le> max 20 1"
  by (rule sharded_len_bounded [OF ll.lru_cache_axioms])
    (intro sharded_reachable.push sharded_reachable.init)

text \<open>
  The mask only addresses every shard when their number is a power of two. A cache
  created for ten entries has ten shards of one entry, but keys are only ever sent to four
  of them, so it never holds more than four entries.
\<close>

theorem sharded_capacity_lost:
  assumes "lru_cache ops ok" and "sharded_reachable ops 10 c"
  shows "sharded_len ops c \<le> 4"
proof -
  have ok: "sharded_ok ops ok c" and cap: "total_cap ops c = 10"
    and m: "mask c = mask (sharded_new ops 10)"
    using lru_cache.reachable_facts [OF assms] by simp_all
  have m9: "mask c = 9" unfolding m by (simp add: sharded_new_def SHARDS_def Let_def)
  with ok have len: "length (shards c) = 10" by (simp add: sharded_ok_def)
  then obtain s0 s1 s2 s3 s4 s5 s6 s7 s8 s9 where
    sh: "shards c = [s0, s1, s2, s3, s4, s5, s6, s7, s8, s9]"
    by (auto simp: length_Suc_conv numeral_eq_Suc)
  have "\<forall>l \<in> set (shards c). ok l"
    using ok by (auto simp: sharded_ok_def in_set_conv_nth)
  then have b: "\<forall>l \<in> set (shards c). lru_len ops l \<le> lru_cap ops l \<and> 0 < lru_cap ops l"
    using lru_list_len_bound [OF assms(1)] by blast
  have e: "lru_len ops (shards c ! i) = 0" if "i \<in> {2, 3, 4, 5, 6, 7}" for i
  proof -
    have "shard_index c k \<noteq> i" for k
      using that and_9_cases [of "fnv1a k"] by (auto simp: shard_index_def m9)
    moreover have i: "i < length (shards c)" using that len by auto
    ultimately have "lru_iter ops (shards c ! i) = []"
      by (intro lru_cache.unreached_shard_empty [OF assms(1) ok]) auto
    moreover have "ok (shards c ! i)" using ok i by (simp add: sharded_ok_def)
    ultimately show ?thesis by (simp add: lru_cache.len [OF assms(1)])
  qed
  have "lru_len ops s2 = 0" "lru_len ops s3 = 0" "lru_len ops s4 = 0" "lru_len ops s5 = 0"
    "lru_len ops s6 = 0" "lru_len ops s7 = 0"
    using e [of 2] e [of 3] e [of 4] e [of 5] e [of 6] e [of 7] by (simp_all add: sh)
  with b cap show ?thesis by (simp add: sharded_len_def total_cap_def sh)
qed

theorem sharded_capacity_lost_witness:
  "sharded_len list_lru (snd (sharded_push list_lru ''a'' (1 :: nat) (sharded_new list_lru 10))) \<le> 4"
  by (rule sharded_capacity_lost [OF ll.lru_cache_axioms])
    (intro sharded_reachable.push sharded_reachable.init)

end
