(* ===== verification/Refresh_Queue.thy ===== *)
theory Refresh_Queue
  imports Pipeline "HOL-Library.Multiset"
begin

text \<open>
  Background refresh: \<^verbatim>\<open>src/utils/task_queue/\<close> (\<^verbatim>\<open>refresh_coordinator.rs\<close>,
  \<^verbatim>\<open>stats.rs\<close>, \<^verbatim>\<open>mod.rs\<close>) together with the dedup set and the spawned futures of
  \<^verbatim>\<open>CachePlugin::spawn_background_refresh\<close>.

  The tokio channel is a bounded list; the tasks that workers hold are \<open>co_in_flight\<close>, and
  \<open>co_notifying\<close> are the keys whose worker has left the processing set and has yet to call
  back. Counters are 64-bit words. Cache requests, futures, workers and shutdown interleave
  freely (\<open>refresh_step\<close>). One \<^verbatim>\<open>enqueue\<close> is one step: the caller holds the coordinator's
  mutex, and a worker cannot touch the key that the call has just inserted.

  In every reachable state there is at most one live task per key, the dedup set is exactly
  the set of live keys, and the queue respects its capacity.
\<close>

section \<open>Statistics\<close>

record refresh_stats =
  st_enqueued :: u64
  st_processed :: u64
  st_rejected :: u64
  st_dedup_skipped :: u64
  st_success :: u64
  st_failed :: u64
  st_timeout :: u64

definition refresh_stats_new :: refresh_stats where
  "refresh_stats_new = \<lparr>st_enqueued = 0, st_processed = 0, st_rejected = 0, st_dedup_skipped = 0,
     st_success = 0, st_failed = 0, st_timeout = 0\<rparr>"

definition record_enqueued :: "refresh_stats \<Rightarrow> refresh_stats" where
  "record_enqueued s = s\<lparr>st_enqueued := st_enqueued s + 1\<rparr>"

definition record_rejected :: "refresh_stats \<Rightarrow> refresh_stats" where
  "record_rejected s = s\<lparr>st_rejected := st_rejected s + 1\<rparr>"

definition record_dedup_skipped :: "refresh_stats \<Rightarrow> refresh_stats" where
  "record_dedup_skipped s = s\<lparr>st_dedup_skipped := st_dedup_skipped s + 1\<rparr>"

definition record_processed :: "refresh_stats \<Rightarrow> refresh_stats" where
  "record_processed s = s\<lparr>st_processed := st_processed s + 1\<rparr>"

definition record_success :: "refresh_stats \<Rightarrow> refresh_stats" where
  "record_success s = s\<lparr>st_success := st_success s + 1\<rparr>"

definition record_failed :: "refresh_stats \<Rightarrow> refresh_stats" where
  "record_failed s = s\<lparr>st_failed := st_failed s + 1\<rparr>"

definition record_timeout :: "refresh_stats \<Rightarrow> refresh_stats" where
  "record_timeout s = s\<lparr>st_timeout := st_timeout s + 1\<rparr>"

definition queue_depth :: "refresh_stats \<Rightarrow> u64" where
  "queue_depth s =
     saturating_sub (st_enqueued s) (st_processed s + st_rejected s + st_dedup_skipped s)"

section \<open>The coordinator\<close>

record refresh_task =
  task_key :: string
  task_message :: message
  task_entry_name :: string
  task_created_at :: nat

datatype enqueue_error = AlreadyProcessing | QueueFull | Closed

fun enqueue_error_into :: "enqueue_error \<Rightarrow> error" where
  "enqueue_error_into AlreadyProcessing = PluginError ''Refresh already in progress''"
| "enqueue_error_into QueueFull = PluginError ''Refresh queue full''"
| "enqueue_error_into Closed = PluginError ''Refresh coordinator closed''"

record coordinator =
  co_queue :: "refresh_task list"
  co_capacity :: nat
  co_closed :: bool
  co_in_flight :: "refresh_task list"
  co_notifying :: "string list"
  co_processing :: "string set"
  co_stats :: refresh_stats

definition coordinator_new :: "nat \<Rightarrow> coordinator" where
  "coordinator_new queue_capacity =
     \<lparr>co_queue = [], co_capacity = queue_capacity, co_closed = False, co_in_flight = [],
      co_notifying = [], co_processing = {}, co_stats = refresh_stats_new\<rparr>"

definition update_stats :: "(refresh_stats \<Rightarrow> refresh_stats) \<Rightarrow> coordinator \<Rightarrow> coordinator" where
  "update_stats f c = c\<lparr>co_stats := f (co_stats c)\<rparr>"

definition enqueue :: "refresh_task \<Rightarrow> coordinator \<Rightarrow> error option \<times> coordinator" where
  "enqueue t c =
     (if task_key t \<in> co_processing c
      then (Some (enqueue_error_into AlreadyProcessing), update_stats record_dedup_skipped c)
      else
        let c1 = c\<lparr>co_processing := insert (task_key t) (co_processing c)\<rparr> in
        if co_closed c1
        then (Some (enqueue_error_into Closed),
              c1\<lparr>co_processing := co_processing c1 - {task_key t}\<rparr>)
        else if length (co_queue c1) \<ge> co_capacity c1
        then (Some (enqueue_error_into QueueFull),
              update_stats record_rejected (c1\<lparr>co_processing := co_processing c1 - {task_key t}\<rparr>))
        else (None, update_stats record_enqueued (c1\<lparr>co_queue := co_queue c1 @ [t]\<rparr>)))"

text \<open>\<^verbatim>\<open>execute_task\<close> on the handler's answer, and what the worker sees under its timeout
  (\<open>None\<close>: the ten seconds ran out).\<close>

definition execute_task :: "message result \<Rightarrow> error option" where
  "execute_task answer =
     (case answer of
        Inr r \<Rightarrow> if msg_rcode r = RC_NoError then None
                 else Some (PluginError (''Response code: '' @ response_code_debug (msg_rcode r)))
      | Inl e \<Rightarrow> Some e)"

definition worker_recv :: "coordinator \<Rightarrow> coordinator option" where
  "worker_recv c =
     (case co_queue c of
        [] \<Rightarrow> None
      | t # ts \<Rightarrow> Some (c\<lparr>co_queue := ts, co_in_flight := co_in_flight c @ [t]\<rparr>))"

definition worker_finish :: "refresh_task \<Rightarrow> message result option \<Rightarrow> coordinator \<Rightarrow> coordinator" where
  "worker_finish t answer c =
     (let c = update_stats record_processed c;
          c = (case answer of
                 Some r \<Rightarrow> if execute_task r = None then update_stats record_success c
                           else update_stats record_failed c
               | None \<Rightarrow> update_stats record_timeout c)
      in c\<lparr>co_processing := co_processing c - {task_key t},
           co_in_flight := remove1 t (co_in_flight c),
           co_notifying := co_notifying c @ [task_key t]\<rparr>)"

section \<open>The refresh system\<close>

text \<open>What the cache has spawned: a future that enqueues the task, or (without a handler
  in the metadata) one that invalidates the entry.\<close>

datatype spawned = SpawnEnqueue refresh_task | SpawnInvalidate string

fun spawned_key :: "spawned \<Rightarrow> string" where
  "spawned_key (SpawnEnqueue t) = task_key t"
| "spawned_key (SpawnInvalidate k) = k"

record refresh_system =
  rs_refreshing :: "string set"
  rs_spawned :: "spawned list"
  rs_accepting :: bool
  rs_coord :: coordinator

definition refresh_system_new :: "bool \<Rightarrow> nat \<Rightarrow> refresh_system" where
  "refresh_system_new accepting cap =
     \<lparr>rs_refreshing = {}, rs_spawned = [], rs_accepting = accepting, rs_coord = coordinator_new cap\<rparr>"

text \<open>The synchronous part of \<^verbatim>\<open>spawn_background_refresh\<close> on the dedup set; the flag tells
  whether a refresh was started.\<close>

definition request_refresh :: "spawned \<Rightarrow> refresh_system \<Rightarrow> bool \<times> refresh_system" where
  "request_refresh f s =
     (if spawned_key f \<in> rs_refreshing s then (False, s)
      else (True, s\<lparr>rs_refreshing := insert (spawned_key f) (rs_refreshing s),
                    rs_spawned := rs_spawned s @ [f]\<rparr>))"

definition release_key :: "string \<Rightarrow> refresh_system \<Rightarrow> refresh_system" where
  "release_key k s = s\<lparr>rs_refreshing := rs_refreshing s - {k}\<rparr>"

text \<open>The body of a spawned future, once it is scheduled.\<close>

definition run_spawned :: "spawned \<Rightarrow> refresh_system \<Rightarrow> refresh_system" where
  "run_spawned f s =
     (let s = s\<lparr>rs_spawned := remove1 f (rs_spawned s)\<rparr> in
      case f of
        SpawnEnqueue t \<Rightarrow>
          if rs_accepting s then
            (case enqueue t (rs_coord s) of (err, c) \<Rightarrow>
               let s = s\<lparr>rs_coord := c\<rparr> in
               if err = None then s else release_key (task_key t) s)
          else release_key (task_key t) s
      | SpawnInvalidate k \<Rightarrow> release_key k s)"

text \<open>The completion callback installed by \<^verbatim>\<open>build_coordinator\<close>.\<close>

definition on_complete :: "string \<Rightarrow> refresh_system \<Rightarrow> refresh_system" where
  "on_complete k s =
     release_key k (s\<lparr>rs_coord := (rs_coord s)\<lparr>co_notifying := remove1 k (co_notifying (rs_coord s))\<rparr>\<rparr>)"

inductive refresh_step :: "refresh_system \<Rightarrow> refresh_system \<Rightarrow> bool" where
  request: "refresh_step s (snd (request_refresh f s))"
| spawned: "f \<in> set (rs_spawned s) \<Longrightarrow> refresh_step s (run_spawned f s)"
| recv: "worker_recv (rs_coord s) = Some c \<Longrightarrow> refresh_step s (s\<lparr>rs_coord := c\<rparr>)"
| finish: "t \<in> set (co_in_flight (rs_coord s)) \<Longrightarrow>
     refresh_step s (s\<lparr>rs_coord := worker_finish t answer (rs_coord s)\<rparr>)"
| notify: "k \<in> set (co_notifying (rs_coord s)) \<Longrightarrow> refresh_step s (on_complete k s)"
| shutdown: "refresh_step s (s\<lparr>rs_accepting := False\<rparr>)"

inductive refresh_reachable :: "refresh_system \<Rightarrow> bool" where
  start: "refresh_reachable (refresh_system_new accepting cap)"
| step: "refresh_reachable s \<Longrightarrow> refresh_step s s' \<Longrightarrow> refresh_reachable s'"

section \<open>The invariant\<close>

definition live_keys :: "refresh_system \<Rightarrow> string list" where
  "live_keys s = map spawned_key (rs_spawned s) @ map task_key (co_queue (rs_coord s)) @
     map task_key (co_in_flight (rs_coord s)) @ co_notifying (rs_coord s)"

definition coord_ok :: "coordinator \<Rightarrow> bool" where
  "coord_ok c \<longleftrightarrow>
     co_processing c = set (map task_key (co_queue c @ co_in_flight c)) \<and>
     length (co_queue c) \<le> co_capacity c \<and> \<not> co_closed c \<and>
     st_enqueued (co_stats c) =
       st_processed (co_stats c) + of_nat (length (co_queue c) + length (co_in_flight c)) \<and>
     st_processed (co_stats c) =
       st_success (co_stats c) + st_failed (co_stats c) + st_timeout (co_stats c)"

definition refresh_inv :: "refresh_system \<Rightarrow> bool" where
  "refresh_inv s \<longleftrightarrow> distinct (live_keys s) \<and> rs_refreshing s = set (live_keys s) \<and>
     coord_ok (rs_coord s) \<and> st_dedup_skipped (co_stats (rs_coord s)) = 0"

lemmas record_stat_defs = record_enqueued_def record_rejected_def record_dedup_skipped_def
  record_processed_def record_success_def record_failed_def record_timeout_def update_stats_def

text \<open>The live keys are compared as multisets: tasks move between the stages.\<close>

lemma live_same:
  assumes "mset ys = mset xs"
  shows "distinct ys = distinct xs" "set ys = set xs"
  using assms mset_eq_imp_distinct_iff mset_eq_setD by blast+

lemma live_drop:
  assumes "mset ys = mset xs - {#k#}" and "distinct xs"
  shows "distinct ys" "set ys = set xs - {k}"
proof -
  have m: "mset ys = mset (remove1 k xs)" using assms(1) by simp
  show "distinct ys" using live_same(1) [OF m] assms(2) by (simp add: distinct_remove1)
  show "set ys = set xs - {k}" using live_same(2) [OF m] assms(2) by (simp add: set_remove1_eq)
qed

lemma mset_map_remove1:
  "x \<in> set xs \<Longrightarrow> mset (map f (remove1 x xs)) = mset (map f xs) - {#f x#}"
  by (induction xs) auto

lemma coord_ok_recv: "coord_ok c \<Longrightarrow> worker_recv c = Some c' \<Longrightarrow> coord_ok c'"
  by (auto simp: coord_ok_def worker_recv_def algebra_simps split: list.splits)

lemma worker_finish_sel:
  "co_queue (worker_finish t a c) = co_queue c"
  "co_in_flight (worker_finish t a c) = remove1 t (co_in_flight c)"
  "co_notifying (worker_finish t a c) = co_notifying c @ [task_key t]"
  "co_processing (worker_finish t a c) = co_processing c - {task_key t}"
  "st_dedup_skipped (co_stats (worker_finish t a c)) = st_dedup_skipped (co_stats c)"
  "co_capacity (worker_finish t a c) = co_capacity c" "co_closed (worker_finish t a c) = co_closed c"
  by (simp_all add: worker_finish_def Let_def record_stat_defs split: option.split)

lemma worker_finish_stats:
  "st_enqueued (co_stats (worker_finish t a c)) = st_enqueued (co_stats c)"
  "st_processed (co_stats (worker_finish t a c)) = st_processed (co_stats c) + 1"
  "st_success (co_stats (worker_finish t a c)) + st_failed (co_stats (worker_finish t a c)) +
     st_timeout (co_stats (worker_finish t a c)) =
   st_success (co_stats c) + st_failed (co_stats c) + st_timeout (co_stats c) + 1"
  by (simp_all add: worker_finish_def Let_def record_stat_defs split: option.split)

lemma coord_ok_finish:
  assumes "coord_ok c" and "t \<in> set (co_in_flight c)"
    and "distinct (map task_key (co_queue c @ co_in_flight c))"
  shows "coord_ok (worker_finish t a c)"
proof -
  have "mset (map task_key (co_queue c @ remove1 t (co_in_flight c))) =
      mset (map task_key (co_queue c @ co_in_flight c)) - {#task_key t#}"
    using assms(2) by (simp add: mset_map_remove1 [OF assms(2), of task_key, simplified])
  from live_drop(2) [OF this assms(3)]
  have "co_processing (worker_finish t a c) =
      set (map task_key (co_queue (worker_finish t a c) @ co_in_flight (worker_finish t a c)))"
    using assms(1) by (simp add: coord_ok_def worker_finish_sel)
  moreover obtain n where "length (co_in_flight c) = Suc n"
    using assms(2) by (cases "co_in_flight c") auto
  then have "st_enqueued (co_stats (worker_finish t a c)) = st_processed (co_stats (worker_finish t a c)) +
      of_nat (length (co_queue (worker_finish t a c)) + length (co_in_flight (worker_finish t a c)))"
    using assms(1,2) by (simp add: coord_ok_def worker_finish_sel worker_finish_stats length_remove1)
  moreover have "st_processed (co_stats (worker_finish t a c)) = st_success (co_stats (worker_finish t a c)) +
      st_failed (co_stats (worker_finish t a c)) + st_timeout (co_stats (worker_finish t a c))"
    using assms(1) unfolding worker_finish_stats by (simp add: coord_ok_def)
  ultimately show ?thesis
    using assms(1) unfolding coord_ok_def by (simp only: worker_finish_sel) simp
qed

lemma enqueue_facts:
  assumes "coord_ok c" and "task_key t \<notin> co_processing c" and "enqueue t c = (err, c')"
  shows "coord_ok c'" and "co_in_flight c' = co_in_flight c" and "co_notifying c' = co_notifying c"
    and "st_dedup_skipped (co_stats c') = st_dedup_skipped (co_stats c)"
    and "co_queue c' = (if err = None then co_queue c @ [t] else co_queue c)"
    and "err = None \<longleftrightarrow> length (co_queue c) < co_capacity c"
  using assms by (auto simp: enqueue_def Let_def coord_ok_def record_stat_defs split: if_splits)

lemma inv_request: "refresh_inv s \<Longrightarrow> refresh_inv (snd (request_refresh f s))"
  by (auto simp: refresh_inv_def request_refresh_def live_keys_def)

lemma refresh_invI_same:
  assumes "refresh_inv s" and "mset (live_keys s') = mset (live_keys s)"
    and "rs_refreshing s' = rs_refreshing s" and "coord_ok (rs_coord s')"
    and "st_dedup_skipped (co_stats (rs_coord s')) = st_dedup_skipped (co_stats (rs_coord s))"
  shows "refresh_inv s'"
  using assms live_same [OF assms(2)] by (simp add: refresh_inv_def)

lemma refresh_invI_drop:
  assumes "refresh_inv s" and "mset (live_keys s') = mset (live_keys s) - {#k#}"
    and "rs_refreshing s' = rs_refreshing s - {k}" and "coord_ok (rs_coord s')"
    and "st_dedup_skipped (co_stats (rs_coord s')) = st_dedup_skipped (co_stats (rs_coord s))"
  shows "refresh_inv s'"
  using assms live_drop [OF assms(2)] by (simp add: refresh_inv_def)

lemma inv_recv:
  assumes "refresh_inv s" and "worker_recv (rs_coord s) = Some c"
  shows "refresh_inv (s\<lparr>rs_coord := c\<rparr>)"
proof (rule refresh_invI_same [OF assms(1)])
  show "coord_ok (rs_coord (s\<lparr>rs_coord := c\<rparr>))"
    using assms(1) coord_ok_recv [OF _ assms(2)] by (simp add: refresh_inv_def)
qed (use assms(2) in \<open>auto simp: live_keys_def worker_recv_def split: list.splits\<close>)

lemma inv_finish:
  assumes "refresh_inv s" and "t \<in> set (co_in_flight (rs_coord s))"
  shows "refresh_inv (s\<lparr>rs_coord := worker_finish t a (rs_coord s)\<rparr>)"
proof (rule refresh_invI_same [OF assms(1)])
  show "coord_ok (rs_coord (s\<lparr>rs_coord := worker_finish t a (rs_coord s)\<rparr>))"
    using assms(1) coord_ok_finish [OF _ assms(2)]
    by (simp add: refresh_inv_def live_keys_def Int_Un_distrib)
  have "task_key t \<in># mset (map task_key (co_in_flight (rs_coord s)))" using assms(2) by simp
  then show "mset (live_keys (s\<lparr>rs_coord := worker_finish t a (rs_coord s)\<rparr>)) = mset (live_keys s)"
    using mset_map_remove1 [OF assms(2), of task_key]
    by (simp add: live_keys_def worker_finish_sel)
qed (simp_all add: worker_finish_sel)

lemma inv_notify:
  assumes "refresh_inv s" and "k \<in> set (co_notifying (rs_coord s))"
  shows "refresh_inv (on_complete k s)"
proof (rule refresh_invI_drop [OF assms(1)])
  show "mset (live_keys (on_complete k s)) = mset (live_keys s) - {#k#}"
    using assms(2) by (simp add: live_keys_def on_complete_def release_key_def)
qed (use assms(1) in \<open>simp_all add: on_complete_def release_key_def refresh_inv_def coord_ok_def\<close>)

lemma spawned_key_mset:
  assumes "f \<in> set (rs_spawned s)"
  shows "mset (map spawned_key (remove1 f (rs_spawned s))) =
    mset (map spawned_key (rs_spawned s)) - {#spawned_key f#}"
    and "spawned_key f \<in># mset (map spawned_key (rs_spawned s))"
  using assms by (simp_all only: mset_map_remove1) simp

lemma inv_release:
  assumes "refresh_inv s" and "f \<in> set (rs_spawned s)"
    and "coord_ok c" and "co_queue c = co_queue (rs_coord s)"
    and "co_in_flight c = co_in_flight (rs_coord s)" and "co_notifying c = co_notifying (rs_coord s)"
    and "st_dedup_skipped (co_stats c) = st_dedup_skipped (co_stats (rs_coord s))"
  shows "refresh_inv (release_key (spawned_key f) (s\<lparr>rs_spawned := remove1 f (rs_spawned s), rs_coord := c\<rparr>))"
  by (rule refresh_invI_drop [OF assms(1)])
    (use assms spawned_key_mset [OF assms(2)] in \<open>simp_all add: live_keys_def release_key_def\<close>)

lemma inv_enqueued:
  assumes "refresh_inv s" and "SpawnEnqueue t \<in> set (rs_spawned s)"
    and "coord_ok c" and "co_queue c = co_queue (rs_coord s) @ [t]"
    and "co_in_flight c = co_in_flight (rs_coord s)" and "co_notifying c = co_notifying (rs_coord s)"
    and "st_dedup_skipped (co_stats c) = st_dedup_skipped (co_stats (rs_coord s))"
  shows "refresh_inv (s\<lparr>rs_spawned := remove1 (SpawnEnqueue t) (rs_spawned s), rs_coord := c\<rparr>)"
  by (rule refresh_invI_same [OF assms(1)])
    (use assms spawned_key_mset [OF assms(2)] in \<open>simp_all add: live_keys_def\<close>)

lemma spawned_not_processing:
  assumes "refresh_inv s" and "SpawnEnqueue t \<in> set (rs_spawned s)"
  shows "task_key t \<notin> co_processing (rs_coord s)"
proof -
  have "task_key t \<in> spawned_key ` set (rs_spawned s)" using assms(2) by force
  with assms(1) show ?thesis by (auto simp: refresh_inv_def live_keys_def coord_ok_def)
qed

lemma inv_spawned:
  assumes "refresh_inv s" and f: "f \<in> set (rs_spawned s)"
  shows "refresh_inv (run_spawned f s)"
proof -
  have ok: "coord_ok (rs_coord s)" using assms(1) by (simp add: refresh_inv_def)
  have rel: "refresh_inv (release_key (spawned_key f) (s\<lparr>rs_spawned := remove1 f (rs_spawned s)\<rparr>))"
    using inv_release [OF assms ok] by simp
  show ?thesis
  proof (cases f)
    case (SpawnInvalidate k)
    with rel show ?thesis by (simp add: run_spawned_def)
  next
    case (SpawnEnqueue t)
    obtain err c' where e: "enqueue t (rs_coord s) = (err, c')" by fastforce
    note q = enqueue_facts [OF ok spawned_not_processing [OF assms(1) f [unfolded SpawnEnqueue]] e]
    show ?thesis
    proof (cases "rs_accepting s \<and> err = None")
      case True
      then have "refresh_inv (s\<lparr>rs_spawned := remove1 f (rs_spawned s), rs_coord := c'\<rparr>)"
        using inv_enqueued [OF assms(1) f [unfolded SpawnEnqueue] q(1)] q SpawnEnqueue by simp
      with True SpawnEnqueue e show ?thesis by (simp add: run_spawned_def)
    next
      case False
      with rel inv_release [OF assms q(1)] q SpawnEnqueue e show ?thesis
        by (auto simp: run_spawned_def Let_def)
    qed
  qed
qed

lemma refresh_step_inv: "refresh_step s s' \<Longrightarrow> refresh_inv s \<Longrightarrow> refresh_inv s'"
proof (induction rule: refresh_step.induct)
  case (shutdown s)
  then show ?case by (simp add: refresh_inv_def live_keys_def)
qed (simp_all add: inv_request inv_spawned inv_recv inv_finish inv_notify)

lemma refresh_reachable_inv: "refresh_reachable s \<Longrightarrow> refresh_inv s"
proof (induction rule: refresh_reachable.induct)
  case (start accepting cap)
  then show ?case
    by (simp add: refresh_inv_def live_keys_def refresh_system_new_def coordinator_new_def
        coord_ok_def refresh_stats_new_def)
next
  case (step s s')
  then show ?case using refresh_step_inv by blast
qed

section \<open>Draining\<close>

definition pending_work :: "refresh_system \<Rightarrow> nat" where
  "pending_work s = 4 * length (rs_spawned s) + 3 * length (co_queue (rs_coord s)) +
     2 * length (co_in_flight (rs_coord s)) + length (co_notifying (rs_coord s))"

lemma spawned_work:
  assumes "refresh_inv s" and "f \<in> set (rs_spawned s)"
  shows "pending_work (run_spawned f s) < pending_work s"
proof -
  obtain n where n: "length (rs_spawned s) = Suc n" using assms(2) by (cases "rs_spawned s") auto
  show ?thesis
  proof (cases f)
    case (SpawnInvalidate k)
    with n assms(2) show ?thesis
      by (simp add: run_spawned_def release_key_def pending_work_def length_remove1)
  next
    case (SpawnEnqueue t)
    obtain err c' where e: "enqueue t (rs_coord s) = (err, c')" by fastforce
    have ok: "coord_ok (rs_coord s)" using assms(1) by (simp add: refresh_inv_def)
    note q = enqueue_facts [OF ok spawned_not_processing [OF assms(1) assms(2) [unfolded SpawnEnqueue]] e]
    with n e SpawnEnqueue assms(2) show ?thesis
      by (auto simp: run_spawned_def release_key_def pending_work_def length_remove1 Let_def)
  qed
qed

lemma refresh_work_step:
  assumes "refresh_inv s" and "0 < pending_work s"
  shows "\<exists>s'. refresh_step s s' \<and> pending_work s' < pending_work s"
proof -
  consider (sp) f where "f \<in> set (rs_spawned s)" | (qu) "co_queue (rs_coord s) \<noteq> []"
    | (fl) t where "t \<in> set (co_in_flight (rs_coord s))"
    | (no) k where "k \<in> set (co_notifying (rs_coord s))"
    using assms(2) by (fastforce simp: pending_work_def neq_Nil_conv)
  then show ?thesis
  proof cases
    case sp
    then show ?thesis using spawned_work [OF assms(1)] refresh_step.spawned by blast
  next
    case qu
    then obtain c where c: "worker_recv (rs_coord s) = Some c"
      by (auto simp: worker_recv_def neq_Nil_conv)
    then have "pending_work (s\<lparr>rs_coord := c\<rparr>) < pending_work s"
      by (auto simp: worker_recv_def pending_work_def split: list.splits)
    with c show ?thesis using refresh_step.recv by blast
  next
    case fl
    then obtain n where "length (co_in_flight (rs_coord s)) = Suc n"
      by (cases "co_in_flight (rs_coord s)") auto
    with fl have "pending_work (s\<lparr>rs_coord := worker_finish t None (rs_coord s)\<rparr>) < pending_work s"
      by (simp add: pending_work_def worker_finish_sel length_remove1)
    with fl show ?thesis using refresh_step.finish by blast
  next
    case no
    then obtain n where "length (co_notifying (rs_coord s)) = Suc n"
      by (cases "co_notifying (rs_coord s)") auto
    with no have "pending_work (on_complete k s) < pending_work s"
      by (simp add: pending_work_def on_complete_def release_key_def length_remove1)
    with no show ?thesis using refresh_step.notify by blast
  qed
qed

lemma refresh_drains:
  "refresh_inv s \<Longrightarrow> \<exists>s'. refresh_step\<^sup>*\<^sup>* s s' \<and> refresh_inv s' \<and> pending_work s' = 0"
proof (induction "pending_work s" arbitrary: s rule: less_induct)
  case less
  show ?case
  proof (cases "pending_work s = 0")
    case True
    with less.prems show ?thesis by blast
  next
    case False
    then obtain s1 where s1: "refresh_step s s1" "pending_work s1 < pending_work s"
      using refresh_work_step [OF less.prems] by auto
    with less.hyps [OF s1(2) refresh_step_inv [OF s1(1) less.prems]] show ?thesis
      by (meson converse_rtranclp_into_rtranclp)
  qed
qed

section \<open>Properties\<close>

definition demo_task :: "string \<Rightarrow> refresh_task" where
  "demo_task k = \<lparr>task_key = k, task_message = message_new, task_entry_name = ''main'', task_created_at = 0\<rparr>"

definition demo_refresh :: refresh_system where
  "demo_refresh = run_spawned (SpawnEnqueue (demo_task ''a''))
     (snd (request_refresh (SpawnEnqueue (demo_task ''a'')) (refresh_system_new True 1)))"

lemma demo_refresh_reachable: "refresh_reachable demo_refresh"
  unfolding demo_refresh_def
  by (rule refresh_reachable.step [OF refresh_reachable.step [OF refresh_reachable.start
          refresh_step.request] refresh_step.spawned])
    (simp add: request_refresh_def refresh_system_new_def)

text \<open>
  C11: at any moment, whatever the interleaving of cache hits, spawned futures, workers,
  completions and shutdown, there is at most one refresh per key, the queue holds at most
  its capacity, and the coordinator's own duplicate check has never had to reject a task of
  the cache.
\<close>

theorem one_refresh_per_key:
  assumes "refresh_reachable s"
  shows "distinct (live_keys s) \<and> length (co_queue (rs_coord s)) \<le> co_capacity (rs_coord s) \<and>
    st_dedup_skipped (co_stats (rs_coord s)) = 0"
  using refresh_reachable_inv [OF assms] by (simp add: refresh_inv_def coord_ok_def)

theorem one_refresh_per_key_witness:
  "distinct (live_keys demo_refresh) \<and>
    length (co_queue (rs_coord demo_refresh)) \<le> co_capacity (rs_coord demo_refresh) \<and>
    st_dedup_skipped (co_stats (rs_coord demo_refresh)) = 0"
  using one_refresh_per_key [OF demo_refresh_reachable] .

text \<open>
  C12: no key stays locked. The dedup set holds exactly the keys of the live refreshes, and
  from every reachable state the futures and workers can run to a state in which the set
  is empty.
\<close>

theorem refreshing_keys_released:
  assumes "refresh_reachable s"
  shows "rs_refreshing s = set (live_keys s) \<and> (\<exists>s'. refresh_step\<^sup>*\<^sup>* s s' \<and> rs_refreshing s' = {})"
proof -
  note inv = refresh_reachable_inv [OF assms]
  obtain s' where "refresh_step\<^sup>*\<^sup>* s s'" "refresh_inv s'" "pending_work s' = 0"
    using refresh_drains [OF inv] by blast
  then show ?thesis
    using inv by (auto simp: refresh_inv_def pending_work_def live_keys_def intro!: exI [of _ s'])
qed

theorem refreshing_keys_released_witness:
  "rs_refreshing demo_refresh = set (live_keys demo_refresh) \<and>
    (\<exists>s'. refresh_step\<^sup>*\<^sup>* demo_refresh s' \<and> rs_refreshing s' = {})"
  using refreshing_keys_released [OF demo_refresh_reachable] .

text \<open>
  The reported queue depth subtracts rejected tasks, which were never counted as
  enqueued. After one rejection a full queue of capacity one is reported as empty.
\<close>

theorem queue_depth_undercounts:
  "\<exists>s. refresh_reachable s \<and> length (co_queue (rs_coord s)) = 1 \<and>
     queue_depth (co_stats (rs_coord s)) = 0"
proof -
  let ?f = "SpawnEnqueue (demo_task ''b'')"
  let ?s = "run_spawned ?f (snd (request_refresh ?f demo_refresh))"
  have "?f \<in> set (rs_spawned (snd (request_refresh ?f demo_refresh)))"
    by (simp add: demo_refresh_def request_refresh_def run_spawned_def refresh_system_new_def
        coordinator_new_def enqueue_def update_stats_def demo_task_def)
  then have "refresh_reachable ?s"
    by (intro refresh_reachable.step [OF refresh_reachable.step [OF demo_refresh_reachable
            refresh_step.request] refresh_step.spawned])
  moreover have "length (co_queue (rs_coord ?s)) = 1" "queue_depth (co_stats (rs_coord ?s)) = 0"
    by (simp_all add: demo_refresh_def request_refresh_def run_spawned_def refresh_system_new_def
        coordinator_new_def enqueue_def record_stat_defs demo_task_def release_key_def
        refresh_stats_new_def queue_depth_def)
  ultimately show ?thesis by blast
qed

end
