(* ===== verification/Cache_Plugin.thy ===== *)
theory Cache_Plugin
  imports Sharded_Cache Refresh_Queue
begin

text \<open>
  The cache plugin, \<^verbatim>\<open>src/plugins/cache/mod.rs\<close> and \<^verbatim>\<open>stats.rs\<close>. Its state holds the
  sharded storage, the counters, the options and the refresh system. The operations take
  the LRU implementation as an argument, like the storage does.

  Two options are floating-point fractions. They enter the code only through two
  comparisons, which are the fields \<open>cp_lazycache_below\<close> (remaining and original TTL: is the
  remaining fraction at most the threshold) and \<open>cp_pressure_limit\<close> (the number of entries
  above which cleanup runs again). Each reading of the clock is an argument of its own:
  the expiry test and the remaining TTL read it at different moments.
\<close>

section \<open>State\<close>

record cache_stats =
  cs_hits :: u64
  cs_misses :: u64
  cs_evictions :: u64
  cs_expirations :: u64

definition cache_stats_new :: cache_stats where
  "cache_stats_new = \<lparr>cs_hits = 0, cs_misses = 0, cs_evictions = 0, cs_expirations = 0\<rparr>"

definition total_requests :: "cache_stats \<Rightarrow> u64" where
  "total_requests s = cs_hits s + cs_misses s"

record 'l cache_plugin =
  cp_cache :: "'l sharded"
  cp_max_size :: nat
  cp_stats :: cache_stats
  cp_negative_cache :: bool
  cp_negative_ttl :: u32
  cp_enable_lazycache :: bool
  cp_lazycache_below :: "u32 \<Rightarrow> u32 \<Rightarrow> bool"
  cp_cache_ttl :: "u32 option"
  cp_lazy_refreshes :: u64
  cp_refresh :: refresh_system
  cp_tag :: "string option"
  cp_enable_cleanup :: bool
  cp_cleanup_interval_secs :: u64
  cp_pressure_limit :: nat
  cp_dump_file :: "string option"
  cp_dump_interval_secs :: u64
  cp_changes_since_dump :: u64
  cp_last_dump_unix :: u64

definition STALE_RESPONSE_TTL_SECS :: u32 where
  "STALE_RESPONSE_TTL_SECS = 5"

definition cache_plugin_new :: "(cache_entry, 'l) lru_ops \<Rightarrow> (u32 \<Rightarrow> u32 \<Rightarrow> bool) \<Rightarrow> nat \<Rightarrow> nat \<Rightarrow> 'l cache_plugin" where
  "cache_plugin_new ops below_default limit_default max_size =
     \<lparr>cp_cache = sharded_new ops max_size, cp_max_size = max_size, cp_stats = cache_stats_new,
      cp_negative_cache = False, cp_negative_ttl = 300, cp_enable_lazycache = False,
      cp_lazycache_below = below_default, cp_cache_ttl = None, cp_lazy_refreshes = 0,
      cp_refresh = refresh_system_new False 1000, cp_tag = None, cp_enable_cleanup = True,
      cp_cleanup_interval_secs = 60, cp_pressure_limit = limit_default, cp_dump_file = None,
      cp_dump_interval_secs = 600, cp_changes_since_dump = 0, cp_last_dump_unix = 0\<rparr>"

definition with_negative_cache :: "u32 \<Rightarrow> 'l cache_plugin \<Rightarrow> 'l cache_plugin" where
  "with_negative_cache ttl p = p\<lparr>cp_negative_cache := True, cp_negative_ttl := ttl\<rparr>"

text \<open>The builders create the coordinator unless there is one; nobody else holds the mutex
  while a plugin is being built.\<close>

definition ensure_coordinator :: "'l cache_plugin \<Rightarrow> 'l cache_plugin" where
  "ensure_coordinator p =
     (if rs_accepting (cp_refresh p) then p
      else p\<lparr>cp_refresh := (cp_refresh p)\<lparr>rs_accepting := True, rs_coord := coordinator_new 1000\<rparr>\<rparr>)"

definition with_lazycache :: "(u32 \<Rightarrow> u32 \<Rightarrow> bool) \<Rightarrow> 'l cache_plugin \<Rightarrow> 'l cache_plugin" where
  "with_lazycache threshold p =
     ensure_coordinator (p\<lparr>cp_enable_lazycache := True, cp_lazycache_below := threshold\<rparr>)"

definition with_cache_ttl :: "u32 \<Rightarrow> 'l cache_plugin \<Rightarrow> 'l cache_plugin" where
  "with_cache_ttl ttl_secs p =
     (if ttl_secs > 0 then ensure_coordinator (p\<lparr>cp_cache_ttl := Some ttl_secs\<rparr>) else p)"

definition with_cleanup :: "bool \<Rightarrow> u64 \<Rightarrow> nat \<Rightarrow> 'l cache_plugin \<Rightarrow> 'l cache_plugin" where
  "with_cleanup enabled interval_secs limit p =
     p\<lparr>cp_enable_cleanup := enabled, cp_cleanup_interval_secs := max interval_secs 1,
       cp_pressure_limit := limit\<rparr>"

definition cache_size :: "(cache_entry, 'l) lru_ops \<Rightarrow> 'l cache_plugin \<Rightarrow> nat" where
  "cache_size ops p = sharded_len ops (cp_cache p)"

definition is_refreshing :: "string \<Rightarrow> 'l cache_plugin \<Rightarrow> bool" where
  "is_refreshing key p \<longleftrightarrow> key \<in> rs_refreshing (cp_refresh p)"

subsection \<open>Counters\<close>

definition record_hit :: "'l cache_plugin \<Rightarrow> 'l cache_plugin" where
  "record_hit p = p\<lparr>cp_stats := (cp_stats p)\<lparr>cs_hits := cs_hits (cp_stats p) + 1\<rparr>\<rparr>"

definition record_miss :: "'l cache_plugin \<Rightarrow> 'l cache_plugin" where
  "record_miss p = p\<lparr>cp_stats := (cp_stats p)\<lparr>cs_misses := cs_misses (cp_stats p) + 1\<rparr>\<rparr>"

definition record_eviction :: "'l cache_plugin \<Rightarrow> 'l cache_plugin" where
  "record_eviction p = p\<lparr>cp_stats := (cp_stats p)\<lparr>cs_evictions := cs_evictions (cp_stats p) + 1\<rparr>\<rparr>"

definition record_expiration :: "'l cache_plugin \<Rightarrow> 'l cache_plugin" where
  "record_expiration p = p\<lparr>cp_stats := (cp_stats p)\<lparr>cs_expirations := cs_expirations (cp_stats p) + 1\<rparr>\<rparr>"

section \<open>Keys and TTLs\<close>

fun opt_do_bit :: "rdata \<Rightarrow> bool" where
  "opt_do_bit (RD_OPT _ _ flags _) \<longleftrightarrow> flags AND 0x8000 \<noteq> 0"
| "opt_do_bit _ \<longleftrightarrow> False"

definition key_flags :: "message \<Rightarrow> u8" where
  "key_flags m =
     (let flags = 0;
          flags = (if msg_ad m then flags OR 1 else flags);
          flags = (if msg_cd m then flags OR 2 else flags)
      in if \<exists>rr \<in> set (msg_additional m). opt_do_bit (rr_rdata rr) then flags OR 4 else flags)"

definition make_key :: "message \<Rightarrow> string option" where
  "make_key m =
     (case msg_questions m of
        [] \<Rightarrow> None
      | q # _ \<Rightarrow> Some (join_with (CHR '':'')
          [to_lowercase (qname q), show_nat (unat (record_type_to_u16 (qtype q))),
           show_nat (unat (record_class_to_u16 (qclass q))), show_nat (unat (key_flags m))]))"

definition get_min_ttl :: "message \<Rightarrow> u32" where
  "get_min_ttl m =
     (let min_ttl = foldl (\<lambda>acc r. min acc (rr_ttl r)) 0xFFFFFFFF (records m)
      in if min_ttl = 0xFFFFFFFF then 300 else max min_ttl 1)"

definition update_ttls :: "u32 \<Rightarrow> message \<Rightarrow> message" where
  "update_ttls ttl m = update_records (set_ttl ttl) m"

section \<open>Serving and storing\<close>

definition serve_cached_response :: "cache_entry \<Rightarrow> u32 \<Rightarrow> ctx \<Rightarrow> ctx" where
  "serve_cached_response e ttl c =
     (let r = set_id (msg_id (request c)) (update_ttls ttl (ce_response e));
          r = r\<lparr>msg_questions := msg_questions (request c)\<rparr>
      in set_metadata ''response_from_cache'' (MBool True) (ctx_set_response (Some r) c))"

definition spawn_background_refresh :: "nat \<Rightarrow> ctx \<Rightarrow> string \<Rightarrow> 'l cache_plugin \<Rightarrow> 'l cache_plugin" where
  "spawn_background_refresh now c key p =
     (let f = (case (get_handler ''lazy_refresh_handler'' c, get_string ''lazy_refresh_entry'' c) of
                 (Some h, Some entry_name) \<Rightarrow>
                   SpawnEnqueue \<lparr>task_key = key, task_message = set_id 0xFFFF (request c),
                     task_entry_name = entry_name, task_created_at = now\<rparr>
               | _ \<Rightarrow> SpawnInvalidate key)
      in case request_refresh f (cp_refresh p) of (started, s) \<Rightarrow>
           if started then p\<lparr>cp_refresh := s, cp_lazy_refreshes := cp_lazy_refreshes p + 1\<rparr> else p)"

definition cache_pop :: "(cache_entry, 'l) lru_ops \<Rightarrow> string \<Rightarrow> 'l cache_plugin \<Rightarrow> 'l cache_plugin" where
  "cache_pop ops key p = p\<lparr>cp_cache := snd (sharded_pop ops key (cp_cache p))\<rparr>"

definition try_serve_from_cache :: "(cache_entry, 'l) lru_ops \<Rightarrow> nat \<Rightarrow> nat \<Rightarrow> string \<Rightarrow> ctx
    \<Rightarrow> 'l cache_plugin \<Rightarrow> ctx \<times> 'l cache_plugin" where
  "try_serve_from_cache ops t_exp t_ttl key c p =
     (let already = (get_bool ''cache_checked'' c \<noteq> None);
          c = set_metadata ''cache_checked'' (MBool True) c
      in if get_bool ''background_lazy_refresh'' c \<noteq> None then (c, p)
      else case sharded_get ops key (cp_cache p) of (found, ch) \<Rightarrow>
        let p = p\<lparr>cp_cache := ch\<rparr> in
        case found of
          None \<Rightarrow> (c, if already then p else record_miss p)
        | Some e \<Rightarrow>
            if is_cache_expired t_exp e
            then (c, record_miss (record_expiration (cache_pop ops key p)))
            else
              let p = record_hit p; e = touch t_exp e; rem = remaining_ttl t_ttl e in
              if rem = 0 then
                (if cp_cache_ttl p \<noteq> None
                 then (set_metadata RETURN_FLAG (MBool True)
                         (serve_cached_response e STALE_RESPONSE_TTL_SECS c),
                       spawn_background_refresh t_ttl
                         (serve_cached_response e STALE_RESPONSE_TTL_SECS c) key p)
                 else (c, record_miss (record_expiration (cache_pop ops key p))))
              else if cp_enable_lazycache p \<and> get_bool ''background_lazy_refresh'' c = None \<and>
                      cp_lazycache_below p rem (ce_original_ttl e)
              then (set_metadata RETURN_FLAG (MBool True) (serve_cached_response e rem c),
                    spawn_background_refresh t_ttl (serve_cached_response e rem c) key p)
              else if get_bool ''background_lazy_refresh'' c \<noteq> None then (c, p)
              else (set_metadata RETURN_FLAG (MBool True) (serve_cached_response e rem c), p))"

definition store :: "(cache_entry, 'l) lru_ops \<Rightarrow> string \<Rightarrow> cache_entry \<Rightarrow> 'l cache_plugin \<Rightarrow> 'l cache_plugin" where
  "store ops key e p =
     (let key_exists = sharded_contains ops key (cp_cache p) in
      case sharded_push ops key e (cp_cache p) of (evicted, ch) \<Rightarrow>
        let p = p\<lparr>cp_cache := ch\<rparr>;
            p = (if evicted \<noteq> None \<and> \<not> key_exists then record_eviction p else p)
        in p\<lparr>cp_changes_since_dump := cp_changes_since_dump p + 1\<rparr>)"

definition try_store_response :: "(cache_entry, 'l) lru_ops \<Rightarrow> nat \<Rightarrow> u64 \<Rightarrow> string \<Rightarrow> ctx
    \<Rightarrow> 'l cache_plugin \<Rightarrow> 'l cache_plugin" where
  "try_store_response ops now now_unix key c p =
     (if get_bool ''response_from_cache'' c \<noteq> None then p
      else case response c of
        None \<Rightarrow> p
      | Some r \<Rightarrow>
          if msg_rcode r \<noteq> RC_NoError then
            (if cp_negative_cache p then
               let cache_ttl = (case cp_cache_ttl p of Some t \<Rightarrow> t | None \<Rightarrow> cp_negative_ttl p)
               in store ops key (cache_entry_new now now_unix r (cp_negative_ttl p) cache_ttl) p
             else p)
          else if msg_answers r \<noteq> [] then
            (let ttl = get_min_ttl r in
             if ttl > 0 then
               let cache_ttl = (case cp_cache_ttl p of Some t \<Rightarrow> t | None \<Rightarrow> ttl)
               in store ops key (cache_entry_new now now_unix r ttl cache_ttl) p
             else p)
          else p)"

definition cache_execute :: "(cache_entry, 'l) lru_ops \<Rightarrow> nat \<Rightarrow> nat \<Rightarrow> u64 \<Rightarrow> ctx
    \<Rightarrow> 'l cache_plugin \<Rightarrow> error option \<times> ctx \<times> 'l cache_plugin" where
  "cache_execute ops t_exp t_ttl now_unix c p =
     (case make_key (request c) of
        None \<Rightarrow> (None, c, p)
      | Some key \<Rightarrow>
          if get_bool ''response_from_cache'' c \<noteq> None then (None, c, p)
          else if response c = None then
            (case try_serve_from_cache ops t_exp t_ttl key c p of (c, p) \<Rightarrow> (None, c, p))
          else (None, c, try_store_response ops t_exp now_unix key c p))"

section \<open>Maintenance\<close>

fun repeat_expiration :: "nat \<Rightarrow> 'l cache_plugin \<Rightarrow> 'l cache_plugin" where
  "repeat_expiration 0 p = p"
| "repeat_expiration (Suc n) p = repeat_expiration n (record_expiration p)"

definition cleanup_expired :: "(cache_entry, 'l) lru_ops \<Rightarrow> nat \<Rightarrow> 'l cache_plugin \<Rightarrow> nat \<times> 'l cache_plugin" where
  "cleanup_expired ops now p =
     (case sharded_retain ops (\<lambda>e. \<not> is_cache_expired now e) (cp_cache p) of (removed, ch) \<Rightarrow>
        (removed, repeat_expiration removed (p\<lparr>cp_cache := ch\<rparr>)))"

definition should_cleanup_pressure :: "(cache_entry, 'l) lru_ops \<Rightarrow> 'l cache_plugin \<Rightarrow> bool" where
  "should_cleanup_pressure ops p \<longleftrightarrow> cache_size ops p > cp_pressure_limit p"

definition cache_clear :: "(cache_entry, 'l) lru_ops \<Rightarrow> 'l cache_plugin \<Rightarrow> 'l cache_plugin" where
  "cache_clear ops p = p\<lparr>cp_cache := sharded_clear ops (cp_cache p)\<rparr>"

definition dump_threshold :: u64 where
  "dump_threshold = 1024"

definition dump_interval_elapsed :: "u64 \<Rightarrow> 'l cache_plugin \<Rightarrow> bool" where
  "dump_interval_elapsed now_unix p \<longleftrightarrow>
     cp_last_dump_unix p = 0 \<or>
     saturating_sub now_unix (cp_last_dump_unix p) \<ge> cp_dump_interval_secs p"

text \<open>\<^verbatim>\<open>dump_to_file\<close>; \<open>write\<close> is the effect of \<^verbatim>\<open>persistence::dump_cache\<close> on the file system.\<close>

definition dump_to_file :: "(cache_entry, 'l) lru_ops \<Rightarrow> (string \<Rightarrow> (string \<times> cache_entry) list \<Rightarrow> 'fs \<Rightarrow> error option \<times> 'fs)
    \<Rightarrow> u64 \<Rightarrow> 'l cache_plugin \<Rightarrow> 'fs \<Rightarrow> 'l cache_plugin \<times> 'fs" where
  "dump_to_file ops write now_unix p fs =
     (case cp_dump_file p of
        None \<Rightarrow> (p, fs)
      | Some path \<Rightarrow>
          (case write path (sharded_entries ops (cp_cache p)) fs of
             (None, fs) \<Rightarrow> (p\<lparr>cp_changes_since_dump := 0, cp_last_dump_unix := now_unix\<rparr>, fs)
           | (Some e, fs) \<Rightarrow> (p, fs)))"

definition run_background_task :: "(cache_entry, 'l) lru_ops \<Rightarrow> (string \<Rightarrow> (string \<times> cache_entry) list \<Rightarrow> 'fs \<Rightarrow> error option \<times> 'fs)
    \<Rightarrow> nat \<Rightarrow> u64 \<Rightarrow> 'l cache_plugin \<Rightarrow> 'fs \<Rightarrow> 'l cache_plugin \<times> 'fs" where
  "run_background_task ops write now now_unix p fs =
     (let p = snd (cleanup_expired ops now p);
          p = (if should_cleanup_pressure ops p then snd (cleanup_expired ops now p) else p)
      in if cp_dump_file p \<noteq> None \<and> cp_changes_since_dump p > 0 \<and>
            (cp_changes_since_dump p \<ge> dump_threshold \<or> dump_interval_elapsed now_unix p)
         then dump_to_file ops write now_unix p fs else (p, fs))"

text \<open>\<^verbatim>\<open>shutdown\<close> takes the coordinator out (its workers drain the queue) and dumps once.\<close>

definition cache_shutdown :: "(cache_entry, 'l) lru_ops \<Rightarrow> (string \<Rightarrow> (string \<times> cache_entry) list \<Rightarrow> 'fs \<Rightarrow> error option \<times> 'fs)
    \<Rightarrow> u64 \<Rightarrow> 'l cache_plugin \<Rightarrow> 'fs \<Rightarrow> 'l cache_plugin \<times> 'fs" where
  "cache_shutdown ops write now_unix p fs =
     dump_to_file ops write now_unix (p\<lparr>cp_refresh := (cp_refresh p)\<lparr>rs_accepting := False\<rparr>\<rparr>) fs"

section \<open>Facts\<close>

lemma append_sep_eq:
  assumes "c \<notin> set p" and "c \<notin> set q"
  shows "p @ c # r = q @ c # s \<longleftrightarrow> p = q \<and> r = s"
  using assms
proof (induction p arbitrary: q)
  case Nil
  then show ?case by (cases q) auto
next
  case (Cons a p)
  then show ?case by (cases q) auto
qed

lemma join4_eq:
  assumes "c \<notin> set t" "c \<notin> set u" "c \<notin> set v" "c \<notin> set t'" "c \<notin> set u'" "c \<notin> set v'"
  shows "join_with c [n, t, u, v] = join_with c [n', t', u', v'] \<longleftrightarrow>
    n = n' \<and> t = t' \<and> u = u' \<and> v = v'"
proof -
  have "join_with c [n, t, u, v] = join_with c [n', t', u', v'] \<longleftrightarrow>
      rev (join_with c [n, t, u, v]) = rev (join_with c [n', t', u', v'])"
    by (rule rev_is_rev_conv [symmetric])
  also have "\<dots> \<longleftrightarrow> n = n' \<and> t = t' \<and> u = u' \<and> v = v'"
    using assms by (auto simp: append_sep_eq)
  finally show ?thesis .
qed

lemma unat_eq_iff: "unat (a :: 'a::len word) = unat b \<longleftrightarrow> a = b"
  by (simp add: word_unat_eq_iff)

lemma record_sel [simp]:
  "cp_cache (record_hit p) = cp_cache p" "cp_cache (record_miss p) = cp_cache p"
  "cp_cache (record_eviction p) = cp_cache p" "cp_cache (record_expiration p) = cp_cache p"
  "cp_cache_ttl (record_hit p) = cp_cache_ttl p"
  "cp_enable_lazycache (record_hit p) = cp_enable_lazycache p"
  "cp_lazycache_below (record_hit p) = cp_lazycache_below p"
  by (simp_all add: record_hit_def record_miss_def record_eviction_def record_expiration_def)

lemma spawn_cache [simp]: "cp_cache (spawn_background_refresh now c key p) = cp_cache p"
  by (simp add: spawn_background_refresh_def Let_def split: prod.split option.split)

lemma touch_sel [simp]:
  "remaining_ttl t (touch now e) = remaining_ttl t e" "ce_response (touch now e) = ce_response e"
  "ce_original_ttl (touch now e) = ce_original_ttl e"
  by (simp_all add: touch_def remaining_ttl_def elapsed_secs_def)

lemma serve_sel:
  "request (serve_cached_response e ttl c) = request c"
  "response (serve_cached_response e ttl c) =
     Some ((set_id (msg_id (request c)) (update_ttls ttl (ce_response e)))
       \<lparr>msg_questions := msg_questions (request c)\<rparr>)"
  "metadata (serve_cached_response e ttl c) = (metadata c)(''response_from_cache'' \<mapsto> MBool True)"
  by (simp_all add: serve_cached_response_def Let_def)

lemma records_with_questions [simp]: "records (r\<lparr>msg_questions := qs\<rparr>) = records r"
  by (simp add: records_def)

lemma cache_keys_distinct [simp]:
  "''cache_checked'' \<noteq> ''background_lazy_refresh''" "''background_lazy_refresh'' \<noteq> ''cache_checked''"
  "''cache_checked'' \<noteq> ''response_from_cache''" "''response_from_cache'' \<noteq> ''cache_checked''"
  "RETURN_FLAG \<noteq> ''response_from_cache''" "''response_from_cache'' \<noteq> RETURN_FLAG"
  by (simp_all add: RETURN_FLAG_def)

text \<open>What a lookup that finds a live entry hands out.\<close>

definition served_ttl :: "nat \<Rightarrow> cache_entry \<Rightarrow> u32" where
  "served_ttl t e = (if remaining_ttl t e = 0 then STALE_RESPONSE_TTL_SECS else remaining_ttl t e)"

text \<open>An LRU cache whose values are cache entries.\<close>

locale response_cache = lru_cache ops ok
  for ops :: "(cache_entry, 'l) lru_ops" and ok :: "'l \<Rightarrow> bool"
begin


lemma serve_hit:
  assumes "sharded_ok ops ok (cp_cache p)" and "get_bool ''background_lazy_refresh'' c = None"
    and "lookup ops (cp_cache p) key = Some e" and "\<not> is_cache_expired t_exp e"
    and "remaining_ttl t_ttl e \<noteq> 0 \<or> cp_cache_ttl p \<noteq> None"
  shows "\<exists>p'. try_serve_from_cache ops t_exp t_ttl key c p =
      (set_metadata RETURN_FLAG (MBool True) (serve_cached_response (touch t_exp e) (served_ttl t_ttl e)
         (set_metadata ''cache_checked'' (MBool True) c)), p') \<and>
    sharded_ok ops ok (cp_cache p') \<and> lookup ops (cp_cache p') = lookup ops (cp_cache p)"
proof -
  obtain r ch where g: "sharded_get ops key (cp_cache p) = (r, ch)" by fastforce
  note f = get_facts [OF assms(1) g]
  with assms g show ?thesis
    by (auto simp: try_serve_from_cache_def served_ttl_def Let_def)
qed

lemma serve_none:
  assumes "sharded_ok ops ok (cp_cache p)" and "response c = None"
    and "try_serve_from_cache ops t_exp t_ttl key c p = (c', p')" and "response c' = Some r"
  shows "\<exists>e. lookup ops (cp_cache p) key = Some e \<and> \<not> is_cache_expired t_exp e \<and>
    (remaining_ttl t_ttl e \<noteq> 0 \<or> cp_cache_ttl p \<noteq> None) \<and>
    get_bool ''background_lazy_refresh'' c = None"
proof -
  obtain f ch where g: "sharded_get ops key (cp_cache p) = (f, ch)" by fastforce
  show ?thesis
    using assms(2-4) get_facts(1) [OF assms(1) g] g
    by (auto simp: try_serve_from_cache_def Let_def split: if_splits option.splits)
qed

lemma store_facts:
  assumes "sharded_ok ops ok (cp_cache p)"
  shows "sharded_ok ops ok (cp_cache (store ops key e p))"
    and "lookup ops (cp_cache (store ops key e p)) key = Some e"
proof -
  obtain v ch where g: "sharded_push ops key e (cp_cache p) = (v, ch)" by fastforce
  note f = push_facts [OF assms g]
  then show "sharded_ok ops ok (cp_cache (store ops key e p))"
    and "lookup ops (cp_cache (store ops key e p)) key = Some e"
    using g by (auto simp: store_def Let_def)
qed

lemma execute_ok:
  assumes "sharded_ok ops ok (cp_cache p)"
  shows "sharded_ok ops ok (cp_cache (snd (snd (cache_execute ops t_exp t_ttl u c p))))"
proof -
  have g: "sharded_ok ops ok (snd (sharded_get ops k (cp_cache p)))" for k
    by (rule get_facts(2) [OF assms prod.collapse [symmetric]])
  have q: "sharded_ok ops ok (snd (sharded_pop ops k ch))" if "sharded_ok ops ok ch" for k ch
    by (rule pop_facts(2) [OF that prod.collapse [symmetric]])
  show ?thesis
    using assms store_facts(1) [OF assms] q [OF g] g
    by (auto simp: cache_execute_def try_serve_from_cache_def try_store_response_def Let_def
        cache_pop_def split: option.split prod.split) (metis snd_conv)+
qed

end

interpretation lrc: response_cache list_lru list_lru_ok
  by unfold_locales

lemma foldl_min:
  "foldl (\<lambda>acc r. min acc (rr_ttl r)) a rs = Min (insert a (rr_ttl ` set rs))"
proof (induction rs arbitrary: a)
  case Nil
  then show ?case by simp
next
  case (Cons r rs)
  have "insert a (insert (rr_ttl r) (rr_ttl ` set rs)) = {a, rr_ttl r} \<union> (rr_ttl ` set rs)" by auto
  then show ?case
    by (cases "rs = []") (auto simp: Cons Min_insert2 min.assoc Min_Un)
qed

lemma get_min_ttl_pos: "0 < get_min_ttl m"
  by (simp add: get_min_ttl_def Let_def less_max_iff_disj)


lemma get_min_ttl_zero:
  assumes "r \<in> set (records m)" and "rr_ttl r = 0"
  shows "get_min_ttl m = 1"
proof -
  let ?S = "insert 0xFFFFFFFF (rr_ttl ` set (records m))"
  have "Min ?S \<le> 0" using assms by (intro Min_le) (auto simp: image_iff intro: bexI [of _ r])
  then have "Min ?S = 0" by simp
  then show ?thesis by (simp add: get_min_ttl_def foldl_min)
qed

lemma get_min_ttl_le:
  assumes "r \<in> set (records m)" and "0 < rr_ttl r" and "rr_ttl r \<noteq> 0xFFFFFFFF"
  shows "get_min_ttl m \<le> rr_ttl r"
proof -
  let ?S = "insert 0xFFFFFFFF (rr_ttl ` set (records m))"
  have le: "Min ?S \<le> rr_ttl r" using assms(1) by (intro Min_le) auto
  have "1 \<le> rr_ttl r" using assms(2) by (simp add: word_le_nat_alt word_less_nat_alt)
  moreover have "Min ?S \<noteq> 0xFFFFFFFF"
  proof
    assume "Min ?S = 0xFFFFFFFF"
    with le have ge: "0xFFFFFFFF \<le> rr_ttl r" by simp
    have "unat (rr_ttl r) < 2 ^ LENGTH(32)" by (rule unsigned_less)
    then have "rr_ttl r \<le> 0xFFFFFFFF" by (simp add: word_le_nat_alt)
    from order.antisym [OF this ge] assms(3) show False by blast
  qed
  ultimately show ?thesis using le by (simp add: get_min_ttl_def foldl_min)
qed

lemma fresh_entry:
  fixes ttl :: u32
  assumes "t - now < unat ttl * nanos_per_sec"
  shows "remaining_ttl t (cache_entry_new now u r ttl ct) = ttl - of_nat ((t - now) div nanos_per_sec)"
    and "remaining_ttl t (cache_entry_new now u r ttl ct) \<noteq> 0"
proof -
  let ?d = "(t - now) div nanos_per_sec"
  have d: "?d < unat ttl" using assms by (simp add: less_mult_imp_div_less)
  moreover have "unat ttl < 2 ^ LENGTH(32)" by (rule unsigned_less)
  ultimately have "?d < 2 ^ LENGTH(32)" by (rule less_trans)
  then have "unat (of_nat ?d :: u32) = ?d" by (simp only: unat_of_nat mod_less)
  with d have "of_nat ?d < ttl" by (simp add: word_less_nat_alt)
  then show "remaining_ttl t (cache_entry_new now u r ttl ct) = ttl - of_nat ?d"
    and "remaining_ttl t (cache_entry_new now u r ttl ct) \<noteq> 0"
    by (auto simp: remaining_ttl_def elapsed_secs_def cache_entry_new_def saturating_sub_def)
qed

lemma fresh_not_expired:
  "0 < ct \<Longrightarrow> t - now < unat ct * nanos_per_sec \<Longrightarrow>
     \<not> is_cache_expired t (cache_entry_new now u r ttl ct)"
  by (auto simp: is_cache_expired_def cache_entry_new_def)


section \<open>Properties\<close>

definition demo_answer :: "u32 \<Rightarrow> resource_record" where
  "demo_answer ttl = rr_new ''a.example'' RT_A CL_IN ttl (RD_A 0xC0000201)"

definition demo_response :: message where
  "demo_response = add_answer (demo_answer 300) (set_response True demo_query)"

definition demo_cache :: "(nat \<times> (string \<times> cache_entry) list) cache_plugin" where
  "demo_cache = cache_plugin_new list_lru (\<lambda>_ _. False) 12 16"

definition demo_stored :: "(nat \<times> (string \<times> cache_entry) list) cache_plugin" where
  "demo_stored = store list_lru ''a.example:1:1:0'' (cache_entry_new 0 0 demo_response 300 300) demo_cache"

lemma demo_key: "make_key demo_query = Some ''a.example:1:1:0''"
  by (simp add: make_key_def demo_query_def add_question_def set_id_def message_new_def
      to_lowercase_def lower_char_def show_nat.simps key_flags_def char_of_def bit_iff_odd)

lemma demo_cache_ok: "sharded_ok list_lru list_lru_ok (cp_cache demo_cache)"
  by (simp add: demo_cache_def cache_plugin_new_def ll.new_facts)

lemma demo_stored_facts:
  "sharded_ok list_lru list_lru_ok (cp_cache demo_stored)"
  "lookup list_lru (cp_cache demo_stored) ''a.example:1:1:0'' =
     Some (cache_entry_new 0 0 demo_response 300 300)"
  using lrc.store_facts [OF demo_cache_ok] by (simp_all add: demo_stored_def)

text \<open>
  Two queries share a cache key exactly when their first questions have the same name
  up to case and the same type and class numbers, and the queries agree on the AD, CD and
  DO flags. Names that contain the separator cannot cause a collision.
\<close>

theorem make_key_eq_iff:
  assumes "msg_questions m = q # qs" and "msg_questions m' = q' # qs'"
  shows "make_key m = make_key m' \<longleftrightarrow>
    to_lowercase (qname q) = to_lowercase (qname q') \<and>
    record_type_to_u16 (qtype q) = record_type_to_u16 (qtype q') \<and>
    record_class_to_u16 (qclass q) = record_class_to_u16 (qclass q') \<and>
    key_flags m = key_flags m'"
  using assms by (simp add: make_key_def join4_eq unat_eq_iff del: join_with.simps)

theorem make_key_eq_iff_witness:
  "make_key demo_query \<noteq> make_key (set_checking_disabled True demo_query)"
  using make_key_eq_iff [of demo_query "question_new ''a.example'' RT_A CL_IN" "[]"
      "set_checking_disabled True demo_query" "question_new ''a.example'' RT_A CL_IN" "[]"]
  by (simp add: demo_query_def add_question_def set_id_def set_checking_disabled_def key_flags_def
      message_new_def)

lemma cache_hit_served:
  assumes "response_cache ops ok" and "sharded_ok ops ok (cp_cache p)"
    and "make_key (request c) = Some key" and "response c = None"
    and "get_bool ''response_from_cache'' c = None"
    and "get_bool ''background_lazy_refresh'' c = None"
    and "lookup ops (cp_cache p) key = Some e"
    and "\<not> is_cache_expired t_exp e" and "remaining_ttl t_ttl e \<noteq> 0 \<or> cp_cache_ttl p \<noteq> None"
  shows "\<exists>p'. cache_execute ops t_exp t_ttl u c p =
      (None, set_metadata RETURN_FLAG (MBool True) (serve_cached_response (touch t_exp e)
         (served_ttl t_ttl e) (set_metadata ''cache_checked'' (MBool True) c)), p') \<and>
    lookup ops (cp_cache p') = lookup ops (cp_cache p)"
  using response_cache.serve_hit [OF assms(1,2,6-9)] assms(3-5)
  by (auto simp: cache_execute_def)

lemma cache_hit:
  assumes "response_cache ops ok" and "sharded_ok ops ok (cp_cache p)"
    and "make_key (request c) = Some key" and "response c = None"
    and "get_bool ''response_from_cache'' c = None"
    and "get_bool ''background_lazy_refresh'' c = None"
    and "lookup ops (cp_cache p) key = Some e"
    and "\<not> is_cache_expired t_exp e" and "remaining_ttl t_ttl e \<noteq> 0"
  shows "\<exists>p'. cache_execute ops t_exp t_ttl u c p =
      (None, set_metadata RETURN_FLAG (MBool True) (serve_cached_response (touch t_exp e)
         (remaining_ttl t_ttl e) (set_metadata ''cache_checked'' (MBool True) c)), p') \<and>
    lookup ops (cp_cache p') = lookup ops (cp_cache p)"
  using cache_hit_served [OF assms(1-8), of t_ttl u] assms(9) by (simp add: served_ttl_def)

lemma cache_miss:
  assumes "response_cache ops ok" and "sharded_ok ops ok (cp_cache p)"
    and "make_key (request c) = Some key" and "response c = None"
    and "get_bool ''response_from_cache'' c = None" and "lookup ops (cp_cache p) key = None"
  shows "\<exists>p'. cache_execute ops t_exp t_ttl u c p =
      (None, set_metadata ''cache_checked'' (MBool True) c, p') \<and>
    sharded_ok ops ok (cp_cache p') \<and> cp_cache_ttl p' = cp_cache_ttl p"
proof -
  obtain r ch where g: "sharded_get ops key (cp_cache p) = (r, ch)" by fastforce
  note f = lru_cache.get_facts [OF response_cache.axioms(1) [OF assms(1)] assms(2) g]
  with assms g show ?thesis
    by (auto simp: cache_execute_def try_serve_from_cache_def Let_def record_miss_def)
qed

text \<open>How long an answer with lifetime \<open>ttl\<close> stays in the cache, and the TTL it is served with: the
  remaining one or, once it has run out, that of stale answers.\<close>

definition storage_ttl :: "'l cache_plugin \<Rightarrow> u32 \<Rightarrow> u32" where
  "storage_ttl p ttl = (case cp_cache_ttl p of Some t \<Rightarrow> t | None \<Rightarrow> ttl)"

definition aged_ttl :: "nat \<Rightarrow> u32 \<Rightarrow> u32" where
  "aged_ttl age ttl =
     (if age < unat ttl * nanos_per_sec then ttl - of_nat (age div nanos_per_sec) else STALE_RESPONSE_TTL_SECS)"

lemma stored_entry_served:
  fixes ttl :: u32 and p :: "'l cache_plugin" and u :: u64 and r :: message
  assumes "t - now < unat (storage_ttl p ttl) * nanos_per_sec"
  defines "e \<equiv> cache_entry_new now u r ttl (storage_ttl p ttl)"
  shows "\<not> is_cache_expired t e" and "remaining_ttl t e \<noteq> 0 \<or> cp_cache_ttl p \<noteq> None"
    and "served_ttl t e = aged_ttl (t - now) ttl"
proof -
  let ?d = "(t - now) div nanos_per_sec"
  have "storage_ttl p ttl \<noteq> 0" using assms(1) by auto
  then show "\<not> is_cache_expired t e"
    using assms(1) unfolding e_def by (intro fresh_not_expired) (simp_all add: word_gt_0)
  show "remaining_ttl t e \<noteq> 0 \<or> cp_cache_ttl p \<noteq> None"
    using assms(1) fresh_entry(2) [of t now ttl u r] unfolding e_def
    by (cases "cp_cache_ttl p") (simp_all add: storage_ttl_def)
  show "served_ttl t e = aged_ttl (t - now) ttl"
  proof (cases "t - now < unat ttl * nanos_per_sec")
    case True
    then show ?thesis unfolding e_def using fresh_entry [OF True, of u r "storage_ttl p ttl"]
      by (simp add: served_ttl_def aged_ttl_def)
  next
    case False
    have "?d < unat (storage_ttl p ttl)" using assms(1) by (simp add: less_mult_imp_div_less)
    moreover have "unat (storage_ttl p ttl) < 2 ^ LENGTH(32)" by (rule unsigned_less)
    ultimately have "?d < 2 ^ LENGTH(32)" by (rule less_trans)
    then have d: "unat (of_nat ?d :: u32) = ?d" by (simp only: unat_of_nat mod_less)
    have "unat ttl \<le> ?d" using False by (simp add: less_eq_div_iff_mult_less_eq nanos_per_sec_def)
    with d have "ttl \<le> of_nat ?d" by (simp add: word_le_nat_alt)
    then have "remaining_ttl t e = 0"
      by (auto simp: e_def remaining_ttl_def elapsed_secs_def cache_entry_new_def saturating_sub_def)
    with False show ?thesis by (simp add: served_ttl_def aged_ttl_def)
  qed
qed

lemma store_then_hit:
  assumes "response_cache ops ok" and "sharded_ok ops ok (cp_cache p)"
    and "make_key (request c) = Some key" and "response c = Some r" and "msg_rcode r = RC_NoError"
    and "msg_answers r \<noteq> []" and "get_bool ''response_from_cache'' c = None"
    and "cache_execute ops now t0 u c p = (e, c1, p1)"
    and "make_key (request d) = Some key" and "response d = None"
    and "get_bool ''response_from_cache'' d = None"
    and "get_bool ''background_lazy_refresh'' d = None"
    and "t - now < unat (storage_ttl p (get_min_ttl r)) * nanos_per_sec"
  shows "\<exists>p' x. cache_execute ops t t u' d p1 =
      (None, set_metadata RETURN_FLAG (MBool True) (serve_cached_response x
         (aged_ttl (t - now) (get_min_ttl r))
         (set_metadata ''cache_checked'' (MBool True) d)), p') \<and> ce_response x = r"
proof -
  let ?e = "cache_entry_new now u r (get_min_ttl r) (storage_ttl p (get_min_ttl r))"
  have p1: "p1 = store ops key ?e p"
    using assms(3-8) get_min_ttl_pos [of r]
    by (auto simp: cache_execute_def try_store_response_def Let_def storage_ttl_def)
  then have "cp_cache_ttl p1 = cp_cache_ttl p"
    by (simp add: store_def Let_def record_eviction_def split: prod.split)
  note st = response_cache.store_facts [OF assms(1,2), of key ?e, folded p1]
  note se = stored_entry_served [OF assms(13), of u r]
  have live: "remaining_ttl t ?e \<noteq> 0 \<or> cp_cache_ttl p1 \<noteq> None"
    using se(2) \<open>cp_cache_ttl p1 = cp_cache_ttl p\<close> by simp
  from cache_hit_served [OF assms(1) st(1) assms(9-12) st(2) se(1) live, of u']
  moreover have "ce_response (touch t ?e) = r" by (simp add: touch_def cache_entry_new_def)
  ultimately show ?thesis unfolding se(3) by blast
qed

text \<open>
  A cache hit answers the client's own query. The response carries the request's id and
  question section, the stored records in their order with every TTL set to the remaining
  lifetime, and the stored response code; the chain is told to stop, and the stored entries
  are unchanged.
\<close>

theorem cache_hit_response:
  assumes "response_cache ops ok" and "sharded_ok ops ok (cp_cache p)"
    and "make_key (request c) = Some key" and "response c = None"
    and "get_bool ''response_from_cache'' c = None"
    and "get_bool ''background_lazy_refresh'' c = None"
    and "lookup ops (cp_cache p) key = Some e"
    and "\<not> is_cache_expired t_exp e" and "remaining_ttl t_ttl e \<noteq> 0"
  shows "\<exists>c' p' r. cache_execute ops t_exp t_ttl u c p = (None, c', p') \<and>
    response c' = Some r \<and> msg_id r = msg_id (request c) \<and>
    msg_questions r = msg_questions (request c) \<and> msg_rcode r = msg_rcode (ce_response e) \<and>
    records r = map (set_ttl (remaining_ttl t_ttl e)) (records (ce_response e)) \<and>
    get_bool RETURN_FLAG c' = Some True \<and> lookup ops (cp_cache p') = lookup ops (cp_cache p)"
  using cache_hit [OF assms, of u] by (auto simp: serve_sel update_ttls_def)

theorem cache_hit_response_witness:
  "\<exists>c' p' r. cache_execute list_lru 5 5 0 (context_new demo_query) demo_stored = (None, c', p') \<and>
    response c' = Some r \<and> msg_id r = msg_id (request (context_new demo_query)) \<and>
    msg_questions r = msg_questions (request (context_new demo_query)) \<and>
    msg_rcode r = msg_rcode (ce_response (cache_entry_new 0 0 demo_response 300 300)) \<and>
    records r = map (set_ttl (remaining_ttl 5 (cache_entry_new 0 0 demo_response 300 300)))
      (records (ce_response (cache_entry_new 0 0 demo_response 300 300))) \<and>
    get_bool RETURN_FLAG c' = Some True \<and>
    lookup list_lru (cp_cache p') = lookup list_lru (cp_cache demo_stored)"
  by (rule cache_hit_response [OF lrc.response_cache_axioms demo_stored_facts(1) _ _ _ _ demo_stored_facts(2)])
    (simp_all add: demo_key ctx_get_defs is_cache_expired_def remaining_ttl_def elapsed_secs_def
      cache_entry_new_def nanos_per_sec_def saturating_sub_def)

text \<open>
  C9: the cache never serves an expired entry. If its read phase sets a response, then the
  key was stored, its storage lifetime had not run out when it was tested, and every
  record carries the remaining TTL, or five seconds when the TTL had run out and stale
  serving is configured.
\<close>

theorem cache_serves_live_entries:
  assumes "response_cache ops ok" and "sharded_ok ops ok (cp_cache p)"
    and "make_key (request c) = Some key" and "response c = None"
    and "cache_execute ops t_exp t_ttl u c p = (err, c', p')" and "response c' = Some r"
  shows "\<exists>e. lookup ops (cp_cache p) key = Some e \<and>
    t_exp - ce_cached_at e < unat (ce_cache_ttl e) * nanos_per_sec \<and>
    (remaining_ttl t_ttl e = 0 \<longrightarrow> cp_cache_ttl p \<noteq> None) \<and>
    (\<forall>x \<in> set (records r). rr_ttl x = (if remaining_ttl t_ttl e = 0 then 5 else remaining_ttl t_ttl e))"
proof -
  have ser: "try_serve_from_cache ops t_exp t_ttl key c p = (c', p')"
    using assms(3-6) by (auto simp: cache_execute_def split: if_splits prod.splits)
  then obtain e where e: "lookup ops (cp_cache p) key = Some e" "\<not> is_cache_expired t_exp e"
    "remaining_ttl t_ttl e \<noteq> 0 \<or> cp_cache_ttl p \<noteq> None" "get_bool ''background_lazy_refresh'' c = None"
    using response_cache.serve_none [OF assms(1,2,4)] assms(6) by blast
  have "records r = map (set_ttl (served_ttl t_ttl e)) (records (ce_response e))"
    using response_cache.serve_hit [OF assms(1,2) e(4,1-3)] ser assms(6)
    by (auto simp: serve_sel update_ttls_def)
  with e show ?thesis
    by (auto simp: is_cache_expired_def served_ttl_def STALE_RESPONSE_TTL_SECS_def not_le)
qed

theorem cache_serves_live_entries_witness:
  "\<exists>e. lookup list_lru (cp_cache demo_stored) ''a.example:1:1:0'' = Some e \<and>
    5 - ce_cached_at e < unat (ce_cache_ttl e) * nanos_per_sec"
proof -
  obtain c' p' r where x: "cache_execute list_lru 5 5 0 (context_new demo_query) demo_stored = (None, c', p')"
    "response c' = Some r"
    using response_cache.serve_hit [OF lrc.response_cache_axioms demo_stored_facts(1) _ demo_stored_facts(2),
        of "context_new demo_query" 5 5] demo_key
    by (auto simp: cache_execute_def ctx_get_defs is_cache_expired_def remaining_ttl_def elapsed_secs_def
      cache_entry_new_def nanos_per_sec_def saturating_sub_def serve_sel)
  show ?thesis
    using cache_serves_live_entries [OF lrc.response_cache_axioms demo_stored_facts(1) _ _ x(1,2)] demo_key
    by auto
qed


text \<open>
  C8: a stored answer is found again. After the write phase has seen a successful response
  with answers that does not itself come from the cache, a later query with the same key that is
  not a background refresh, asked before the storage lifetime has run out (the configured
  \<^verbatim>\<open>cache_ttl\<close> or, when none is configured, the smallest TTL of the response), with no other
  operation on the cache in between, is answered from the cache under its own id with the same
  records. Their TTL is the smallest TTL of the response less the seconds that have passed; when
  that TTL has run out (only possible with a configured \<^verbatim>\<open>cache_ttl\<close>) it is five seconds.
\<close>

theorem cache_store_then_serve:
  assumes "response_cache ops ok" and "sharded_ok ops ok (cp_cache p)"
    and "make_key (request c) = Some key" and "response c = Some r" and "msg_rcode r = RC_NoError"
    and "msg_answers r \<noteq> []" and "get_bool ''response_from_cache'' c = None"
    and "cache_execute ops now t0 u c p = (None, c1, p1)"
    and "make_key (request d) = Some key" and "response d = None"
    and "get_bool ''response_from_cache'' d = None"
    and "get_bool ''background_lazy_refresh'' d = None"
    and "t - now < unat (case cp_cache_ttl p of Some ct \<Rightarrow> ct | None \<Rightarrow> get_min_ttl r) * nanos_per_sec"
  shows "\<exists>d' p' r'. cache_execute ops t t u' d p1 = (None, d', p') \<and> response d' = Some r' \<and>
    msg_id r' = msg_id (request d) \<and>
    records r' = map (set_ttl (if t - now < unat (get_min_ttl r) * nanos_per_sec
      then get_min_ttl r - of_nat ((t - now) div nanos_per_sec) else 5)) (records r)"
  using store_then_hit [OF assms(1-12) assms(13) [folded storage_ttl_def], of u']
  by (auto simp: serve_sel update_ttls_def aged_ttl_def STALE_RESPONSE_TTL_SECS_def)

lemma demo_store_context:
  "response (ctx_set_response (Some demo_response) (context_new demo_query)) = Some demo_response"
  "request (ctx_set_response (Some demo_response) (context_new demo_query)) = demo_query"
  "msg_rcode demo_response = RC_NoError" "msg_answers demo_response = [demo_answer 300]"
  "get_min_ttl demo_response = 300"
  by (simp_all add: demo_response_def demo_query_def add_answer_def add_question_def set_id_def
      set_response_def message_new_def get_min_ttl_def records_def demo_answer_def rr_new_def)

theorem cache_store_then_serve_witness:
  "\<exists>d' p' r'. cache_execute list_lru (400 * nanos_per_sec) (400 * nanos_per_sec) 0 (context_new demo_query)
      (snd (snd (cache_execute list_lru 0 0 0
        (ctx_set_response (Some demo_response) (context_new demo_query)) (with_cache_ttl 600 demo_cache)))) =
      (None, d', p') \<and>
    response d' = Some r' \<and> msg_id r' = msg_id (request (context_new demo_query)) \<and>
    records r' = map (set_ttl 5) (records demo_response)"
proof -
  let ?p = "with_cache_ttl 600 demo_cache"
  let ?c = "ctx_set_response (Some demo_response) (context_new demo_query)"
  have ok: "sharded_ok list_lru list_lru_ok (cp_cache ?p)" and ttl: "cp_cache_ttl ?p = Some 600"
    using demo_cache_ok by (simp_all add: with_cache_ttl_def ensure_coordinator_def)
  have ex: "cache_execute list_lru 0 0 0 ?c ?p = (None, ?c, snd (snd (cache_execute list_lru 0 0 0 ?c ?p)))"
    by (simp add: cache_execute_def demo_key ctx_get_defs)
  show ?thesis
    using cache_store_then_serve [OF lrc.response_cache_axioms ok _ _ _ _ _ ex,
        of "''a.example:1:1:0''" demo_response "context_new demo_query" "400 * nanos_per_sec" 0] ttl
    by (simp add: demo_key demo_store_context ctx_get_defs nanos_per_sec_def)
qed

text \<open>
  A client whose query happens to carry the id 0xFFFF is taken for a background
  refresh: the cache's read phase never answers it and does not even count a miss.
\<close>

theorem id_ffff_bypasses_cache:
  assumes "msg_id (rc_message rc) = 0xFFFF"
    and "cache_execute ops t_exp t_ttl u (initial_context entry now rc) p = (err, c', p')"
  shows "response c' = None \<and> p' = p"
proof -
  have "get_bool ''background_lazy_refresh'' (initial_context entry now rc) \<noteq> None"
    using assms(1) by (simp add: initial_context_def Let_def ctx_get_defs split: option.split)
  with assms(2) show ?thesis
    by (auto simp: cache_execute_def try_serve_from_cache_def Let_def split: option.splits if_splits)
qed

theorem id_ffff_bypasses_cache_witness:
  "response (fst (snd (cache_execute list_lru 5 5 0
     (initial_context ''main'' 0 (request_context_new (set_id 0xFFFF demo_query) Udp)) demo_stored))) = None"
proof -
  obtain err c' p' where "cache_execute list_lru 5 5 0
     (initial_context ''main'' 0 (request_context_new (set_id 0xFFFF demo_query) Udp)) demo_stored = (err, c', p')"
    by (metis prod_cases3)
  with id_ffff_bypasses_cache [OF _ this] show ?thesis by (simp add: request_context_new_def)
qed

text \<open>
  Every record counts towards the lifetime of an answer, the EDNS pseudo-record
  included. A response that holds any record with TTL 0, as an OPT record parsed from the
  wire does, is stored with a lifetime of one second, whatever the TTLs of its answers.
\<close>

theorem zero_ttl_record_limits_lifetime:
  assumes "response_cache ops ok" and "sharded_ok ops ok (cp_cache p)" and "cp_cache_ttl p = None"
    and "response c = Some r" and "msg_rcode r = RC_NoError" and "msg_answers r \<noteq> []"
    and "get_bool ''response_from_cache'' c = None"
    and "opt \<in> set (msg_additional r)" and "rr_ttl opt = 0"
  shows "\<exists>e. lookup ops (cp_cache (try_store_response ops now u key c p)) key = Some e \<and>
    ce_ttl e = 1 \<and> ce_cache_ttl e = 1"
proof -
  have "get_min_ttl r = 1" using assms(8,9) by (intro get_min_ttl_zero) (auto simp: records_def)
  with assms(3-7) have "try_store_response ops now u key c p = store ops key (cache_entry_new now u r 1 1) p"
    by (simp add: try_store_response_def)
  with response_cache.store_facts(2) [OF assms(1,2)] show ?thesis
    by (simp add: cache_entry_new_def)
qed

definition demo_edns_response :: message where
  "demo_edns_response =
     add_additional (rr_new [] RT_OPT (CL_Unknown 1232) 0 (RD_OPT 0 0 0 [])) demo_response"

lemma demo_edns_facts:
  "msg_rcode demo_edns_response = RC_NoError" "msg_answers demo_edns_response \<noteq> []"
  "rr_new [] RT_OPT (CL_Unknown 1232) 0 (RD_OPT 0 0 0 []) \<in> set (msg_additional demo_edns_response)"
  by (simp_all add: demo_edns_response_def demo_response_def demo_query_def add_answer_def
      add_question_def set_id_def set_response_def message_new_def add_additional_def)

theorem zero_ttl_record_limits_lifetime_witness:
  "\<exists>e. lookup list_lru (cp_cache (try_store_response list_lru 0 0 ''k''
     (ctx_set_response (Some demo_edns_response) (context_new demo_query)) demo_cache)) ''k'' = Some e \<and>
    ce_ttl e = 1 \<and> ce_cache_ttl e = 1"
  by (rule zero_ttl_record_limits_lifetime [OF lrc.response_cache_axioms demo_cache_ok _ _
        demo_edns_facts(1,2) _ demo_edns_facts(3)])
    (simp_all add: ctx_get_defs rr_new_def demo_cache_def cache_plugin_new_def)

text \<open>
  The periodic cleanup drops exactly the expired entries: afterwards a key is stored
  if and only if it was stored and its entry had not expired, with the same entry.
\<close>

theorem cleanup_drops_exactly_expired:
  assumes "response_cache ops ok" and "sharded_ok ops ok (cp_cache p)"
    and "cleanup_expired ops now p = (n, p')"
  shows "lookup ops (cp_cache p') key = Some e \<longleftrightarrow>
    lookup ops (cp_cache p) key = Some e \<and> \<not> is_cache_expired now e"
proof -
  obtain m ch where r: "sharded_retain ops (\<lambda>e. \<not> is_cache_expired now e) (cp_cache p) = (m, ch)"
    by fastforce
  have rep: "cp_cache (repeat_expiration k q) = cp_cache q" for k and q :: "'a cache_plugin"
    by (induction k arbitrary: q) simp_all
  have "cp_cache p' = ch" using assms(3) r by (auto simp: cleanup_expired_def rep)
  then show ?thesis
    using lru_cache.retain_facts(4) [OF response_cache.axioms(1) [OF assms(1)] assms(2) r]
    by (auto split: option.splits if_splits)
qed

theorem cleanup_drops_exactly_expired_witness:
  "lookup list_lru (cp_cache (snd (cleanup_expired list_lru (400 * nanos_per_sec) demo_stored)))
     ''a.example:1:1:0'' = None"
proof -
  obtain n p' where c: "cleanup_expired list_lru (400 * nanos_per_sec) demo_stored = (n, p')" by fastforce
  have "is_cache_expired (400 * nanos_per_sec) (cache_entry_new 0 0 demo_response 300 300)"
    by (simp add: is_cache_expired_def cache_entry_new_def)
  then have "lookup list_lru (cp_cache p') ''a.example:1:1:0'' \<noteq> Some e" for e
    using cleanup_drops_exactly_expired [OF lrc.response_cache_axioms demo_stored_facts(1) c,
        of "''a.example:1:1:0''" e] demo_stored_facts(2) by auto
  then show ?thesis unfolding c snd_conv by (rule not_Some_eq [THEN iffD1, OF allI])
qed

end
