(* ===== verification/Resolver.thy ===== *)
theory Resolver
  imports Forward Cache_Plugin
begin

text \<open>
  Cache and forwarder behind the handler of \<open>Pipeline\<close>: the plugins as leaves of one heap, what a
  miss and a hit do to the system, and how the handler ends a run of an entry sequence that
  contains the cache.
\<close>

section \<open>A caching resolver\<close>

text \<open>The configuration the repository's documentation starts from: an entry sequence that
  runs the cache and then the forwarder. The state of the system is the state of the two
  plugins; \<open>t\<close> and \<open>u\<close> are the clocks, \<open>joins\<close> and \<open>ask\<close> the network and \<open>turns\<close> what other
  queries do to the forwarder during one query.\<close>

definition cache_leaf :: "(cache_entry, 'l) lru_ops \<Rightarrow> nat \<Rightarrow> u64 \<Rightarrow> ('l cache_plugin \<times> forward_plugin) leaf" where
  "cache_leaf ops t u =
     \<lparr>leaf_name = ''cache'',
      leaf_execute = (\<lambda>c (p, f). case cache_execute ops t t u c p of (e, c, p) \<Rightarrow> (e, c, (p, f))),
      leaf_save_ips_after = None\<rparr>"

definition forward_leaf :: "joined list \<Rightarrow> ask \<Rightarrow> (nat \<Rightarrow> turn) \<Rightarrow> ('l cache_plugin \<times> forward_plugin) leaf" where
  "forward_leaf joins ask turns =
     \<lparr>leaf_name = ''forward'',
      leaf_execute = (\<lambda>c (p, f). case forward_execute joins ask turns c f of (e, c, f) \<Rightarrow> (e, c, (p, f))),
      leaf_save_ips_after = None\<rparr>"

definition resolver_heap :: "(cache_entry, 'l) lru_ops \<Rightarrow> nat \<Rightarrow> u64 \<Rightarrow> joined list \<Rightarrow> ask \<Rightarrow> (nat \<Rightarrow> turn)
    \<Rightarrow> ('l cache_plugin \<times> forward_plugin) heap" where
  "resolver_heap ops t u joins ask turns =
     (\<lambda>a. if a = 0 then SequencePlugin [Exec 1, Exec 2] (Some ''main'')
          else if a = 1 then Leaf (cache_leaf ops t u) else Leaf (forward_leaf joins ask turns))"

text \<open>The registry holds the three plugins in any iteration order.\<close>

definition resolver_registry :: "registry \<Rightarrow> bool" where
  "resolver_registry reg \<longleftrightarrow> distinct (map fst reg) \<and>
     set reg = {(''main'', 0), (''cache'', 1), (''forward'', 2)}"

lemma cache_leaf_sel [simp]:
  "leaf_name (cache_leaf ops t u) = ''cache''"
  "leaf_execute (cache_leaf ops t u) c (p, f) =
     (case cache_execute ops t t u c p of (e, c, p) \<Rightarrow> (e, c, (p, f)))"
  "leaf_save_ips_after (cache_leaf ops t u) = None"
  by (simp_all add: cache_leaf_def)

lemma forward_leaf_sel [simp]:
  "leaf_name (forward_leaf joins ask turns) = ''forward''"
  "leaf_execute (forward_leaf joins ask turns) c (p, f) =
     (case forward_execute joins ask turns c f of (e, c, f) \<Rightarrow> (e, c, (p, f)))"
  "leaf_save_ips_after (forward_leaf joins ask turns) = None"
  by (simp_all add: forward_leaf_def)

lemma resolver_heap_sel [simp]:
  "resolver_heap ops t u joins ask turns 0 = SequencePlugin [Exec 1, Exec 2] (Some ''main'')"
  "resolver_heap ops t u joins ask turns 1 = Leaf (cache_leaf ops t u)"
  "resolver_heap ops t u joins ask turns (Suc 0) = Leaf (cache_leaf ops t u)"
  "resolver_heap ops t u joins ask turns 2 = Leaf (forward_leaf joins ask turns)"
  by (simp_all add: resolver_heap_def)

lemma resolver_get:
  assumes "resolver_registry reg"
  shows "registry_get reg ''main'' = Some 0" "registry_get reg ''cache'' = Some 1"
    "registry_get reg ''forward'' = Some 2"
    "distinct (plugin_names reg)" "set (plugin_names reg) = {''main'', ''cache'', ''forward''}"
proof -
  have d: "distinct (map fst reg)" and s: "set reg = {(''main'', 0), (''cache'', 1), (''forward'', 2)}"
    using assms by (simp_all add: resolver_registry_def)
  show "registry_get reg ''main'' = Some 0" "registry_get reg ''cache'' = Some 1"
    "registry_get reg ''forward'' = Some 2"
    by (simp_all add: registry_get_def map_of_eq_Some_iff [OF d] s)
  show "distinct (plugin_names reg)" "set (plugin_names reg) = {''main'', ''cache'', ''forward''}"
    using d s by (simp_all add: plugin_names_def)
qed

lemma leaf_step:
  assumes "h a = Leaf l" and "leaf_execute l c s = (None, c', s')"
    and "\<not> has_metadata ''jump_target'' c'" and "\<not> has_metadata ''goto_label'' c'"
  shows "exec_steps h reg (Suc (Suc n)) (Exec a # rest) c s =
    (if get_bool RETURN_FLAG c' = Some True then Some (None, c', s')
     else exec_steps h reg (Suc n) rest c' s')"
  using assms by (simp add: exec_simps)

lemma leaf_step_fails:
  assumes "h a = Leaf l" and "leaf_execute l c s = (Some e, c', s')"
  shows "exec_steps h reg (Suc (Suc n)) (Exec a # rest) c s = Some (Some e, c', s')"
  using assms by (simp add: exec_simps)

lemma cache_writes_single:
  assumes "distinct names" and "''cache'' \<in> set names" and "registry_get reg ''cache'' = Some a"
    and "h a = Leaf l" and "leaf_name l = ''cache''" and "leaf_execute l c s = (e, c', s')"
    and "\<And>name b. name \<in> set names \<Longrightarrow> name \<noteq> ''cache'' \<Longrightarrow> registry_get reg name = Some b \<Longrightarrow>
      plugin_name (h b) \<noteq> ''cache''"
  shows "cache_writes h reg (Suc n) names c s = Some (c', s')"
proof -
  have none: "cache_writes h reg (Suc n) ns d t = Some (d, t)"
    if "''cache'' \<notin> set ns" and "set ns \<subseteq> set names" for ns d t
    using that assms(7) by (induction ns) (auto split: option.split)
  obtain xs ys where ns: "names = xs @ ''cache'' # ys" by (meson assms(2) split_list)
  have "cache_writes h reg (Suc n) (xs @ ''cache'' # ys) c s = cache_writes h reg (Suc n) (''cache'' # ys) c s"
    if "''cache'' \<notin> set xs" and "set xs \<subseteq> set names" for xs
    using that assms(7) by (induction xs) (auto split: option.split)
  moreover have "''cache'' \<notin> set xs" "''cache'' \<notin> set ys" "set xs \<subseteq> set names" "set ys \<subseteq> set names"
    using assms(1) ns by auto
  ultimately show ?thesis
    unfolding ns using none [of ys] assms(3-6) by (simp add: exec_simps ns)
qed

lemma reverse_saves_none:
  assumes "\<And>a. reverse_hook (h a) = None"
  shows "reverse_saves h reg names req resp s = s"
  using assms by (induction names) (auto split: option.split)

lemma resolver_heap_hook [simp]: "reverse_hook (resolver_heap ops t u joins ask turns a) = None"
  by (simp add: resolver_heap_def reverse_hook_def)

lemma initial_context_facts:
  "request (initial_context entry now rc) = rc_message rc"
  "response (initial_context entry now rc) = None"
  "get_bool ''response_from_cache'' (initial_context entry now rc) = None"
  "\<not> has_metadata ''jump_target'' (initial_context entry now rc)"
  "\<not> has_metadata ''goto_label'' (initial_context entry now rc)"
  "get_bool RETURN_FLAG (initial_context entry now rc) = None"
  "msg_id (rc_message rc) \<noteq> 0xFFFF \<Longrightarrow>
    get_bool ''background_lazy_refresh'' (initial_context entry now rc) = None"
  by (simp_all add: initial_context_def Let_def ctx_get_defs has_metadata_def RETURN_FLAG_def
      context_new_def split: option.split)

lemma sequential_loop_context:
  "sequential_loop ask turns req k le c f = (e, c', f') \<Longrightarrow>
    (e \<noteq> None \<and> c' = c) \<or> (e = None \<and> (\<exists>r. c' = ctx_set_response (Some r) c))"
proof (induction ask turns req k le c f rule: sequential_loop.induct)
  case (1 ask turns req k le c f)
  note loop = "1.prems" [unfolded sequential_loop.simps [of ask turns req k]]
  obtain o1 p1 where s: "plugin_select_upstream (turns k) f = (o1, p1)" by fastforce
  consider "\<not> (k < fw_max_attempts (fp_core f) \<and> k < length (fw_upstreams (fp_core f)))" | "o1 = None"
    | idx where "k < fw_max_attempts (fp_core f) \<and> k < length (fw_upstreams (fp_core f))" "o1 = Some idx"
    by blast
  then show ?case
  proof cases
    case (3 idx)
    obtain r p2 where q: "forward_query_with_health ask k req idx (while_waiting (turns k) p1) = (r, p2)" by fastforce
    show ?thesis
    proof (cases r)
      case (Inl x)
      have "sequential_loop ask turns req (k + 1) (Some x) c p2 = (e, c', f')"
        using loop 3 s q Inl by simp
      then show ?thesis using "1.IH" [OF 3(1) s [symmetric] 3(2) q [symmetric] Inl] by blast
    qed (use loop 3 s q in auto)
  qed (use loop s in \<open>auto split: if_splits\<close>)
qed

lemma forward_context:
  assumes "forward_execute joins ask turns c f = (e, c', f')" and "response c = None"
  shows "(e \<noteq> None \<and> c' = c) \<or> (e = None \<and> (\<exists>r. c' = ctx_set_response (Some r) c))"
  using assms
  by (auto simp: forward_execute_def has_response_def execute_sequential_def
      dest!: sequential_loop_context split: if_splits prod.splits sum.splits)

text \<open>What the handler needs to know of an entry sequence that contains the cache.\<close>

definition caching_entry :: "'s heap \<Rightarrow> registry \<Rightarrow> 's sequence_step list \<Rightarrow> 's leaf \<Rightarrow> bool" where
  "caching_entry h reg steps l \<longleftrightarrow>
     registry_get reg ''main'' = Some 0 \<and> h 0 = SequencePlugin steps (Some ''main'') \<and>
     registry_get reg ''cache'' = Some 1 \<and> h 1 = Leaf l \<and> leaf_name l = ''cache'' \<and>
     distinct (plugin_names reg) \<and> ''cache'' \<in> set (plugin_names reg) \<and>
     (\<forall>name \<in> set (plugin_names reg). \<forall>b. name \<noteq> ''cache'' \<longrightarrow> registry_get reg name = Some b \<longrightarrow>
        plugin_name (h b) \<noteq> ''cache'') \<and>
     (\<forall>a. reverse_hook (h a) = None)"

lemma entry_handle:
  assumes "caching_entry h reg steps (cache_leaf ops t u)"
    and "exec_steps h reg (Suc n) steps (initial_context ''main'' now rc) (p, f) = Some (e, c, (p', f'))"
    and "\<not> has_metadata ''goto_label'' c" and "response c \<noteq> None \<Longrightarrow> cache_execute ops t t u c p' = (e2, c, p2)"
  shows "handle h reg ''main'' (Suc (Suc n)) now rc (p, f) =
    (case e of Some x \<Rightarrow> Some (Inl x, (p', f'))
     | None \<Rightarrow> Some (Inr (finish_response c), (if response c = None then p' else p2, f')))"
proof -
  have main: "registry_get reg ''main'' = Some 0" "h 0 = SequencePlugin steps (Some ''main'')"
    and hook: "\<And>a. reverse_hook (h a) = None"
    using assms(1) by (simp_all add: caching_entry_def)
  have x: "exec_plugin h reg (Suc (Suc n)) 0 (initial_context ''main'' now rc) (p, f) = Some (e, c, (p', f'))"
    using assms(2) main by (simp add: exec_plugin.simps(2))
  have w: "cache_writes h reg (Suc (Suc n)) (plugin_names reg) c (p', f') = Some (c, (p2, f'))"
    if "response c \<noteq> None"
    by (rule cache_writes_single [where a = 1 and l = "cache_leaf ops t u"])
      (use assms(1) assms(4) [OF that] in \<open>auto simp: caching_entry_def\<close>)
  show ?thesis
  proof (cases e)
    case None
    with x w assms(3) main show ?thesis
      by (cases "response c") (simp_all add: handle_def has_response_def reverse_saves_none [OF hook])
  next
    case (Some y)
    with x main show ?thesis by (simp add: handle_def)
  qed
qed

lemma resolver_entry:
  assumes "resolver_registry reg"
  shows "caching_entry (resolver_heap ops t u joins ask turns) reg [Exec 1, Exec 2] (cache_leaf ops t u)"
proof -
  have "plugin_name (resolver_heap ops t u joins ask turns b) \<noteq> ''cache''"
    if "name \<in> {''main'', ''cache'', ''forward''}" "name \<noteq> ''cache''" "registry_get reg name = Some b" for name b
    using that resolver_get [OF assms] by fastforce
  with resolver_get [OF assms] show ?thesis by (simp add: caching_entry_def)
qed

lemmas resolver_handle = entry_handle [OF resolver_entry]

lemma resolver_steps:
  assumes "cache_execute ops t t u c p = (None, c1, p1)"
    and "\<not> has_metadata ''jump_target'' c1" and "\<not> has_metadata ''goto_label'' c1"
  shows "exec_steps (resolver_heap ops t u joins ask turns) reg (Suc (Suc n)) [Exec 1, Exec 2] c (p, f) =
    (if get_bool RETURN_FLAG c1 = Some True then Some (None, c1, (p1, f))
     else exec_steps (resolver_heap ops t u joins ask turns) reg (Suc n) [Exec 2] c1 (p1, f))"
  by (rule leaf_step [where l = "cache_leaf ops t u"]) (use assms in simp_all)

lemma resolver_forwards:
  assumes "forward_execute joins ask turns c f = (e, c', f')"
    and "\<not> has_metadata ''jump_target'' c'" and "\<not> has_metadata ''goto_label'' c'"
  shows "exec_steps (resolver_heap ops t u joins ask turns) reg (Suc (Suc n)) [Exec 2] c (p, f) =
    Some (e, c', (p, f'))"
proof (cases e)
  case None
  show ?thesis unfolding None
    by (subst leaf_step [where l = "forward_leaf joins ask turns" and c' = c' and s' = "(p, f')"])
      (use assms None in \<open>simp_all add: exec_steps.simps\<close>)
next
  case (Some x)
  show ?thesis unfolding Some
    by (rule leaf_step_fails [where l = "forward_leaf joins ask turns"]) (use assms Some in simp_all)
qed

text \<open>A query that misses the cache: the forwarder's response is stored and returned.\<close>

lemma resolver_miss:
  assumes "resolver_registry reg" and "response_cache ops ok" and "sharded_ok ops ok (cp_cache p)"
    and "make_key (rc_message rc) = Some key" and "lookup ops (cp_cache p) key = None"
    and "handle (resolver_heap ops t u joins ask turns) reg ''main'' (Suc (Suc (Suc (Suc n)))) now rc (p, f) =
      Some (Inr r1, (p1, f1))"
  shows "\<exists>pm c r. sharded_ok ops ok (cp_cache pm) \<and> cp_cache_ttl pm = cp_cache_ttl p \<and>
    make_key (request c) = Some key \<and> response c = Some r \<and> get_bool ''response_from_cache'' c = None \<and>
    cache_execute ops t t u c pm = (None, c, p1) \<and> r1 = set_id (msg_id (rc_message rc)) r"
proof -
  let ?c0 = "initial_context ''main'' now rc"
  let ?c1 = "set_metadata ''cache_checked'' (MBool True) ?c0"
  let ?h = "resolver_heap ops t u joins ask turns"
  note ini = initial_context_facts [where entry = "''main''" and now = now and rc = rc]
  obtain pm where pm: "cache_execute ops t t u ?c0 p = (None, ?c1, pm)" "sharded_ok ops ok (cp_cache pm)"
    "cp_cache_ttl pm = cp_cache_ttl p"
    using cache_miss [OF assms(2,3), of ?c0 key t t u] assms(4,5) ini by auto
  obtain e c2 f2 where fw: "forward_execute joins ask turns ?c1 f = (e, c2, f2)" by (metis prod_cases3)
  have c1: "request ?c1 = rc_message rc" "response ?c1 = None" "get_bool ''response_from_cache'' ?c1 = None"
    "\<not> has_metadata ''jump_target'' ?c1" "\<not> has_metadata ''goto_label'' ?c1" "get_bool RETURN_FLAG ?c1 = None"
    using ini by (simp_all add: ctx_get_defs has_metadata_def RETURN_FLAG_def)
  from forward_context [OF fw c1(2)] c1 have c2: "request c2 = rc_message rc"
    "get_bool ''response_from_cache'' c2 = None"
    "\<not> has_metadata ''jump_target'' c2" "\<not> has_metadata ''goto_label'' c2" "response c2 = None \<longleftrightarrow> e \<noteq> None"
    by (auto simp: ctx_get_defs has_metadata_def)
  have steps: "exec_steps ?h reg (Suc (Suc (Suc n))) [Exec 1, Exec 2] ?c0 (p, f) = Some (e, c2, (pm, f2))"
    using resolver_steps [OF pm(1) c1(4,5)] resolver_forwards [OF fw c2(3,4)] c1(6) by simp
  have w: "cache_execute ops t t u c2 pm = (None, c2, try_store_response ops t u key c2 pm)"
    if "response c2 \<noteq> None"
    using that assms(4) c2(1,2) by (auto simp: cache_execute_def)
  note h = resolver_handle [OF assms(1) steps c2(4) w]
  have "e = None" using h assms(6) by (auto split: option.splits)
  with c2(5) obtain r where "response c2 = Some r" by blast
  with h \<open>e = None\<close> assms(4,6) w c2 pm show ?thesis
    by (intro exI [of _ pm] exI [of _ c2] exI [of _ r])
      (simp add: finish_response_def take_response_def)
qed

text \<open>The context after a cache hit, and what the handler makes of it.\<close>

definition hit_context :: "cache_entry \<Rightarrow> u32 \<Rightarrow> ctx \<Rightarrow> ctx" where
  "hit_context x ttl c = set_metadata RETURN_FLAG (MBool True) (serve_cached_response x ttl
     (set_metadata ''cache_checked'' (MBool True) c))"

lemma hit_context_facts:
  assumes "\<not> has_metadata ''jump_target'' c" and "\<not> has_metadata ''goto_label'' c"
  shows "\<not> has_metadata ''jump_target'' (hit_context x ttl c)" "\<not> has_metadata ''goto_label'' (hit_context x ttl c)"
    "get_bool RETURN_FLAG (hit_context x ttl c) = Some True"
    "get_bool ''response_from_cache'' (hit_context x ttl c) = Some True"
    "request (hit_context x ttl c) = request c"
    "response (hit_context x ttl c) = Some ((set_id (msg_id (request c)) (update_ttls ttl (ce_response x)))
      \<lparr>msg_questions := msg_questions (request c)\<rparr>)"
  using assms by (simp_all add: hit_context_def ctx_get_defs has_metadata_def RETURN_FLAG_def serve_sel)

lemma hit_handle:
  assumes "caching_entry h reg steps (cache_leaf ops t u)" and "make_key (rc_message rc) = Some key"
    and "exec_steps h reg (Suc n) steps (initial_context ''main'' now rc) (p, f) =
      Some (None, hit_context x ttl (initial_context ''main'' now rc), (p', f))"
  shows "\<exists>r. handle h reg ''main'' (Suc (Suc n)) now rc (p, f) = Some (Inr r, (p', f)) \<and>
    msg_id r = msg_id (rc_message rc) \<and> msg_questions r = msg_questions (rc_message rc) \<and>
    msg_rcode r = msg_rcode (ce_response x) \<and> records r = map (set_ttl ttl) (records (ce_response x))"
proof -
  let ?c = "initial_context ''main'' now rc"
  note ini = initial_context_facts [where entry = "''main''" and now = now and rc = rc]
  note hc = hit_context_facts [OF ini(4,5), of x ttl]
  have "cache_execute ops t t u (hit_context x ttl ?c) p' = (None, hit_context x ttl ?c, p')"
    using hc assms(2) ini(1) by (simp add: cache_execute_def)
  from entry_handle [OF assms(1,3) hc(2) this] hc ini(1) show ?thesis
    by (simp add: finish_response_def take_response_def update_ttls_def)
qed

text \<open>A query that hits: the forwarder does not run.\<close>

lemma cache_stops:
  assumes "h 1 = Leaf (cache_leaf ops t u)" and "cache_execute ops t t u c p = (None, hit_context x ttl c, p')"
    and "\<not> has_metadata ''jump_target'' c" and "\<not> has_metadata ''goto_label'' c"
  shows "exec_steps h reg (Suc (Suc n)) (Exec 1 # rest) c (p, f) = Some (None, hit_context x ttl c, (p', f))"
  using hit_context_facts [OF assms(3,4), of x ttl] assms(1,2)
  by (subst leaf_step [where l = "cache_leaf ops t u" and c' = "hit_context x ttl c" and s' = "(p', f)"]) simp_all

lemma resolver_hit:
  assumes "resolver_registry reg" and "make_key (rc_message rc) = Some key"
    and "cache_execute ops t t u (initial_context ''main'' now rc) p =
      (None, hit_context x ttl (initial_context ''main'' now rc), p')"
  shows "\<exists>r. handle (resolver_heap ops t u joins ask turns) reg ''main'' (Suc (Suc (Suc n))) now rc (p, f) =
      Some (Inr r, (p', f)) \<and> msg_id r = msg_id (rc_message rc) \<and>
    msg_questions r = msg_questions (rc_message rc) \<and>
    msg_rcode r = msg_rcode (ce_response x) \<and> records r = map (set_ttl ttl) (records (ce_response x))"
proof -
  note ini = initial_context_facts [where entry = "''main''" and now = now and rc = rc]
  show ?thesis
    by (rule hit_handle [OF resolver_entry [OF assms(1)] assms(2)], rule cache_stops)
      (use assms(3) ini(4,5) in simp_all)
qed

lemma set_id_records [simp]: "records (set_id i r) = records r" "get_min_ttl (set_id i r) = get_min_ttl r"
  "msg_rcode (set_id i r) = msg_rcode r" "msg_answers (set_id i r) = msg_answers r"
  by (simp_all add: set_id_def records_def get_min_ttl_def)

end
