(* ===== verification/Wire.thy ===== *)
theory Wire
  imports Dns_Message "HOL-Library.Multiset"
begin

text \<open>
  The wire codec, \<^verbatim>\<open>src/src/dns/wire.rs\<close>. The bytes themselves are written and read by the
  \<^verbatim>\<open>hickory-proto\<close> crate; this file converts between the crate's message type and the
  program's own. The crate's functions are the fields of \<open>hickory_ops\<close> and its message is the
  record of what its getters and setters show; record types, classes and EDNS codes of the
  crate are represented by their wire numbers, which the crate converts from and to without
  loss. What the conversions rely on is the locale \<open>hickory\<close>.

  The lemmas show when a message survives the conversion to the crate's type and back, that
  the EDNS options survive flattening (the order of the options does not: the crate keeps them in
  a hash map, whose iteration order is a field of \<open>hickory_ops\<close>), and what is lost: the class of a question and the
  records of types without a counterpart in the crate.
\<close>

section \<open>Lossy decoding of UTF-8\<close>

text \<open>\<^verbatim>\<open>String::from_utf8_lossy\<close>: the continuation bytes a lead byte takes, and whether the
  character is complete; an incomplete one is replaced by U+FFFD.\<close>

definition utf8_cont :: "u8 \<Rightarrow> bool" where
  "utf8_cont b \<longleftrightarrow> 0x80 \<le> b \<and> b \<le> 0xBF"

definition utf8_second :: "u8 \<Rightarrow> u8 \<Rightarrow> bool" where
  "utf8_second b c \<longleftrightarrow>
     (if b = 0xE0 then 0xA0 \<le> c \<and> c \<le> 0xBF
      else if b = 0xED then 0x80 \<le> c \<and> c \<le> 0x9F
      else if b = 0xF0 then 0x90 \<le> c \<and> c \<le> 0xBF
      else if b = 0xF4 then 0x80 \<le> c \<and> c \<le> 0x8F
      else utf8_cont c)"

definition utf8_tail :: "u8 \<Rightarrow> nat option" where
  "utf8_tail b =
     (if b < 0x80 then Some 0
      else if 0xC2 \<le> b \<and> b \<le> 0xDF then Some 1
      else if 0xE0 \<le> b \<and> b \<le> 0xEF then Some 2
      else if 0xF0 \<le> b \<and> b \<le> 0xF4 then Some 3
      else None)"

definition utf8_run :: "u8 \<Rightarrow> u8 list \<Rightarrow> nat" where
  "utf8_run b bs =
     (case bs of [] \<Rightarrow> 0
      | c # cs \<Rightarrow> if utf8_second b c then 1 + length (takeWhile utf8_cont (take 2 cs)) else 0)"

definition utf8_char :: "u8 \<Rightarrow> u8 list \<Rightarrow> nat \<times> bool" where
  "utf8_char b bs =
     (case utf8_tail b of None \<Rightarrow> (0, False)
      | Some n \<Rightarrow> let k = min n (utf8_run b bs) in (k, k = n))"

definition byte_char :: "u8 \<Rightarrow> char" where
  "byte_char b = char_of (unat b)"

definition char_byte :: "char \<Rightarrow> u8" where
  "char_byte c = of_nat (of_char c)"

definition str_bytes :: "string \<Rightarrow> u8 list" where
  "str_bytes s = map char_byte s"

function from_utf8_lossy :: "u8 list \<Rightarrow> string" where
  "from_utf8_lossy [] = []"
| "from_utf8_lossy (b # bs) =
     (case utf8_char b bs of (k, ok) \<Rightarrow>
        (if ok then map byte_char (b # take k bs) else map byte_char [0xEF, 0xBF, 0xBD]) @
        from_utf8_lossy (drop k bs))"
  by pat_completeness auto
termination
  by (relation "measure length") auto

section \<open>The crate's messages\<close>

datatype h_op_code = HO_Query | HO_Status | HO_Notify | HO_Update

text \<open>\<open>HR_Other c\<close> stands for the remaining variants; \<open>c\<close> is the number the crate converts
  them to.\<close>

datatype h_rcode =
    HR_NoError | HR_FormErr | HR_ServFail | HR_NXDomain | HR_NotImp | HR_Refused | HR_YXDomain
  | HR_YXRRSet | HR_NXRRSet | HR_NotAuth | HR_NotZone | HR_Other u16

datatype 'n h_rdata =
    H_A ipv4
  | H_AAAA ipv6
  | H_CNAME 'n
  | H_MX u16 'n
  | H_NS 'n
  | H_PTR 'n
  | H_TXT "u8 list list"
  | H_SOA 'n 'n u32 int int int u32
  | H_SRV u16 u16 u16 'n
  | H_Unknown u16 "u8 list"
  | H_Typed nat

record 'n h_query =
  hq_name :: 'n
  hq_type :: u16
  hq_class :: u16

record 'n h_record =
  hr_name :: 'n
  hr_type :: u16
  hr_class :: u16
  hr_ttl :: u32
  hr_data :: "'n h_rdata option"

text \<open>The options are a hash map from codes to options. An option is represented by the bytes it
  emits.\<close>

type_synonym h_options = "u16 \<rightharpoonup> u8 list"

record h_edns =
  he_rcode_high :: u8
  he_version :: u8
  he_dnssec_ok :: bool
  he_max_payload :: u16
  he_options :: h_options

record 'n h_message =
  hm_id :: u16
  hm_response :: bool
  hm_op_code :: h_op_code
  hm_aa :: bool
  hm_tc :: bool
  hm_rd :: bool
  hm_ra :: bool
  hm_ad :: bool
  hm_cd :: bool
  hm_rcode :: h_rcode
  hm_queries :: "'n h_query list"
  hm_answers :: "'n h_record list"
  hm_name_servers :: "'n h_record list"
  hm_additionals :: "'n h_record list"
  hm_edns :: "h_edns option"

text \<open>The crate's functions: decoding and encoding of messages (\<open>Inl\<close>: the text of the
  error), names from and to text, response codes from numbers, the bytes of record data, and the
  order in which the iterator of the hash map of options visits its entries.\<close>

record 'n hickory_ops =
  hk_from_bytes :: "u8 list \<Rightarrow> string + 'n h_message"
  hk_emit :: "'n h_message \<Rightarrow> string + u8 list"
  hk_name_from_utf8 :: "string \<Rightarrow> string + 'n"
  hk_name_to_utf8 :: "'n \<Rightarrow> string"
  hk_rcode_from_u16 :: "u16 \<Rightarrow> h_rcode"
  hk_rdata_emit :: "'n h_rdata \<Rightarrow> u8 list option"
  hk_options_iter :: "h_options \<Rightarrow> (u16 \<times> u8 list) list"

section \<open>From the crate's type\<close>

definition options_blob :: "(u16 \<times> u8 list) list \<Rightarrow> u8 list" where
  "options_blob opts =
     concat (map (\<lambda>(code, v). u16_to_be_bytes code @ u16_to_be_bytes (of_nat (length v)) @ v) opts)"

definition edns_options_blob :: "'n hickory_ops \<Rightarrow> h_edns \<Rightarrow> u8 list" where
  "edns_options_blob ops e = options_blob (hk_options_iter ops (he_options e))"

definition unrooted_name :: "'n hickory_ops \<Rightarrow> 'n \<Rightarrow> string" where
  "unrooted_name ops n =
     (let s = hk_name_to_utf8 ops n
      in case strip_suffix ''.'' s of Some s' \<Rightarrow> s' | None \<Rightarrow> s)"

definition convert_hickory_rdata :: "'n hickory_ops \<Rightarrow> 'n h_rdata \<Rightarrow> rdata option" where
  "convert_hickory_rdata ops d =
     (case d of
        H_A a \<Rightarrow> Some (RD_A a)
      | H_AAAA a \<Rightarrow> Some (RD_AAAA a)
      | H_CNAME n \<Rightarrow> Some (RD_CNAME (unrooted_name ops n))
      | H_MX p n \<Rightarrow> Some (RD_MX p (unrooted_name ops n))
      | H_NS n \<Rightarrow> Some (RD_NS (unrooted_name ops n))
      | H_PTR n \<Rightarrow> Some (RD_PTR (unrooted_name ops n))
      | H_TXT ts \<Rightarrow> Some (RD_TXT (map from_utf8_lossy ts))
      | H_SOA m r serial refresh retry expire minimum \<Rightarrow>
          Some (RD_SOA (unrooted_name ops m) (unrooted_name ops r) serial (word_of_int refresh)
            (word_of_int retry) (word_of_int expire) minimum)
      | H_SRV p w port n \<Rightarrow> Some (RD_SRV p w port (unrooted_name ops n))
      | _ \<Rightarrow> map_option RD_Unknown (hk_rdata_emit ops d))"

definition convert_hickory_record :: "'n hickory_ops \<Rightarrow> 'n h_record \<Rightarrow> resource_record option" where
  "convert_hickory_record ops r =
     (case hr_data r of None \<Rightarrow> None
      | Some d \<Rightarrow>
          map_option (rr_new (unrooted_name ops (hr_name r)) (record_type_from_u16 (hr_type r))
            (record_class_from_u16 (hr_class r)) (hr_ttl r)) (convert_hickory_rdata ops d))"

fun op_code_from_hickory :: "h_op_code \<Rightarrow> op_code" where
  "op_code_from_hickory HO_Query = OP_Query"
| "op_code_from_hickory HO_Status = OP_Status"
| "op_code_from_hickory HO_Notify = OP_Notify"
| "op_code_from_hickory HO_Update = OP_Update"

fun rcode_from_hickory :: "h_rcode \<Rightarrow> response_code" where
  "rcode_from_hickory HR_NoError = RC_NoError"
| "rcode_from_hickory HR_FormErr = RC_FormErr"
| "rcode_from_hickory HR_ServFail = RC_ServFail"
| "rcode_from_hickory HR_NXDomain = RC_NXDomain"
| "rcode_from_hickory HR_NotImp = RC_NotImp"
| "rcode_from_hickory HR_Refused = RC_Refused"
| "rcode_from_hickory HR_YXDomain = RC_YXDomain"
| "rcode_from_hickory HR_YXRRSet = RC_YXRRSet"
| "rcode_from_hickory HR_NXRRSet = RC_NXRRSet"
| "rcode_from_hickory HR_NotAuth = RC_NotAuth"
| "rcode_from_hickory HR_NotZone = RC_NotZone"
| "rcode_from_hickory (HR_Other c) = RC_Unknown (ucast (min c 255))"

definition opt_record :: "'n hickory_ops \<Rightarrow> h_edns \<Rightarrow> resource_record" where
  "opt_record ops e =
     rr_new ''.'' RT_OPT (record_class_from_u16 (he_max_payload e)) 0
       (RD_OPT (he_rcode_high e) (he_version e) (if he_dnssec_ok e then 0x8000 else 0)
         (edns_options_blob ops e))"

definition convert_from_hickory :: "'n hickory_ops \<Rightarrow> 'n h_message \<Rightarrow> message result" where
  "convert_from_hickory ops h =
     (let m = set_id (hm_id h) message_new;
          m = set_query (\<not> hm_response h) m;
          m = set_authoritative (hm_aa h) m;
          m = set_truncated (hm_tc h) m;
          m = set_recursion_desired (hm_rd h) m;
          m = set_recursion_available (hm_ra h) m;
          m = set_authentic_data (hm_ad h) m;
          m = set_checking_disabled (hm_cd h) m;
          m = set_opcode (op_code_from_hickory (hm_op_code h)) m;
          m = set_response_code (rcode_from_hickory (hm_rcode h)) m;
          m = fold (\<lambda>q. add_question (question_new (unrooted_name ops (hq_name q))
                (record_type_from_u16 (hq_type q)) (record_class_from_u16 (hq_class q)))) (hm_queries h) m;
          m = fold add_answer (List.map_filter (convert_hickory_record ops) (hm_answers h)) m;
          m = fold add_authority (List.map_filter (convert_hickory_record ops) (hm_name_servers h)) m;
          m = fold add_additional (List.map_filter (convert_hickory_record ops) (hm_additionals h)) m
      in Inr (case hm_edns h of None \<Rightarrow> m | Some e \<Rightarrow> add_additional (opt_record ops e) m))"

definition parse_message :: "'n hickory_ops \<Rightarrow> u8 list \<Rightarrow> message result" where
  "parse_message ops data =
     (case hk_from_bytes ops data of
        Inl e \<Rightarrow> Inl (DnsProtocol (''Failed to parse DNS message: '' @ e))
      | Inr h \<Rightarrow> convert_from_hickory ops h)"

section \<open>To the crate's type\<close>

text \<open>The loop that splits the options: \<open>i\<close> is the read position.\<close>

function set_edns_options :: "u8 list \<Rightarrow> nat \<Rightarrow> h_options \<Rightarrow> h_options" where
  "set_edns_options options i opts =
     (if i + 4 \<le> length options then
        let code = u16_from_be_bytes (options ! i) (options ! (i + 1));
            len = unat (u16_from_be_bytes (options ! (i + 2)) (options ! (i + 3)));
            i = i + 4
        in if i + len > length options then opts
           else set_edns_options options (i + len)
             (opts(code \<mapsto> take len (drop i options)))
      else opts)"
  by pat_completeness auto
termination
  by (relation "measure (\<lambda>(options, i, opts). length options - i)") auto

declare set_edns_options.simps [simp del]

definition name_of :: "'n hickory_ops \<Rightarrow> string \<Rightarrow> string \<Rightarrow> 'n result" where
  "name_of ops what s =
     (case hk_name_from_utf8 ops s of
        Inl e \<Rightarrow> Inl (DnsProtocol (what @ '': '' @ e))
      | Inr n \<Rightarrow> Inr n)"

definition convert_to_hickory_rdata :: "'n hickory_ops \<Rightarrow> u16 \<Rightarrow> rdata \<Rightarrow> 'n h_rdata option result" where
  "convert_to_hickory_rdata ops rtype d =
     (case d of
        RD_A a \<Rightarrow> Inr (Some (H_A a))
      | RD_AAAA a \<Rightarrow> Inr (Some (H_AAAA a))
      | RD_CNAME s \<Rightarrow> map_sum id (Some \<circ> H_CNAME) (name_of ops ''Invalid CNAME'' s)
      | RD_MX p s \<Rightarrow> map_sum id (Some \<circ> H_MX p) (name_of ops ''Invalid MX exchange'' s)
      | RD_NS s \<Rightarrow> map_sum id (Some \<circ> H_NS) (name_of ops ''Invalid NS'' s)
      | RD_PTR s \<Rightarrow> map_sum id (Some \<circ> H_PTR) (name_of ops ''Invalid PTR'' s)
      | RD_TXT ts \<Rightarrow> Inr (Some (H_TXT (map str_bytes ts)))
      | RD_SOA m r serial refresh retry expire minimum \<Rightarrow>
          (case name_of ops ''Invalid SOA mname'' m of
             Inl e \<Rightarrow> Inl e
           | Inr m' \<Rightarrow>
               (case name_of ops ''Invalid SOA rname'' r of
                  Inl e \<Rightarrow> Inl e
                | Inr r' \<Rightarrow> Inr (Some (H_SOA m' r' serial (sint refresh) (sint retry) (sint expire) minimum))))
      | RD_SRV p w port s \<Rightarrow> map_sum id (Some \<circ> H_SRV p w port) (name_of ops ''Invalid SRV target'' s)
      | RD_Unknown bs \<Rightarrow> Inr (Some (H_Unknown rtype bs))
      | _ \<Rightarrow> Inr None)"

definition convert_to_hickory_record :: "'n hickory_ops \<Rightarrow> resource_record \<Rightarrow> 'n h_record option result" where
  "convert_to_hickory_record ops rr =
     (case name_of ops ''Invalid domain name'' (rr_name rr) of
        Inl e \<Rightarrow> Inl e
      | Inr n \<Rightarrow>
          (case convert_to_hickory_rdata ops (record_type_to_u16 (rr_rtype rr)) (rr_rdata rr) of
             Inl e \<Rightarrow> Inl e
           | Inr None \<Rightarrow> Inr None
           | Inr (Some d) \<Rightarrow>
               Inr (Some \<lparr>hr_name = n, hr_type = record_type_to_u16 (rr_rtype rr),
                 hr_class = record_class_to_u16 (rr_rclass rr), hr_ttl = rr_ttl rr, hr_data = Some d\<rparr>)))"

fun op_code_to_hickory :: "op_code \<Rightarrow> h_op_code" where
  "op_code_to_hickory OP_Query = HO_Query"
| "op_code_to_hickory OP_Status = HO_Status"
| "op_code_to_hickory OP_Notify = HO_Notify"
| "op_code_to_hickory OP_Update = HO_Update"
| "op_code_to_hickory OP_IQuery = HO_Query"
| "op_code_to_hickory (OP_Unknown _) = HO_Query"

fun rcode_to_hickory :: "'n hickory_ops \<Rightarrow> response_code \<Rightarrow> h_rcode" where
  "rcode_to_hickory ops RC_NoError = HR_NoError"
| "rcode_to_hickory ops RC_FormErr = HR_FormErr"
| "rcode_to_hickory ops RC_ServFail = HR_ServFail"
| "rcode_to_hickory ops RC_NXDomain = HR_NXDomain"
| "rcode_to_hickory ops RC_NotImp = HR_NotImp"
| "rcode_to_hickory ops RC_Refused = HR_Refused"
| "rcode_to_hickory ops RC_YXDomain = HR_YXDomain"
| "rcode_to_hickory ops RC_YXRRSet = HR_YXRRSet"
| "rcode_to_hickory ops RC_NXRRSet = HR_NXRRSet"
| "rcode_to_hickory ops RC_NotAuth = HR_NotAuth"
| "rcode_to_hickory ops RC_NotZone = HR_NotZone"
| "rcode_to_hickory ops (RC_Unknown code) = hk_rcode_from_u16 ops (ucast code)"

text \<open>\<^verbatim>\<open>Query::query\<close> makes a query of class IN.\<close>

fun convert_queries :: "'n hickory_ops \<Rightarrow> question list \<Rightarrow> 'n h_message \<Rightarrow> 'n h_message result" where
  "convert_queries ops [] h = Inr h"
| "convert_queries ops (q # qs) h =
     (case name_of ops ''Invalid domain name'' (qname q) of
        Inl e \<Rightarrow> Inl e
      | Inr n \<Rightarrow> convert_queries ops qs (h\<lparr>hm_queries := hm_queries h @
          [\<lparr>hq_name = n, hq_type = record_type_to_u16 (qtype q), hq_class = 1\<rparr>]\<rparr>))"

fun convert_records :: "'n hickory_ops \<Rightarrow> resource_record list \<Rightarrow> 'n h_record list result" where
  "convert_records ops [] = Inr []"
| "convert_records ops (rr # rrs) =
     (case convert_to_hickory_record ops rr of
        Inl e \<Rightarrow> Inl e
      | Inr r \<Rightarrow> map_sum id (\<lambda>rs. (case r of Some x \<Rightarrow> x # rs | None \<Rightarrow> rs)) (convert_records ops rrs))"

definition edns_of :: "resource_record \<Rightarrow> h_edns option" where
  "edns_of rr =
     (case rr_rdata rr of
        RD_OPT extended_rcode version flags options \<Rightarrow>
          Some \<lparr>he_rcode_high = extended_rcode, he_version = version,
            he_dnssec_ok = (flags AND 0x8000 \<noteq> 0),
            he_max_payload = max (record_class_to_u16 (rr_rclass rr)) 512,
            he_options = set_edns_options options 0 Map.empty\<rparr>
      | _ \<Rightarrow> None)"

fun convert_additional :: "'n hickory_ops \<Rightarrow> resource_record list \<Rightarrow> 'n h_message \<Rightarrow> 'n h_message result" where
  "convert_additional ops [] h = Inr h"
| "convert_additional ops (rr # rrs) h =
     (case edns_of rr of
        Some e \<Rightarrow> convert_additional ops rrs (h\<lparr>hm_edns := Some e\<rparr>)
      | None \<Rightarrow>
          (case convert_to_hickory_record ops rr of
             Inl e \<Rightarrow> Inl e
           | Inr None \<Rightarrow> convert_additional ops rrs h
           | Inr (Some r) \<Rightarrow> convert_additional ops rrs (h\<lparr>hm_additionals := hm_additionals h @ [r]\<rparr>)))"

definition hickory_header :: "'n hickory_ops \<Rightarrow> message \<Rightarrow> 'n h_message" where
  "hickory_header ops m =
     \<lparr>hm_id = msg_id m, hm_response = msg_qr m, hm_op_code = op_code_to_hickory (msg_opcode m),
      hm_aa = msg_aa m, hm_tc = msg_tc m, hm_rd = msg_rd m, hm_ra = msg_ra m, hm_ad = msg_ad m,
      hm_cd = msg_cd m, hm_rcode = rcode_to_hickory ops (msg_rcode m), hm_queries = [],
      hm_answers = [], hm_name_servers = [], hm_additionals = [], hm_edns = None\<rparr>"

definition convert_to_hickory :: "'n hickory_ops \<Rightarrow> message \<Rightarrow> 'n h_message result" where
  "convert_to_hickory ops m =
     (case convert_queries ops (msg_questions m) (hickory_header ops m) of
        Inl e \<Rightarrow> Inl e
      | Inr h \<Rightarrow>
          (case convert_records ops (msg_answers m) of
             Inl e \<Rightarrow> Inl e
           | Inr an \<Rightarrow>
               (case convert_records ops (msg_authority m) of
                  Inl e \<Rightarrow> Inl e
                | Inr ns \<Rightarrow>
                    convert_additional ops (msg_additional m) (h\<lparr>hm_answers := an, hm_name_servers := ns\<rparr>))))"

definition serialize_message :: "'n hickory_ops \<Rightarrow> message \<Rightarrow> u8 list result" where
  "serialize_message ops m =
     (case convert_to_hickory ops m of
        Inl e \<Rightarrow> Inl e
      | Inr h \<Rightarrow>
          (case hk_emit ops h of
             Inl e \<Rightarrow> Inl (DnsProtocol (''Failed to serialize DNS message: '' @ e))
           | Inr bs \<Rightarrow> Inr bs))"

section \<open>Facts\<close>

lemma fold_add_mapped_question:
  "fold (\<lambda>q. add_question (f q)) qs m = m\<lparr>msg_questions := msg_questions m @ map f qs\<rparr>"
  by (induction qs arbitrary: m) (simp_all add: add_question_def)

lemmas fold_add_sections = fold_add_mapped_question fold_add_answer fold_add_authority fold_add_additional

lemma map_sum_Inr: "map_sum f g x = Inr y \<longleftrightarrow> (\<exists>z. x = Inr z \<and> y = g z)"
  by (cases x) auto

text \<open>The converted message, field by field.\<close>

lemma convert_from_hickory_eq:
  "convert_from_hickory ops h = Inr
     \<lparr>msg_id = hm_id h, msg_qr = hm_response h, msg_opcode = op_code_from_hickory (hm_op_code h),
      msg_aa = hm_aa h, msg_tc = hm_tc h, msg_rd = hm_rd h, msg_ra = hm_ra h, msg_ad = hm_ad h,
      msg_cd = hm_cd h, msg_rcode = rcode_from_hickory (hm_rcode h),
      msg_questions = map (\<lambda>q. question_new (unrooted_name ops (hq_name q))
        (record_type_from_u16 (hq_type q)) (record_class_from_u16 (hq_class q))) (hm_queries h),
      msg_answers = List.map_filter (convert_hickory_record ops) (hm_answers h),
      msg_authority = List.map_filter (convert_hickory_record ops) (hm_name_servers h),
      msg_additional = List.map_filter (convert_hickory_record ops) (hm_additionals h) @
        (case hm_edns h of None \<Rightarrow> [] | Some e \<Rightarrow> [opt_record ops e])\<rparr>"
  by (cases "hm_edns h")
    (simp_all add: convert_from_hickory_def Let_def fold_add_sections message_new_def set_id_def
      set_query_def set_authoritative_def set_truncated_def set_recursion_desired_def
      set_recursion_available_def set_authentic_data_def set_checking_disabled_def set_opcode_def
      set_response_code_def add_additional_def)

lemma set_edns_options_blob:
  assumes "distinct (map fst opts)" and "\<forall>(c, v) \<in> set opts. length v < 2 ^ 16"
  shows "set_edns_options (pre @ options_blob opts) (length pre) acc = acc ++ map_of opts"
  using assms
proof (induction opts arbitrary: pre acc)
  case Nil
  then show ?case by (simp add: set_edns_options.simps options_blob_def)
next
  case (Cons o1 opts)
  obtain c v where o1: "o1 = (c, v)" by fastforce
  let ?hd = "u16_to_be_bytes c @ u16_to_be_bytes (of_nat (length v)) @ v"
  have b: "options_blob (o1 # opts) = ?hd @ options_blob opts"
    by (simp add: options_blob_def o1)
  have ih: "set_edns_options ((pre @ ?hd) @ options_blob opts) (length (pre @ ?hd)) (acc(c \<mapsto> v)) =
      acc(c \<mapsto> v) ++ map_of opts"
    using Cons.prems by (intro Cons.IH) auto
  have "length (pre @ ?hd) = length pre + (length v + 4)" by (simp add: u16_to_be_bytes_def)
  note ih [unfolded this]
  moreover have "c \<notin> dom (map_of opts)" using Cons.prems(1) by (simp add: o1 dom_map_of_conv_image_fst)
  then have "acc(c \<mapsto> v) ++ map_of opts = acc ++ map_of (o1 # opts)"
    by (auto simp: o1 map_add_def fun_eq_iff split: option.split)
  moreover have "unat (of_nat (length v) :: u16) = length v"
    using Cons.prems(2) by (simp add: o1 unat_of_nat)
  ultimately show ?case
    unfolding b
    by (subst set_edns_options.simps)
      (simp add: o1 u16_to_be_bytes_def nth_append Let_def algebra_simps)
qed

lemma set_edns_options_of_blob:
  "distinct (map fst opts) \<Longrightarrow> \<forall>(c, v) \<in> set opts. length v < 2 ^ 16 \<Longrightarrow>
    set_edns_options (options_blob opts) 0 Map.empty = map_of opts"
  using set_edns_options_blob [of opts "[]" Map.empty] by simp

lemma mset_of_map_of:
  assumes "distinct (map fst xs)" and "distinct (map fst ys)" and "map_of xs = map_of ys"
  shows "mset xs = mset ys"
proof -
  have "set xs = set ys"
    using assms by (metis (no_types, lifting) map_of_eq_Some_iff subrelI subset_antisym)
  then show ?thesis
    using assms(1,2) by (simp add: set_eq_iff_mset_eq_distinct [symmetric] distinct_map)
qed

lemma card_dom_map_of: "distinct (map fst xs) \<Longrightarrow> card (dom (map_of xs)) = length xs"
  by (metis distinct_card dom_map_of_conv_image_fst length_map list.set_map)

section \<open>Exact messages\<close>

text \<open>What the conversion keeps: \<open>plain\<close> is the set of names whose text the crate renders as it
  was given.\<close>

fun rdata_exact :: "(string \<Rightarrow> bool) \<Rightarrow> rdata \<Rightarrow> bool" where
  "rdata_exact plain (RD_A _) \<longleftrightarrow> True"
| "rdata_exact plain (RD_AAAA _) \<longleftrightarrow> True"
| "rdata_exact plain (RD_CNAME s) \<longleftrightarrow> plain s"
| "rdata_exact plain (RD_MX _ s) \<longleftrightarrow> plain s"
| "rdata_exact plain (RD_NS s) \<longleftrightarrow> plain s"
| "rdata_exact plain (RD_PTR s) \<longleftrightarrow> plain s"
| "rdata_exact plain (RD_TXT ts) \<longleftrightarrow> (\<forall>t \<in> set ts. from_utf8_lossy (str_bytes t) = t)"
| "rdata_exact plain (RD_SOA m r _ _ _ _ _) \<longleftrightarrow> plain m \<and> plain r"
| "rdata_exact plain (RD_SRV _ _ _ s) \<longleftrightarrow> plain s"
| "rdata_exact plain (RD_Unknown _) \<longleftrightarrow> True"
| "rdata_exact plain _ \<longleftrightarrow> False"

definition rr_exact :: "(string \<Rightarrow> bool) \<Rightarrow> resource_record \<Rightarrow> bool" where
  "rr_exact plain rr \<longleftrightarrow> plain (rr_name rr) \<and> canonical_type (rr_rtype rr) \<and>
     canonical_class (rr_rclass rr) \<and> rdata_exact plain (rr_rdata rr)"

definition opt_exact :: "resource_record \<Rightarrow> bool" where
  "opt_exact rr \<longleftrightarrow> (\<exists>payload xr ver flags opts.
     rr = rr_new ''.'' RT_OPT (record_class_from_u16 payload) 0 (RD_OPT xr ver flags (options_blob opts)) \<and>
     512 \<le> payload \<and> flags \<in> {0, 0x8000} \<and> distinct (map fst opts) \<and>
     (\<forall>(c, v) \<in> set opts. length v < 2 ^ 16))"

lemma opt_exactI:
  assumes "512 \<le> payload" and "flags \<in> {0, 0x8000}" and "distinct (map fst opts)"
    and "\<forall>(c, v) \<in> set opts. length v < 2 ^ 16"
  shows "opt_exact (rr_new ''.'' RT_OPT (record_class_from_u16 payload) 0
    (RD_OPT xr ver flags (options_blob opts)))"
  unfolding opt_exact_def using assms by blast

text \<open>The same record, except that its EDNS options may come in another order.\<close>

definition same_record :: "resource_record \<Rightarrow> resource_record \<Rightarrow> bool" where
  "same_record rr rr' \<longleftrightarrow> rr' = rr \<or>
     (\<exists>xr ver flags xs ys. rr_rdata rr = RD_OPT xr ver flags (options_blob xs) \<and>
        rr' = rr\<lparr>rr_rdata := RD_OPT xr ver flags (options_blob ys)\<rparr> \<and> mset ys = mset xs)"

definition same_message :: "message \<Rightarrow> message \<Rightarrow> bool" where
  "same_message m m' \<longleftrightarrow> m' = m\<lparr>msg_additional := msg_additional m'\<rparr> \<and>
     list_all2 same_record (msg_additional m) (msg_additional m')"

text \<open>A record that holds at most one EDNS option.\<close>

definition few_options :: "resource_record \<Rightarrow> bool" where
  "few_options rr \<longleftrightarrow>
     (case rr_rdata rr of
        RD_OPT _ _ _ bs \<Rightarrow> card (dom (set_edns_options bs 0 Map.empty)) \<le> 1
      | _ \<Rightarrow> True)"

definition message_exact :: "(string \<Rightarrow> bool) \<Rightarrow> message \<Rightarrow> bool" where
  "message_exact plain m \<longleftrightarrow>
     msg_opcode m \<in> {OP_Query, OP_Status, OP_Notify, OP_Update} \<and>
     (\<forall>c. msg_rcode m = RC_Unknown c \<longrightarrow> 11 \<le> c) \<and>
     (\<forall>q \<in> set (msg_questions m). plain (qname q) \<and> canonical_type (qtype q) \<and> qclass q = CL_IN) \<and>
     (\<forall>rr \<in> set (msg_answers m) \<union> set (msg_authority m). rr_exact plain rr) \<and>
     (\<exists>xs os. msg_additional m = xs @ os \<and> (\<forall>rr \<in> set xs. rr_exact plain rr) \<and>
        length os \<le> 1 \<and> (\<forall>rr \<in> set os. opt_exact rr))"

locale hickory =
  fixes ops :: "'n hickory_ops" and plain :: "string \<Rightarrow> bool"
  assumes plain_text: "plain s \<Longrightarrow> hk_name_from_utf8 ops s = Inr n \<Longrightarrow>
      hk_name_to_utf8 ops n = s \<or> hk_name_to_utf8 ops n = s @ ''.''"
    and plain_unrooted: "plain s \<Longrightarrow> \<not> ends_with ''.'' s"
    and rcode_number: "11 \<le> c \<Longrightarrow> hk_rcode_from_u16 ops c = HR_Other c"
    and unknown_emit: "hk_rdata_emit ops (H_Unknown c bs) = Some bs"
    and options_iter: "finite (dom m) \<Longrightarrow>
      distinct (map fst (hk_options_iter ops m)) \<and> map_of (hk_options_iter ops m) = m"
begin

lemma unrooted_plain:
  assumes "plain s" and "name_of ops what s = Inr n"
  shows "unrooted_name ops n = s"
proof -
  have "hk_name_from_utf8 ops s = Inr n"
    using assms(2) by (simp add: name_of_def split: sum.splits)
  from plain_text [OF assms(1) this] show ?thesis
  proof
    assume "hk_name_to_utf8 ops n = s"
    then show ?thesis
      using plain_unrooted [OF assms(1)] by (simp add: unrooted_name_def Let_def ends_with_def)
  next
    assume "hk_name_to_utf8 ops n = s @ ''.''"
    then show ?thesis
      by (simp add: unrooted_name_def Let_def strip_suffix_Some_iff [THEN iffD2])
  qed
qed

lemma rdata_back:
  assumes "rdata_exact plain d" and "convert_to_hickory_rdata ops t d = Inr r"
  shows "\<exists>d'. r = Some d' \<and> convert_hickory_rdata ops d' = Some d"
  using assms
  by (cases d)
    (auto simp: convert_to_hickory_rdata_def convert_hickory_rdata_def unknown_emit
      unrooted_plain map_idI map_sum_Inr split: sum.splits)

lemma record_back:
  assumes "rr_exact plain rr" and "convert_to_hickory_record ops rr = Inr r"
  shows "\<exists>r'. r = Some r' \<and> convert_hickory_record ops r' = Some rr"
proof -
  obtain n where n: "name_of ops ''Invalid domain name'' (rr_name rr) = Inr n"
    using assms(2) by (auto simp: convert_to_hickory_record_def split: sum.splits)
  obtain x where x: "convert_to_hickory_rdata ops (record_type_to_u16 (rr_rtype rr)) (rr_rdata rr) = Inr x"
    using assms(2) n by (auto simp: convert_to_hickory_record_def split: sum.splits)
  have ex: "plain (rr_name rr)" "rdata_exact plain (rr_rdata rr)" "canonical_type (rr_rtype rr)"
    "canonical_class (rr_rclass rr)" using assms(1) by (simp_all add: rr_exact_def)
  obtain d where d: "x = Some d" "convert_hickory_rdata ops d = Some (rr_rdata rr)"
    using rdata_back [OF ex(2) x] by blast
  show ?thesis
    using assms(2) n x d unrooted_plain [OF ex(1) n] ex(3,4)
    by (auto simp: convert_to_hickory_record_def convert_hickory_record_def canonical_type_def
        canonical_class_def rr_new_def)
qed

lemma records_back:
  assumes "\<forall>rr \<in> set rrs. rr_exact plain rr" and "convert_records ops rrs = Inr rs"
  shows "List.map_filter (convert_hickory_record ops) rs = rrs"
  using assms
proof (induction rrs arbitrary: rs)
  case Nil
  then show ?case by (simp add: List.map_filter_def)
next
  case (Cons rr rrs)
  obtain x where x: "convert_to_hickory_record ops rr = Inr x"
    using Cons.prems(2) by (auto split: sum.splits)
  obtain ys where ys: "convert_records ops rrs = Inr ys"
    using Cons.prems(2) x by (cases "convert_records ops rrs") auto
  have "List.map_filter (convert_hickory_record ops) ys = rrs"
    using Cons.IH [OF _ ys] Cons.prems(1) by simp
  moreover obtain r where "x = Some r" "convert_hickory_record ops r = Some rr"
    using record_back [OF _ x] Cons.prems(1) by auto
  ultimately show ?case
    using Cons.prems(2) x ys by (auto simp: List.map_filter_def)
qed

lemma rcode_back:
  assumes "\<forall>c. rc = RC_Unknown c \<longrightarrow> 11 \<le> c"
  shows "rcode_from_hickory (rcode_to_hickory ops rc) = rc"
proof (cases rc)
  case (RC_Unknown c)
  then have "11 \<le> c" using assms by blast
  moreover have c: "unat c < 256" using unsigned_less [of c, where 'a = nat] by simp
  moreover have "unat (ucast c :: u16) = unat c"
    using c by (simp add: unsigned_ucast_eq take_bit_nat_eq_self)
  ultimately have "(11 :: u16) \<le> ucast c" "ucast c \<le> (255 :: u16)"
    by (simp_all add: word_le_nat_alt)
  moreover have "ucast (ucast c :: u16) = c" by (rule bit_word_eqI) (simp add: bit_simps)
  ultimately show ?thesis using RC_Unknown by (simp add: rcode_number min_def)
qed simp_all

lemma queries_back:
  assumes "\<forall>q \<in> set qs. plain (qname q) \<and> canonical_type (qtype q) \<and> qclass q = CL_IN"
    and "convert_queries ops qs h = Inr h'"
  shows "\<exists>xs. h' = h\<lparr>hm_queries := hm_queries h @ xs\<rparr> \<and>
    map (\<lambda>q. question_new (unrooted_name ops (hq_name q)) (record_type_from_u16 (hq_type q))
      (record_class_from_u16 (hq_class q))) xs = qs"
  using assms
proof (induction qs arbitrary: h)
  case Nil
  then show ?case by simp
next
  case (Cons q qs)
  obtain n where n: "name_of ops ''Invalid domain name'' (qname q) = Inr n"
    using Cons.prems(2) by (auto split: sum.splits)
  let ?x = "\<lparr>hq_name = n, hq_type = record_type_to_u16 (qtype q), hq_class = 1\<rparr>"
  obtain xs where "h' = h\<lparr>hm_queries := hm_queries h @ [?x] @ xs\<rparr>"
    "map (\<lambda>q. question_new (unrooted_name ops (hq_name q)) (record_type_from_u16 (hq_type q))
      (record_class_from_u16 (hq_class q))) xs = qs"
    using Cons.IH [of "h\<lparr>hm_queries := hm_queries h @ [?x]\<rparr>"] Cons.prems n by auto
  moreover have "question_new (unrooted_name ops n) (record_type_from_u16 (record_type_to_u16 (qtype q)))
      (record_class_from_u16 1) = q"
    using Cons.prems(1) unrooted_plain [OF _ n]
    by (simp add: question_new_def canonical_type_def record_class_from_u16_def)
  ultimately show ?case by (intro exI [of _ "?x # xs"]) simp
qed

lemma additional_back:
  assumes "\<forall>rr \<in> set xs. rr_exact plain rr" and "convert_additional ops (xs @ os) h = Inr h'"
  shows "\<exists>ys. convert_additional ops os (h\<lparr>hm_additionals := hm_additionals h @ ys\<rparr>) = Inr h' \<and>
    List.map_filter (convert_hickory_record ops) ys = xs"
  using assms
proof (induction xs arbitrary: h)
  case Nil
  then show ?case by (intro exI [of _ "[]"]) (simp add: List.map_filter_def)
next
  case (Cons rr xs)
  have "edns_of rr = None"
    using Cons.prems(1) by (cases "rr_rdata rr") (auto simp: edns_of_def rr_exact_def)
  moreover obtain x where x: "convert_to_hickory_record ops rr = Inr x"
    using Cons.prems(2) calculation by (auto split: sum.splits)
  moreover obtain r where r: "x = Some r" "convert_hickory_record ops r = Some rr"
    using record_back [OF _ x] Cons.prems(1) by auto
  ultimately have "convert_additional ops (xs @ os) (h\<lparr>hm_additionals := hm_additionals h @ [r]\<rparr>) = Inr h'"
    using Cons.prems(2) by simp
  then obtain ys where "convert_additional ops os
      (h\<lparr>hm_additionals := hm_additionals h @ [r] @ ys\<rparr>) = Inr h'"
    "List.map_filter (convert_hickory_record ops) ys = xs"
    using Cons.IH [of "h\<lparr>hm_additionals := hm_additionals h @ [r]\<rparr>"] Cons.prems(1) by auto
  with r(2) show ?case by (intro exI [of _ "r # ys"]) (simp add: List.map_filter_def)
qed

lemma opt_back:
  assumes "opt_exact rr"
  shows "\<exists>e. edns_of rr = Some e \<and> same_record rr (opt_record ops e) \<and> (few_options rr \<longrightarrow> opt_record ops e = rr)"
proof -
  obtain payload xr ver flags opts where rr:
    "rr = rr_new ''.'' RT_OPT (record_class_from_u16 payload) 0 (RD_OPT xr ver flags (options_blob opts))"
    "512 \<le> payload" "flags \<in> {0, 0x8000}" "distinct (map fst opts)" "\<forall>(c, v) \<in> set opts. length v < 2 ^ 16"
    using assms unfolding opt_exact_def by blast
  note so = set_edns_options_of_blob [OF rr(4,5)]
  let ?e = "\<lparr>he_rcode_high = xr, he_version = ver, he_dnssec_ok = (flags AND 0x8000 \<noteq> 0),
    he_max_payload = payload, he_options = map_of opts\<rparr>"
  let ?ys = "hk_options_iter ops (map_of opts)"
  have ys: "distinct (map fst ?ys)" "map_of ?ys = map_of opts"
    using options_iter [of "map_of opts"] by (simp_all add: finite_dom_map_of)
  then have ms: "mset ?ys = mset opts" by (intro mset_of_map_of rr(4)) simp_all
  have ed: "edns_of rr = Some ?e"
    using rr(2) so by (simp add: rr(1) edns_of_def rr_new_def)
  have op: "opt_record ops ?e = rr\<lparr>rr_rdata := RD_OPT xr ver flags (options_blob ?ys)\<rparr>"
    using rr(3) by (auto simp: rr(1) opt_record_def rr_new_def edns_options_blob_def)
  have "same_record rr (opt_record ops ?e)"
    unfolding same_record_def op using ms by (intro disjI2) (auto simp: rr(1) rr_new_def)
  moreover have "opt_record ops ?e = rr" if "few_options rr"
  proof -
    have "length opts \<le> 1"
      using that so card_dom_map_of [OF rr(4)] by (simp add: few_options_def rr(1) rr_new_def)
    moreover have "length ?ys = length opts" using ms by (metis size_mset)
    ultimately have "?ys = opts"
      using ms by (cases opts; cases ?ys) auto
    then show ?thesis unfolding op by (simp add: rr(1) rr_new_def)
  qed
  ultimately show ?thesis using ed by blast
qed

lemma message_back:
  assumes "message_exact plain m" and "convert_to_hickory ops m = Inr h"
  shows "\<exists>m'. convert_from_hickory ops h = Inr m' \<and> same_message m m' \<and>
    ((\<forall>rr \<in> set (msg_additional m). few_options rr) \<longrightarrow> m' = m)"
proof -
  obtain xs os where add: "msg_additional m = xs @ os" "\<forall>rr \<in> set xs. rr_exact plain rr"
    "length os \<le> 1" "\<forall>rr \<in> set os. opt_exact rr"
    using assms(1) unfolding message_exact_def by blast
  obtain h1 an ns where h1: "convert_queries ops (msg_questions m) (hickory_header ops m) = Inr h1"
    and an: "convert_records ops (msg_answers m) = Inr an"
    and ns: "convert_records ops (msg_authority m) = Inr ns"
    and ad: "convert_additional ops (xs @ os) (h1\<lparr>hm_answers := an, hm_name_servers := ns\<rparr>) = Inr h"
    using assms(2) add(1) by (auto simp: convert_to_hickory_def split: sum.splits)
  obtain qs where qs: "h1 = (hickory_header ops m)\<lparr>hm_queries := qs\<rparr>"
    "map (\<lambda>q. question_new (unrooted_name ops (hq_name q)) (record_type_from_u16 (hq_type q))
      (record_class_from_u16 (hq_class q))) qs = msg_questions m"
    using queries_back [OF _ h1] assms(1) by (auto simp: message_exact_def hickory_header_def)
  obtain ys where ys: "convert_additional ops os
      (h1\<lparr>hm_answers := an, hm_name_servers := ns, hm_additionals := ys\<rparr>) = Inr h"
    "List.map_filter (convert_hickory_record ops) ys = xs"
    using additional_back [OF add(2) ad] qs(1) by (auto simp: hickory_header_def)
  obtain ed where h: "h = h1\<lparr>hm_answers := an, hm_name_servers := ns, hm_additionals := ys, hm_edns := ed\<rparr>"
      "list_all2 same_record os (case ed of None \<Rightarrow> [] | Some e \<Rightarrow> [opt_record ops e])"
      "(\<forall>rr \<in> set os. few_options rr) \<longrightarrow> (case ed of None \<Rightarrow> [] | Some e \<Rightarrow> [opt_record ops e]) = os"
  proof (cases os)
    case Nil
    with ys(1) have "h = h1\<lparr>hm_answers := an, hm_name_servers := ns, hm_additionals := ys\<rparr>" by simp
    with qs(1) Nil show ?thesis by (intro that [of None]) (simp_all add: hickory_header_def)
  next
    case (Cons o1 os')
    with add(3,4) obtain e where "os' = []" "edns_of o1 = Some e" "same_record o1 (opt_record ops e)"
      "few_options o1 \<longrightarrow> opt_record ops e = o1"
      using opt_back [of o1] by auto
    with Cons ys(1) that [of "Some e"] show ?thesis by simp
  qed
  have "List.map_filter (convert_hickory_record ops) an = msg_answers m"
    "List.map_filter (convert_hickory_record ops) ns = msg_authority m"
    using assms(1) by (auto intro!: records_back an ns simp: message_exact_def)
  moreover have "op_code_from_hickory (op_code_to_hickory (msg_opcode m)) = msg_opcode m"
    "rcode_from_hickory (rcode_to_hickory ops (msg_rcode m)) = msg_rcode m"
    using assms(1) rcode_back by (auto simp: message_exact_def)
  ultimately have c: "convert_from_hickory ops h =
      Inr (m\<lparr>msg_additional := xs @ (case ed of None \<Rightarrow> [] | Some e \<Rightarrow> [opt_record ops e])\<rparr>)"
    using qs ys(2) h(1) unfolding convert_from_hickory_eq by (simp add: hickory_header_def)
  have "list_all2 same_record xs xs" by (simp add: list_all2_same same_record_def)
  with h(2) have "list_all2 same_record (xs @ os) (xs @ (case ed of None \<Rightarrow> [] | Some e \<Rightarrow> [opt_record ops e]))"
    by (rule list_all2_appendI [rotated])
  then have "same_message m (m\<lparr>msg_additional := xs @ (case ed of None \<Rightarrow> [] | Some e \<Rightarrow> [opt_record ops e])\<rparr>)"
    by (simp add: same_message_def add(1))
  moreover have "m\<lparr>msg_additional := xs @ (case ed of None \<Rightarrow> [] | Some e \<Rightarrow> [opt_record ops e])\<rparr> = m"
    if "\<forall>rr \<in> set (msg_additional m). few_options rr"
  proof -
    have "(case ed of None \<Rightarrow> [] | Some e \<Rightarrow> [opt_record ops e]) = os" using that h(3) add(1) by simp
    then show ?thesis by (simp flip: add(1))
  qed
  ultimately show ?thesis using c by blast
qed

lemma message_back_exact:
  assumes "message_exact plain m" and "convert_to_hickory ops m = Inr h"
    and "\<forall>rr \<in> set (msg_additional m). few_options rr"
  shows "convert_from_hickory ops h = Inr m"
  using message_back [OF assms(1,2)] assms(3) by blast

end

section \<open>An instance of the crate's interface\<close>

text \<open>Names as lists of labels, rendered without the root dot; response codes by number; only
  the raw data of unknown types is emitted; options are visited by ascending code.\<close>

definition options_by_code :: "h_options \<Rightarrow> (u16 \<times> u8 list) list" where
  "options_by_code m =
     map (\<lambda>n. (of_nat n, the (m (of_nat n)))) (filter (\<lambda>n. m (of_nat n) \<noteq> None) [0..<65536])"

lemma options_by_code:
  "distinct (map fst (options_by_code m)) \<and> map_of (options_by_code m) = m"
proof -
  have i: "inj_on (of_nat :: nat \<Rightarrow> u16) {0..<65536}"
  proof (rule inj_onI)
    fix x y :: nat
    assume "x \<in> {0..<65536}" "y \<in> {0..<65536}" "(of_nat x :: u16) = of_nat y"
    then have "unat (of_nat x :: u16) = unat (of_nat y :: u16)" "x < 65536" "y < 65536" by simp_all
    then show "x = y" by (simp add: unat_of_nat)
  qed
  let ?ns = "filter (\<lambda>n. m (of_nat n) \<noteq> None) [0..<65536]"
  have "inj_on (of_nat :: nat \<Rightarrow> u16) (set ?ns)" by (rule inj_on_subset [OF i]) auto
  then have d: "distinct (map fst (options_by_code m))"
    by (simp add: options_by_code_def comp_def distinct_map)
  have "map_of (options_by_code m) c = m c" for c
  proof (cases "m c")
    case None
    then have "c \<notin> fst ` set (options_by_code m)" by (auto simp: options_by_code_def)
    with None show ?thesis by (simp add: map_of_eq_None_iff)
  next
    case (Some v)
    have "unat c < 2 ^ LENGTH(16)" by (rule unsigned_less)
    then have "unat c \<in> {0..<65536}" by simp
    then have "(c, v) \<in> set (options_by_code m)"
      using Some by (auto simp: options_by_code_def intro!: image_eqI [of _ _ "unat c"])
    with d Some show ?thesis by simp
  qed
  with d show ?thesis by blast
qed

definition label_ops :: "string list hickory_ops" where
  "label_ops =
     \<lparr>hk_from_bytes = (\<lambda>_. Inl ''unexpected end of input''), hk_emit = (\<lambda>_. Inl ''buffer full''),
      hk_name_from_utf8 = (\<lambda>s. if length s \<le> 255 \<and> (\<forall>l \<in> set (split_on (CHR ''.'') s). length l \<le> 63)
        then Inr (split_on (CHR ''.'') s) else Inl ''label too long''),
      hk_name_to_utf8 = join_with (CHR ''.''),
      hk_rcode_from_u16 = HR_Other,
      hk_rdata_emit = (\<lambda>d. case d of H_Unknown _ bs \<Rightarrow> Some bs | _ \<Rightarrow> None),
      hk_options_iter = options_by_code\<rparr>"

interpretation hl: hickory label_ops "\<lambda>s. \<not> ends_with ''.'' s"
  by unfold_locales (auto simp: label_ops_def options_by_code split: if_splits)

lemma queries_class:
  "convert_queries ops qs h = Inr h' \<Longrightarrow>
    \<exists>xs. hm_queries h' = hm_queries h @ xs \<and> length xs = length qs \<and> (\<forall>x \<in> set xs. hq_class x = 1)"
proof (induction qs arbitrary: h)
  case (Cons q qs)
  obtain n where n: "name_of ops ''Invalid domain name'' (qname q) = Inr n"
    using Cons.prems by (auto split: sum.splits)
  then obtain xs where "hm_queries h' = (hm_queries h @
      [\<lparr>hq_name = n, hq_type = record_type_to_u16 (qtype q), hq_class = 1\<rparr>]) @ xs"
    "length xs = length qs" "\<forall>x \<in> set xs. hq_class x = 1"
    using Cons.IH [of "h\<lparr>hm_queries := hm_queries h @
      [\<lparr>hq_name = n, hq_type = record_type_to_u16 (qtype q), hq_class = 1\<rparr>]\<rparr>"] Cons.prems by auto
  then show ?case
    by (intro exI [of _ "\<lparr>hq_name = n, hq_type = record_type_to_u16 (qtype q), hq_class = 1\<rparr> # xs"]) simp
qed simp

lemma additional_queries: "convert_additional ops rrs h = Inr h' \<Longrightarrow> hm_queries h' = hm_queries h"
proof (induction rrs arbitrary: h)
  case (Cons rr rrs)
  show ?case
  proof (cases "edns_of rr")
    case None
    then show ?thesis using Cons.prems Cons.IH by (fastforce split: sum.splits option.splits)
  next
    case (Some e)
    then show ?thesis using Cons.prems Cons.IH [of "h\<lparr>hm_edns := Some e\<rparr>"] by simp
  qed
qed simp

definition demo_exact :: message where
  "demo_exact =
     add_additional (rr_new ''.'' RT_OPT (CL_Unknown 1232) 0 (RD_OPT 0 0 0x8000 (options_blob [(10, [1, 2])])))
       (add_answer (rr_new ''a.example'' RT_CNAME CL_IN 60 (RD_CNAME ''b.example''))
         (add_question (question_new ''a.example'' RT_A CL_IN) (set_response True (set_id 7 message_new))))"

lemma demo_exact: "message_exact (\<lambda>s. \<not> ends_with ''.'' s) demo_exact"
proof -
  have e: "\<not> ends_with ''.'' ''a.example''" "\<not> ends_with ''.'' ''b.example''"
    by (simp_all add: ends_with_def strip_suffix_def strip_prefix_def)
  have "opt_exact (rr_new ''.'' RT_OPT (CL_Unknown 1232) 0 (RD_OPT 0 0 0x8000 (options_blob [(10, [1, 2])])))"
    using opt_exactI [of 1232 "0x8000" "[(10, [1, 2])]" 0 0] by (simp add: record_class_from_u16_def)
  then show ?thesis
    using e unfolding message_exact_def
    by (simp add: demo_exact_def add_additional_def add_answer_def add_question_def set_response_def
        set_id_def message_new_def rr_exact_def rr_new_def question_new_def)
      (rule exI [of _ "[]"], simp)
qed

lemma demo_exact_few: "\<forall>rr \<in> set (msg_additional demo_exact). few_options rr"
  using set_edns_options_of_blob [of "[(10, [1, 2])]"]
  by (simp add: demo_exact_def add_additional_def add_answer_def add_question_def set_response_def
      set_id_def message_new_def few_options_def rr_new_def)



text \<open>
  Flattening EDNS options and splitting them again gives the same map of options, whatever the
  order in which they were written, for distinct codes and values of less than 65536 bytes.
\<close>

theorem edns_options_roundtrip:
  assumes "distinct (map fst opts)" and "\<forall>(c, v) \<in> set opts. length v < 2 ^ 16"
  shows "set_edns_options (options_blob opts) 0 Map.empty = map_of opts"
  by (rule set_edns_options_of_blob [OF assms])

theorem edns_options_roundtrip_witness:
  "set_edns_options (options_blob [(8, [0, 1, 24, 0, 10, 0, 0]), (10, [])]) 0 Map.empty =
     map_of [(8, [0, 1, 24, 0, 10, 0, 0]), (10, [])]"
  by (rule edns_options_roundtrip) simp_all

text \<open>
  The class of a question is not written out. Whatever classes the questions of a message
  have, the converted message has as many questions, and converted back all of them have
  class IN.
\<close>

theorem question_class_becomes_in:
  assumes "convert_to_hickory ops m = Inr h" and "convert_from_hickory ops h = Inr m'"
  shows "length (msg_questions m') = length (msg_questions m) \<and>
    (\<forall>q \<in> set (msg_questions m'). qclass q = CL_IN)"
proof -
  obtain h1 an ns where h1: "convert_queries ops (msg_questions m) (hickory_header ops m) = Inr h1"
    and ad: "convert_additional ops (msg_additional m) (h1\<lparr>hm_answers := an, hm_name_servers := ns\<rparr>) = Inr h"
    using assms(1) by (auto simp: convert_to_hickory_def split: sum.splits)
  obtain xs where "hm_queries h1 = xs" "length xs = length (msg_questions m)" "\<forall>x \<in> set xs. hq_class x = 1"
    using queries_class [OF h1] by (auto simp: hickory_header_def)
  with additional_queries [OF ad] assms(2) show ?thesis
    by (auto simp: convert_from_hickory_eq question_new_def record_class_from_u16_def)
qed

theorem question_class_becomes_in_witness:
  "\<exists>h m'. convert_to_hickory label_ops
       (add_question (question_new ''version.bind'' RT_TXT CL_CH) message_new) = Inr h \<and>
     convert_from_hickory label_ops h = Inr m' \<and> (\<forall>q \<in> set (msg_questions m'). qclass q = CL_IN)"
proof -
  obtain h where h: "convert_to_hickory label_ops
      (add_question (question_new ''version.bind'' RT_TXT CL_CH) message_new) = Inr h"
    by (simp add: add_question_def message_new_def question_new_def convert_to_hickory_def name_of_def
        label_ops_def)
  obtain m' where m': "convert_from_hickory label_ops h = Inr m'" by (simp add: convert_from_hickory_eq)
  show ?thesis using question_class_becomes_in [OF h m'] h m' by blast
qed

end
