(* ===== verification/Ip_Net.thy ===== *)
theory Ip_Net
  imports Ip_Addr
begin

text \<open>
  IP networks. The program parses and tests networks with the \<^verbatim>\<open>ipnet\<close> crate, which is a
  parameter here (\<open>ipnet_ops\<close>); its documented behaviour on texts in CIDR notation is the locale
  \<open>ipnet\<close>: a network contains the addresses of its family that agree with it on the prefix.
  The instance below tests by masking, and its interpretation shows that masking is
  agreement on the prefix.
\<close>

section \<open>CIDR notation\<close>

fun addr_bits :: "ip_addr \<Rightarrow> nat" where
  "addr_bits (V4 _) = 32"
| "addr_bits (V6 _) = 128"

definition cidr_text :: "string \<Rightarrow> (ip_addr \<times> nat) option" where
  "cidr_text s =
     (case split_once (CHR ''/'') s of
        None \<Rightarrow> None
      | Some (a, l) \<Rightarrow>
          (case (parse_ip a, parse_digits 0 l) of
             (Some ip, Some n) \<Rightarrow> if l = show_nat n \<and> n \<le> addr_bits ip then Some (ip, n) else None
           | _ \<Rightarrow> None))"

fun in_prefix :: "ip_addr \<Rightarrow> nat \<Rightarrow> ip_addr \<Rightarrow> bool" where
  "in_prefix (V4 a) l (V4 b) \<longleftrightarrow> drop_bit (32 - l) a = drop_bit (32 - l) b"
| "in_prefix (V6 a) l (V6 b) \<longleftrightarrow> drop_bit (128 - l) a = drop_bit (128 - l) b"
| "in_prefix _ l _ \<longleftrightarrow> False"

section \<open>The crate\<close>

text \<open>\<open>net_parse\<close> is \<^verbatim>\<open>str::parse::<IpNet>\<close> (\<open>Inl\<close>: the text of its error), \<open>net_host\<close> is
  \<^verbatim>\<open>IpNet::new\<close> with the full prefix length.\<close>

record 'n ipnet_ops =
  net_parse :: "string \<Rightarrow> string + 'n"
  net_contains :: "'n \<Rightarrow> ip_addr \<Rightarrow> bool"
  net_host :: "ip_addr \<Rightarrow> 'n"

locale ipnet =
  fixes ops :: "'n ipnet_ops"
  assumes parse_cidr: "cidr_text s = Some (a, l) \<Longrightarrow>
      \<exists>n. net_parse ops s = Inr n \<and> (\<forall>ip. net_contains ops n ip \<longleftrightarrow> in_prefix a l ip)"
    and parse_addr: "parse_ip s \<noteq> None \<Longrightarrow> \<exists>e. net_parse ops s = Inl e"
    and host_contains: "net_contains ops (net_host ops a) ip \<longleftrightarrow> ip = a"
begin

lemma parse_cidr_contains:
  "cidr_text s = Some (a, l) \<Longrightarrow> net_parse ops s = Inr n \<Longrightarrow> net_contains ops n ip \<longleftrightarrow> in_prefix a l ip"
  using parse_cidr by fastforce

end

section \<open>Networks as masked addresses\<close>

fun mask_contains :: "ip_addr \<times> nat \<Rightarrow> ip_addr \<Rightarrow> bool" where
  "mask_contains (V4 a, l) (V4 b) \<longleftrightarrow> a AND NOT (mask (32 - l)) = b AND NOT (mask (32 - l))"
| "mask_contains (V6 a, l) (V6 b) \<longleftrightarrow> a AND NOT (mask (128 - l)) = b AND NOT (mask (128 - l))"
| "mask_contains _ _ \<longleftrightarrow> False"

definition mask_net :: "(ip_addr \<times> nat) ipnet_ops" where
  "mask_net = \<lparr>net_parse = (\<lambda>s. case cidr_text s of Some n \<Rightarrow> Inr n | None \<Rightarrow> Inl ''invalid IP address syntax''),
     net_contains = mask_contains, net_host = (\<lambda>a. (a, addr_bits a))\<rparr>"

lemma mask_eq_drop_bit:
  fixes a b :: "'a::len word"
  shows "a AND NOT (mask n) = b AND NOT (mask n) \<longleftrightarrow> drop_bit n a = drop_bit n b"
proof
  assume h: "a AND NOT (mask n) = b AND NOT (mask n)"
  show "drop_bit n a = drop_bit n b"
  proof (rule bit_word_eqI)
    fix k assume "k < LENGTH('a)"
    have "bit (a AND NOT (mask n)) (n + k) = bit (b AND NOT (mask n)) (n + k)" by (simp only: h)
    then show "bit (drop_bit n a) k = bit (drop_bit n b) k"
      by (cases "n + k < LENGTH('a)") (auto simp: bit_simps dest: bit_imp_le_length)
  qed
next
  assume h: "drop_bit n a = drop_bit n b"
  show "a AND NOT (mask n) = b AND NOT (mask n)"
  proof (rule bit_word_eqI)
    fix k assume k: "k < LENGTH('a)"
    have "bit (drop_bit n a) (k - n) = bit (drop_bit n b) (k - n)" by (simp only: h)
    then show "bit (a AND NOT (mask n)) k = bit (b AND NOT (mask n)) k"
      using k by (auto simp: bit_simps not_le)
  qed
qed

lemma mask_contains_in_prefix: "mask_contains (a, l) ip \<longleftrightarrow> in_prefix a l ip"
  by (cases a; cases ip) (simp_all add: mask_eq_drop_bit)

subsection \<open>An address holds no slash\<close>

definition eats :: "string \<Rightarrow> string \<Rightarrow> bool" where
  "eats s r \<longleftrightarrow> (\<exists>p. s = p @ r \<and> CHR ''/'' \<notin> set p)"

lemma eats_refl [simp, intro]: "eats s s"
  by (simp add: eats_def)

lemma eats_trans [trans]: "eats s r \<Longrightarrow> eats r t \<Longrightarrow> eats s t"
  by (force simp: eats_def)

lemma eats_Cons: "eats cs r \<Longrightarrow> c \<noteq> CHR ''/'' \<Longrightarrow> eats (c # cs) r"
  by (force simp: eats_def)

lemma slash_no_digit: "digit_val (CHR ''/'') = None" "hex_val (CHR ''/'') = None"
  by (simp_all add: digit_val_def hex_val_def Let_def)

lemma read_run_eats:
  "dv (CHR ''/'') = None \<Longrightarrow> read_run dv radix maxd count acc s = Some (n, v, r) \<Longrightarrow> eats s r"
proof (induction dv radix maxd count acc s rule: read_run.induct)
  case (2 dv radix maxd count acc c cs)
  show ?case
  proof (cases "dv c")
    case None
    with 2 show ?thesis by simp
  next
    case (Some d)
    with 2 have "eats cs r" by (auto split: if_splits)
    moreover have "c \<noteq> CHR ''/''" using Some 2 by auto
    ultimately show ?thesis by (rule eats_Cons)
  qed
qed simp

lemma read_dec_octet_eats: "read_dec_octet s = Some (n, r) \<Longrightarrow> eats s r"
  by (auto simp: read_dec_octet_def split: option.splits prod.splits if_splits
      dest: read_run_eats [where dv = digit_val, OF slash_no_digit(1)])

lemma read_hex_group_eats: "read_hex_group s = Some (n, r) \<Longrightarrow> eats s r"
  by (auto simp: read_hex_group_def split: option.splits prod.splits if_splits
      dest: read_run_eats [where dv = hex_val, OF slash_no_digit(2)])

lemma read_sep_eats:
  assumes "\<And>s x r. p s = Some (x, r) \<Longrightarrow> eats s r" and "sep \<noteq> CHR ''/''" and "read_sep sep i p s = Some (x, r)"
  shows "eats s r"
  using assms by (auto simp: read_sep_def split: if_splits list.splits intro: eats_Cons)

lemma read_octets_eats: "read_octets i n s = Some (ds, r) \<Longrightarrow> eats s r"
proof (induction i n s arbitrary: ds r rule: read_octets.induct)
  case (2 i n s)
  then obtain d rest ds' where "read_sep (CHR ''.'') i read_dec_octet s = Some (d, rest)"
    "read_octets (i + 1) n rest = Some (ds', r)"
    by (auto split: option.splits prod.splits)
  with 2 show ?case
    by (auto intro: eats_trans [OF read_sep_eats [where p = read_dec_octet]] read_dec_octet_eats)
qed simp

lemma read_ipv4_eats: "read_ipv4 s = Some (a, r) \<Longrightarrow> eats s r"
  by (auto simp: read_ipv4_def split: option.splits prod.splits list.splits dest: read_octets_eats)

lemma read_groups_eats: "read_groups i n s = (gs, v4, r) \<Longrightarrow> eats s r"
proof (induction i n s arbitrary: gs v4 r rule: read_groups.induct)
  case (2 i n s)
  let ?v4 = "if n > 0 then read_sep (CHR '':'') i read_ipv4 s else None"
  consider a rest where "?v4 = Some (a, rest)" | "?v4 = None" "read_sep (CHR '':'') i read_hex_group s = None"
    | g rest where "?v4 = None" "read_sep (CHR '':'') i read_hex_group s = Some (g, rest)"
    by (cases ?v4; cases "read_sep (CHR '':'') i read_hex_group s") auto
  then show ?case
  proof cases
    case 1
    with "2.prems" show ?thesis
      by (auto split: if_splits intro: read_sep_eats [where p = read_ipv4] read_ipv4_eats)
  next
    case 2
    with "2.prems" show ?thesis by simp
  next
    case (3 g rest)
    obtain gs' v r' where g: "read_groups (i + 1) n rest = (gs', v, r')" by (cases "read_groups (i + 1) n rest")
    have "eats s rest"
      using 3(2) by (rule read_sep_eats [where p = read_hex_group, rotated 2]) (auto dest: read_hex_group_eats)
    moreover have "eats rest r'" using "2.IH" 3 g by auto
    moreover have "r = r'" using "2.prems" 3 g by auto
    ultimately show ?thesis by (auto intro: eats_trans)
  qed
qed simp

lemma read_ipv6_eats:
  assumes "read_ipv6 s = Some (a, r)"
  shows "eats s r"
proof -
  obtain head v4 rest where h: "read_groups 0 8 s = (head, v4, rest)" by (cases "read_groups 0 8 s")
  have e: "eats s rest" by (rule read_groups_eats [OF h])
  show ?thesis
  proof (cases "length head = 8")
    case True
    with assms h e show ?thesis by (simp add: read_ipv6_def)
  next
    case False
    with assms h obtain rest' where st: "strip_prefix ''::'' rest = Some rest'"
      by (auto simp: read_ipv6_def split: if_splits option.splits)
    obtain tl' v' r' where t: "read_groups 0 (8 - (length head + 1)) rest' = (tl', v', r')"
      by (cases "read_groups 0 (8 - (length head + 1)) rest'")
    have "eats rest rest'" using st by (auto simp: strip_prefix_Some_iff eats_def)
    moreover have "eats rest' r'" by (rule read_groups_eats [OF t])
    moreover have "r = r'" using assms h False st t by (auto simp: read_ipv6_def split: if_splits)
    ultimately show ?thesis using e eats_trans by blast
  qed
qed

lemma parse_ip_no_slash:
  assumes "parse_ip s = Some a"
  shows "CHR ''/'' \<notin> set s"
proof -
  have "eats s []"
    using assms
    by (auto simp: parse_ip_def split: option.splits prod.splits list.splits
        dest: read_ipv4_eats read_ipv6_eats)
  then show ?thesis by (simp add: eats_def)
qed

interpretation mn: ipnet mask_net
proof
  fix s a l
  assume "cidr_text s = Some (a, l)"
  then show "\<exists>n. net_parse mask_net s = Inr n \<and> (\<forall>ip. net_contains mask_net n ip \<longleftrightarrow> in_prefix a l ip)"
    by (simp add: mask_net_def mask_contains_in_prefix)
next
  fix s
  assume "parse_ip s \<noteq> None"
  then have "cidr_text s = None"
    using parse_ip_no_slash by (auto simp: cidr_text_def split_once_def)
  then show "\<exists>e. net_parse mask_net s = Inl e" by (simp add: mask_net_def)
next
  fix a ip
  show "net_contains mask_net (net_host mask_net a) ip \<longleftrightarrow> ip = a"
    by (cases a; cases ip) (auto simp: mask_net_def)
qed

end
