(* ===== verification/Domain_Set.thy ===== *)
theory Domain_Set
  imports Context Config_Value
begin

text \<open>
  The domain matcher, \<^verbatim>\<open>src/src/plugins/dataset/domain_set.rs\<close>: rules of four kinds, their text
  form, matching, loading from files and inline expressions, reloading, and the plugin's
  configuration. The \<^verbatim>\<open>regex\<close> crate is a parameter (\<open>regex_ops\<close>), and so is the file system: for a
  path, either the text of the error of opening it or the lines that reading yields.

  The main lemma reads the four containers as the list of rules that were added: a name
  matches exactly when one of the rules does, by a definition that says for every kind of
  rule what it means.
\<close>

section \<open>Rules\<close>

datatype match_type = MT_Full | MT_Domain | MT_Regexp | MT_Keyword

record 'r regex_ops =
  regex_new :: "string \<Rightarrow> 'r option"
  regex_is_match :: "'r \<Rightarrow> string \<Rightarrow> bool"

record 'r domain_rules =
  dr_full :: "string set"
  dr_domain :: "string set"
  dr_regexp :: "(string \<times> 'r) list"
  dr_keyword :: "string list"

definition domain_rules_new :: "'r domain_rules" where
  "domain_rules_new = \<lparr>dr_full = {}, dr_domain = {}, dr_regexp = [], dr_keyword = []\<rparr>"

definition add_rule :: "'r regex_ops \<Rightarrow> match_type \<Rightarrow> string \<Rightarrow> 'r domain_rules \<Rightarrow> 'r domain_rules" where
  "add_rule ops t v r =
     (if v = [] then r
      else
        let normalized = (case t of MT_Regexp \<Rightarrow> v | _ \<Rightarrow> to_lowercase v) in
        case t of
          MT_Full \<Rightarrow> r\<lparr>dr_full := insert normalized (dr_full r)\<rparr>
        | MT_Domain \<Rightarrow> r\<lparr>dr_domain := insert normalized (dr_domain r)\<rparr>
        | MT_Regexp \<Rightarrow>
            (case regex_new ops normalized of
               Some re \<Rightarrow> r\<lparr>dr_regexp := dr_regexp r @ [(normalized, re)]\<rparr>
             | None \<Rightarrow> r)
        | MT_Keyword \<Rightarrow> r\<lparr>dr_keyword := dr_keyword r @ [normalized]\<rparr>)"

definition split_rule :: "string \<Rightarrow> match_type \<Rightarrow> match_type \<times> string" where
  "split_rule line default_type =
     (case strip_prefix ''full:'' line of Some rest \<Rightarrow> (MT_Full, rest) | None \<Rightarrow>
      (case strip_prefix ''domain:'' line of Some rest \<Rightarrow> (MT_Domain, rest) | None \<Rightarrow>
      (case strip_prefix ''keyword:'' line of Some rest \<Rightarrow> (MT_Keyword, rest) | None \<Rightarrow>
      (case strip_prefix ''regexp:'' line of Some rest \<Rightarrow> (MT_Regexp, rest) | None \<Rightarrow>
       (default_type, line)))))"

definition add_line :: "'r regex_ops \<Rightarrow> string \<Rightarrow> match_type \<Rightarrow> 'r domain_rules \<Rightarrow> 'r domain_rules" where
  "add_line ops line default_type r =
     (let line = trim line in
      if line = [] \<or> starts_with ''#'' line then r
      else case split_rule line default_type of (t, raw) \<Rightarrow>
        let v = trim raw in
        if v = [] then r
        else add_rule ops t (case t of MT_Regexp \<Rightarrow> v | _ \<Rightarrow> to_lowercase v) r)"

definition rules_match :: "'r regex_ops \<Rightarrow> 'r domain_rules \<Rightarrow> string \<Rightarrow> bool" where
  "rules_match ops r domain =
     (let d = to_lowercase (trim_end_matches (CHR ''.'') domain);
          parts = split_on (CHR ''.'') d
      in if d \<in> dr_full r then True
         else if \<exists>i \<in> {0..<length parts}. join_with (CHR ''.'') (drop i parts) \<in> dr_domain r then True
         else if \<exists>(p, re) \<in> set (dr_regexp r). regex_is_match ops re d then True
         else \<exists>kw \<in> set (dr_keyword r). str_contains kw d)"

record domain_rules_stats =
  drs_full :: nat
  drs_domain :: nat
  drs_regexp :: nat
  drs_keyword :: nat

definition rules_stats :: "'r domain_rules \<Rightarrow> domain_rules_stats" where
  "rules_stats r = \<lparr>drs_full = card (dr_full r), drs_domain = card (dr_domain r),
     drs_regexp = length (dr_regexp r), drs_keyword = length (dr_keyword r)\<rparr>"

definition rules_len :: "'r domain_rules \<Rightarrow> nat" where
  "rules_len r = card (dr_full r) + card (dr_domain r) + length (dr_regexp r) + length (dr_keyword r)"

definition rules_clear :: "'r domain_rules \<Rightarrow> 'r domain_rules" where
  "rules_clear r = \<lparr>dr_full = {}, dr_domain = {}, dr_regexp = [], dr_keyword = []\<rparr>"

definition rules_merge :: "'r domain_rules \<Rightarrow> 'r domain_rules \<Rightarrow> 'r domain_rules" where
  "rules_merge r other =
     \<lparr>dr_full = dr_full r \<union> dr_full other, dr_domain = dr_domain r \<union> dr_domain other,
      dr_regexp = dr_regexp r @ dr_regexp other, dr_keyword = dr_keyword r @ dr_keyword other\<rparr>"

section \<open>The plugin\<close>

text \<open>Reading a file: \<open>Inl\<close> when it cannot be opened, otherwise the lines, each either read or
  failed.\<close>

type_synonym line_source = "string \<Rightarrow> string + (string + string) list"

record 'r domain_set =
  ds_name :: string
  ds_files :: "string list"
  ds_exps :: "string list"
  ds_auto_reload :: bool
  ds_default_match_type :: match_type
  ds_rules :: "'r domain_rules"
  ds_tag :: "string option"
  ds_watching :: bool

definition domain_set_new :: "string \<Rightarrow> 'r domain_set" where
  "domain_set_new name =
     \<lparr>ds_name = name, ds_files = [], ds_exps = [], ds_auto_reload = False,
      ds_default_match_type = MT_Domain, ds_rules = domain_rules_new, ds_tag = None,
      ds_watching = False\<rparr>"

definition debug_path :: "string \<Rightarrow> string" where
  "debug_path p = quoted p"

fun add_lines :: "'r regex_ops \<Rightarrow> string \<Rightarrow> match_type \<Rightarrow> (string + string) list \<Rightarrow> 'r domain_rules
    \<Rightarrow> 'r domain_rules result" where
  "add_lines ops path t [] r = Inr r"
| "add_lines ops path t (Inl e # ls) r =
     Inl (Config (''Failed to read line '' @ debug_path path @ '': '' @ e))"
| "add_lines ops path t (Inr l # ls) r = add_lines ops path t ls (add_line ops l t r)"

definition load_domain_file :: "'r regex_ops \<Rightarrow> line_source \<Rightarrow> string \<Rightarrow> 'r domain_set \<Rightarrow> 'r domain_rules result" where
  "load_domain_file ops fs path p =
     (case fs path of
        Inl e \<Rightarrow> Inl (Config (''Failed to open file '' @ debug_path path @ '': '' @ e))
      | Inr ls \<Rightarrow> add_lines ops path (ds_default_match_type p) ls domain_rules_new)"

definition load_domains :: "'r regex_ops \<Rightarrow> line_source \<Rightarrow> 'r domain_set \<Rightarrow> 'r domain_set" where
  "load_domains ops fs p =
     (let loaded = List.map_filter (\<lambda>f. case load_domain_file ops fs f p of Inr r \<Rightarrow> Some r | Inl e \<Rightarrow> None)
            (ds_files p);
          r = foldl rules_merge domain_rules_new loaded;
          r = foldl (\<lambda>r e. add_line ops e (ds_default_match_type p) r) r (ds_exps p)
      in p\<lparr>ds_rules := r\<rparr>)"

text \<open>The watcher's callback. \<^verbatim>\<open>map_while(|r| r.ok())\<close> stops a file at its first unreadable line.\<close>

fun readable :: "(string + string) list \<Rightarrow> string list" where
  "readable [] = []"
| "readable (Inl e # ls) = []"
| "readable (Inr l # ls) = l # readable ls"

definition reload_files :: "'r regex_ops \<Rightarrow> line_source \<Rightarrow> 'r domain_set \<Rightarrow> 'r domain_set" where
  "reload_files ops fs p =
     p\<lparr>ds_rules := foldl (\<lambda>r f. case fs f of
           Inr ls \<Rightarrow> foldl (\<lambda>r l. add_line ops l (ds_default_match_type p) r) r (readable ls)
         | Inl e \<Rightarrow> r) domain_rules_new (ds_files p)\<rparr>"

definition start_file_watcher :: "'r domain_set \<Rightarrow> 'r domain_set" where
  "start_file_watcher p =
     (if \<not> ds_auto_reload p \<or> ds_files p = [] then p else p\<lparr>ds_watching := True\<rparr>)"

definition domain_set_execute :: "'r domain_set \<Rightarrow> ctx \<Rightarrow> error option \<times> ctx" where
  "domain_set_execute p c = (None, set_metadata (''domain_set_'' @ ds_name p) (MShared (ds_name p)) c)"

definition domain_set_matches_context :: "'r regex_ops \<Rightarrow> 'r domain_set \<Rightarrow> ctx \<Rightarrow> bool" where
  "domain_set_matches_context ops p c =
     (case msg_questions (request c) of
        q # _ \<Rightarrow> rules_match ops (ds_rules p) (trim_end_matches (CHR ''.'') (qname q))
      | [] \<Rightarrow> False)"

definition parse_match_type :: "string \<Rightarrow> match_type" where
  "parse_match_type s =
     (let s = to_lowercase s in
      if s = ''full'' then MT_Full
      else if s = ''domain'' then MT_Domain
      else if s = ''keyword'' then MT_Keyword
      else if s = ''regexp'' \<or> s = ''regex'' then MT_Regexp
      else MT_Domain)"

definition str_items :: "yaml list \<Rightarrow> string list" where
  "str_items = List.map_filter as_str"

definition domain_set_init :: "'r regex_ops \<Rightarrow> line_source \<Rightarrow> plugin_config \<Rightarrow> 'r domain_set result" where
  "domain_set_init ops fs config =
     (let args = effective_args config;
          tag = (case arg_str ''tag'' args of Some t \<Rightarrow> t | None \<Rightarrow> []);
          p = (domain_set_new (if tag \<noteq> [] then tag else effective_name config))\<lparr>ds_tag := pc_tag config\<rparr>;
          p = (case Option.bind (case args ''default_match_type'' of Some v \<Rightarrow> Some v
                                 | None \<Rightarrow> args ''match_type'') as_str of
                 Some s \<Rightarrow> p\<lparr>ds_default_match_type := parse_match_type s\<rparr>
               | None \<Rightarrow> p);
          p = (case args ''files'' of
                 Some (YSequence seq) \<Rightarrow> p\<lparr>ds_files := str_items seq\<rparr>
               | Some (YString s) \<Rightarrow> p\<lparr>ds_files := [s]\<rparr>
               | _ \<Rightarrow> p);
          p = (case args ''auto_reload'' of Some (YBool b) \<Rightarrow> p\<lparr>ds_auto_reload := b\<rparr> | _ \<Rightarrow> p);
          p = (case args ''exps'' of
                 Some (YSequence seq) \<Rightarrow> p\<lparr>ds_exps := str_items seq\<rparr>
               | Some (YString s) \<Rightarrow> p\<lparr>ds_exps := [s]\<rparr>
               | Some _ \<Rightarrow> p\<lparr>ds_exps := []\<rparr>
               | None \<Rightarrow> p)
      in Inr (start_file_watcher (load_domains ops fs p)))"

definition domain_set_shutdown :: "'r domain_set \<Rightarrow> 'r domain_set" where
  "domain_set_shutdown p = p\<lparr>ds_watching := False, ds_rules := rules_clear (ds_rules p)\<rparr>"

section \<open>What the rules mean\<close>

text \<open>The name a query is matched under, and the meaning of one rule for such a name.\<close>

definition query_name :: "string \<Rightarrow> string" where
  "query_name d = to_lowercase (trim_end_matches (CHR ''.'') d)"

fun rule_matches :: "'r regex_ops \<Rightarrow> match_type \<times> string \<Rightarrow> string \<Rightarrow> bool" where
  "rule_matches ops (MT_Full, v) d \<longleftrightarrow> d = to_lowercase v"
| "rule_matches ops (MT_Domain, v) d \<longleftrightarrow> d = to_lowercase v \<or> ends_with (CHR ''.'' # to_lowercase v) d"
| "rule_matches ops (MT_Regexp, v) d \<longleftrightarrow>
     (case regex_new ops v of Some re \<Rightarrow> regex_is_match ops re d | None \<Rightarrow> False)"
| "rule_matches ops (MT_Keyword, v) d \<longleftrightarrow> str_contains (to_lowercase v) d"

definition parse_line :: "match_type \<Rightarrow> string \<Rightarrow> (match_type \<times> string) option" where
  "parse_line default_type line =
     (let line = trim line in
      if line = [] \<or> starts_with ''#'' line then None
      else case split_rule line default_type of (t, raw) \<Rightarrow> if trim raw = [] then None else Some (t, trim raw))"

definition add_rules :: "'r regex_ops \<Rightarrow> (match_type \<times> string) list \<Rightarrow> 'r domain_rules" where
  "add_rules ops rs = foldl (\<lambda>r (t, v). add_rule ops t v r) domain_rules_new rs"

section \<open>Facts\<close>

lemma sep_append_eq:
  assumes "c \<notin> set p"
  shows "p @ c # d = a @ c # v \<longleftrightarrow> (a = p \<and> v = d) \<or> (\<exists>a'. a = p @ c # a' \<and> d = a' @ c # v)"
  using assms
proof (induction p arbitrary: a)
  case Nil
  then show ?case by (cases a) auto
next
  case (Cons x p)
  then show ?case by (cases a) auto
qed

text \<open>The candidates of the domain loop are the name and what follows one of its dots.\<close>

lemma join_drop_suffixes:
  assumes "ps \<noteq> []" and "\<forall>p \<in> set ps. c \<notin> set p"
  shows "(\<exists>i \<in> {0..<length ps}. join_with c (drop i ps) = v) \<longleftrightarrow>
    join_with c ps = v \<or> (\<exists>a. join_with c ps = a @ c # v)"
  using assms
proof (induction ps)
  case (Cons p ps)
  show ?case
  proof (cases "ps = []")
    case True
    with Cons.prems show ?thesis by auto
  next
    case False
    have "(\<exists>i \<in> {0..<length (p # ps)}. join_with c (drop i (p # ps)) = v) \<longleftrightarrow>
        join_with c (p # ps) = v \<or> (\<exists>i \<in> {0..<length ps}. join_with c (drop i ps) = v)"
      by (auto simp: atLeast0LessThan lessThan_Suc_eq_insert_0)
    also have "\<dots> \<longleftrightarrow> join_with c (p # ps) = v \<or> join_with c ps = v \<or> (\<exists>a. join_with c ps = a @ c # v)"
      using Cons False by simp
    also have "\<dots> \<longleftrightarrow> join_with c (p # ps) = v \<or> (\<exists>a. join_with c (p # ps) = a @ c # v)"
      using False Cons.prems by (auto simp: join_with_Cons sep_append_eq)
    finally show ?thesis .
  qed
qed simp

lemma domain_loop:
  "(\<exists>i \<in> {0..<length (split_on c d)}. join_with c (drop i (split_on c d)) \<in> S) \<longleftrightarrow>
     (\<exists>v \<in> S. d = v \<or> ends_with (c # v) d)"
proof -
  have "(\<exists>i \<in> {0..<length (split_on c d)}. join_with c (drop i (split_on c d)) \<in> S) \<longleftrightarrow>
      (\<exists>v \<in> S. \<exists>i \<in> {0..<length (split_on c d)}. join_with c (drop i (split_on c d)) = v)"
    by blast
  then show ?thesis
    by (simp add: join_drop_suffixes [OF split_on_not_Nil split_on_no_sep] ends_with_iff)
qed

lemma rules_match_alt:
  "rules_match ops r d \<longleftrightarrow>
     query_name d \<in> dr_full r \<or>
     (\<exists>v \<in> dr_domain r. query_name d = v \<or> ends_with (CHR ''.'' # v) (query_name d)) \<or>
     (\<exists>(p, re) \<in> set (dr_regexp r). regex_is_match ops re (query_name d)) \<or>
     (\<exists>kw \<in> set (dr_keyword r). str_contains kw (query_name d))"
  by (simp add: rules_match_def query_name_def domain_loop Let_def)

lemma rules_match_new [simp]: "\<not> rules_match ops domain_rules_new d"
  by (simp add: rules_match_alt domain_rules_new_def)

lemma rules_match_add_rule:
  "rules_match ops (add_rule ops t v r) d \<longleftrightarrow>
     rules_match ops r d \<or> (v \<noteq> [] \<and> rule_matches ops (t, v) (query_name d))"
  by (cases t) (auto simp: rules_match_alt add_rule_def Let_def split: option.split)

lemma rules_match_merge:
  "rules_match ops (rules_merge r s) d \<longleftrightarrow> rules_match ops r d \<or> rules_match ops s d"
  by (auto simp: rules_match_alt rules_merge_def)

lemma rules_match_add_line:
  "rules_match ops (add_line ops l t r) d \<longleftrightarrow>
     rules_match ops r d \<or> (\<exists>rule. parse_line t l = Some rule \<and> rule_matches ops rule (query_name d))"
proof (cases "parse_line t l")
  case None
  then have "add_line ops l t r = r"
    by (auto simp: parse_line_def add_line_def Let_def split: prod.splits if_splits)
  with None show ?thesis by simp
next
  case (Some rule)
  obtain mt v where rule: "rule = (mt, v)" by fastforce
  have "v \<noteq> []" and "add_line ops l t r = add_rule ops mt (case mt of MT_Regexp \<Rightarrow> v | _ \<Rightarrow> to_lowercase v) r"
    using Some rule by (auto simp: parse_line_def add_line_def Let_def split: prod.splits if_splits)
  then show ?thesis
    using Some rule by (cases mt) (auto simp: rules_match_add_rule)
qed

lemma rules_match_lines:
  "rules_match ops (foldl (\<lambda>r l. add_line ops l t r) r ls) d \<longleftrightarrow> rules_match ops r d \<or>
     (\<exists>l \<in> set ls. \<exists>rule. parse_line t l = Some rule \<and> rule_matches ops rule (query_name d))"
  by (induction ls arbitrary: r) (auto simp: rules_match_add_line)

lemma add_lines_readable:
  "add_lines ops path t ls r = Inr r' \<longleftrightarrow>
     (\<forall>l \<in> set ls. \<exists>x. l = Inr x) \<and> r' = foldl (\<lambda>r l. add_line ops l t r) r (readable ls)"
  by (induction ops path t ls r rule: add_lines.induct) auto

lemma set_readable: "\<forall>l \<in> set ls. \<exists>x. l = Inr x \<Longrightarrow> set (readable ls) = {x. Inr x \<in> set ls}"
  by (induction ls rule: readable.induct) auto

subsection \<open>Merging\<close>

lemma merge_new [simp]: "rules_merge r domain_rules_new = r" "rules_merge domain_rules_new r = r"
  by (simp_all add: rules_merge_def domain_rules_new_def)

lemma merge_add_rule: "add_rule ops t v (rules_merge r s) = rules_merge r (add_rule ops t v s)"
  by (cases t) (auto simp: add_rule_def rules_merge_def Let_def split: option.split)

lemma merge_add_line: "add_line ops l t (rules_merge r s) = rules_merge r (add_line ops l t s)"
  by (auto simp: add_line_def merge_add_rule Let_def split: prod.split)

lemma merge_add_lines:
  "foldl (\<lambda>r l. add_line ops l t r) (rules_merge r s) ls = rules_merge r (foldl (\<lambda>r l. add_line ops l t r) s ls)"
  by (induction ls arbitrary: s) (simp_all add: merge_add_line)

lemma foldl_add_lines:
  "foldl (\<lambda>r l. add_line ops l t r) r ls = rules_merge r (foldl (\<lambda>r l. add_line ops l t r) domain_rules_new ls)"
  using merge_add_lines [of ops t r domain_rules_new ls] by simp

lemma load_domain_file_Inr:
  "load_domain_file ops fs f p = Inr r \<longleftrightarrow> (\<exists>ls. fs f = Inr ls \<and> (\<forall>l \<in> set ls. \<exists>x. l = Inr x) \<and>
     r = foldl (\<lambda>r l. add_line ops l (ds_default_match_type p) r) domain_rules_new (readable ls))"
  by (auto simp: load_domain_file_def add_lines_readable split: sum.split)

lemma set_map_filter: "set (List.map_filter f xs) = {y. \<exists>x \<in> set xs. f x = Some y}"
  by (induction xs) (auto simp: List.map_filter_simps split: option.split)

lemma foldl_merge_files:
  "rules_match ops (foldl rules_merge r rs) d \<longleftrightarrow> rules_match ops r d \<or> (\<exists>s \<in> set rs. rules_match ops s d)"
  by (induction rs arbitrary: r) (auto simp: rules_match_merge)

text \<open>The lines that loading takes into account: those of the files that can be read to their
  end, and the inline expressions.\<close>

definition loaded_lines :: "line_source \<Rightarrow> 'r domain_set \<Rightarrow> string set" where
  "loaded_lines fs p =
     {l. \<exists>f \<in> set (ds_files p). \<exists>ls. fs f = Inr ls \<and> (\<forall>x \<in> set ls. \<exists>y. x = Inr y) \<and> Inr l \<in> set ls} \<union>
     set (ds_exps p)"

lemma loaded_files:
  "foldl rules_merge r (List.map_filter
     (\<lambda>f. case load_domain_file ops fs f p of Inr r \<Rightarrow> Some r | Inl e \<Rightarrow> None) files) =
   foldl (\<lambda>r f. case fs f of Inr ls \<Rightarrow> foldl (\<lambda>r l. add_line ops l (ds_default_match_type p) r) r (readable ls)
     | Inl e \<Rightarrow> r) r files"
  if "\<forall>f \<in> set files. \<forall>ls. fs f = Inr ls \<longrightarrow> (\<forall>l \<in> set ls. \<exists>x. l = Inr x)"
  using that
proof (induction files arbitrary: r)
  case (Cons f files)
  show ?case
  proof (cases "fs f")
    case (Inl e)
    then have "load_domain_file ops fs f p = Inl (Config (''Failed to open file '' @ debug_path f @ '': '' @ e))"
      by (simp add: load_domain_file_def)
    with Inl Cons show ?thesis by (simp add: List.map_filter_simps)
  next
    case (Inr ls)
    with Cons.prems have "load_domain_file ops fs f p =
        Inr (foldl (\<lambda>r l. add_line ops l (ds_default_match_type p) r) domain_rules_new (readable ls))"
      by (simp add: load_domain_file_Inr)
    with Inr Cons show ?thesis
      by (simp add: List.map_filter_simps foldl_add_lines [of ops _ r])
  qed
qed (simp add: List.map_filter_simps)

section \<open>Properties\<close>

definition no_regex :: "unit regex_ops" where
  "no_regex = \<lparr>regex_new = (\<lambda>_. None), regex_is_match = (\<lambda>_ _. False)\<rparr>"

definition demo_set :: "unit domain_set" where
  "demo_set = (domain_set_new ''cn'')\<lparr>ds_files := [''list.txt''], ds_exps := [''full:b.example'']\<rparr>"

definition demo_lines :: line_source where
  "demo_lines f = (if f = ''list.txt'' then Inr [Inr ''# list'', Inr ''keyword:ads''] else Inl ''not found'')"

text \<open>
  C5: the four rule containers behave as the list of rules that were added. A name matches
  exactly when some added rule with a non-empty value matches it, lower-cased and without
  trailing dots: a full rule the same name, a domain rule that name and every name that ends
  with a dot and it, a keyword rule every name that contains it, a regexp rule the names its
  expression accepts. The priorities of the kinds never change the outcome.
\<close>

theorem domain_rules_refine:
  "rules_match ops (add_rules ops rs) d \<longleftrightarrow>
     (\<exists>(t, v) \<in> set rs. v \<noteq> [] \<and> rule_matches ops (t, v) (query_name d))"
proof (induction rs rule: rev_induct)
  case Nil
  then show ?case by (simp add: add_rules_def)
next
  case (snoc x rs)
  obtain t v where "x = (t, v)" by fastforce
  with snoc show ?case by (auto simp: add_rules_def rules_match_add_rule)
qed

theorem domain_rules_refine_witness:
  "rules_match no_regex (add_rules no_regex [(MT_Keyword, ''ads''), (MT_Domain, ''Example.com'')]) ''www.EXAMPLE.com.''"
  unfolding domain_rules_refine
  by (simp add: query_name_def trim_end_matches_def to_lowercase_def lower_char_def ends_with_def
      strip_suffix_def strip_prefix_def char_of_def bit_iff_odd)

text \<open>
  After loading, a name matches exactly when some line of a completely readable file, or
  some inline expression, stands for a rule that matches it. Files that cannot be opened or
  read to the end contribute nothing, and they do not prevent the others from being loaded.
\<close>

theorem loaded_rules_match:
  "rules_match ops (ds_rules (load_domains ops fs p)) d \<longleftrightarrow>
     (\<exists>l \<in> loaded_lines fs p. \<exists>rule. parse_line (ds_default_match_type p) l = Some rule \<and>
        rule_matches ops rule (query_name d))"
proof -
  let ?hit = "\<lambda>l. \<exists>rule. parse_line (ds_default_match_type p) l = Some rule \<and> rule_matches ops rule (query_name d)"
  have files: "(\<exists>r. load_domain_file ops fs f p = Inr r \<and> rules_match ops r d) \<longleftrightarrow>
      (\<exists>ls. fs f = Inr ls \<and> (\<forall>x \<in> set ls. \<exists>y. x = Inr y) \<and> (\<exists>l. Inr l \<in> set ls \<and> ?hit l))" for f
    by (auto simp: load_domain_file_Inr rules_match_lines set_readable) blast
  have "(\<exists>r. (\<exists>f \<in> set (ds_files p). load_domain_file ops fs f p = Inr r) \<and> rules_match ops r d) \<longleftrightarrow>
      (\<exists>f \<in> set (ds_files p). \<exists>r. load_domain_file ops fs f p = Inr r \<and> rules_match ops r d)"
    by blast
  also have "\<dots> \<longleftrightarrow> (\<exists>l \<in> loaded_lines fs (p\<lparr>ds_exps := []\<rparr>). ?hit l)"
    unfolding files by (simp add: loaded_lines_def) blast
  finally have all: "(\<exists>r. (\<exists>f \<in> set (ds_files p). load_domain_file ops fs f p = Inr r) \<and> rules_match ops r d) \<longleftrightarrow>
      (\<exists>l \<in> loaded_lines fs (p\<lparr>ds_exps := []\<rparr>). ?hit l)" .
  have "loaded_lines fs p = loaded_lines fs (p\<lparr>ds_exps := []\<rparr>) \<union> set (ds_exps p)"
    by (auto simp: loaded_lines_def)
  moreover have "(case x of Inl e \<Rightarrow> None | Inr r \<Rightarrow> Some r) = Some y \<longleftrightarrow> x = Inr y"
    for x :: "'a domain_rules result" and y
    by (cases x) auto
  ultimately show ?thesis
    using all by (auto simp: load_domains_def Let_def rules_match_lines foldl_merge_files set_map_filter)
qed

theorem loaded_rules_match_witness:
  "rules_match no_regex (ds_rules (load_domains no_regex demo_lines demo_set)) ''cdn.ADS.example''"
  unfolding loaded_rules_match
  by (rule bexI [of _ "''keyword:ads''"])
    (simp_all add: loaded_lines_def demo_set_def demo_lines_def domain_set_new_def parse_line_def
      split_rule_def trim_def is_whitespace_def starts_with_def strip_prefix_def query_name_def
      trim_end_matches_def to_lowercase_def lower_char_def char_of_def bit_iff_odd)

text \<open>
  Reloading forgets the inline expressions. When the configured files are readable, the
  rules after a reload are those that loading would give without the expressions.
\<close>

theorem reload_forgets_expressions:
  assumes "\<And>f ls l. f \<in> set (ds_files p) \<Longrightarrow> fs f = Inr ls \<Longrightarrow> l \<in> set ls \<Longrightarrow> \<exists>x. l = Inr x"
  shows "ds_rules (reload_files ops fs p) = ds_rules (load_domains ops fs (p\<lparr>ds_exps := []\<rparr>))"
proof -
  have "load_domain_file ops fs f (p\<lparr>ds_exps := []\<rparr>) = load_domain_file ops fs f p" for f
    by (cases "fs f") (simp_all add: load_domain_file_def)
  then show ?thesis
    using loaded_files [of "ds_files p" fs domain_rules_new ops p] assms
    by (simp add: reload_files_def load_domains_def Let_def)
qed

theorem reload_forgets_expressions_witness:
  "rules_match no_regex (ds_rules (load_domains no_regex demo_lines demo_set)) ''b.example'' \<and>
   \<not> rules_match no_regex (ds_rules (reload_files no_regex demo_lines demo_set)) ''b.example''"
proof
  show "rules_match no_regex (ds_rules (load_domains no_regex demo_lines demo_set)) ''b.example''"
    by (simp add: load_domains_def demo_set_def domain_set_new_def rules_match_add_line Let_def parse_line_def
      split_rule_def trim_def is_whitespace_def starts_with_def strip_prefix_def query_name_def
      trim_end_matches_def to_lowercase_def lower_char_def char_of_def bit_iff_odd)
  have "ds_rules (reload_files no_regex demo_lines demo_set) =
      ds_rules (load_domains no_regex demo_lines (demo_set\<lparr>ds_exps := []\<rparr>))"
    by (rule reload_forgets_expressions)
      (auto simp: demo_set_def demo_lines_def split: if_splits)
  then show "\<not> rules_match no_regex (ds_rules (reload_files no_regex demo_lines demo_set)) ''b.example''"
    by (simp add: load_domains_def demo_set_def domain_set_new_def rules_match_lines Let_def parse_line_def
      List.map_filter_simps load_domain_file_def demo_lines_def
      split_rule_def trim_def is_whitespace_def starts_with_def strip_prefix_def query_name_def
      trim_end_matches_def to_lowercase_def lower_char_def char_of_def bit_iff_odd rules_match_add_line)
qed

end
