(* ===== verification/Ip_Set.thy ===== *)
theory Ip_Set
  imports Ip_Net Domain_Set
begin

text \<open>
  The IP matcher, \<^verbatim>\<open>src/src/plugins/dataset/ip_set.rs\<close>: networks from files and inline entries,
  matching of addresses and of the answers of a response, reloading, configuration. The file
  system is a parameter: the text of a file or the text of the error of reading it.
\<close>

type_synonym text_source = "string \<Rightarrow> string + string"

record 'n ip_set =
  is_name :: string
  is_files :: "string list"
  is_ips :: "string list"
  is_auto_reload :: bool
  is_networks :: "'n list"
  is_tag :: "string option"
  is_watching :: bool

definition ip_set_new :: "string \<Rightarrow> 'n ip_set" where
  "ip_set_new name = \<lparr>is_name = name, is_files = [], is_ips = [], is_auto_reload = False,
     is_networks = [], is_tag = None, is_watching = False\<rparr>"

text \<open>One entry: a network, or an address as the network of that address alone.\<close>

definition parse_entry :: "'n ipnet_ops \<Rightarrow> string \<Rightarrow> 'n option" where
  "parse_entry ops s =
     (case net_parse ops s of
        Inr n \<Rightarrow> Some n
      | Inl _ \<Rightarrow> map_option (net_host ops) (parse_ip s))"

definition entry_lines :: "string \<Rightarrow> string list" where
  "entry_lines content = filter (\<lambda>l. \<not> (l = [] \<or> starts_with ''#'' l)) (map trim (str_lines content))"

definition load_ip_file :: "'n ipnet_ops \<Rightarrow> text_source \<Rightarrow> string \<Rightarrow> 'n list result" where
  "load_ip_file ops fs path =
     (case fs path of
        Inl e \<Rightarrow> Inl (Config (''Failed to read file '' @ debug_path path @ '': '' @ e))
      | Inr content \<Rightarrow> Inr (List.map_filter (parse_entry ops) (entry_lines content)))"

definition load_networks :: "'n ipnet_ops \<Rightarrow> text_source \<Rightarrow> 'n ip_set \<Rightarrow> 'n ip_set" where
  "load_networks ops fs p =
     p\<lparr>is_networks :=
       concat (map (\<lambda>f. case load_ip_file ops fs f of Inr ns \<Rightarrow> ns | Inl e \<Rightarrow> []) (is_files p)) @
       List.map_filter (parse_entry ops) (is_ips p)\<rparr>"

definition reload_networks :: "'n ipnet_ops \<Rightarrow> text_source \<Rightarrow> 'n ip_set \<Rightarrow> 'n ip_set" where
  "reload_networks ops fs p =
     p\<lparr>is_networks :=
       concat (map (\<lambda>f. case fs f of
           Inr content \<Rightarrow> List.map_filter (parse_entry ops) (entry_lines content)
         | Inl e \<Rightarrow> []) (is_files p))\<rparr>"

definition ip_set_start_watcher :: "'n ip_set \<Rightarrow> 'n ip_set" where
  "ip_set_start_watcher p =
     (if \<not> is_auto_reload p \<or> is_files p = [] then p else p\<lparr>is_watching := True\<rparr>)"

definition ip_set_matches :: "'n ipnet_ops \<Rightarrow> 'n ip_set \<Rightarrow> ip_addr \<Rightarrow> bool" where
  "ip_set_matches ops p ip \<longleftrightarrow> (\<exists>n \<in> set (is_networks p). net_contains ops n ip)"

definition ip_set_execute :: "'n ip_set \<Rightarrow> ctx \<Rightarrow> error option \<times> ctx" where
  "ip_set_execute p c = (None, set_metadata (''ip_set_'' @ is_name p) (MShared (is_name p)) c)"

fun rdata_ip :: "rdata \<Rightarrow> ip_addr option" where
  "rdata_ip (RD_A a) = Some (V4 a)"
| "rdata_ip (RD_AAAA a) = Some (V6 a)"
| "rdata_ip _ = None"

definition ip_set_matches_context :: "'n ipnet_ops \<Rightarrow> 'n ip_set \<Rightarrow> ctx \<Rightarrow> bool" where
  "ip_set_matches_context ops p c =
     (case response c of
        Some r \<Rightarrow> (\<exists>rr \<in> set (msg_answers r).
          case rdata_ip (rr_rdata rr) of Some ip \<Rightarrow> ip_set_matches ops p ip | None \<Rightarrow> False)
      | None \<Rightarrow> False)"

definition ip_set_init :: "'n ipnet_ops \<Rightarrow> text_source \<Rightarrow> plugin_config \<Rightarrow> 'n ip_set result" where
  "ip_set_init ops fs config =
     (let args = effective_args config;
          tag = (case arg_str ''tag'' args of Some t \<Rightarrow> t | None \<Rightarrow> []);
          p = (ip_set_new (if tag \<noteq> [] then tag else effective_name config))\<lparr>is_tag := pc_tag config\<rparr>;
          p = (case args ''files'' of
                 Some (YSequence seq) \<Rightarrow> p\<lparr>is_files := str_items seq\<rparr>
               | Some (YString s) \<Rightarrow> p\<lparr>is_files := [s]\<rparr>
               | _ \<Rightarrow> p);
          p = (case args ''auto_reload'' of Some (YBool b) \<Rightarrow> p\<lparr>is_auto_reload := b\<rparr> | _ \<Rightarrow> p);
          p = (case args ''ips'' of
                 Some (YSequence seq) \<Rightarrow> p\<lparr>is_ips := str_items seq\<rparr>
               | Some (YString s) \<Rightarrow> p\<lparr>is_ips := [s]\<rparr>
               | Some _ \<Rightarrow> p\<lparr>is_ips := []\<rparr>
               | None \<Rightarrow> p)
      in Inr (ip_set_start_watcher (load_networks ops fs p)))"

definition ip_set_shutdown :: "'n ip_set \<Rightarrow> 'n ip_set" where
  "ip_set_shutdown p = p\<lparr>is_watching := False\<rparr>"

section \<open>What an entry stands for\<close>

definition entry_denotes :: "string \<Rightarrow> ip_addr \<Rightarrow> bool" where
  "entry_denotes s ip =
     (case cidr_text s of Some (a, l) \<Rightarrow> in_prefix a l ip | None \<Rightarrow> parse_ip s = Some ip)"

definition ip_entries :: "text_source \<Rightarrow> 'n ip_set \<Rightarrow> string set" where
  "ip_entries fs p =
     {l. \<exists>f \<in> set (is_files p). \<exists>content. fs f = Inr content \<and> l \<in> set (entry_lines content)} \<union> set (is_ips p)"

context ipnet
begin

lemma parse_entry_denotes:
  assumes "\<And>n. net_parse ops s = Inr n \<Longrightarrow> cidr_text s \<noteq> None"
  shows "(\<exists>n. parse_entry ops s = Some n \<and> net_contains ops n ip) \<longleftrightarrow> entry_denotes s ip"
proof (cases "cidr_text s")
  case None
  then obtain e where "net_parse ops s = Inl e" using assms by (cases "net_parse ops s") auto
  with None show ?thesis
    by (auto simp: parse_entry_def entry_denotes_def host_contains)
next
  case (Some al)
  obtain a l where al: "al = (a, l)" by fastforce
  with Some parse_cidr obtain n where "net_parse ops s = Inr n" "\<forall>ip. net_contains ops n ip \<longleftrightarrow> in_prefix a l ip"
    by blast
  with Some al show ?thesis by (simp add: parse_entry_def entry_denotes_def)
qed

lemma load_networks_set:
  "set (is_networks (load_networks ops fs p)) = {n. \<exists>e \<in> ip_entries fs p. parse_entry ops e = Some n}"
proof -
  have "set (case load_ip_file ops fs f of Inr ns \<Rightarrow> ns | Inl e \<Rightarrow> []) =
      {n. \<exists>content. fs f = Inr content \<and> (\<exists>e \<in> set (entry_lines content). parse_entry ops e = Some n)}" for f
    by (auto simp: load_ip_file_def set_map_filter split: sum.splits)
  then show ?thesis
    by (simp add: load_networks_def ip_entries_def set_map_filter) blast
qed

lemma loaded_networks:
  assumes "\<forall>e \<in> ip_entries fs p. \<forall>n. net_parse ops e = Inr n \<longrightarrow> cidr_text e \<noteq> None"
  shows "ip_set_matches ops (load_networks ops fs p) ip \<longleftrightarrow> (\<exists>e \<in> ip_entries fs p. entry_denotes e ip)"
proof -
  have "(\<exists>n. parse_entry ops e = Some n \<and> net_contains ops n ip) \<longleftrightarrow> entry_denotes e ip"
    if "e \<in> ip_entries fs p" for e
    using that assms by (intro parse_entry_denotes) blast
  moreover have "ip_set_matches ops (load_networks ops fs p) ip \<longleftrightarrow>
      (\<exists>e \<in> ip_entries fs p. \<exists>n. parse_entry ops e = Some n \<and> net_contains ops n ip)"
    unfolding ip_set_matches_def load_networks_set by blast
  ultimately show ?thesis by blast
qed

end

definition demo_ips :: "(ip_addr \<times> nat) ip_set" where
  "demo_ips = (ip_set_new ''lan'')\<lparr>is_ips := [''10.0.0.0/8'', ''192.0.2.1'']\<rparr>"

text \<open>
  C14: after loading, an IP set contains exactly the addresses its entries stand for: a CIDR entry
  the addresses of its family that agree with it on the prefix, a plain address itself. The
  entries are the lines of the files, trimmed, without empty lines and lines that start
  with a hash sign, and the inline addresses as they are; it is assumed of them that
  the \<^verbatim>\<open>ipnet\<close> crate reads as a network only what is written as an address, a slash and a decimal
  prefix length without leading zeros. Files that cannot be read contribute nothing, and neither do entries that are not
  just a network or an address, such as a line with a comment after the address.
\<close>

theorem ip_set_matches_entries:
  assumes "ipnet ops" and "\<forall>e \<in> ip_entries fs p. \<forall>n. net_parse ops e = Inr n \<longrightarrow> cidr_text e \<noteq> None"
  shows "ip_set_matches ops (load_networks ops fs p) ip \<longleftrightarrow> (\<exists>e \<in> ip_entries fs p. entry_denotes e ip)"
  by (rule ipnet.loaded_networks [OF assms])

theorem ip_set_matches_entries_witness:
  "ip_set_matches mask_net (load_networks mask_net (\<lambda>_. Inl '''') demo_ips) (V4 0x0A010203)"
proof -
  have "cidr_text ''10.0.0.0/8'' = Some (V4 0x0A000000, 8)"
    by code_simp
  then have "entry_denotes ''10.0.0.0/8'' (V4 0x0A010203)"
    by (simp add: entry_denotes_def)
  moreover have "''10.0.0.0/8'' \<in> ip_entries (\<lambda>_. Inl '''') demo_ips"
    by (simp add: ip_entries_def demo_ips_def)
  moreover have "\<forall>e n. net_parse mask_net e = Inr n \<longrightarrow> cidr_text e \<noteq> None"
    by (auto simp: mask_net_def split: option.splits)
  ultimately show ?thesis
    using ip_set_matches_entries [OF mn.ipnet_axioms, of "\<lambda>_. Inl ''''" demo_ips "V4 0x0A010203"] by blast
qed

text \<open>
  A comment after an address makes the whole line unreadable: the entry is skipped without an
  error, and the set matches nothing.
\<close>

lemma trailing_comment_drops_entry:
  "\<not> ip_set_matches mask_net (load_networks mask_net
      (\<lambda>_. Inr ''10.0.0.0/8  # private network'') ((ip_set_new ''lan'')\<lparr>is_files := [''lan.txt'']\<rparr>)) ip"
proof -
  have e: "entry_lines ''10.0.0.0/8  # private network'' = [''10.0.0.0/8  # private network'']" by code_simp
  have "cidr_text ''10.0.0.0/8  # private network'' = None" "parse_ip ''10.0.0.0/8  # private network'' = None"
    by code_simp+
  then have "parse_entry mask_net ''10.0.0.0/8  # private network'' = None"
    by (simp add: parse_entry_def mask_net_def)
  then show ?thesis
    by (simp add: ip_set_matches_def load_networks_def load_ip_file_def e ip_set_new_def List.map_filter_def)
qed

end
