(* ===== verification/Hosts.thy ===== *)
theory Hosts
  imports Ip_Set
begin

text \<open>
  The two local answer sources of \<^verbatim>\<open>src/src/plugins/dataset\<close>: \<^verbatim>\<open>hosts.rs\<close> (a hosts file) and
  \<^verbatim>\<open>arbitrary.rs\<close> (records from the configuration). The file system is the parameter of
  \<open>Ip_Set\<close>; the derived deserialiser of \<^verbatim>\<open>ArbitraryArgs\<close> is a parameter of \<open>arbitrary_init\<close>.
\<close>

section \<open>The hosts store\<close>

type_synonym hosts = "string \<rightharpoonup> ip_addr list"

definition hosts_new :: hosts where
  "hosts_new = Map.empty"

text \<open>\<^verbatim>\<open>entry(key).or_default().extend(vs)\<close>.\<close>

definition entry_extend :: "'k \<Rightarrow> 'v list \<Rightarrow> ('k \<rightharpoonup> 'v list) \<Rightarrow> ('k \<rightharpoonup> 'v list)" where
  "entry_extend k vs m = m(k \<mapsto> (case m k of Some l \<Rightarrow> l | None \<Rightarrow> []) @ vs)"

definition host_key :: "string \<Rightarrow> string" where
  "host_key domain = to_lowercase (trim_end_matches (CHR ''.'') domain)"

definition add_host :: "string \<Rightarrow> ip_addr \<Rightarrow> hosts \<Rightarrow> hosts" where
  "add_host domain ip h = entry_extend (host_key domain) [ip] h"

definition remove_host :: "string \<Rightarrow> hosts \<Rightarrow> bool \<times> hosts" where
  "remove_host domain h = (h (host_key domain) \<noteq> None, h(host_key domain := None))"

definition get_ips :: "hosts \<Rightarrow> string \<Rightarrow> ip_addr list option" where
  "get_ips h domain = h (host_key domain)"

definition hosts_len :: "hosts \<Rightarrow> nat" where
  "hosts_len h = card (dom h)"

definition hosts_clear :: "hosts \<Rightarrow> hosts" where
  "hosts_clear h = Map.empty"

text \<open>The names and the addresses of one line; \<open>None\<close> for a line that is skipped.\<close>

definition host_line :: "string \<Rightarrow> (string list \<times> ip_addr list) option" where
  "host_line l =
     (let line = trim l; parts = split_whitespace line in
      if line = [] \<or> starts_with ''#'' line \<or> length parts < 2 then None
      else Some (filter (\<lambda>t. parse_ip t = None) parts, List.map_filter parse_ip parts))"

fun load_host_lines :: "string list \<Rightarrow> hosts \<Rightarrow> hosts result" where
  "load_host_lines [] h = Inr h"
| "load_host_lines (l # ls) h =
     (case host_line l of
        None \<Rightarrow> load_host_lines ls h
      | Some (names, ips) \<Rightarrow>
          if ips = [] then Inl (FileParse ''hosts'' (''No valid IP found in line: '' @ trim l))
          else load_host_lines ls (foldl (\<lambda>h n. entry_extend (to_lowercase n) ips h) h names))"

definition load_from_string :: "string \<Rightarrow> hosts \<Rightarrow> error option \<times> hosts" where
  "load_from_string content h =
     (case load_host_lines (str_lines content) Map.empty of
        Inl e \<Rightarrow> (Some e, h)
      | Inr h' \<Rightarrow> (None, h'))"

section \<open>The hosts plugin\<close>

record hosts_plugin =
  hp_hosts :: hosts
  hp_files :: "string list"
  hp_auto_reload :: bool
  hp_watching :: bool

definition hosts_plugin_new :: hosts_plugin where
  "hosts_plugin_new = \<lparr>hp_hosts = hosts_new, hp_files = [], hp_auto_reload = False, hp_watching = False\<rparr>"

definition combine_files :: "text_source \<Rightarrow> string list \<Rightarrow> string" where
  "combine_files fs files = concat (map (\<lambda>f. case fs f of Inr c \<Rightarrow> c @ [CHR 0x0A] | Inl e \<Rightarrow> []) files)"

definition load_hosts :: "text_source \<Rightarrow> hosts_plugin \<Rightarrow> error option \<times> hosts_plugin" where
  "load_hosts fs p =
     (let combined = combine_files fs (hp_files p) in
      if combined \<noteq> []
      then (case load_from_string combined (hp_hosts p) of (e, h) \<Rightarrow> (e, p\<lparr>hp_hosts := h\<rparr>))
      else (None, p))"

text \<open>The callback of the file watcher: an error of parsing keeps the old entries.\<close>

definition reload_hosts :: "text_source \<Rightarrow> hosts_plugin \<Rightarrow> hosts_plugin" where
  "reload_hosts fs p =
     (let combined = combine_files fs (hp_files p) in
      if combined \<noteq> [] then p\<lparr>hp_hosts := snd (load_from_string combined (hp_hosts p))\<rparr> else p)"

definition hosts_start_watcher :: "hosts_plugin \<Rightarrow> hosts_plugin" where
  "hosts_start_watcher p =
     (if \<not> hp_auto_reload p \<or> hp_files p = [] then p else p\<lparr>hp_watching := True\<rparr>)"

fun host_record :: "question \<Rightarrow> ip_addr \<Rightarrow> resource_record option" where
  "host_record q (V4 a) =
     (if qtype q = RT_A then Some (rr_new (qname q) RT_A (qclass q) 3600 (RD_A a)) else None)"
| "host_record q (V6 a) =
     (if qtype q = RT_AAAA then Some (rr_new (qname q) RT_AAAA (qclass q) 3600 (RD_AAAA a)) else None)"

definition create_response :: "question \<Rightarrow> ip_addr list \<Rightarrow> message" where
  "create_response q ips =
     foldl (\<lambda>r ip. case host_record q ip of Some rr \<Rightarrow> add_answer rr r | None \<Rightarrow> r)
       (add_question q (set_recursion_available False (set_authoritative True (set_response True message_new))))
       ips"

definition hosts_execute :: "hosts_plugin \<Rightarrow> ctx \<Rightarrow> error option \<times> ctx" where
  "hosts_execute p c =
     (if response c \<noteq> None then (None, c) else
      case msg_questions (request c) of
        [] \<Rightarrow> (None, c)
      | q # _ \<Rightarrow>
          if qtype q \<noteq> RT_A \<and> qtype q \<noteq> RT_AAAA then (None, c)
          else (case get_ips (hp_hosts p) (qname q) of
            Some ips \<Rightarrow>
              (None, ctx_set_response
                 (Some (set_response_code RC_NoError (set_id (msg_id (request c)) (create_response q ips)))) c)
          | None \<Rightarrow> (None, c)))"

definition hosts_init :: "text_source \<Rightarrow> plugin_config \<Rightarrow> hosts_plugin result" where
  "hosts_init fs config =
     (let args = effective_args config;
          p = hosts_plugin_new;
          p = (case args ''files'' of
                 Some (YSequence seq) \<Rightarrow> p\<lparr>hp_files := str_items seq\<rparr>
               | Some (YString s) \<Rightarrow> p\<lparr>hp_files := [s]\<rparr>
               | _ \<Rightarrow> p);
          p = (case args ''auto_reload'' of Some (YBool b) \<Rightarrow> p\<lparr>hp_auto_reload := b\<rparr> | _ \<Rightarrow> p)
      in Inr (hosts_start_watcher (snd (load_hosts fs p))))"

definition hosts_shutdown :: "hosts_plugin \<Rightarrow> hosts_plugin" where
  "hosts_shutdown p = p\<lparr>hp_watching := False\<rparr>"

section \<open>The arbitrary plugin\<close>

record arbitrary_args =
  aa_rules :: "string list option"
  aa_files :: "string list option"

type_synonym arbitrary_map = "string \<rightharpoonup> resource_record list"

definition parse_rr_line :: "string \<Rightarrow> resource_record option" where
  "parse_rr_line line =
     (let parts = split_whitespace line in
      if length parts < 3 then None
      else
        let name = to_lowercase (trim_end_matches (CHR ''.'') (parts ! 0));
            (typ, rdata) = (if to_lowercase (parts ! 1) = to_lowercase ''IN'' \<and> length parts \<ge> 4
                            then (parts ! 2, parts ! 3) else (parts ! 1, parts ! 2));
            typ = to_uppercase typ in
        if typ = ''A'' then map_option (\<lambda>ip. rr_new name RT_A CL_IN 300 (RD_A ip)) (parse_ipv4 rdata)
        else if typ = ''AAAA'' then map_option (\<lambda>ip. rr_new name RT_AAAA CL_IN 300 (RD_AAAA ip)) (parse_ipv6 rdata)
        else if typ = ''CNAME'' then Some (rr_new name RT_CNAME CL_IN 300 (RD_CNAME rdata))
        else None)"

fun add_inline_rules :: "nat \<Rightarrow> string list \<Rightarrow> arbitrary_map \<Rightarrow> arbitrary_map result" where
  "add_inline_rules i [] m = Inr m"
| "add_inline_rules i (line # ls) m =
     (case parse_rr_line line of
        Some rr \<Rightarrow> add_inline_rules (i + 1) ls (entry_extend (rr_name rr) [rr] m)
      | None \<Rightarrow> Inl (FileParse (''inline rule #'' @ show_nat i) (''failed to parse: '' @ line)))"

fun add_file_lines :: "string \<Rightarrow> nat \<Rightarrow> string list \<Rightarrow> arbitrary_map \<Rightarrow> arbitrary_map result" where
  "add_file_lines file i [] m = Inr m"
| "add_file_lines file i (l # ls) m =
     (let line = trim l in
      if line = [] \<or> starts_with '';'' line \<or> starts_with ''#'' line then add_file_lines file (i + 1) ls m
      else case parse_rr_line line of
        Some rr \<Rightarrow> add_file_lines file (i + 1) ls (entry_extend (rr_name rr) [rr] m)
      | None \<Rightarrow> Inl (FileParse file (''failed to parse line '' @ show_nat (i + 1))))"

fun add_rule_files :: "text_source \<Rightarrow> string list \<Rightarrow> arbitrary_map \<Rightarrow> arbitrary_map result" where
  "add_rule_files fs [] m = Inr m"
| "add_rule_files fs (f # files) m =
     (case fs f of
        Inl e \<Rightarrow> Inl (FileParse f (''failed to read: '' @ e))
      | Inr b \<Rightarrow>
          (case add_file_lines f 0 (str_lines b) m of
             Inl e \<Rightarrow> Inl e
           | Inr m' \<Rightarrow> add_rule_files fs files m'))"

definition arbitrary_new :: "text_source \<Rightarrow> arbitrary_args \<Rightarrow> arbitrary_map result" where
  "arbitrary_new fs args =
     (case (case aa_rules args of Some rules \<Rightarrow> add_inline_rules 0 rules Map.empty | None \<Rightarrow> Inr Map.empty) of
        Inl e \<Rightarrow> Inl e
      | Inr m \<Rightarrow> (case aa_files args of Some files \<Rightarrow> add_rule_files fs files m | None \<Rightarrow> Inr m))"

definition arbitrary_execute :: "arbitrary_map \<Rightarrow> ctx \<Rightarrow> error option \<times> ctx" where
  "arbitrary_execute m c =
     (case msg_questions (request c) of
        q # _ \<Rightarrow>
          (case m (to_lowercase (trim_end_matches (CHR ''.'') (qname q))) of
             Some rrs \<Rightarrow>
               (None, ctx_set_response
                  (Some (fold add_answer rrs
                     (add_question q (set_response True (set_id (msg_id (request c)) message_new))))) c)
           | None \<Rightarrow> (None, c))
      | [] \<Rightarrow> (None, c))"

definition arbitrary_init :: "(yaml \<Rightarrow> string + arbitrary_args) \<Rightarrow> text_source \<Rightarrow> plugin_config
    \<Rightarrow> arbitrary_map result" where
  "arbitrary_init de fs config =
     (case de (pc_args config) of
        Inl e \<Rightarrow> Inl (Config (''failed to parse arbitrary args: '' @ e))
      | Inr args \<Rightarrow> arbitrary_new fs args)"

section \<open>Maps as lists of bindings\<close>

text \<open>A map built by \<open>entry_extend\<close> stands for the list of its bindings in the order in which they
  were added.\<close>

definition values_of :: "'k \<Rightarrow> ('k \<times> 'v) list \<Rightarrow> 'v list" where
  "values_of k ps = map snd (filter (\<lambda>p. fst p = k) ps)"

definition groups :: "('k \<rightharpoonup> 'v list) \<Rightarrow> ('k \<times> 'v) list \<Rightarrow> bool" where
  "groups m ps \<longleftrightarrow> (\<forall>k. m k = (if values_of k ps = [] then None else Some (values_of k ps)))"

lemma values_of_simps [simp]:
  "values_of k [] = []" "values_of k (ps @ qs) = values_of k ps @ values_of k qs"
  "values_of k (map (Pair j) vs) = (if j = k then vs else [])"
  by (simp_all add: values_of_def filter_map o_def)

lemma set_values_of: "v \<in> set (values_of k ps) \<longleftrightarrow> (k, v) \<in> set ps"
  by (auto simp: values_of_def image_iff)

lemma groups_empty [simp]: "groups Map.empty []"
  by (simp add: groups_def)

lemma groups_extend: "groups m ps \<Longrightarrow> vs \<noteq> [] \<Longrightarrow> groups (entry_extend k vs m) (ps @ map (Pair k) vs)"
  by (auto simp: groups_def entry_extend_def)

lemma groups_extends:
  "groups m ps \<Longrightarrow> vs \<noteq> [] \<Longrightarrow>
     groups (foldl (\<lambda>m n. entry_extend (f n) vs m) m ns) (ps @ concat (map (\<lambda>n. map (Pair (f n)) vs) ns))"
proof (induction ns arbitrary: m ps)
  case (Cons n ns)
  from Cons.IH [OF groups_extend [OF Cons.prems] Cons.prems(2)] show ?case by simp
qed simp

section \<open>What a hosts file says\<close>

definition host_bindings :: "string list \<Rightarrow> (string \<times> ip_addr) list" where
  "host_bindings ls = concat (map (\<lambda>l. case host_line l of
       Some (names, ips) \<Rightarrow> concat (map (\<lambda>n. map (Pair (to_lowercase n)) ips) names)
     | None \<Rightarrow> []) ls)"

lemma host_bindings_simps [simp]:
  "host_bindings [] = []" "host_line l = None \<Longrightarrow> host_bindings (l # ls) = host_bindings ls"
  "host_line l = Some (names, ips) \<Longrightarrow>
     host_bindings (l # ls) = concat (map (\<lambda>n. map (Pair (to_lowercase n)) ips) names) @ host_bindings ls"
  by (simp_all add: host_bindings_def)

lemma load_host_lines_groups:
  "groups h ps \<Longrightarrow> load_host_lines ls h = Inr h' \<Longrightarrow> groups h' (ps @ host_bindings ls)"
proof (induction ls h arbitrary: ps rule: load_host_lines.induct)
  case (2 l ls h)
  show ?case
  proof (cases "host_line l")
    case None
    with 2 show ?thesis by simp
  next
    case (Some ni)
    obtain names ips where ni: "ni = (names, ips)" by fastforce
    with 2(4) Some have "ips \<noteq> []" by (auto split: if_splits)
    with 2(2) [OF Some ni [symmetric] _ groups_extends [OF 2(3)]] 2(4) Some ni show ?thesis by simp
  qed
qed simp

lemma load_host_lines_Inl:
  "(\<exists>e. load_host_lines ls h = Inl e) \<longleftrightarrow> (\<exists>l \<in> set ls. \<exists>names. host_line l = Some (names, []))"
  by (induction ls h rule: load_host_lines.induct) (auto split: option.splits)

lemma trim_end_matches_last: "trim_end_matches c s = [] \<or> last (trim_end_matches c s) \<noteq> c"
proof -
  have d: "dropWhile (\<lambda>x. x = c) t = [] \<or> hd (dropWhile (\<lambda>x. x = c) t) \<noteq> c" for t
    by (induction t) auto
  show ?thesis using d [of "rev s"] by (simp add: trim_end_matches_def last_rev)
qed

text \<open>A name written with its final dot in a hosts file is never found: the loader keeps the dot,
  the lookup drops it.\<close>

lemma rooted_name_unreachable: "n \<noteq> [] \<Longrightarrow> last n = CHR ''.'' \<Longrightarrow> host_key d \<noteq> to_lowercase n"
proof
  assume n: "n \<noteq> []" "last n = CHR ''.''" and k: "host_key d = to_lowercase n"
  have "last (to_lowercase n) = CHR ''.''" "to_lowercase n \<noteq> []"
    using n by (simp_all add: to_lowercase_def last_map)
  with k trim_end_matches_last [of "CHR ''.''" "to_lowercase d"] show False
    by (simp add: host_key_def trim_end_dot_lower)
qed

lemma create_response_facts:
  "msg_answers (create_response q ips) = List.map_filter (host_record q) ips"
  "msg_questions (create_response q ips) = [q]" "msg_qr (create_response q ips)"
proof -
  have "msg_answers (foldl (\<lambda>r ip. case host_record q ip of Some rr \<Rightarrow> add_answer rr r | None \<Rightarrow> r) m ips)
      = msg_answers m @ List.map_filter (host_record q) ips \<and>
    msg_questions (foldl (\<lambda>r ip. case host_record q ip of Some rr \<Rightarrow> add_answer rr r | None \<Rightarrow> r) m ips)
      = msg_questions m \<and>
    msg_qr (foldl (\<lambda>r ip. case host_record q ip of Some rr \<Rightarrow> add_answer rr r | None \<Rightarrow> r) m ips) = msg_qr m" for m
    by (induction ips arbitrary: m)
      (auto simp: List.map_filter_simps message_ops split: option.splits)
  then show "msg_answers (create_response q ips) = List.map_filter (host_record q) ips"
    "msg_questions (create_response q ips) = [q]" "msg_qr (create_response q ips)"
    by (simp_all add: create_response_def message_ops)
qed

section \<open>What a list of rules says\<close>

definition significant_lines :: "string \<Rightarrow> string list" where
  "significant_lines b =
     filter (\<lambda>l. \<not> (l = [] \<or> starts_with '';'' l \<or> starts_with ''#'' l)) (map trim (str_lines b))"

definition rule_lines :: "text_source \<Rightarrow> arbitrary_args \<Rightarrow> string list" where
  "rule_lines fs args =
     (case aa_rules args of Some rules \<Rightarrow> rules | None \<Rightarrow> []) @
     concat (map (\<lambda>f. case fs f of Inr b \<Rightarrow> significant_lines b | Inl e \<Rightarrow> [])
       (case aa_files args of Some files \<Rightarrow> files | None \<Rightarrow> []))"

definition rule_bindings :: "string list \<Rightarrow> (string \<times> resource_record) list" where
  "rule_bindings ls = map (\<lambda>rr. (rr_name rr, rr)) (List.map_filter parse_rr_line ls)"

lemma rule_bindings_simps [simp]:
  "rule_bindings [] = []" "rule_bindings (ls @ ls') = rule_bindings ls @ rule_bindings ls'"
  "parse_rr_line l = Some rr \<Longrightarrow> rule_bindings (l # ls) = (rr_name rr, rr) # rule_bindings ls"
  by (simp_all add: rule_bindings_def List.map_filter_simps List.map_filter_def)

lemma groups_add: "groups m ps \<Longrightarrow> groups (entry_extend k [v] m) (ps @ [(k, v)])"
  using groups_extend [of m ps "[v]" k] by simp

lemma add_inline_rules_groups:
  "groups m ps \<Longrightarrow> add_inline_rules i ls m = Inr m' \<Longrightarrow> groups m' (ps @ rule_bindings ls)"
proof (induction i ls m arbitrary: ps rule: add_inline_rules.induct)
  case (2 i line ls m)
  then obtain rr where rr: "parse_rr_line line = Some rr" by (cases "parse_rr_line line") auto
  from 2(1) [OF rr groups_add [OF 2(2)]] 2(3) rr show ?case by simp
qed simp

lemma add_file_lines_groups:
  "groups m ps \<Longrightarrow> add_file_lines f i ls m = Inr m' \<Longrightarrow>
     groups m' (ps @ rule_bindings (filter (\<lambda>l. \<not> (l = [] \<or> starts_with '';'' l \<or> starts_with ''#'' l)) (map trim ls)))"
proof (induction f i ls m arbitrary: ps rule: add_file_lines.induct)
  case (2 f i l ls m)
  show ?case
  proof (cases "trim l = [] \<or> starts_with '';'' (trim l) \<or> starts_with ''#'' (trim l)")
    case True
    with 2(4) have "add_file_lines f (i + 1) ls m = Inr m'" by (auto simp: Let_def)
    from 2(1) [OF refl True 2(3) this] True show ?thesis by auto
  next
    case False
    with 2(4) obtain rr where rr: "parse_rr_line (trim l) = Some rr"
      by (cases "parse_rr_line (trim l)") (auto simp: Let_def)
    from 2(2) [OF refl False rr groups_add [OF 2(3)]] 2(4) rr False show ?thesis
      by (simp add: Let_def)
  qed
qed simp

lemma add_rule_files_groups:
  "groups m ps \<Longrightarrow> add_rule_files fs files m = Inr m' \<Longrightarrow>
     groups m' (ps @ rule_bindings (concat (map (\<lambda>f. case fs f of Inr b \<Rightarrow> significant_lines b | Inl e \<Rightarrow> []) files)))"
proof (induction fs files m arbitrary: ps rule: add_rule_files.induct)
  case (2 fs f files m)
  then obtain b m1 where b: "fs f = Inr b" and m1: "add_file_lines f 0 (str_lines b) m = Inr m1"
    by (auto split: sum.splits)
  from 2(1) [OF b m1 add_file_lines_groups [OF 2(2) m1]] 2(3) b m1 show ?case
    by (simp add: significant_lines_def)
qed simp

lemma arbitrary_new_groups:
  assumes "arbitrary_new fs args = Inr m"
  shows "groups m (rule_bindings (rule_lines fs args))"
proof -
  from assms obtain m0 where m0: "(case aa_rules args of Some rules \<Rightarrow> add_inline_rules 0 rules Map.empty
      | None \<Rightarrow> Inr Map.empty) = Inr m0"
    and m: "(case aa_files args of Some files \<Rightarrow> add_rule_files fs files m0 | None \<Rightarrow> Inr m0) = Inr m"
    unfolding arbitrary_new_def by (cases "case aa_rules args of Some rules \<Rightarrow> add_inline_rules 0 rules Map.empty
      | None \<Rightarrow> Inr Map.empty") (auto split: option.splits)
  have "groups m0 (rule_bindings (case aa_rules args of Some rules \<Rightarrow> rules | None \<Rightarrow> []))"
    using m0 add_inline_rules_groups [OF groups_empty, of 0] by (cases "aa_rules args") fastforce+
  with m show ?thesis
    by (cases "aa_files args") (auto simp: rule_lines_def dest: add_rule_files_groups)
qed

text \<open>The record type that belongs to the data of a record.\<close>

fun rdata_rtype :: "rdata \<Rightarrow> record_type option" where
  "rdata_rtype (RD_A _) = Some RT_A"
| "rdata_rtype (RD_AAAA _) = Some RT_AAAA"
| "rdata_rtype (RD_CNAME _) = Some RT_CNAME"
| "rdata_rtype (RD_MX _ _) = Some RT_MX"
| "rdata_rtype (RD_NS _) = Some RT_NS"
| "rdata_rtype (RD_PTR _) = Some RT_PTR"
| "rdata_rtype (RD_TXT _) = Some RT_TXT"
| "rdata_rtype (RD_SOA _ _ _ _ _ _ _) = Some RT_SOA"
| "rdata_rtype (RD_SRV _ _ _ _) = Some RT_SRV"
| "rdata_rtype (RD_CAA _ _ _) = Some RT_CAA"
| "rdata_rtype (RD_SVCB _ _ _) = Some RT_SVCB"
| "rdata_rtype (RD_HTTPS _ _ _) = Some RT_HTTPS"
| "rdata_rtype _ = None"

definition rr_typed :: "resource_record \<Rightarrow> bool" where
  "rr_typed rr \<longleftrightarrow> rdata_rtype (rr_rdata rr) = Some (rr_rtype rr)"

lemma rr_new_sel [simp]:
  "rr_name (rr_new n t cl ttl d) = n" "rr_rtype (rr_new n t cl ttl d) = t"
  "rr_rclass (rr_new n t cl ttl d) = cl" "rr_ttl (rr_new n t cl ttl d) = ttl"
  "rr_rdata (rr_new n t cl ttl d) = d"
  by (simp_all add: rr_new_def)

lemma parse_rr_line_typed:
  "parse_rr_line l = Some rr \<Longrightarrow> rr_typed rr \<and> rr_rclass rr = CL_IN \<and> rr_ttl rr = 300"
  by (auto simp: parse_rr_line_def Let_def rr_typed_def split: if_splits)

lemma rule_bindings_typed:
  "(k, rr) \<in> set (rule_bindings ls) \<Longrightarrow> rr_typed rr \<and> rr_rclass rr = CL_IN \<and> rr_ttl rr = 300 \<and> rr_name rr = k"
  by (auto simp: rule_bindings_def set_map_filter dest: parse_rr_line_typed)

lemma host_record_typed: "host_record q ip = Some rr \<Longrightarrow> rr_typed rr \<and> rr_rtype rr = qtype q"
  by (cases ip) (auto simp: rr_typed_def split: if_splits)

definition demo_hosts_file :: string where
  "demo_hosts_file = ''192.0.2.7 NAS.lan files'' @ [CHR 0x0A] @ ''# local'' @ [CHR 0x0A] @ ''::1 nas.lan''"

definition demo_host_question :: question where
  "demo_host_question = question_new ''nas.LAN.'' RT_A CL_IN"

section \<open>Properties\<close>

text \<open>
  C15: a hosts file that loads answers an A or AAAA query, when nothing has answered it before,
  exactly with the addresses the file lists for the name: in the order of the file, over all
  lines, ignoring case and the final dot of the query, restricted to the family of the query
  (an empty success when only the other family is listed). A name that is not listed leaves the
  query to the rest of the chain.
\<close>

theorem hosts_answers_listed:
  assumes "load_from_string content h = (None, hp_hosts p)"
    and "response c = None" and "msg_questions (request c) = q # qs" and "qtype q = RT_A \<or> qtype q = RT_AAAA"
  shows "let ips = values_of (host_key (qname q)) (host_bindings (str_lines content)) in
    if ips = [] then hosts_execute p c = (None, c)
    else \<exists>r. hosts_execute p c = (None, ctx_set_response (Some r) c) \<and>
      msg_id r = msg_id (request c) \<and> msg_qr r \<and> msg_rcode r = RC_NoError \<and> msg_questions r = [q] \<and>
      msg_answers r = List.map_filter (host_record q) ips"
proof -
  from assms(1) have "load_host_lines (str_lines content) Map.empty = Inr (hp_hosts p)"
    by (auto simp: load_from_string_def split: sum.splits)
  from load_host_lines_groups [OF groups_empty this]
  have "groups (hp_hosts p) (host_bindings (str_lines content))" by simp
  with assms(2-) show ?thesis
    by (auto simp: hosts_execute_def get_ips_def groups_def Let_def create_response_facts
        set_response_code_def set_id_def)
qed

theorem hosts_answers_listed_witness:
  "\<exists>r. hosts_execute (hosts_plugin_new\<lparr>hp_hosts := snd (load_from_string demo_hosts_file Map.empty)\<rparr>)
      (context_new (add_question demo_host_question message_new)) =
      (None, ctx_set_response (Some r) (context_new (add_question demo_host_question message_new))) \<and>
    msg_answers r = [rr_new ''nas.LAN.'' RT_A CL_IN 3600 (RD_A 0xC0000207)]"
proof -
  have "map host_line (str_lines demo_hosts_file) =
      [Some ([''NAS.lan'', ''files''], [V4 0xC0000207]), None, Some ([''nas.lan''], [V6 1])]"
    by code_simp
  then have "load_host_lines (str_lines demo_hosts_file) Map.empty \<noteq> Inl e" for e
    using load_host_lines_Inl [of "str_lines demo_hosts_file" Map.empty] by fastforce
  then have l: "fst (load_from_string demo_hosts_file Map.empty) = None"
    by (auto simp: load_from_string_def split: sum.splits)
  have v: "values_of (host_key (qname demo_host_question)) (host_bindings (str_lines demo_hosts_file)) =
      [V4 0xC0000207, V6 1]"
    by code_simp
  show ?thesis
    using hosts_answers_listed [of demo_hosts_file Map.empty
        "hosts_plugin_new\<lparr>hp_hosts := snd (load_from_string demo_hosts_file Map.empty)\<rparr>"
        "context_new (add_question demo_host_question message_new)" demo_host_question "[]"] l v
    by (auto simp: Let_def demo_host_question_def List.map_filter_simps add_question_def
        prod_eq_iff)
qed

text \<open>
  C17: the answers of the arbitrary plugin are well typed: they are exactly the records its rules
  give the queried name, in order, and each has that owner name, class IN, TTL 300 and
  the record type of its data.
\<close>

theorem arbitrary_answers_typed:
  assumes "arbitrary_new fs args = Inr m" and "msg_questions (request c) = q # qs"
  shows "let rrs = values_of (host_key (qname q)) (rule_bindings (rule_lines fs args)) in
    (if rrs = [] then arbitrary_execute m c = (None, c)
     else \<exists>r. arbitrary_execute m c = (None, ctx_set_response (Some r) c) \<and>
       msg_id r = msg_id (request c) \<and> msg_qr r \<and> msg_questions r = [q] \<and> msg_answers r = rrs) \<and>
    (\<forall>rr \<in> set rrs. rr_typed rr \<and> rr_rclass rr = CL_IN \<and> rr_ttl rr = 300 \<and> rr_name rr = host_key (qname q))"
proof -
  have "groups m (rule_bindings (rule_lines fs args))" by (rule arbitrary_new_groups [OF assms(1)])
  with assms(2) show ?thesis
    by (auto simp: Let_def arbitrary_execute_def host_key_def groups_def set_values_of fold_add_answer
        message_ops dest: rule_bindings_typed)
qed

theorem arbitrary_answers_typed_witness:
  "\<exists>m r. arbitrary_new (\<lambda>_. Inl ''unreadable'') \<lparr>aa_rules = Some [''Example.com. IN A 192.0.2.1''], aa_files = None\<rparr> = Inr m \<and>
    arbitrary_execute m (context_new (add_question (question_new ''example.COM'' RT_AAAA CL_IN) message_new)) =
      (None, ctx_set_response (Some r) (context_new (add_question (question_new ''example.COM'' RT_AAAA CL_IN) message_new))) \<and>
    msg_answers r = [rr_new ''example.com'' RT_A CL_IN 300 (RD_A 0xC0000201)]"
proof -
  let ?args = "\<lparr>aa_rules = Some [''Example.com. IN A 192.0.2.1''], aa_files = None\<rparr> :: arbitrary_args"
  let ?q = "question_new ''example.COM'' RT_AAAA CL_IN"
  have p: "parse_rr_line ''Example.com. IN A 192.0.2.1'' = Some (rr_new ''example.com'' RT_A CL_IN 300 (RD_A 0xC0000201))"
    by code_simp
  then obtain m where m: "arbitrary_new (\<lambda>_. Inl ''unreadable'') ?args = Inr m"
    by (simp add: arbitrary_new_def)
  have "host_key (qname ?q) = ''example.com''" by code_simp
  with p have "values_of (host_key (qname ?q)) (rule_bindings (rule_lines (\<lambda>_. Inl ''unreadable'') ?args)) =
      [rr_new ''example.com'' RT_A CL_IN 300 (RD_A 0xC0000201)]"
    by (simp add: rule_lines_def values_of_def)
  with arbitrary_answers_typed [OF m, of "context_new (add_question ?q message_new)" ?q "[]"] m
  show ?thesis by (auto simp: Let_def add_question_def)
qed

end
