(* ===== verification/Rate_Limit.thy ===== *)
theory Rate_Limit
  imports Context Config_Value "HOL-Library.AList"
begin

text \<open>
  The rate limiter, \<^verbatim>\<open>src/src/plugins/executable/ratelimit.rs\<close>: a counter per client address and
  time window. The concurrent map is an association list without repeated keys; instants are
  nanoseconds. The 32-bit counter wraps, as in a release build.
\<close>

record rate_entry =
  re_count :: u32
  re_window_start :: nat

record rate_limit =
  rl_max_queries :: u32
  rl_window_secs :: u64
  rl_limits :: "(ip_addr \<times> rate_entry) list"

definition rate_limit_new :: "u32 \<Rightarrow> u64 \<Rightarrow> rate_limit" where
  "rate_limit_new mx w = \<lparr>rl_max_queries = mx, rl_window_secs = w, rl_limits = []\<rparr>"

definition window_duration :: "rate_limit \<Rightarrow> nat" where
  "window_duration p = unat (rl_window_secs p) * 1000000000"

definition should_limit :: "nat \<Rightarrow> ip_addr \<Rightarrow> rate_limit \<Rightarrow> bool \<times> rate_limit" where
  "should_limit now ip p =
     (case map_of (rl_limits p) ip of
        Some e \<Rightarrow>
          if now - re_window_start e \<ge> window_duration p
          then (False, p\<lparr>rl_limits := AList.update ip \<lparr>re_count = 1, re_window_start = now\<rparr> (rl_limits p)\<rparr>)
          else (let n = re_count e + 1 in
                (n > rl_max_queries p, p\<lparr>rl_limits := AList.update ip (e\<lparr>re_count := n\<rparr>) (rl_limits p)\<rparr>))
      | None \<Rightarrow>
          (False, p\<lparr>rl_limits := AList.update ip \<lparr>re_count = 1, re_window_start = now\<rparr> (rl_limits p)\<rparr>))"

text \<open>\<^verbatim>\<open>window_duration * 2\<close> panics when the seconds exceed 64 bits: \<open>None\<close>. It is computed for each
  entry, so never on an empty map.\<close>

definition rate_cleanup :: "nat \<Rightarrow> rate_limit \<Rightarrow> rate_limit option" where
  "rate_cleanup now p =
     (if rl_limits p \<noteq> [] \<and> 2 * unat (rl_window_secs p) \<ge> 2 ^ 64 then None
      else Some (p\<lparr>rl_limits :=
        filter (\<lambda>(ip, e). now - re_window_start e < window_duration p * 2) (rl_limits p)\<rparr>))"

definition background_task_interval :: "rate_limit \<Rightarrow> u64" where
  "background_task_interval p = max (rl_window_secs p) 30 * 2"

definition rate_limit_execute :: "nat \<Rightarrow> rate_limit \<Rightarrow> ctx \<Rightarrow> error option \<times> ctx \<times> rate_limit" where
  "rate_limit_execute now p c =
     (case get_ip ''client_ip'' c of
        None \<Rightarrow> (None, c, p)
      | Some ip \<Rightarrow>
          (case should_limit now ip p of (limited, p') \<Rightarrow>
             (None, if limited then set_metadata RETURN_FLAG (MBool True) (set_refused c) else c, p')))"

definition max_queries_arg :: "yaml \<Rightarrow> u32 result" where
  "max_queries_arg v =
     (case v of
        YNumber n \<Rightarrow>
          (case as_u64 n of
             Some u \<Rightarrow> Inr (ucast u)
           | None \<Rightarrow> (case as_i64 n of
               Some i \<Rightarrow> Inr (of_int i)
             | None \<Rightarrow> Inl (Config ''Invalid 'max_queries' value'')))
      | YString s \<Rightarrow>
          (case parse_u32 s of
             Some u \<Rightarrow> Inr u
           | None \<Rightarrow> Inl (Config ''Invalid 'max_queries' string value''))
      | _ \<Rightarrow> Inl (Config ''Invalid 'max_queries' type''))"

definition window_secs_arg :: "yaml \<Rightarrow> u64 result" where
  "window_secs_arg v =
     (case v of
        YNumber n \<Rightarrow>
          (case as_u64 n of
             Some u \<Rightarrow> Inr u
           | None \<Rightarrow> (case as_i64 n of
               Some i \<Rightarrow> Inr (of_int i)
             | None \<Rightarrow> Inl (Config ''Invalid 'window_secs' value'')))
      | YString s \<Rightarrow>
          (case parse_u64 s of
             Some u \<Rightarrow> Inr u
           | None \<Rightarrow> Inl (Config ''Invalid 'window_secs' string value''))
      | _ \<Rightarrow> Inl (Config ''Invalid 'window_secs' type''))"

definition rate_limit_init :: "plugin_config \<Rightarrow> rate_limit result" where
  "rate_limit_init config =
     (let args = effective_args config in
      case (case args ''max_queries'' of Some v \<Rightarrow> max_queries_arg v | None \<Rightarrow> Inr 100) of
        Inl e \<Rightarrow> Inl e
      | Inr mx \<Rightarrow>
          (case (case args ''window_secs'' of Some v \<Rightarrow> window_secs_arg v | None \<Rightarrow> Inr 60) of
             Inl e \<Rightarrow> Inl e
           | Inr w \<Rightarrow> Inr (rate_limit_new mx w)))"

section \<open>Runs\<close>

text \<open>What happens to a limiter over time: queries of clients and cleanups. A run records for each
  query its time, its client and whether it was refused; \<open>None\<close> is a panic.\<close>

datatype rate_event = Query nat ip_addr | Cleanup nat

fun event_time :: "rate_event \<Rightarrow> nat" where
  "event_time (Query t _) = t"
| "event_time (Cleanup t) = t"

fun rate_run :: "rate_limit \<Rightarrow> rate_event list \<Rightarrow> (nat \<times> ip_addr \<times> bool) list option" where
  "rate_run p [] = Some []"
| "rate_run p (Query t ip # es) =
     (case should_limit t ip p of (limited, p') \<Rightarrow> map_option ((#) (t, ip, limited)) (rate_run p' es))"
| "rate_run p (Cleanup t # es) = (case rate_cleanup t p of None \<Rightarrow> None | Some p' \<Rightarrow> rate_run p' es)"

text \<open>The specification: one counter for one client, with a fixed window.\<close>

fun window_counter :: "nat \<Rightarrow> nat \<Rightarrow> (nat \<times> nat) option \<Rightarrow> nat list \<Rightarrow> (nat \<times> bool) list" where
  "window_counter w mx st [] = []"
| "window_counter w mx None (t # ts) = (t, False) # window_counter w mx (Some (t, 1)) ts"
| "window_counter w mx (Some (start, n)) (t # ts) =
     (if t - start \<ge> w then (t, False) # window_counter w mx (Some (t, 1)) ts
      else (t, n + 1 > mx) # window_counter w mx (Some (start, n + 1)) ts)"

fun query_times :: "ip_addr \<Rightarrow> rate_event list \<Rightarrow> nat list" where
  "query_times ip [] = []"
| "query_times ip (Query t ip' # es) = (if ip' = ip then t # query_times ip es else query_times ip es)"
| "query_times ip (Cleanup _ # es) = query_times ip es"

definition decisions_for :: "ip_addr \<Rightarrow> (nat \<times> ip_addr \<times> bool) list \<Rightarrow> (nat \<times> bool) list" where
  "decisions_for ip ds = List.map_filter (\<lambda>(t, ip', b). if ip' = ip then Some (t, b) else None) ds"

definition tracks :: "nat \<Rightarrow> nat \<Rightarrow> rate_entry option \<Rightarrow> (nat \<times> nat) option \<Rightarrow> bool" where
  "tracks w now e st \<longleftrightarrow>
     (case (e, st) of
        (Some e, Some (start, n)) \<Rightarrow> re_window_start e = start \<and> re_count e = of_nat n \<and> start \<le> now
      | (None, None) \<Rightarrow> True
      | (None, Some (start, n)) \<Rightarrow> now - start \<ge> w \<and> start \<le> now
      | (Some e, None) \<Rightarrow> False)"

lemma decisions_for_simps [simp]:
  "decisions_for ip [] = []"
  "decisions_for ip ((t, ip', b) # ds) = (if ip' = ip then (t, b) # decisions_for ip ds else decisions_for ip ds)"
  by (simp_all add: decisions_for_def List.map_filter_simps)

definition used :: "(nat \<times> nat) option \<Rightarrow> nat" where
  "used st = (case st of Some (start, n) \<Rightarrow> n | None \<Rightarrow> 0)"

definition limiter_ok :: "rate_limit \<Rightarrow> bool" where
  "limiter_ok p \<longleftrightarrow> distinct (map fst (rl_limits p)) \<and> 2 * unat (rl_window_secs p) < 2 ^ 64"

lemma should_limit_config:
  assumes "should_limit t ip p = (b, p')"
  shows "window_duration p' = window_duration p" "rl_max_queries p' = rl_max_queries p"
    "limiter_ok p \<Longrightarrow> limiter_ok p'"
  using assms
  by (auto simp: should_limit_def Let_def window_duration_def limiter_ok_def
      split: option.splits if_splits intro: distinct_update)

lemma should_limit_other:
  "should_limit t ip p = (b, p') \<Longrightarrow> ip' \<noteq> ip \<Longrightarrow> map_of (rl_limits p') ip' = map_of (rl_limits p) ip'"
  by (auto simp: should_limit_def Let_def update_conv' split: option.splits if_splits)

lemma rate_cleanup_config:
  assumes "rate_cleanup t p = Some p'"
  shows "window_duration p' = window_duration p" "rl_max_queries p' = rl_max_queries p"
    "limiter_ok p \<Longrightarrow> limiter_ok p'"
  using assms
  by (auto simp: rate_cleanup_def window_duration_def limiter_ok_def distinct_map_fst_filter split: if_splits)

lemma rate_cleanup_lookup:
  assumes "limiter_ok p" and "rate_cleanup t p = Some p'"
  shows "map_of (rl_limits p') ip =
    (case map_of (rl_limits p) ip of
       Some e \<Rightarrow> if t - re_window_start e < window_duration p * 2 then Some e else None
     | None \<Rightarrow> None)"
proof -
  have "map_of (filter (\<lambda>(ip, e). Q e) xs) ip = (case map_of xs ip of Some e \<Rightarrow> if Q e then Some e else None | None \<Rightarrow> None)"
    if "distinct (map fst xs)" for xs :: "(ip_addr \<times> rate_entry) list" and Q
    using that by (induction xs) (auto split: option.splits simp: map_of_eq_None_iff)
  with assms show ?thesis by (auto simp: limiter_ok_def rate_cleanup_def split: if_splits)
qed

lemma tracks_later: "tracks w now e st \<Longrightarrow> now \<le> t \<Longrightarrow> tracks w t e st"
  by (auto simp: tracks_def split: option.splits)

lemma tracks_cleanup:
  assumes "limiter_ok p" and "rate_cleanup t p = Some p'" and "tracks (window_duration p) t (map_of (rl_limits p) ip) st"
  shows "tracks (window_duration p') t (map_of (rl_limits p') ip) st"
  using assms(3)
  by (auto simp: rate_cleanup_lookup [OF assms(1,2)] rate_cleanup_config [OF assms(2)] tracks_def
      split: option.splits prod.splits if_splits)

text \<open>The counter of the code and that of the specification take one query alike.\<close>

lemma should_limit_tracks:
  assumes "should_limit t ip p = (b, p')" and "tracks (window_duration p) t (map_of (rl_limits p) ip) st"
    and "used st + 1 < 2 ^ 32"
  obtains st' where "window_counter (window_duration p) (unat (rl_max_queries p)) st (t # ts) =
      (t, b) # window_counter (window_duration p) (unat (rl_max_queries p)) st' ts"
    and "tracks (window_duration p) t (map_of (rl_limits p') ip) st'" and "used st' \<le> used st + 1"
proof (cases st)
  case None
  with assms show thesis
    by (intro that [of "Some (t, 1)"])
      (auto simp: tracks_def should_limit_def update_conv' used_def split: option.splits)
next
  case (Some sn)
  obtain start n where sn: "sn = (start, n)" by fastforce
  show thesis
  proof (cases "t - start \<ge> window_duration p")
    case True
    with Some sn assms show thesis
      by (intro that [of "Some (t, 1)"])
        (auto simp: tracks_def should_limit_def update_conv' used_def split: option.splits)
  next
    case False
    with Some sn assms(2) obtain e where e: "map_of (rl_limits p) ip = Some e"
      "re_window_start e = start" "re_count e = of_nat n" "start \<le> t"
      by (auto simp: tracks_def split: option.splits)
    have "unat (of_nat (n + 1) :: u32) = n + 1"
      using assms(3) Some sn by (simp add: used_def unsigned_of_nat take_bit_nat_eq_self del: of_nat_add of_nat_Suc)
    then have "rl_max_queries p < of_nat n + 1 \<longleftrightarrow> unat (rl_max_queries p) < n + 1"
      by (simp add: word_less_nat_alt add.commute)
    with False Some sn assms(1) e show thesis
      by (intro that [of "Some (start, n + 1)"])
        (auto simp: tracks_def should_limit_def Let_def update_conv' used_def add.commute)
  qed
qed

lemma rate_run_tracks:
  assumes "limiter_ok p" and "tracks (window_duration p) now (map_of (rl_limits p) ip) st"
    and "sorted (map event_time es)" and "\<forall>e \<in> set es. now \<le> event_time e"
    and "used st + length (query_times ip es) < 2 ^ 32"
  shows "\<exists>ds. rate_run p es = Some ds \<and>
    decisions_for ip ds = window_counter (window_duration p) (unat (rl_max_queries p)) st (query_times ip es)"
  using assms
proof (induction es arbitrary: p now st)
  case Nil
  then show ?case by (cases st) auto
next
  case (Cons e es)
  note tr = tracks_later [OF Cons.prems(2)]
  show ?case
  proof (cases e)
    case (Query t ip')
    obtain b p' where sl: "should_limit t ip' p = (b, p')" by fastforce
    note cfg = should_limit_config [OF sl]
    have le: "now \<le> t" "\<forall>e \<in> set es. t \<le> event_time e" and so: "sorted (map event_time es)"
      using Cons.prems Query by auto
    show ?thesis
    proof (cases "ip' = ip")
      case True
      with Query Cons.prems(5) have u: "used st + 1 + length (query_times ip es) < 2 ^ 32" by simp
      obtain st' where st': "window_counter (window_duration p) (unat (rl_max_queries p)) st (t # query_times ip es) =
          (t, b) # window_counter (window_duration p) (unat (rl_max_queries p)) st' (query_times ip es)"
        "tracks (window_duration p) t (map_of (rl_limits p') ip) st'" "used st' \<le> used st + 1"
        using should_limit_tracks [OF sl [unfolded True] tr [OF le(1)]] u by (metis add_lessD1)
      from Cons.IH [OF cfg(3) [OF Cons.prems(1)], of t st'] st' so le(2) u cfg obtain ds where
        "rate_run p' es = Some ds" "decisions_for ip ds =
          window_counter (window_duration p) (unat (rl_max_queries p)) st' (query_times ip es)"
        by auto
      with Query True sl st' show ?thesis by auto
    next
      case False
      with should_limit_other [OF sl] Cons.IH [OF cfg(3) [OF Cons.prems(1)], of t st] tr [OF le(1)] so le(2) cfg
        Cons.prems(5) Query sl
      show ?thesis by fastforce
    qed
  next
    case (Cleanup t)
    obtain p' where p': "rate_cleanup t p = Some p'"
      using Cons.prems(1) by (auto simp: rate_cleanup_def limiter_ok_def)
    have "tracks (window_duration p') t (map_of (rl_limits p') ip) st"
      using tracks_cleanup [OF Cons.prems(1) p' tr] Cons.prems(4) Cleanup by simp
    with Cons.IH [OF rate_cleanup_config(3) [OF p' Cons.prems(1)]] Cons.prems(3,5) Cleanup p'
      rate_cleanup_config(1,2) [OF p']
    show ?thesis by simp
  qed
qed

section \<open>The bound of the counter\<close>

definition admitted_in :: "nat \<Rightarrow> nat \<Rightarrow> (nat \<times> bool) list \<Rightarrow> nat" where
  "admitted_in a b ds = length (filter (\<lambda>(t, limited). \<not> limited \<and> a \<le> t \<and> t < b) ds)"

lemma admitted_in_simps [simp]:
  "admitted_in a b [] = 0"
  "admitted_in a b ((t, l) # ds) = (if \<not> l \<and> a \<le> t \<and> t < b then 1 else 0) + admitted_in a b ds"
  by (simp_all add: admitted_in_def)

text \<open>After the start of a window inside the interval, at most the rest of its budget is admitted.\<close>

lemma admitted_same_window:
  "a \<le> start \<Longrightarrow> n \<ge> 1 \<Longrightarrow> sorted ts \<Longrightarrow> \<forall>t \<in> set ts. start \<le> t \<Longrightarrow>
     admitted_in a (a + w) (window_counter w mx (Some (start, n)) ts) \<le> max 1 mx - min n (max 1 mx)"
proof (induction ts arbitrary: n)
  case (Cons t ts)
  show ?case
  proof (cases "t - start \<ge> w")
    case True
    have late: "admitted_in a (a + w) (window_counter w mx st us) = 0" if "\<forall>u \<in> set us. a + w \<le> u" for st us
      using that by (induction w mx st us rule: window_counter.induct) auto
    from True Cons.prems have "a + w \<le> t" by auto
    moreover from this Cons.prems have "\<forall>u \<in> set ts. a + w \<le> u" by auto
    ultimately show ?thesis using True late by simp
  next
    case False
    with Cons.IH [of "n + 1"] Cons.prems show ?thesis by auto
  qed
qed simp

text \<open>An interval as long as a window meets at most two windows.\<close>

lemma admitted_two_windows:
  "sorted ts \<Longrightarrow> n \<ge> 1 \<Longrightarrow> \<forall>t \<in> set ts. start \<le> t \<Longrightarrow>
     admitted_in a (a + w) (window_counter w mx (Some (start, n)) ts) \<le>
       max 1 mx + (if a < start + w then max 1 mx - min n (max 1 mx) else max 1 mx)"
proof (induction ts arbitrary: start n)
  case (Cons t ts)
  have ge: "\<forall>u \<in> set ts. t \<le> u" "sorted ts" "start \<le> t" "\<forall>u \<in> set ts. start \<le> u"
    using Cons.prems by auto
  show ?case
  proof (cases "t - start \<ge> w")
    case True
    show ?thesis
    proof (cases "a \<le> t")
      case True
      with admitted_same_window [of a t 1 ts w mx] ge \<open>t - start \<ge> w\<close> show ?thesis by auto
    next
      case False
      with Cons.IH [of 1 t] ge \<open>t - start \<ge> w\<close> show ?thesis by (auto split: if_splits)
    qed
  next
    case False
    with Cons.IH [of "n + 1" start] Cons.prems ge show ?thesis
      by (auto split: if_splits) (auto simp: min_def split: if_splits)
  qed
qed simp

lemma window_counter_bound:
  assumes "sorted ts"
  shows "admitted_in a (a + w) (window_counter w mx None ts) \<le> 2 * max 1 mx"
proof (cases ts)
  case (Cons t us)
  with assms have us: "sorted us" "\<forall>u \<in> set us. t \<le> u" by auto
  show ?thesis
  proof (cases "a \<le> t")
    case True
    with admitted_same_window [of a t 1 us w mx] us Cons show ?thesis by auto
  next
    case False
    with admitted_two_windows [of us 1 t a w mx] us Cons show ?thesis by (auto split: if_splits)
  qed
qed simp

lemma query_times_sorted: "sorted (map event_time es) \<Longrightarrow> sorted (query_times ip es)"
proof -
  have "set (query_times ip es) \<subseteq> event_time ` set es" for es
    by (induction ip es rule: query_times.induct) auto
  then show "sorted (map event_time es) \<Longrightarrow> sorted (query_times ip es)"
    by (induction ip es rule: query_times.induct) fastforce+
qed

lemma rate_run_new:
  assumes "sorted (map event_time es)" and "2 * unat w < 2 ^ 64" and "length (query_times ip es) < 2 ^ 32"
  shows "\<exists>ds. rate_run (rate_limit_new mx w) es = Some ds \<and>
    decisions_for ip ds = window_counter (window_duration (rate_limit_new mx w)) (unat mx) None (query_times ip es)"
proof -
  have "limiter_ok (rate_limit_new mx w)" using assms(2) by (simp add: limiter_ok_def rate_limit_new_def)
  moreover have "tracks (window_duration (rate_limit_new mx w)) 0 (map_of (rl_limits (rate_limit_new mx w)) ip) None"
    by (simp add: tracks_def rate_limit_new_def)
  ultimately show ?thesis
    using rate_run_tracks [of "rate_limit_new mx w" 0 ip None es] assms(1,3)
    by (simp add: used_def rate_limit_new_def)
qed

lemma rate_limit_execute_limited:
  assumes "get_ip ''client_ip'' c = Some ip" and "should_limit now ip p = (True, p')"
  shows "rate_limit_execute now p c = (None, set_metadata RETURN_FLAG (MBool True) (set_refused c), p')"
  using assms by (simp add: rate_limit_execute_def)

definition demo_client :: ip_addr where
  "demo_client = V4 0xC0000201"

definition demo_events :: "rate_event list" where
  "demo_events = [Query 0 demo_client, Query 5 (V4 7), Query 10 demo_client, Query 20 demo_client,
     Cleanup 30, Query 3000000000 demo_client, Cleanup 9000000000, Query 9000000001 demo_client]"

section \<open>Properties\<close>

text \<open>
  C6: the limiter treats every client as if it were alone: over any sequence of queries and
  cleanups in the order of time, the decisions for one address are those of a single
  fixed-window counter that sees only the queries of this address. The other clients and the
  background cleanup never change them, and no step panics. The window has less than
  half of the 64-bit range of seconds, and the client sends fewer than 2^32 queries.
\<close>

theorem rate_limit_per_client:
  assumes "sorted (map event_time es)" and "2 * unat w < 2 ^ 64" and "length (query_times ip es) < 2 ^ 32"
  shows "\<exists>ds. rate_run (rate_limit_new mx w) es = Some ds \<and>
    decisions_for ip ds = window_counter (window_duration (rate_limit_new mx w)) (unat mx) None (query_times ip es)"
  by (rule rate_run_new [OF assms])

theorem rate_limit_per_client_witness:
  "\<exists>ds. rate_run (rate_limit_new 2 2) demo_events = Some ds \<and>
    decisions_for demo_client ds =
      [(0, False), (10, False), (20, True), (3000000000, False), (9000000001, False)]"
  using rate_limit_per_client [of demo_events 2 demo_client 2]
  by (simp add: demo_events_def demo_client_def window_duration_def rate_limit_new_def)

text \<open>
  In any interval as long as the window, a client gets at most twice the configured number
  of queries through (the interval may meet two windows); with \<open>max_queries = 0\<close> one query per
  window still passes.
\<close>

theorem rate_limit_bound:
  assumes "sorted (map event_time es)" and "2 * unat w < 2 ^ 64" and "length (query_times ip es) < 2 ^ 32"
  shows "\<exists>ds. rate_run (rate_limit_new mx w) es = Some ds \<and>
    admitted_in a (a + window_duration (rate_limit_new mx w)) (decisions_for ip ds) \<le> 2 * max 1 (unat mx)"
  using rate_run_new [OF assms, of mx] window_counter_bound [OF query_times_sorted [OF assms(1)]] by fastforce

theorem rate_limit_bound_witness:
  "\<exists>ds. rate_run (rate_limit_new 2 2) demo_events = Some ds \<and>
    admitted_in 0 (window_duration (rate_limit_new 2 2)) (decisions_for demo_client ds) \<le> 4"
  using rate_limit_bound [of demo_events 2 demo_client 2 0]
  by (simp add: demo_events_def demo_client_def)

end
