(* ===== verification/Acl.thy ===== *)
theory Acl
  imports Ip_Net Context Config_Value
begin

text \<open>
  The access control list, \<^verbatim>\<open>src/src/plugins/acl.rs\<close>: rules on client networks, the first that
  matches decides. The networks are those of the \<^verbatim>\<open>ipnet\<close> crate, the parameter of \<open>Ip_Net\<close>.
\<close>

datatype acl_action = Allow | Deny

record 'n acl_rule =
  ar_network :: 'n
  ar_action :: acl_action

record 'n query_acl =
  acl_rules :: "'n acl_rule list"
  acl_default :: acl_action

definition LOCALHOST_IPV4 :: ip_addr where
  "LOCALHOST_IPV4 = V4 (v4_new 127 0 0 1)"

definition acl_rule_matches :: "'n ipnet_ops \<Rightarrow> 'n acl_rule \<Rightarrow> ip_addr \<Rightarrow> bool" where
  "acl_rule_matches ops r ip = net_contains ops (ar_network r) ip"

definition acl_new :: "acl_action \<Rightarrow> 'n query_acl" where
  "acl_new d = \<lparr>acl_rules = [], acl_default = d\<rparr>"

definition acl_add_rule :: "'n \<Rightarrow> acl_action \<Rightarrow> 'n query_acl \<Rightarrow> 'n query_acl" where
  "acl_add_rule n a p = p\<lparr>acl_rules := acl_rules p @ [\<lparr>ar_network = n, ar_action = a\<rparr>]\<rparr>"

definition allow_list :: "'n list \<Rightarrow> 'n query_acl" where
  "allow_list ns = foldl (\<lambda>p n. acl_add_rule n Allow p) (acl_new Deny) ns"

definition deny_list :: "'n list \<Rightarrow> 'n query_acl" where
  "deny_list ns = foldl (\<lambda>p n. acl_add_rule n Deny p) (acl_new Allow) ns"

fun evaluate_rules :: "'n ipnet_ops \<Rightarrow> 'n acl_rule list \<Rightarrow> acl_action \<Rightarrow> ip_addr \<Rightarrow> acl_action" where
  "evaluate_rules ops [] d ip = d"
| "evaluate_rules ops (r # rs) d ip =
     (if acl_rule_matches ops r ip then ar_action r else evaluate_rules ops rs d ip)"

definition acl_evaluate :: "'n ipnet_ops \<Rightarrow> 'n query_acl \<Rightarrow> ip_addr \<Rightarrow> acl_action" where
  "acl_evaluate ops p ip = evaluate_rules ops (acl_rules p) (acl_default p) ip"

definition acl_execute :: "'n ipnet_ops \<Rightarrow> 'n query_acl \<Rightarrow> ctx \<Rightarrow> error option \<times> ctx" where
  "acl_execute ops p c =
     (let ip = (case get_ip ''client_ip'' c of Some ip \<Rightarrow> ip | None \<Rightarrow> LOCALHOST_IPV4) in
      case acl_evaluate ops p ip of
        Allow \<Rightarrow> (None, c)
      | Deny \<Rightarrow> (None, set_refused c))"

section \<open>Configuration\<close>

definition parse_acl_action :: "string \<Rightarrow> string \<Rightarrow> acl_action result" where
  "parse_acl_action field s =
     (let l = to_lowercase s in
      if l = ''allow'' then Inr Allow
      else if l = ''deny'' then Inr Deny
      else Inl (InvalidConfigValue field s (''expected 'allow' or 'deny'' @ [CHR 0x27])))"

text \<open>A required string field of a rule.\<close>

definition rule_field :: "string \<Rightarrow> (yaml \<times> yaml) list \<Rightarrow> string result" where
  "rule_field field m =
     (case map_of m (YString field) of
        Some (YString s) \<Rightarrow> Inr s
      | Some _ \<Rightarrow> Inl (InvalidConfigValue field ''(non-string)'' ''must be a string'')
      | None \<Rightarrow> Inl (MissingConfigField field ''acl rule''))"

definition acl_rule_arg :: "'n ipnet_ops \<Rightarrow> yaml \<Rightarrow> ('n \<times> acl_action) result" where
  "acl_rule_arg ops v =
     (case v of
        YMapping m \<Rightarrow>
          (case rule_field ''network'' m of
             Inl e \<Rightarrow> Inl e
           | Inr ns \<Rightarrow>
               (case net_parse ops ns of
                  Inl e \<Rightarrow> Inl (InvalidConfigValue ''network'' ns e)
                | Inr n \<Rightarrow>
                    (case rule_field ''action'' m of
                       Inl e \<Rightarrow> Inl e
                     | Inr s \<Rightarrow> map_sum id (Pair n) (parse_acl_action ''action'' s))))
      | _ \<Rightarrow> Inl (Config ''each rule must be a mapping''))"

fun add_acl_rules :: "'n ipnet_ops \<Rightarrow> yaml list \<Rightarrow> 'n query_acl \<Rightarrow> 'n query_acl result" where
  "add_acl_rules ops [] p = Inr p"
| "add_acl_rules ops (v # vs) p =
     (case acl_rule_arg ops v of
        Inl e \<Rightarrow> Inl e
      | Inr (n, a) \<Rightarrow> add_acl_rules ops vs (acl_add_rule n a p))"

definition acl_default_arg :: "yaml option \<Rightarrow> acl_action result" where
  "acl_default_arg v =
     (case v of
        Some (YString s) \<Rightarrow> parse_acl_action ''default'' s
      | Some _ \<Rightarrow> Inl (InvalidConfigValue ''default'' ''(non-string)'' ''must be a string'')
      | None \<Rightarrow> Inr Deny)"

definition acl_init :: "'n ipnet_ops \<Rightarrow> plugin_config \<Rightarrow> 'n query_acl result" where
  "acl_init ops config =
     (let args = effective_args config in
      case acl_default_arg (args ''default'') of
        Inl e \<Rightarrow> Inl e
      | Inr d \<Rightarrow>
          (case args ''rules'' of
             Some (YSequence rules) \<Rightarrow> add_acl_rules ops rules (acl_new d)
           | _ \<Rightarrow> Inr (acl_new d)))"

section \<open>The rules of a configuration\<close>

text \<open>What a rule of the configuration denotes: the addresses of its network, in CIDR notation, and
  its action. A rule that denotes nothing stops the configuration.\<close>

definition acl_rule_denotes :: "yaml \<Rightarrow> (ip_addr \<times> nat \<times> acl_action) option" where
  "acl_rule_denotes v =
     (case v of
        YMapping m \<Rightarrow>
          (case (map_of m (YString ''network''), map_of m (YString ''action'')) of
             (Some (YString ns), Some (YString s)) \<Rightarrow>
               (case (cidr_text ns, parse_acl_action ''action'' s) of
                  (Some (a, l), Inr act) \<Rightarrow> Some (a, l, act)
                | _ \<Rightarrow> None)
           | _ \<Rightarrow> None)
      | _ \<Rightarrow> None)"

fun first_match :: "(ip_addr \<times> nat \<times> acl_action) list \<Rightarrow> acl_action \<Rightarrow> ip_addr \<Rightarrow> acl_action" where
  "first_match [] d ip = d"
| "first_match ((a, l, act) # rs) d ip = (if in_prefix a l ip then act else first_match rs d ip)"

lemma evaluate_rules_append:
  "evaluate_rules ops (rs @ rs') d ip = evaluate_rules ops rs (evaluate_rules ops rs' d ip) ip"
  by (induction rs) auto

lemma acl_new_sel [simp]: "acl_rules (acl_new d) = []" "acl_default (acl_new d) = d"
  by (simp_all add: acl_new_def)

lemma acl_add_rule_sel [simp]:
  "acl_rules (acl_add_rule n a p) = acl_rules p @ [\<lparr>ar_network = n, ar_action = a\<rparr>]"
  "acl_default (acl_add_rule n a p) = acl_default p"
  by (simp_all add: acl_add_rule_def)

lemma lists_sel:
  "acl_rules (foldl (\<lambda>p n. acl_add_rule n a p) p ns) =
     acl_rules p @ map (\<lambda>n. \<lparr>ar_network = n, ar_action = a\<rparr>) ns"
  "acl_default (foldl (\<lambda>p n. acl_add_rule n a p) p ns) = acl_default p"
  by (induction ns arbitrary: p) simp_all

lemma evaluate_same_action:
  "evaluate_rules ops (map (\<lambda>n. \<lparr>ar_network = n, ar_action = a\<rparr>) ns) d ip =
     (if \<exists>n \<in> set ns. net_contains ops n ip then a else d)"
  by (induction ns) (auto simp: acl_rule_matches_def)

lemma allow_list_evaluate: "acl_evaluate ops (allow_list ns) ip = Allow \<longleftrightarrow> (\<exists>n \<in> set ns. net_contains ops n ip)"
  and deny_list_evaluate: "acl_evaluate ops (deny_list ns) ip = Deny \<longleftrightarrow> (\<exists>n \<in> set ns. net_contains ops n ip)"
  by (simp_all add: acl_evaluate_def allow_list_def deny_list_def lists_sel evaluate_same_action)

lemma localhost: "LOCALHOST_IPV4 = V4 0x7F000001"
  by (simp add: LOCALHOST_IPV4_def v4_new_def)

lemma refusal:
  "\<exists>r. set_refused c = ctx_set_response (Some r) c \<and> msg_id r = msg_id (request c) \<and> msg_qr r \<and>
     msg_rcode r = RC_Refused \<and> msg_questions r = msg_questions (request c) \<and> records r = []"
  using set_refused_sel(3) [of c] by (auto simp: set_refused_def Let_def)

context ipnet
begin

lemma acl_rule_arg_denotes:
  assumes "acl_rule_denotes v = Some (a, l, act)"
  obtains n where "acl_rule_arg ops v = Inr (n, act)" and "\<And>ip. net_contains ops n ip \<longleftrightarrow> in_prefix a l ip"
proof -
  from assms obtain m ns s where v: "v = YMapping m" "map_of m (YString ''network'') = Some (YString ns)"
    "map_of m (YString ''action'') = Some (YString s)" "cidr_text ns = Some (a, l)"
    "parse_acl_action ''action'' s = Inr act"
    by (auto simp: acl_rule_denotes_def split: yaml.splits option.splits sum.splits)
  from parse_cidr [OF v(4)] obtain n where n: "net_parse ops ns = Inr n"
    "\<forall>ip. net_contains ops n ip \<longleftrightarrow> in_prefix a l ip" by blast
  with v show thesis by (intro that [of n]) (simp_all add: acl_rule_arg_def rule_field_def)
qed

lemma add_acl_rules_denote:
  assumes "map acl_rule_denotes vs = map Some ds"
  shows "\<exists>p'. add_acl_rules ops vs p = Inr p' \<and> acl_default p' = acl_default p \<and>
    (\<forall>ip d. evaluate_rules ops (acl_rules p') d ip = evaluate_rules ops (acl_rules p) (first_match ds d ip) ip)"
  using assms
proof (induction vs arbitrary: ds p)
  case (Cons v vs)
  then obtain a l act ds' where ds: "ds = (a, l, act) # ds'" "acl_rule_denotes v = Some (a, l, act)"
    "map acl_rule_denotes vs = map Some ds'" by (cases ds) auto
  obtain n where n: "acl_rule_arg ops v = Inr (n, act)" "\<And>ip. net_contains ops n ip \<longleftrightarrow> in_prefix a l ip"
    using acl_rule_arg_denotes [OF ds(2)] by blast
  from Cons.IH [OF ds(3), of "acl_add_rule n act p"] n ds(1) show ?case
    by (auto simp: evaluate_rules_append acl_rule_matches_def)
qed simp

end

definition demo_acl_config :: plugin_config where
  "demo_acl_config = \<lparr>pc_tag = None, pc_plugin_type = ''query_acl'', pc_args = YMapping [(YString ''rules'',
     YSequence [YMapping [(YString ''network'', YString ''10.0.0.0/8''), (YString ''action'', YString ''Allow'')]])]\<rparr>"

section \<open>Properties\<close>

text \<open>
  C7: a list configured with well-formed rules decides a query by the first rule whose network
  holds the client's address, and by the default (deny, when not given) if there is none: an
  allowed query goes on with the context unchanged, a denied one carries a REFUSED response with
  the id and the questions of the request. A query without a client address counts as local.
\<close>

theorem acl_decides_first_match:
  assumes "ipnet ops" and "effective_args config ''rules'' = Some (YSequence vs)"
    and "map acl_rule_denotes vs = map Some ds" and "acl_default_arg (effective_args config ''default'') = Inr d"
  shows "\<exists>p. acl_init ops config = Inr p \<and>
    (let ip = (case get_ip ''client_ip'' c of Some ip \<Rightarrow> ip | None \<Rightarrow> V4 0x7F000001) in
     if first_match ds d ip = Allow then acl_execute ops p c = (None, c)
     else \<exists>r. acl_execute ops p c = (None, ctx_set_response (Some r) c) \<and> msg_id r = msg_id (request c) \<and>
       msg_qr r \<and> msg_rcode r = RC_Refused \<and> msg_questions r = msg_questions (request c) \<and> records r = [])"
proof -
  obtain p where p: "add_acl_rules ops vs (acl_new d) = Inr p" "acl_default p = d"
    "\<And>ip. acl_evaluate ops p ip = first_match ds d ip"
    using ipnet.add_acl_rules_denote [OF assms(1,3), of "acl_new d"] by (auto simp: acl_evaluate_def)
  have i: "acl_init ops config = Inr p" using assms(2,4) p(1) by (simp add: acl_init_def)
  let ?ip = "case get_ip ''client_ip'' c of Some ip \<Rightarrow> ip | None \<Rightarrow> V4 0x7F000001"
  have x: "acl_execute ops p c = (None, if first_match ds d ?ip = Allow then c else set_refused c)"
    unfolding acl_execute_def localhost Let_def p(3) by (cases "first_match ds d ?ip") simp_all
  show ?thesis
    using i x refusal [of c] by (cases "first_match ds d ?ip = Allow") (auto simp: Let_def)
qed

theorem acl_decides_first_match_witness:
  "\<exists>p. acl_init mask_net demo_acl_config = Inr p \<and>
    acl_execute mask_net p (set_metadata ''client_ip'' (MIp (V4 0x0A000005)) (context_new message_new)) =
      (None, set_metadata ''client_ip'' (MIp (V4 0x0A000005)) (context_new message_new))"
proof -
  let ?v = "YMapping [(YString ''network'', YString ''10.0.0.0/8''), (YString ''action'', YString ''Allow'')]"
  let ?c = "set_metadata ''client_ip'' (MIp (V4 0x0A000005)) (context_new message_new)"
  have "cidr_text ''10.0.0.0/8'' = Some (V4 0x0A000000, 8)" by code_simp
  moreover have "to_lowercase ''Allow'' = ''allow''" by code_simp
  ultimately have "map acl_rule_denotes [?v] = map Some [(V4 0x0A000000, 8, Allow)]"
    by (simp add: acl_rule_denotes_def parse_acl_action_def)
  from acl_decides_first_match [OF mn.ipnet_axioms _ this, of demo_acl_config Deny ?c]
  show ?thesis by (auto simp: demo_acl_config_def effective_args_def acl_default_arg_def Let_def)
qed

end
