(* ===== verification/Domain_Validator.thy ===== *)
theory Domain_Validator
  imports Sharded_Cache Context Config_Value
begin

text \<open>
  The query-name validator, \<^verbatim>\<open>src/src/plugins/domain_validator.rs\<close>: the syntax of names and a
  cache of verdicts. The cache is an \<^verbatim>\<open>LruCache\<close> of the \<^verbatim>\<open>lru\<close> crate, the parameter of
  \<open>Sharded_Cache\<close> with the laws of the locale \<open>lru_cache\<close>; its \<^verbatim>\<open>put\<close> stores like \<^verbatim>\<open>push\<close>. A
  character is a byte.
\<close>

datatype validation_result = Valid | Invalid string

record 'l domain_validator =
  dv_strict :: bool
  dv_cache :: 'l

definition validator_new :: "(validation_result, 'l) lru_ops \<Rightarrow> bool \<Rightarrow> nat \<Rightarrow> 'l domain_validator" where
  "validator_new ops strict cap =
     \<lparr>dv_strict = strict, dv_cache = (if cap > 0 then lru_new ops cap else lru_new ops 1)\<rparr>"

definition is_alnum :: "char \<Rightarrow> bool" where
  "is_alnum c = (let n = (of_char c :: nat) in
     (48 \<le> n \<and> n \<le> 57) \<or> (65 \<le> n \<and> n \<le> 90) \<or> (97 \<le> n \<and> n \<le> 122))"

definition service_type :: "record_type option \<Rightarrow> bool" where
  "service_type qt \<longleftrightarrow> qt = Some RT_SVCB \<or> qt = Some RT_HTTPS"

definition check_label :: "bool \<Rightarrow> record_type option \<Rightarrow> string \<Rightarrow> string option" where
  "check_label strict qt label =
     (if label = [] \<or> length label > 63 then Some ''invalid length''
      else if \<not> is_alnum (hd label) \<and> \<not> (hd label = CHR ''_'' \<and> service_type qt)
      then Some ''invalid characters''
      else if \<not> is_alnum (last label) then Some ''invalid characters''
      else if length label > 2 \<and> (\<exists>b \<in> set (butlast (tl label)). \<not> is_alnum b \<and> b \<noteq> CHR ''-'')
      then Some ''invalid characters''
      else if strict \<and> str_contains ''--'' label \<and>
        \<not> (length label \<ge> 5 \<and> to_lowercase (take 4 label) = ''xn--'')
      then Some ''invalid format''
      else None)"

fun check_labels :: "bool \<Rightarrow> record_type option \<Rightarrow> string list \<Rightarrow> validation_result" where
  "check_labels strict qt [] = Valid"
| "check_labels strict qt (l # ls) =
     (case check_label strict qt l of Some reason \<Rightarrow> Invalid reason | None \<Rightarrow> check_labels strict qt ls)"

definition validate_domain_with_qtype :: "bool \<Rightarrow> string \<Rightarrow> record_type option \<Rightarrow> validation_result" where
  "validate_domain_with_qtype strict domain qt =
     (if domain = [] \<or> length domain > 253 then Invalid ''invalid length''
      else if domain = ''.'' then Valid
      else check_labels strict qt (split_on (CHR ''.'') domain))"

definition validate_domain :: "bool \<Rightarrow> string \<Rightarrow> validation_result" where
  "validate_domain strict domain = validate_domain_with_qtype strict domain None"

definition handle_result :: "validation_result \<Rightarrow> ctx \<Rightarrow> error option \<times> ctx" where
  "handle_result r c = (case r of Valid \<Rightarrow> (None, c) | Invalid reason \<Rightarrow> (None, set_refused c))"

definition first_qname :: "message \<Rightarrow> string" where
  "first_qname m = (case msg_questions m of q # _ \<Rightarrow> qname q | [] \<Rightarrow> [])"

definition first_qtype :: "message \<Rightarrow> record_type option" where
  "first_qtype m = (case msg_questions m of q # _ \<Rightarrow> Some (qtype q) | [] \<Rightarrow> None)"

definition validator_execute :: "(validation_result, 'l) lru_ops \<Rightarrow> ctx \<Rightarrow> 'l domain_validator
    \<Rightarrow> error option \<times> ctx \<times> 'l domain_validator" where
  "validator_execute ops c p =
     (let name = first_qname (request c) in
      case lru_get ops name (dv_cache p) of
        (Some r, l) \<Rightarrow> (case handle_result r c of (e, c) \<Rightarrow> (e, c, p\<lparr>dv_cache := l\<rparr>))
      | (None, l) \<Rightarrow>
          (let r = validate_domain_with_qtype (dv_strict p) name (first_qtype (request c));
               l = snd (lru_push ops name r l)
           in case handle_result r c of (e, c) \<Rightarrow> (e, c, p\<lparr>dv_cache := l\<rparr>)))"

definition validator_init :: "(validation_result, 'l) lru_ops \<Rightarrow> plugin_config \<Rightarrow> 'l domain_validator result" where
  "validator_init ops config =
     (let args = effective_args config;
          strict = (case Option.bind (args ''strict_mode'') as_bool of Some b \<Rightarrow> b | None \<Rightarrow> True);
          cap = (case args ''cache_size'' of
                    Some (YNumber n) \<Rightarrow> (case as_u64 n of Some u \<Rightarrow> unat u | None \<Rightarrow> 1000)
                  | _ \<Rightarrow> 1000)
      in Inr (validator_new ops strict cap))"

section \<open>The syntax of names\<close>

definition label_ok :: "bool \<Rightarrow> bool \<Rightarrow> string \<Rightarrow> bool" where
  "label_ok strict svc l \<longleftrightarrow>
     0 < length l \<and> length l \<le> 63 \<and>
     (is_alnum (l ! 0) \<or> (svc \<and> l ! 0 = CHR ''_'')) \<and> is_alnum (l ! (length l - 1)) \<and>
     (\<forall>i. 0 < i \<and> i < length l - 1 \<longrightarrow> is_alnum (l ! i) \<or> l ! i = CHR ''-'') \<and>
     (strict \<longrightarrow> (\<nexists>a b. l = a @ ''--'' @ b) \<or> (\<exists>p s. l = p @ s \<and> to_lowercase p = ''xn--'' \<and> s \<noteq> []))"

definition name_ok :: "bool \<Rightarrow> bool \<Rightarrow> string \<Rightarrow> bool" where
  "name_ok strict svc d \<longleftrightarrow>
     d = ''.'' \<or> (length d \<le> 253 \<and> (\<forall>l \<in> set (split_on (CHR ''.'') d). label_ok strict svc l))"

lemma inner_chars:
  assumes "l \<noteq> []"
  shows "(\<forall>b \<in> set (butlast (tl l)). P b) \<longleftrightarrow> (\<forall>i. 0 < i \<and> i < length l - 1 \<longrightarrow> P (l ! i))"
proof -
  have "butlast (tl l) ! i = l ! Suc i" if "i < length l - 2" for i
    using that assms by (cases l) (simp_all add: nth_butlast)
  then have "(\<forall>b \<in> set (butlast (tl l)). P b) \<longleftrightarrow> (\<forall>i < length l - 2. P (l ! Suc i))"
    by (simp add: all_set_conv_all_nth numeral_2_eq_2)
  also have "\<dots> \<longleftrightarrow> (\<forall>i. 0 < i \<and> i < length l - 1 \<longrightarrow> P (l ! i))"
  proof (safe)
    fix i assume h: "\<forall>i < length l - 2. P (l ! Suc i)" and i: "0 < i" "i < length l - 1"
    from h [rule_format, of "i - 1"] i show "P (l ! i)" by simp
  next
    fix i assume h: "\<forall>i. 0 < i \<and> i < length l - 1 \<longrightarrow> P (l ! i)" and i: "i < length l - 2"
    from h [rule_format, of "Suc i"] i show "P (l ! Suc i)" by simp
  qed
  finally show ?thesis .
qed

lemma punycode_iff:
  "length l \<ge> 5 \<and> to_lowercase (take 4 l) = ''xn--'' \<longleftrightarrow>
     (\<exists>p s. l = p @ s \<and> to_lowercase p = ''xn--'' \<and> s \<noteq> [])"
proof
  assume "length l \<ge> 5 \<and> to_lowercase (take 4 l) = ''xn--''"
  then show "\<exists>p s. l = p @ s \<and> to_lowercase p = ''xn--'' \<and> s \<noteq> []"
    by (intro exI [of _ "take 4 l"] exI [of _ "drop 4 l"]) simp
next
  assume "\<exists>p s. l = p @ s \<and> to_lowercase p = ''xn--'' \<and> s \<noteq> []"
  then obtain p s where l: "l = p @ s" "to_lowercase p = ''xn--''" "s \<noteq> []" by blast
  have "length p = 4" using arg_cong [OF l(2), of length] by simp
  with l show "length l \<ge> 5 \<and> to_lowercase (take 4 l) = ''xn--''" by (cases s) auto
qed

lemma check_label_iff: "check_label strict qt l = None \<longleftrightarrow> label_ok strict (service_type qt) l"
proof (cases "l = []")
  case False
  have short: "(length l > 2 \<and> (\<exists>b \<in> set (butlast (tl l)). \<not> is_alnum b \<and> b \<noteq> CHR ''-'')) \<longleftrightarrow>
      \<not> (\<forall>b \<in> set (butlast (tl l)). is_alnum b \<or> b = CHR ''-'')"
    by (cases l rule: remdups_adj.cases) auto
  show ?thesis
    using False unfolding check_label_def label_ok_def short inner_chars [OF False] punycode_iff
    by (auto simp: hd_conv_nth last_conv_nth str_contains_iff)
qed (simp add: check_label_def label_ok_def)

lemma check_labels_iff: "check_labels strict qt ls = Valid \<longleftrightarrow> (\<forall>l \<in> set ls. label_ok strict (service_type qt) l)"
  by (induction ls) (auto simp: check_label_iff [symmetric] split: option.splits)

lemma validate_iff:
  "validate_domain_with_qtype strict d qt = Valid \<longleftrightarrow> name_ok strict (service_type qt) d"
  by (auto simp: validate_domain_with_qtype_def name_ok_def check_labels_iff label_ok_def)

section \<open>The cache of verdicts\<close>

definition verdicts_ok :: "(validation_result, 'l) lru_ops \<Rightarrow> ('l \<Rightarrow> bool) \<Rightarrow> 'l domain_validator \<Rightarrow> bool" where
  "verdicts_ok ops ok p \<longleftrightarrow> ok (dv_cache p) \<and>
     (\<forall>k v. map_of (lru_iter ops (dv_cache p)) k = Some v \<longrightarrow>
        (\<exists>qt. v = validate_domain_with_qtype (dv_strict p) k qt))"

definition validator_after :: "(validation_result, 'l) lru_ops \<Rightarrow> ctx list \<Rightarrow> 'l domain_validator \<Rightarrow> 'l domain_validator" where
  "validator_after ops cs p = foldl (\<lambda>p c. snd (snd (validator_execute ops c p))) p cs"

definition no_service_label :: "string \<Rightarrow> bool" where
  "no_service_label d \<longleftrightarrow> (\<forall>l \<in> set (split_on (CHR ''.'') d). l = [] \<or> hd l \<noteq> CHR ''_'')"

lemma no_service_label_verdict:
  assumes "no_service_label d"
  shows "validate_domain_with_qtype strict d qt = validate_domain_with_qtype strict d None"
proof -
  have "check_labels strict qt ls = check_labels strict None ls" if "\<forall>l \<in> set ls. l = [] \<or> hd l \<noteq> CHR ''_''" for ls
    using that by (induction ls) (auto simp: check_label_def)
  with assms show ?thesis by (simp add: validate_domain_with_qtype_def no_service_label_def)
qed

lemma map_of_get:
  "map_of (case map_of xs k of Some v \<Rightarrow> (k, v) # del k xs | None \<Rightarrow> xs) = map_of xs"
  by (auto simp: del_def map_of_filter_fst_neq split: option.splits)

locale verdict_cache = lru_cache ops ok
  for ops :: "(validation_result, 'l) lru_ops" and ok :: "'l \<Rightarrow> bool"
begin

lemma verdict_lookup:
  assumes "verdicts_ok ops ok p" and "lru_get ops name (dv_cache p) = (r, l)"
  shows "r = map_of (lru_iter ops (dv_cache p)) name" "verdicts_ok ops ok (p\<lparr>dv_cache := l\<rparr>)"
proof -
  note g = get [OF _ assms(2)]
  show "r = map_of (lru_iter ops (dv_cache p)) name" using g assms(1) by (simp add: verdicts_ok_def)
  then have "map_of (lru_iter ops l) = map_of (lru_iter ops (dv_cache p))"
    using g assms(1) map_of_get [of "lru_iter ops (dv_cache p)" name] by (simp add: verdicts_ok_def)
  then show "verdicts_ok ops ok (p\<lparr>dv_cache := l\<rparr>)" using g assms(1) by (simp add: verdicts_ok_def)
qed

lemma verdict_store:
  assumes "verdicts_ok ops ok p"
  shows "verdicts_ok ops ok (p\<lparr>dv_cache := snd (lru_push ops name
    (validate_domain_with_qtype (dv_strict p) name qt) (dv_cache p))\<rparr>)"
proof -
  let ?v = "validate_domain_with_qtype (dv_strict p) name qt"
  obtain e l where l: "lru_push ops name ?v (dv_cache p) = (e, l)" by fastforce
  have ok: "ok (dv_cache p)" using assms by (simp add: verdicts_ok_def)
  note q = push [OF ok l]
  then have "map_of (lru_iter ops l) = (forget e (map_of (lru_iter ops (dv_cache p))))(name \<mapsto> ?v)"
    using push_spec_map ok_distinct [OF ok] ok_cap [OF ok] by metis
  with l q assms show ?thesis
    by (auto simp: verdicts_ok_def forget_def split: option.splits if_splits)
qed

lemma execute_verdict:
  assumes "verdicts_ok ops ok p"
  shows "\<exists>p' qt. validator_execute ops c p = (None,
      if validate_domain_with_qtype (dv_strict p) (first_qname (request c)) qt = Valid then c else set_refused c, p') \<and>
    verdicts_ok ops ok p' \<and> dv_strict p' = dv_strict p"
proof -
  let ?name = "first_qname (request c)"
  have h: "handle_result r c = (None, if r = Valid then c else set_refused c)" for r
    by (cases r) (simp_all add: handle_result_def)
  obtain r l where g: "lru_get ops ?name (dv_cache p) = (r, l)" by fastforce
  note v = verdict_lookup [OF assms g]
  show ?thesis
  proof (cases r)
    case None
    with g verdict_store [OF v(2), of ?name "first_qtype (request c)"] show ?thesis
      by (auto simp: validator_execute_def h Let_def)
  next
    case (Some x)
    with v(1) assms obtain qt where "x = validate_domain_with_qtype (dv_strict p) ?name qt"
      unfolding verdicts_ok_def by metis
    with Some g v(2) show ?thesis by (auto simp: validator_execute_def h Let_def)
  qed
qed

lemma after_verdicts:
  "verdicts_ok ops ok p \<Longrightarrow> verdicts_ok ops ok (validator_after ops cs p) \<and> dv_strict (validator_after ops cs p) = dv_strict p"
proof (induction cs arbitrary: p)
  case (Cons c cs)
  obtain e c' p' where x: "validator_execute ops c p = (e, c', p')" by (metis prod_cases3)
  with execute_verdict [OF Cons.prems, of c] have "verdicts_ok ops ok p'" "dv_strict p' = dv_strict p" by auto
  with Cons.IH [of p'] x show ?case by (simp add: validator_after_def)
qed (simp add: validator_after_def)

lemma new_verdicts: "verdicts_ok ops ok (validator_new ops strict n)" "dv_strict (validator_new ops strict n) = strict"
  by (auto simp: verdicts_ok_def validator_new_def ok_new iter_new)

end

interpretation vlc: verdict_cache list_lru list_lru_ok
  by (rule verdict_cache.intro) (rule ll.lru_cache_axioms)

definition name_query :: "string \<Rightarrow> record_type \<Rightarrow> ctx" where
  "name_query n t = context_new (add_question (question_new n t CL_IN) message_new)"

text \<open>The verdict on a service name depends on who asked first: a query of another type leaves a
  negative verdict that a later service query, valid by itself, is refused with.\<close>

lemma verdict_ignores_qtype:
  "validate_domain_with_qtype True ''_dns.resolver.arpa'' (Some RT_SVCB) = Valid"
  "\<exists>p'. validator_execute list_lru (name_query ''_dns.resolver.arpa'' RT_SVCB)
      (validator_after list_lru [name_query ''_dns.resolver.arpa'' RT_A] (validator_new list_lru True 10)) =
    (None, set_refused (name_query ''_dns.resolver.arpa'' RT_SVCB), p')"
proof -
  show "validate_domain_with_qtype True ''_dns.resolver.arpa'' (Some RT_SVCB) = Valid" by code_simp
  have "validate_domain_with_qtype True ''_dns.resolver.arpa'' (Some RT_A) = Invalid ''invalid characters''"
    by code_simp
  then show "\<exists>p'. validator_execute list_lru (name_query ''_dns.resolver.arpa'' RT_SVCB)
      (validator_after list_lru [name_query ''_dns.resolver.arpa'' RT_A] (validator_new list_lru True 10)) =
    (None, set_refused (name_query ''_dns.resolver.arpa'' RT_SVCB), p')"
    by (simp add: validator_after_def validator_execute_def name_query_def first_qname_def first_qtype_def
        add_question_def list_lru_def validator_new_def handle_result_def push_spec_def Let_def)
qed

section \<open>Properties\<close>

text \<open>
  C16: after any history of queries, and whatever the size of the verdict cache, the validator lets a
  query pass unchanged when its name is well formed and refuses it otherwise: at most 253
  characters in labels of 1 to 63 letters, digits and inner hyphens, in strict mode without a
  double hyphen outside an \<^verbatim>\<open>xn--\<close> prefix, or the root. (The name has no label that starts with an
  underscore; there the verdict may come from a query of another type.)
\<close>

theorem validator_decides_by_syntax:
  assumes "verdict_cache ops ok" and "no_service_label (first_qname (request c))"
  shows "\<exists>p'. validator_execute ops c (validator_after ops cs (validator_new ops strict n)) =
    (None, if name_ok strict False (first_qname (request c)) then c else set_refused c, p')"
proof -
  let ?p = "validator_after ops cs (validator_new ops strict n)"
  note a = verdict_cache.after_verdicts [OF assms(1) verdict_cache.new_verdicts(1) [OF assms(1)], of cs strict n]
  have st: "dv_strict ?p = strict" using a verdict_cache.new_verdicts(2) [OF assms(1)] by simp
  have "validate_domain_with_qtype strict (first_qname (request c)) qt = Valid \<longleftrightarrow>
      name_ok strict False (first_qname (request c))" for qt
    unfolding no_service_label_verdict [OF assms(2), of strict qt] validate_iff by (simp add: service_type_def)
  with verdict_cache.execute_verdict [OF assms(1), of ?p c] a st show ?thesis by fastforce
qed

theorem validator_decides_by_syntax_witness:
  "\<exists>p'. validator_execute list_lru (name_query ''a--b.example'' RT_A)
      (validator_after list_lru [name_query ''www.example'' RT_A] (validator_new list_lru True 1)) =
    (None, set_refused (name_query ''a--b.example'' RT_A), p')"
proof -
  have n: "first_qname (request (name_query ''a--b.example'' RT_A)) = ''a--b.example''"
    by (simp add: first_qname_def name_query_def add_question_def)
  have "validate_domain_with_qtype True ''a--b.example'' None \<noteq> Valid" by code_simp
  then have "\<not> name_ok True False ''a--b.example''" by (simp add: validate_iff service_type_def)
  moreover have "no_service_label ''a--b.example''" by code_simp
  ultimately show ?thesis
    using validator_decides_by_syntax [OF vlc.verdict_cache_axioms, of "name_query ''a--b.example'' RT_A"
        "[name_query ''www.example'' RT_A]" True 1] n by simp
qed

end
