(* ===== verification/Conditions.thy ===== *)
theory Conditions
  imports Pipeline
begin

text \<open>
  The conditions of sequence steps, \<^verbatim>\<open>src/src/plugin/condition\<close>: nine builders, each turning a
  text such as \<^verbatim>\<open>qtype 1 28\<close> into a predicate on the context, and the registry that selects the
  builder. A set condition asks another plugin; the downcasts to \<^verbatim>\<open>DomainSetPlugin\<close> and
  \<^verbatim>\<open>IpSetPlugin\<close> with their matchers are the fields of \<open>set_casts\<close>.
\<close>

type_synonym 's condition = "ctx \<Rightarrow> 's \<Rightarrow> bool"

record 's set_casts =
  as_domain_set :: "'s plugin \<Rightarrow> 's condition option"
  as_ip_set :: "'s plugin \<Rightarrow> 's condition option"

datatype condition_builder =
    HasRespBuilder | RespIpBuilder | RespIpNegBuilder | QnameBuilder | QnameNegBuilder
  | QtypeBuilder | QclassBuilder | RcodeBuilder | HasCnameBuilder

fun builder_name :: "condition_builder \<Rightarrow> string" where
  "builder_name HasRespBuilder = ''has_resp''"
| "builder_name RespIpBuilder = ''resp_ip''"
| "builder_name RespIpNegBuilder = ''!resp_ip''"
| "builder_name QnameBuilder = ''qname''"
| "builder_name QnameNegBuilder = ''!qname''"
| "builder_name QtypeBuilder = ''qtype''"
| "builder_name QclassBuilder = ''qclass''"
| "builder_name RcodeBuilder = ''rcode''"
| "builder_name HasCnameBuilder = ''has_cname''"

definition condition_name :: "string \<Rightarrow> string" where
  "condition_name s = (case split_whitespace s of w # _ \<Rightarrow> w | [] \<Rightarrow> [])"

definition can_handle :: "condition_builder \<Rightarrow> string \<Rightarrow> bool" where
  "can_handle b s \<longleftrightarrow>
     condition_name s = builder_name b \<or>
     starts_with (builder_name b @ ''.'') (condition_name s) \<or>
     (starts_with ''!'' (builder_name b) \<and> starts_with (builder_name b) s)"

section \<open>The builders\<close>

definition first_question :: "ctx \<Rightarrow> question option" where
  "first_question c = (case msg_questions (request c) of q # _ \<Rightarrow> Some q | [] \<Rightarrow> None)"

fun parse_parts :: "(string \<Rightarrow> 'a option) \<Rightarrow> (string \<Rightarrow> error) \<Rightarrow> string list \<Rightarrow> 'a list result" where
  "parse_parts p bad [] = Inr []"
| "parse_parts p bad (w # ws) =
     (case p w of
        None \<Rightarrow> Inl (bad w)
      | Some v \<Rightarrow> map_sum id ((#) v) (parse_parts p bad ws))"

text \<open>The three numeric conditions differ in their prefix, their parser and the number they read.\<close>

definition build_has_resp :: "string \<Rightarrow> 's condition result" where
  "build_has_resp s =
     (if s \<noteq> ''has_resp'' then Inl (Config (''has_resp does not accept arguments: '' @ s))
      else Inr (\<lambda>c st. has_response c))"

definition build_has_cname :: "string \<Rightarrow> 's condition result" where
  "build_has_cname s =
     (if s \<noteq> ''has_cname'' then Inl (Config (''has_cname does not accept arguments: '' @ s))
      else Inr (\<lambda>c st. case response c of
        Some r \<Rightarrow> (\<exists>rr \<in> set (msg_answers r). rr_rtype rr = RT_CNAME)
      | None \<Rightarrow> False))"

definition build_qtype :: "string \<Rightarrow> 's condition result" where
  "build_qtype s =
     (case strip_prefix ''qtype '' s of
        None \<Rightarrow> Inl (Config (''Invalid qtype format: '' @ s))
      | Some t \<Rightarrow>
          (case parse_parts parse_u16
                  (\<lambda>w. Config (''Invalid query type number '' @ [CHR 0x27] @ w @ [CHR 0x27] @ '': '' @ s))
                  (split_whitespace t) of
             Inl e \<Rightarrow> Inl e
           | Inr ts \<Rightarrow>
               if ts = [] then Inl (Config (''No query types specified: '' @ s))
               else Inr (\<lambda>c st. case first_question c of
                 Some q \<Rightarrow> record_type_to_u16 (qtype q) \<in> set ts
               | None \<Rightarrow> False)))"

definition class_number :: "string \<Rightarrow> u16 option" where
  "class_number w =
     (let u = to_uppercase w in
      if u = ''IN'' then Some 1 else if u = ''CH'' then Some 3 else if u = ''HS'' then Some 4
      else parse_u16 w)"

definition build_qclass :: "string \<Rightarrow> 's condition result" where
  "build_qclass s =
     (case strip_prefix ''qclass '' s of
        None \<Rightarrow> Inl (Config (''Invalid qclass format: '' @ s))
      | Some t \<Rightarrow>
          (case parse_parts class_number
                  (\<lambda>w. Config (''Invalid query class '' @ [CHR 0x27] @ w @ [CHR 0x27] @ '': '' @ s))
                  (split_whitespace t) of
             Inl e \<Rightarrow> Inl e
           | Inr ts \<Rightarrow>
               if ts = [] then Inl (Config (''No query classes specified: '' @ s))
               else Inr (\<lambda>c st. case first_question c of
                 Some q \<Rightarrow> record_class_to_u16 (qclass q) \<in> set ts
               | None \<Rightarrow> False)))"

definition rcode_number :: "string \<Rightarrow> u8 option" where
  "rcode_number w =
     (let u = to_uppercase w in
      if u = ''NOERROR'' then Some 0
      else if u = ''FORMERR'' \<or> u = ''FORMDERR'' then Some 1
      else if u = ''SERVFAIL'' then Some 2
      else if u = ''NXDOMAIN'' \<or> u = ''NXDOM'' then Some 3
      else if u = ''NOTIMP'' \<or> u = ''NOTIMPL'' then Some 4
      else if u = ''REFUSED'' \<or> u = ''REFUSE'' then Some 5
      else if u = ''YXDOMAIN'' \<or> u = ''YXDOM'' then Some 6
      else if u = ''YXRRSET'' then Some 7
      else if u = ''NXRRSET'' then Some 8
      else if u = ''NOTAUTH'' \<or> u = ''NOTAUTHZ'' then Some 9
      else if u = ''NOTZONE'' then Some 10
      else parse_u8 w)"

definition build_rcode :: "string \<Rightarrow> 's condition result" where
  "build_rcode s =
     (case strip_prefix ''rcode '' s of
        None \<Rightarrow> Inl (Config (''Invalid rcode format: '' @ s))
      | Some t \<Rightarrow>
          (case parse_parts rcode_number
                  (\<lambda>w. Config (''Invalid response code '' @ [CHR 0x27] @ w @ [CHR 0x27] @ '': '' @ s))
                  (split_whitespace t) of
             Inl e \<Rightarrow> Inl e
           | Inr rs \<Rightarrow>
               if rs = [] then Inl (Config (''No response codes specified: '' @ s))
               else Inr (\<lambda>c st. case response c of
                 Some r \<Rightarrow> response_code_to_u8 (msg_rcode r) \<in> set rs
               | None \<Rightarrow> False)))"

definition drop_dollar :: "string \<Rightarrow> string" where
  "drop_dollar s = (case strip_prefix ''$'' s of Some n \<Rightarrow> n | None \<Rightarrow> s)"

definition build_qname :: "'s set_casts \<Rightarrow> (string \<Rightarrow> 's plugin option) \<Rightarrow> string \<Rightarrow> 's condition result" where
  "build_qname casts get s =
     (case strip_prefix ''qname '' s of
        None \<Rightarrow> Inl (Config (''Invalid qname format: '' @ s))
      | Some n \<Rightarrow>
          (case get (drop_dollar n) of
             Some p \<Rightarrow>
               if plugin_name p = ''domain_set''
               then Inr (case as_domain_set casts p of Some m \<Rightarrow> m | None \<Rightarrow> (\<lambda>c st. False))
               else Inr (\<lambda>c st. False)
           | None \<Rightarrow> Inr (\<lambda>c st. False)))"

definition build_qname_neg :: "string \<Rightarrow> 's condition result" where
  "build_qname_neg s =
     (case strip_prefix ''!qname '' s of
        None \<Rightarrow> Inl (Config (''Invalid !qname format: '' @ s))
      | Some d \<Rightarrow> Inr (\<lambda>c st. case first_question c of
          Some q \<Rightarrow> to_lowercase (qname q) \<noteq> to_lowercase d
        | None \<Rightarrow> True))"

definition build_resp_ip :: "'s set_casts \<Rightarrow> (string \<Rightarrow> 's plugin option) \<Rightarrow> string \<Rightarrow> 's condition result" where
  "build_resp_ip casts get s =
     (case strip_prefix ''resp_ip '' s of
        None \<Rightarrow> Inl (Config (''Invalid resp_ip format: '' @ s))
      | Some n \<Rightarrow>
          (case get (drop_dollar n) of
             Some p \<Rightarrow>
               if plugin_name p = ''ip_set''
               then Inr (case as_ip_set casts p of Some m \<Rightarrow> m | None \<Rightarrow> (\<lambda>c st. False))
               else Inr (\<lambda>c st. False)
           | None \<Rightarrow> Inr (\<lambda>c st. False)))"

definition build_resp_ip_neg :: "'s set_casts \<Rightarrow> (string \<Rightarrow> 's plugin option) \<Rightarrow> string \<Rightarrow> 's condition result" where
  "build_resp_ip_neg casts get s =
     (case strip_prefix ''!resp_ip '' s of
        None \<Rightarrow> Inl (Config (''Invalid !resp_ip format: '' @ s))
      | Some n \<Rightarrow>
          (case get (drop_dollar n) of
             Some p \<Rightarrow>
               if plugin_name p = ''ip_set''
               then Inr (case as_ip_set casts p of Some m \<Rightarrow> (\<lambda>c st. \<not> m c st) | None \<Rightarrow> (\<lambda>c st. True))
               else Inr (\<lambda>c st. True)
           | None \<Rightarrow> Inr (\<lambda>c st. True)))"

fun builder_build_condition :: "'s set_casts \<Rightarrow> (string \<Rightarrow> 's plugin option) \<Rightarrow> condition_builder \<Rightarrow> string
    \<Rightarrow> 's condition result" where
  "builder_build_condition casts get HasRespBuilder s = build_has_resp s"
| "builder_build_condition casts get RespIpBuilder s = build_resp_ip casts get s"
| "builder_build_condition casts get RespIpNegBuilder s = build_resp_ip_neg casts get s"
| "builder_build_condition casts get QnameBuilder s = build_qname casts get s"
| "builder_build_condition casts get QnameNegBuilder s = build_qname_neg s"
| "builder_build_condition casts get QtypeBuilder s = build_qtype s"
| "builder_build_condition casts get QclassBuilder s = build_qclass s"
| "builder_build_condition casts get RcodeBuilder s = build_rcode s"
| "builder_build_condition casts get HasCnameBuilder s = build_has_cname s"

section \<open>The registry of builders\<close>

text \<open>A hash map from names to builders; the order of the list stands for its iteration order.\<close>

type_synonym condition_registry = "(string \<times> condition_builder) list"

definition register_condition :: "condition_builder \<Rightarrow> condition_registry \<Rightarrow> condition_registry" where
  "register_condition b r = AList.update (builder_name b) b r"

definition get_builder :: "condition_registry \<Rightarrow> string \<Rightarrow> condition_builder option" where
  "get_builder r s =
     (case map_of r (condition_name s) of
        Some b \<Rightarrow> Some b
      | None \<Rightarrow> find (\<lambda>b. can_handle b s) (map snd r))"

definition default_builders :: "condition_builder list" where
  "default_builders = [HasRespBuilder, RespIpBuilder, RespIpNegBuilder, QnameBuilder, QnameNegBuilder,
     QtypeBuilder, QclassBuilder, RcodeBuilder, HasCnameBuilder]"

definition init_condition_builders :: condition_registry where
  "init_condition_builders = foldl (\<lambda>r b. register_condition b r) [] default_builders"

definition parse_condition :: "condition_registry \<Rightarrow> 's set_casts \<Rightarrow> (string \<Rightarrow> 's plugin option) \<Rightarrow> string
    \<Rightarrow> 's condition result" where
  "parse_condition r casts get s =
     (case get_builder r s of
        Some b \<Rightarrow> builder_build_condition casts get b s
      | None \<Rightarrow> Inl (Config (''Unknown condition: '' @ s)))"

section \<open>Words\<close>

lemma condition_name_word:
  assumes "w \<noteq> []" and "\<forall>x \<in> set w. \<not> is_whitespace x"
  shows "condition_name (w @ rest) = w @ takeWhile (\<lambda>x. \<not> is_whitespace x) rest"
proof -
  obtain ws where "words_acc (rev w) rest = (w @ takeWhile (\<lambda>x. \<not> is_whitespace x) rest) # ws"
    using words_acc_hd [of "rev w" rest] assms(1) by auto
  with words_acc_word [OF assms(2), of "[]" rest] show ?thesis
    by (simp add: condition_name_def split_whitespace_def)
qed

lemma show_nat_word: "show_nat n \<noteq> [] \<and> (\<forall>x \<in> set (show_nat n). \<not> is_whitespace x)"
  using show_nat_digits digit_not_whitespace by auto

section \<open>Selecting a builder\<close>

text \<open>At most one builder handles a text, so the order of the hash map does not matter.\<close>

lemma builder_name_inj: "builder_name a = builder_name b \<longleftrightarrow> a = b"
  by (cases a; cases b) simp_all

lemma builder_name_word:
  "builder_name b \<noteq> []" "CHR ''.'' \<notin> set (builder_name b)" "\<forall>x \<in> set (builder_name b). \<not> is_whitespace x"
  by (cases b; simp add: is_whitespace_def)+

lemma stem_of_name:
  assumes "condition_name s = builder_name b \<or> starts_with (builder_name b @ ''.'') (condition_name s)"
  shows "takeWhile (\<lambda>x. x \<noteq> CHR ''.'') (condition_name s) = builder_name b"
proof -
  have d: "\<And>x. x \<in> set (builder_name b) \<Longrightarrow> x \<noteq> CHR ''.''" using builder_name_word(2) by metis
  have "takeWhile (\<lambda>x. x \<noteq> CHR ''.'') (builder_name b @ CHR ''.'' # t) = builder_name b" for t
    using takeWhile_append2 [of "builder_name b" "\<lambda>x. x \<noteq> CHR ''.''" "CHR ''.'' # t"] d by simp
  moreover have "takeWhile (\<lambda>x. x \<noteq> CHR ''.'') (builder_name b) = builder_name b"
    using d by (simp add: takeWhile_eq_all_conv)
  ultimately show ?thesis using assms unfolding starts_with_iff by fastforce
qed

lemma negated_stem:
  assumes "starts_with (builder_name b) s"
  shows "\<exists>r. takeWhile (\<lambda>x. x \<noteq> CHR ''.'') (condition_name s) = builder_name b @ r"
proof -
  obtain rest where s: "s = builder_name b @ rest" using assms by (auto simp: starts_with_iff)
  have "\<forall>x \<in> set (builder_name b). x \<noteq> CHR ''.''" using builder_name_word(2) by metis
  then show ?thesis unfolding s condition_name_word [OF builder_name_word(1,3)] by (simp add: takeWhile_append2)
qed

lemma negated_prefix:
  "starts_with ''!'' (builder_name b) \<Longrightarrow> builder_name a = builder_name b @ r \<Longrightarrow> a = b"
  by (cases b; cases a) (simp_all add: starts_with_def strip_prefix_def)

lemma negated_unique:
  "starts_with ''!'' (builder_name a) \<Longrightarrow> starts_with ''!'' (builder_name b) \<Longrightarrow>
     builder_name a @ r = builder_name b @ t \<Longrightarrow> a = b"
  by (cases a; cases b) (simp_all add: starts_with_def strip_prefix_def)

lemma can_handle_unique:
  assumes "can_handle a s" and "can_handle b s"
  shows "a = b"
proof -
  let ?stem = "takeWhile (\<lambda>x. x \<noteq> CHR ''.'') (condition_name s)"
  have c: "?stem = builder_name x \<or> (starts_with ''!'' (builder_name x) \<and> (\<exists>r. ?stem = builder_name x @ r))"
    if "can_handle x s" for x
    using that stem_of_name [of s x] negated_stem [of x s] by (auto simp: can_handle_def)
  from c [OF assms(1)] c [OF assms(2)] show ?thesis
    using builder_name_inj negated_prefix negated_unique by metis
qed

definition condition_registry_ok :: "condition_registry \<Rightarrow> bool" where
  "condition_registry_ok r \<longleftrightarrow> distinct (map fst r) \<and> set r = set (map (\<lambda>b. (builder_name b, b)) default_builders)"

lemma init_condition_builders_ok: "condition_registry_ok init_condition_builders"
proof -
  have i: "init_condition_builders = map (\<lambda>b. (builder_name b, b)) default_builders"
    by (simp add: init_condition_builders_def default_builders_def register_condition_def)
  show ?thesis unfolding condition_registry_ok_def i by (simp add: default_builders_def)
qed

lemma default_builders_all [simp]: "set default_builders = UNIV"
  using condition_builder.exhaust by (auto simp: default_builders_def)

lemma get_builder_iff:
  assumes "condition_registry_ok r"
  shows "get_builder r s = Some b \<longleftrightarrow> can_handle b s"
proof -
  have d: "distinct (map fst r)" and mem: "(n, b) \<in> set r \<longleftrightarrow> n = builder_name b" for n b
    using assms by (auto simp: condition_registry_ok_def)
  have m: "map_of r n = Some b \<longleftrightarrow> n = builder_name b" for n b
    by (simp add: map_of_eq_Some_iff [OF d] mem)
  show ?thesis
  proof (cases "map_of r (condition_name s)")
    case None
    have all: "x \<in> set (map snd r)" for x
      using mem [of "builder_name x" x] image_eqI [of x snd "(builder_name x, x)" "set r"] by simp
    have "find (\<lambda>b. can_handle b s) bs = Some x \<longleftrightarrow> x \<in> set bs \<and> can_handle x s" for bs x
    proof (induction bs)
      case (Cons a bs)
      show ?case
      proof (cases "can_handle a s")
        case True
        then show ?thesis using can_handle_unique [OF True, of x] by auto
      next
        case False
        then show ?thesis using Cons by auto
      qed
    qed simp
    with None all show ?thesis by (simp add: get_builder_def)
  next
    case (Some x)
    with m have "can_handle x s" by (simp add: can_handle_def)
    with Some can_handle_unique [of x s b] show ?thesis by (auto simp: get_builder_def)
  qed
qed

lemma parse_condition_order:
  assumes "condition_registry_ok r"
  shows "parse_condition r casts get s = parse_condition init_condition_builders casts get s"
proof -
  have "get_builder r s = get_builder init_condition_builders s"
    using get_builder_iff [OF assms] get_builder_iff [OF init_condition_builders_ok] by (metis not_None_eq)
  then show ?thesis by (simp add: parse_condition_def)
qed

lemma parse_parts_all: "\<forall>x \<in> set xs. p (f x) = Some (g x) \<Longrightarrow> parse_parts p bad (map f xs) = Inr (map g xs)"
  by (induction xs) auto

lemma parse_u16_show: "parse_u16 (show_nat (unat (w :: u16))) = Some w"
proof -
  have "unat w < 2 ^ LENGTH(16)" by (rule unsigned_less)
  then have "unat w \<le> 65535" by simp
  then show ?thesis by (simp add: parse_u16_def parse_uint_show_nat)
qed

definition no_sets :: "'s set_casts" where
  "no_sets = \<lparr>as_domain_set = (\<lambda>_. None), as_ip_set = (\<lambda>_. None)\<rparr>"

section \<open>Properties\<close>

text \<open>
  A type condition means what it says. For every iteration order of the builder registry, the
  text \<^verbatim>\<open>qtype\<close> followed by the decimal numbers of some types parses to a condition that holds
  exactly of the queries whose first question has one of these types.
\<close>

theorem qtype_condition_roundtrip:
  assumes "condition_registry_ok r" and "ts \<noteq> []"
  shows "\<exists>cond. parse_condition r casts get (''qtype '' @ join_with (CHR '' '') (map (\<lambda>t. show_nat (unat t)) ts)) = Inr cond \<and>
    (\<forall>c st. cond c st \<longleftrightarrow> (\<exists>q qs. msg_questions (request c) = q # qs \<and> record_type_to_u16 (qtype q) \<in> set ts))"
proof -
  let ?args = "join_with (CHR '' '') (map (\<lambda>t. show_nat (unat t)) ts)"
  have "condition_name (''qtype'' @ CHR '' '' # ?args) = ''qtype''"
    by (subst condition_name_word) (simp_all add: is_whitespace_def)
  then have "can_handle QtypeBuilder (''qtype '' @ ?args)" by (simp add: can_handle_def)
  then have g: "get_builder r (''qtype '' @ ?args) = Some QtypeBuilder" using get_builder_iff [OF assms(1)] by blast
  have "split_whitespace ?args = map (\<lambda>t. show_nat (unat t)) ts"
    using show_nat_word by (intro split_whitespace_join) auto
  then have "parse_parts parse_u16 bad (split_whitespace ?args) = Inr ts" for bad
    using parse_parts_all [of ts parse_u16 "\<lambda>t. show_nat (unat t)" "\<lambda>t. t"] parse_u16_show by simp
  then have "parse_condition r casts get (''qtype '' @ ?args) = Inr (\<lambda>c st. case first_question c of
      Some q \<Rightarrow> record_type_to_u16 (qtype q) \<in> set ts | None \<Rightarrow> False)"
    unfolding parse_condition_def g option.case builder_build_condition.simps build_qtype_def strip_prefix_append
    using assms(2) by simp
  then show ?thesis by (auto simp: first_question_def split: list.splits)
qed

theorem qtype_condition_roundtrip_witness:
  "\<exists>cond. parse_condition (rev init_condition_builders) no_sets (\<lambda>_. None) (''qtype 1 28'') = Inr cond \<and>
    cond demo_context (0 :: nat)"
proof -
  have "condition_registry_ok (rev init_condition_builders)"
    using init_condition_builders_ok by (simp add: condition_registry_ok_def rev_map [symmetric])
  moreover have "join_with (CHR '' '') (map (\<lambda>t. show_nat (unat t)) [1 :: u16, 28]) = ''1 28''"
    by (simp add: show_nat.simps string_simps)
  ultimately show ?thesis
    using qtype_condition_roundtrip [of "rev init_condition_builders" "[1, 28]" no_sets "\<lambda>_. None"]
    by (auto simp: demo_context_def demo_query_def add_question_def)
qed

end
