(* ===== verification/Plugin_Builder.thy ===== *)
theory Plugin_Builder
  imports Conditions Config_Value
begin

text \<open>
  Construction of the plugin graph from the configuration: \<^verbatim>\<open>src/src/plugin/builder.rs\<close> and the
  lookup of \<^verbatim>\<open>src/src/plugin/factory.rs\<close>. The tables of factories that the linker collects are
  parameters: a list of factories each. An \<^verbatim>\<open>Arc<dyn Plugin>\<close> is an address; the builder owns
  the heap, the next free address and the map from names to addresses.
\<close>

section \<open>Factories\<close>

record 's plugin_factory =
  pf_type :: string
  pf_aliases :: "string list"
  pf_create :: "plugin_config \<Rightarrow> 's plugin result"

record 's exec_factory =
  ef_type :: string
  ef_aliases :: "string list"
  ef_create :: "string \<Rightarrow> string \<Rightarrow> 's plugin result"

definition get_plugin_factory :: "'s plugin_factory list \<Rightarrow> string \<Rightarrow> 's plugin_factory option" where
  "get_plugin_factory fs t = find (\<lambda>f. pf_type f = t \<or> t \<in> set (pf_aliases f)) fs"

definition get_exec_plugin_factory :: "'s exec_factory list \<Rightarrow> string \<Rightarrow> 's exec_factory option" where
  "get_exec_plugin_factory fs t = find (\<lambda>f. ef_type f = t \<or> t \<in> set (ef_aliases f)) fs"

record 's program =
  pr_plugins :: "'s plugin_factory list"
  pr_execs :: "'s exec_factory list"
  pr_conditions :: condition_registry
  pr_casts :: "'s set_casts"

section \<open>The builder\<close>

record 's plugin_builder =
  pb_heap :: "'s heap"
  pb_next :: addr
  pb_plugins :: registry

definition plugin_builder_new :: "'s heap \<Rightarrow> 's plugin_builder" where
  "plugin_builder_new h = \<lparr>pb_heap = h, pb_next = 0, pb_plugins = []\<rparr>"

text \<open>\<^verbatim>\<open>Arc::new\<close>.\<close>

definition alloc :: "'s plugin \<Rightarrow> 's plugin_builder \<Rightarrow> addr \<times> 's plugin_builder" where
  "alloc p b = (pb_next b, b\<lparr>pb_heap := (pb_heap b)(pb_next b := p), pb_next := pb_next b + 1\<rparr>)"

definition insert_plugin :: "string \<Rightarrow> addr \<Rightarrow> 's plugin_builder \<Rightarrow> 's plugin_builder" where
  "insert_plugin name a b = b\<lparr>pb_plugins := AList.update name a (pb_plugins b)\<rparr>"

definition builder_get :: "'s plugin_builder \<Rightarrow> string \<Rightarrow> addr option" where
  "builder_get b name = map_of (pb_plugins b) name"

definition plugin_type_of :: "plugin_config \<Rightarrow> string" where
  "plugin_type_of config = to_lowercase (trim (pc_plugin_type config))"

definition legacy_plugin :: "plugin_config \<Rightarrow> 's plugin result" where
  "legacy_plugin config =
     (let t = plugin_type_of config in
      if t = ''sequence'' then Inr (SequencePlugin [] (pc_tag config))
      else if t \<in> {''tcp_server'', ''udp_server'', ''doh_server'', ''dot_server'', ''doq_server''}
      then Inr (Leaf (flow_leaf AcceptPlugin))
      else Inl (Config (''Unknown plugin type: '' @ t)))"

definition builder_build :: "'s program \<Rightarrow> plugin_config \<Rightarrow> 's plugin_builder \<Rightarrow> addr result \<times> 's plugin_builder" where
  "builder_build pr config b =
     (case (case get_plugin_factory (pr_plugins pr) (plugin_type_of config) of
              Some f \<Rightarrow> pf_create f config
            | None \<Rightarrow> legacy_plugin config) of
        Inl e \<Rightarrow> (Inl e, b)
      | Inr p \<Rightarrow> (case alloc p b of (a, b) \<Rightarrow> (Inr a, insert_plugin (effective_name config) a b)))"

section \<open>Steps of a sequence\<close>

text \<open>An exec plugin is created at each use; a reference \<^verbatim>\<open>$name\<close> shares the registered one.\<close>

definition parse_exec_action :: "'s program \<Rightarrow> yaml \<Rightarrow> 's plugin_builder \<Rightarrow> addr result \<times> 's plugin_builder" where
  "parse_exec_action pr v b =
     (case v of
        YString s \<Rightarrow>
          (let (pfx, args) = (case split_once (CHR '' '') s of
                 Some (p, rest) \<Rightarrow> (trim p, trim rest)
               | None \<Rightarrow> (s, []))
           in case get_exec_plugin_factory (pr_execs pr) pfx of
             Some f \<Rightarrow>
               (case ef_create f pfx args of
                  Inl e \<Rightarrow> (Inl e, b)
                | Inr p \<Rightarrow> (case alloc p b of (a, b) \<Rightarrow> (Inr a, b)))
           | None \<Rightarrow>
               (case strip_prefix ''$'' s of
                  Some name \<Rightarrow>
                    (case builder_get b name of
                       Some a \<Rightarrow> (Inr a, b)
                     | None \<Rightarrow> (Inl (Config (''Referenced plugin '' @ [CHR 0x27] @ name @ [CHR 0x27] @ '' not found'')), b))
                | None \<Rightarrow> (Inl (Config (''Unknown exec action: '' @ s)), b)))
      | _ \<Rightarrow> (Inl (Config ''exec value must be string''), b))"

definition builder_plugin :: "'s plugin_builder \<Rightarrow> string \<Rightarrow> 's plugin option" where
  "builder_plugin b name = map_option (pb_heap b) (builder_get b name)"

text \<open>One entry of the list: a step, a step skipped because its action failed, or an error.\<close>

definition parse_step :: "'s program \<Rightarrow> yaml \<Rightarrow> 's plugin_builder \<Rightarrow> 's sequence_step option result \<times> 's plugin_builder" where
  "parse_step pr v b =
     (case v of
        YMapping m \<Rightarrow>
          (case map_of m (YString ''matches'') of
             Some (YString s) \<Rightarrow>
               (case parse_condition (pr_conditions pr) (pr_casts pr) (builder_plugin b) s of
                  Inl e \<Rightarrow> (Inl e, b)
                | Inr cond \<Rightarrow>
                    (case map_of m (YString ''exec'') of
                       Some x \<Rightarrow>
                         (case parse_exec_action pr x b of
                            (Inr a, b) \<Rightarrow> (Inr (Some (If cond a s)), b)
                          | (Inl e, b) \<Rightarrow> (Inr None, b))
                     | None \<Rightarrow> (Inl (Config ''matches step must have exec''), b)))
           | Some _ \<Rightarrow> (Inl (Config ''matches value must be string''), b)
           | None \<Rightarrow>
               (case map_of m (YString ''exec'') of
                  Some x \<Rightarrow>
                    (case parse_exec_action pr x b of
                       (Inr a, b) \<Rightarrow> (Inr (Some (Exec a)), b)
                     | (Inl e, b) \<Rightarrow> (Inr None, b))
                | None \<Rightarrow> (Inl (Config ''sequence step must have exec or matches''), b)))
      | _ \<Rightarrow> (Inl (Config ''sequence step must be a mapping''), b))"

fun parse_sequence_steps :: "'s program \<Rightarrow> yaml list \<Rightarrow> 's plugin_builder
    \<Rightarrow> 's sequence_step list result \<times> 's plugin_builder" where
  "parse_sequence_steps pr [] b = (Inr [], b)"
| "parse_sequence_steps pr (v # vs) b =
     (case parse_step pr v b of
        (Inl e, b) \<Rightarrow> (Inl e, b)
      | (Inr st, b) \<Rightarrow>
          (case parse_sequence_steps pr vs b of
             (Inl e, b) \<Rightarrow> (Inl e, b)
           | (Inr sts, b) \<Rightarrow> (Inr (case st of Some x \<Rightarrow> x # sts | None \<Rightarrow> sts), b)))"

definition in_sequence :: "string \<Rightarrow> string \<Rightarrow> error" where
  "in_sequence name text = Config (''sequence '' @ [CHR 0x27] @ name @ [CHR 0x27] @ '': '' @ text)"

text \<open>The short form of a sequence, a list of plugin names.\<close>

fun named_steps :: "string \<Rightarrow> yaml list \<Rightarrow> 's plugin_builder \<Rightarrow> addr list result" where
  "named_steps name [] b = Inr []"
| "named_steps name (v # vs) b =
     (case v of
        YString child \<Rightarrow>
          (case builder_get b child of
             Some a \<Rightarrow> map_sum id ((#) a) (named_steps name vs b)
           | None \<Rightarrow> Inl (Config (''sequence '' @ [CHR 0x27] @ name @ [CHR 0x27] @ '' references unknown plugin '' @
               [CHR 0x27] @ child @ [CHR 0x27])))
      | _ \<Rightarrow> Inl (in_sequence name ''plugins entries must be strings''))"

section \<open>Resolving references\<close>

definition rebuild_sequence :: "'s program \<Rightarrow> plugin_config \<Rightarrow> 's plugin_builder \<Rightarrow> error option \<times> 's plugin_builder" where
  "rebuild_sequence pr config b =
     (let name = effective_name config in
      case pc_args config of
        YSequence vs \<Rightarrow>
          (case parse_sequence_steps pr vs b of
             (Inl e, b) \<Rightarrow> (Some (in_sequence name (error_fmt e)), b)
           | (Inr steps, b) \<Rightarrow>
               (case alloc (SequencePlugin steps (pc_tag config)) b of (a, b) \<Rightarrow> (None, insert_plugin name a b)))
      | YMapping m \<Rightarrow>
          (case map_of m (YString ''plugins'') of
             Some (YSequence names) \<Rightarrow>
               (case named_steps name names b of
                  Inl e \<Rightarrow> (Some e, b)
                | Inr as \<Rightarrow>
                    (case alloc (SequencePlugin (map Exec as) (pc_tag config)) b of
                       (a, b) \<Rightarrow> (None, insert_plugin name a b)))
           | _ \<Rightarrow> (Some (in_sequence name ''unsupported mapping args''), b))
      | _ \<Rightarrow> (Some (in_sequence name ''args must be a list or a plugins mapping''), b))"

fun rebuild_sequences :: "'s program \<Rightarrow> plugin_config list \<Rightarrow> 's plugin_builder \<Rightarrow> error option \<times> 's plugin_builder" where
  "rebuild_sequences pr [] b = (None, b)"
| "rebuild_sequences pr (config # cs) b =
     (if plugin_type_of config \<noteq> ''sequence'' then rebuild_sequences pr cs b
      else case rebuild_sequence pr config b of
        (Some e, b) \<Rightarrow> (Some e, b)
      | (None, b) \<Rightarrow> rebuild_sequences pr cs b)"

fun resolve_fallbacks :: "plugin_config list \<Rightarrow> 's plugin_builder \<Rightarrow> 's plugin_builder" where
  "resolve_fallbacks [] b = b"
| "resolve_fallbacks (config # cs) b =
     resolve_fallbacks cs
       (if plugin_type_of config \<noteq> ''fallback'' then b
        else case builder_get b (effective_name config) of
          Some a \<Rightarrow> b\<lparr>pb_heap := resolve_at (pb_plugins b) a (pb_heap b)\<rparr>
        | None \<Rightarrow> b)"

definition resolve_sequence_at :: "registry \<Rightarrow> addr \<Rightarrow> 's heap \<Rightarrow> 's heap" where
  "resolve_sequence_at reg a h =
     (case h a of SequencePlugin steps tag \<Rightarrow> resolve_fallback_children reg steps h | _ \<Rightarrow> h)"

definition resolve_references :: "'s program \<Rightarrow> plugin_config list \<Rightarrow> 's plugin_builder \<Rightarrow> error option \<times> 's plugin_builder" where
  "resolve_references pr configs b =
     (case rebuild_sequences pr configs b of
        (Some e, b) \<Rightarrow> (Some e, b)
      | (None, b) \<Rightarrow>
          (let b = resolve_fallbacks configs b in
           (None, b\<lparr>pb_heap := fold (resolve_sequence_at (pb_plugins b)) (map snd (pb_plugins b)) (pb_heap b)\<rparr>)))"

text \<open>The start of the program, \<^verbatim>\<open>src/src/main.rs\<close>: a plugin that cannot be built and a reference that
  cannot be resolved are logged, and the start goes on.\<close>

definition build_all :: "'s program \<Rightarrow> plugin_config list \<Rightarrow> 's plugin_builder \<Rightarrow> 's plugin_builder" where
  "build_all pr configs b = foldl (\<lambda>b c. snd (builder_build pr c b)) b configs"

definition load_plugins :: "'s program \<Rightarrow> plugin_config list \<Rightarrow> 's plugin_builder \<Rightarrow> error option \<times> 's plugin_builder" where
  "load_plugins pr configs b = resolve_references pr configs (build_all pr configs b)"

text \<open>\<^verbatim>\<open>get_registry\<close> and \<^verbatim>\<open>into_registry\<close>.\<close>

definition builder_registry :: "'s plugin_builder \<Rightarrow> registry" where
  "builder_registry b = foldl (\<lambda>r (name, a). register_replace_with_name name a r) registry_new (pb_plugins b)"

text \<open>\<^verbatim>\<open>shutdown_all\<close>: the plugins that can be shut down, in the order of the map, until the first
  error.\<close>

fun shutdown_all :: "('s plugin \<Rightarrow> ('s \<Rightarrow> error option \<times> 's) option) \<Rightarrow> addr list \<Rightarrow> 's plugin_builder \<Rightarrow> 's
    \<Rightarrow> error option \<times> 's" where
  "shutdown_all sh [] b s = (None, s)"
| "shutdown_all sh (a # as) b s =
     (case sh (pb_heap b a) of
        None \<Rightarrow> shutdown_all sh as b s
      | Some f \<Rightarrow>
          (case f s of
             (Some e, s) \<Rightarrow> (Some e, s)
           | (None, s) \<Rightarrow> shutdown_all sh as b s))"

section \<open>Growing builders\<close>

text \<open>A builder extends another when it only adds plugins and keeps the names.\<close>

definition extends :: "'s plugin_builder \<Rightarrow> 's plugin_builder \<Rightarrow> bool" where
  "extends b b' \<longleftrightarrow> pb_next b \<le> pb_next b' \<and> pb_plugins b' = pb_plugins b \<and>
     (\<forall>a < pb_next b. pb_heap b' a = pb_heap b a)"

lemma extends_refl [simp, intro]: "extends b b"
  by (simp add: extends_def)

lemma extends_trans: "extends a b \<Longrightarrow> extends b c \<Longrightarrow> extends a c"
  by (auto simp: extends_def)

lemma extends_get: "extends b b' \<Longrightarrow> builder_get b' = builder_get b"
  by (simp add: extends_def builder_get_def fun_eq_iff)

lemma alloc_extends: "alloc p b = (a, b') \<Longrightarrow> extends b b' \<and> a < pb_next b' \<and> pb_heap b' a = p"
  by (auto simp: alloc_def extends_def)

text \<open>Every registered name refers to a plugin that exists.\<close>

definition names_exist :: "'s plugin_builder \<Rightarrow> bool" where
  "names_exist b \<longleftrightarrow> (\<forall>n a. builder_get b n = Some a \<longrightarrow> a < pb_next b)"

lemma insert_plugin_sel [simp]:
  "pb_heap (insert_plugin n a b) = pb_heap b" "pb_next (insert_plugin n a b) = pb_next b"
  "builder_get (insert_plugin n a b) = (builder_get b)(n \<mapsto> a)"
  by (simp_all add: insert_plugin_def builder_get_def fun_eq_iff update_conv')

lemma parse_exec_action_extends: "parse_exec_action pr v b = (r, b') \<Longrightarrow> extends b b'"
  by (auto simp: parse_exec_action_def alloc_def extends_def split: yaml.splits option.splits sum.splits prod.splits)

lemma parse_step_extends: "parse_step pr v b = (r, b') \<Longrightarrow> extends b b'"
  unfolding parse_step_def
  by (auto split: yaml.splits option.splits sum.splits prod.splits dest!: parse_exec_action_extends)

section \<open>What a list of entries becomes\<close>

fun step_condition :: "'s sequence_step \<Rightarrow> string option" where
  "step_condition (Exec a) = None"
| "step_condition (If cond a s) = Some s"

definition entry_exec :: "yaml \<Rightarrow> yaml option" where
  "entry_exec v = (case v of YMapping m \<Rightarrow> map_of m (YString ''exec'') | _ \<Rightarrow> None)"

definition entry_condition :: "yaml \<Rightarrow> string option" where
  "entry_condition v =
     (case v of
        YMapping m \<Rightarrow> (case map_of m (YString ''matches'') of Some (YString s) \<Rightarrow> Some s | _ \<Rightarrow> None)
      | _ \<Rightarrow> None)"

text \<open>The action of an entry can be built: there is a factory that accepts it, or it is a reference to
  a registered plugin. This depends on the names the builder knows, and not on its plugins.\<close>

definition exec_ok :: "'s program \<Rightarrow> 's plugin_builder \<Rightarrow> yaml \<Rightarrow> bool" where
  "exec_ok pr b v \<longleftrightarrow>
     (case entry_exec v of Some x \<Rightarrow> (case fst (parse_exec_action pr x b) of Inr _ \<Rightarrow> True | Inl _ \<Rightarrow> False) | None \<Rightarrow> False)"

text \<open>A step of the sequence comes from an entry: the condition text is the entry's, and the plugin is
  what its action was turned into.\<close>

definition installed_from :: "'s program \<Rightarrow> 's plugin_builder \<Rightarrow> 's plugin_builder \<Rightarrow> yaml \<Rightarrow> 's sequence_step \<Rightarrow> bool" where
  "installed_from pr b b' v st \<longleftrightarrow> step_condition st = entry_condition v \<and>
     (\<exists>x b1 b2. entry_exec v = Some (YString x) \<and> extends b b1 \<and>
        parse_exec_action pr (YString x) b1 = (Inr (step_plugin st), b2) \<and> extends b2 b')"

lemma exec_ok_cong:
  assumes "dom (builder_get b) = dom (builder_get b')"
  shows "exec_ok pr b = exec_ok pr b'"
proof (rule ext)
  fix v
  have "builder_get b n = None \<longleftrightarrow> builder_get b' n = None" for n using assms by (metis domIff)
  then have "(case fst (parse_exec_action pr x b) of Inr _ \<Rightarrow> True | Inl _ \<Rightarrow> False) =
      (case fst (parse_exec_action pr x b') of Inr _ \<Rightarrow> True | Inl _ \<Rightarrow> False)" for x
    by (auto simp: parse_exec_action_def Let_def alloc_def split: yaml.split option.split sum.split prod.split)
      (metis option.distinct(1))+
  then show "exec_ok pr b v = exec_ok pr b' v" by (simp add: exec_ok_def split: option.split)
qed

lemma installed_from_mono:
  "extends b0 b \<Longrightarrow> extends b' b1 \<Longrightarrow> installed_from pr b b' v st \<Longrightarrow> installed_from pr b0 b1 v st"
  unfolding installed_from_def by (meson extends_trans)

lemma exec_action_string: "parse_exec_action pr x b = (Inr a, b') \<Longrightarrow> \<exists>s. x = YString s"
  by (cases x) (simp_all add: parse_exec_action_def)

lemma parse_step_installed:
  assumes "parse_step pr v b = (Inr r, b')"
  shows "(exec_ok pr b v \<longleftrightarrow> r \<noteq> None) \<and> (\<forall>st. r = Some st \<longrightarrow> installed_from pr b b' v st)"
proof -
  obtain m x where m: "v = YMapping m" and x: "map_of m (YString ''exec'') = Some x"
    using assms by (auto simp: parse_step_def split: yaml.splits option.splits sum.splits)
  obtain y b1 where y: "parse_exec_action pr x b = (y, b1)" by fastforce
  have e: "entry_exec v = Some x" by (simp add: entry_exec_def m x)
  have s: "\<exists>t. x = YString t" if "y = Inr a" for a using exec_action_string y that by blast
  show ?thesis
    using assms y x s unfolding exec_ok_def e
    by (auto simp: parse_step_def m installed_from_def e entry_condition_def
        split: yaml.splits option.splits sum.splits) (use m in \<open>auto simp: entry_exec_def\<close>)
qed

lemma parse_sequence_steps_installed:
  "parse_sequence_steps pr vs b = (Inr sts, b') \<Longrightarrow>
     extends b b' \<and> list_all2 (installed_from pr b b') (filter (exec_ok pr b) vs) sts"
proof (induction vs arbitrary: b sts)
  case (Cons v vs)
  obtain r b1 sts' where s: "parse_step pr v b = (Inr r, b1)" "parse_sequence_steps pr vs b1 = (Inr sts', b')"
    "sts = (case r of Some x \<Rightarrow> x # sts' | None \<Rightarrow> sts')"
    using Cons.prems by (auto split: prod.splits sum.splits)
  note e1 = parse_step_extends [OF s(1)]
  note IH = Cons.IH [OF s(2)]
  have "exec_ok pr b1 = exec_ok pr b" by (rule exec_ok_cong) (simp add: extends_get [OF e1])
  then have l: "list_all2 (installed_from pr b b') (filter (exec_ok pr b) vs) sts'"
    using IH installed_from_mono [OF e1 extends_refl] by (auto elim: list_all2_mono)
  have "installed_from pr b b' v x" if "r = Some x" for x
    using parse_step_installed [OF s(1)] that installed_from_mono [OF extends_refl conjunct1 [OF IH]] by blast
  then show ?case
    using parse_step_installed [OF s(1)] s(3) l extends_trans [OF e1 conjunct1 [OF IH]]
    by (cases r) auto
qed simp

section \<open>The passes over the configuration\<close>

lemma rebuild_sequence_facts:
  assumes "rebuild_sequence pr c b = (None, b')"
  shows "\<exists>a steps b1. builder_get b' = (builder_get b)(effective_name c \<mapsto> a) \<and> a < pb_next b' \<and>
    pb_next b \<le> pb_next b' \<and> (\<forall>x < pb_next b. pb_heap b' x = pb_heap b x) \<and>
    pb_heap b' a = SequencePlugin steps (pc_tag c) \<and>
    (\<forall>vs. pc_args c = YSequence vs \<longrightarrow> parse_sequence_steps pr vs b = (Inr steps, b1))"
proof -
  have ins: "\<exists>a. builder_get b' = (builder_get b)(effective_name c \<mapsto> a) \<and> a < pb_next b' \<and>
      pb_next b \<le> pb_next b' \<and> (\<forall>x < pb_next b. pb_heap b' x = pb_heap b x) \<and> pb_heap b' a = p"
    if "extends b b1" "alloc p b1 = (a, b2)" "b' = insert_plugin (effective_name c) a b2" for p b1 a b2
  proof -
    note al = alloc_extends [OF that(2)]
    have "extends b b2" using al that(1) extends_trans by blast
    then show ?thesis using al that(3) by (auto simp: extends_get) (auto simp: extends_def)
  qed
  show ?thesis
  proof (cases "pc_args c")
    case (YSequence vs)
    obtain r b1 where 1: "parse_sequence_steps pr vs b = (r, b1)" by fastforce
    with assms YSequence obtain steps where r: "r = Inr steps" by (cases r) (auto simp: rebuild_sequence_def)
    obtain a b2 where 2: "alloc (SequencePlugin steps (pc_tag c)) b1 = (a, b2)" by fastforce
    have "b' = insert_plugin (effective_name c) a b2"
      using assms YSequence 1 r 2 by (simp add: rebuild_sequence_def)
    with ins [OF conjunct1 [OF parse_sequence_steps_installed [OF 1 [unfolded r]]] 2] 1 r YSequence show ?thesis
      by auto
  next
    case (YMapping m)
    then obtain as where "(case alloc (SequencePlugin (map Exec as) (pc_tag c)) b of
        (a, b) \<Rightarrow> (None, insert_plugin (effective_name c) a b)) = (None :: error option, b')"
      using assms by (auto simp: rebuild_sequence_def Let_def split: option.splits yaml.splits sum.splits)
    moreover obtain a b2 where 2: "alloc (SequencePlugin (map Exec as) (pc_tag c)) b = (a, b2)" by fastforce
    ultimately have "b' = insert_plugin (effective_name c) a b2" by simp
    with ins [OF extends_refl 2] YMapping show ?thesis by auto
  qed (use assms in \<open>auto simp: rebuild_sequence_def\<close>)
qed

definition sequence_names :: "plugin_config list \<Rightarrow> string set" where
  "sequence_names cs = {effective_name c | c. c \<in> set cs \<and> plugin_type_of c = ''sequence''}"

lemma sequence_names_simps [simp]:
  "sequence_names [] = {}"
  "sequence_names (c # cs) =
     (if plugin_type_of c = ''sequence'' then insert (effective_name c) (sequence_names cs) else sequence_names cs)"
  "sequence_names (cs @ ds) = sequence_names cs \<union> sequence_names ds"
  by (auto simp: sequence_names_def)

lemma sequence_names_sub: "sequence_names cs \<subseteq> effective_name ` set cs"
  by (auto simp: sequence_names_def)

lemma rebuild_sequences_facts:
  "rebuild_sequences pr cs b = (None, b') \<Longrightarrow>
    pb_next b \<le> pb_next b' \<and> (\<forall>x < pb_next b. pb_heap b' x = pb_heap b x) \<and>
    (\<forall>n. n \<notin> sequence_names cs \<longrightarrow> builder_get b' n = builder_get b n) \<and>
    (names_exist b \<longrightarrow> names_exist b') \<and> dom (builder_get b') = dom (builder_get b) \<union> sequence_names cs"
proof (induction cs arbitrary: b)
  case (Cons c cs)
  show ?case
  proof (cases "plugin_type_of c = ''sequence''")
    case True
    then obtain b1 where 1: "rebuild_sequence pr c b = (None, b1)" and 2: "rebuild_sequences pr cs b1 = (None, b')"
      using Cons.prems by (auto split: prod.splits option.splits)
    obtain a where a: "builder_get b1 = (builder_get b)(effective_name c \<mapsto> a)" "a < pb_next b1"
      "pb_next b \<le> pb_next b1" "\<forall>x < pb_next b. pb_heap b1 x = pb_heap b x"
      using rebuild_sequence_facts [OF 1] by blast
    have "names_exist b1" if "names_exist b" using that a by (auto simp: names_exist_def intro: less_le_trans)
    with a Cons.IH [OF 2] True show ?thesis by auto
  next
    case False
    with Cons show ?thesis by simp
  qed
qed simp

lemma rebuild_sequences_append:
  "rebuild_sequences pr (cs @ ds) b = (None, b') \<Longrightarrow>
    \<exists>b1. rebuild_sequences pr cs b = (None, b1) \<and> rebuild_sequences pr ds b1 = (None, b')"
  by (induction cs arbitrary: b) (auto split: if_splits prod.splits option.splits)

text \<open>The first pass leaves an empty placeholder for every sequence.\<close>

lemma builder_build_cases:
  assumes "get_plugin_factory (pr_plugins pr) ''sequence'' = None"
  obtains "snd (builder_build pr d b) = b" "plugin_type_of d \<noteq> ''sequence''"
  | p where "snd (builder_build pr d b) = insert_plugin (effective_name d) (pb_next b) (snd (alloc p b))"
      "plugin_type_of d = ''sequence'' \<longrightarrow> p = SequencePlugin [] (pc_tag d)"
proof (cases "plugin_type_of d = ''sequence''")
  case True
  with assms that(2) [of "SequencePlugin [] (pc_tag d)"] show thesis
    by (simp add: builder_build_def legacy_plugin_def alloc_def)
next
  case False
  define r where "r = (case get_plugin_factory (pr_plugins pr) (plugin_type_of d) of
    Some f \<Rightarrow> pf_create f d | None \<Rightarrow> legacy_plugin d)"
  show thesis
  proof (cases r)
    case (Inl e)
    with False that(1) show thesis by (simp add: builder_build_def r_def)
  next
    case (Inr p)
    with False that(2) [of p] show thesis by (simp add: builder_build_def alloc_def flip: r_def)
  qed
qed

lemma build_all_placeholders:
  assumes "get_plugin_factory (pr_plugins pr) ''sequence'' = None" and "distinct (map effective_name cs)"
  shows "names_exist (build_all pr cs (plugin_builder_new h)) \<and>
    (\<forall>c \<in> set cs. plugin_type_of c = ''sequence'' \<longrightarrow>
      (\<exists>a. builder_get (build_all pr cs (plugin_builder_new h)) (effective_name c) = Some a \<and>
         pb_heap (build_all pr cs (plugin_builder_new h)) a = SequencePlugin [] (pc_tag c)))"
  using assms(2)
proof (induction cs rule: rev_induct)
  case Nil
  then show ?case by (simp add: build_all_def names_exist_def plugin_builder_new_def builder_get_def)
next
  case (snoc d cs)
  let ?b = "build_all pr cs (plugin_builder_new h)"
  have b': "build_all pr (cs @ [d]) (plugin_builder_new h) = snd (builder_build pr d ?b)" by (simp add: build_all_def)
  have IH: "names_exist ?b" "\<forall>c \<in> set cs. plugin_type_of c = ''sequence'' \<longrightarrow>
      (\<exists>a. builder_get ?b (effective_name c) = Some a \<and> pb_heap ?b a = SequencePlugin [] (pc_tag c))"
    using snoc by simp_all
  show ?case
  proof (rule builder_build_cases [OF assms(1), of d ?b])
    assume 1: "snd (builder_build pr d ?b) = ?b" "plugin_type_of d \<noteq> ''sequence''"
    with IH show ?case unfolding b' 1(1) by auto
  next
    fix p
    assume 2: "snd (builder_build pr d ?b) = insert_plugin (effective_name d) (pb_next ?b) (snd (alloc p ?b))"
      "plugin_type_of d = ''sequence'' \<longrightarrow> p = SequencePlugin [] (pc_tag d)"
    have "effective_name c \<noteq> effective_name d" if "c \<in> set cs" for c
    proof -
      have "effective_name d \<notin> effective_name ` set cs" using snoc.prems by simp
      with imageI [OF that, of effective_name] show ?thesis by metis
    qed
    moreover have "a < pb_next ?b" if "builder_get ?b n = Some a" for n a
      using IH(1) that by (simp add: names_exist_def)
    moreover have "builder_get (snd (alloc p ?b)) = builder_get ?b" by (simp add: alloc_def builder_get_def fun_eq_iff)
    ultimately show ?case
      unfolding b' 2(1) using IH(2) 2(2)
      by (auto simp: names_exist_def alloc_def less_Suc_eq split: if_splits) (metis less_irrefl)+
  qed
qed

section \<open>References between sequences\<close>

text \<open>A sequence stays a sequence with the same steps while fallbacks are resolved.\<close>

lemma resolve_at_sequence:
  "h x = SequencePlugin steps tag \<Longrightarrow> resolve_at reg a h x = SequencePlugin steps tag"
  by (auto simp: resolve_at_def)

lemma fold_keeps:
  "(\<And>y h. P h \<Longrightarrow> P (f y h)) \<Longrightarrow> P h \<Longrightarrow> P (fold f ys h)"
  by (induction ys arbitrary: h) auto

lemma resolve_sequences_keep:
  assumes "h x = SequencePlugin steps tag"
  shows "fold (resolve_sequence_at reg) as h x = SequencePlugin steps tag"
proof (rule fold_keeps [where P = "\<lambda>h. h x = SequencePlugin steps tag"])
  fix a and h :: "'a heap"
  assume hx: "h x = SequencePlugin steps tag"
  show "resolve_sequence_at reg a h x = SequencePlugin steps tag"
  proof (cases "h a")
    case (SequencePlugin sts t)
    have "fold (\<lambda>st. resolve_at reg (step_plugin st)) sts h x = SequencePlugin steps tag"
      using hx by (intro fold_keeps [where P = "\<lambda>h. h x = SequencePlugin steps tag"] resolve_at_sequence)
    with SequencePlugin show ?thesis by (simp add: resolve_sequence_at_def resolve_fallback_children_def)
  qed (use hx in \<open>simp_all add: resolve_sequence_at_def\<close>)
qed (rule assms)

definition seq_config :: "string \<Rightarrow> yaml list \<Rightarrow> plugin_config" where
  "seq_config name steps = \<lparr>pc_tag = Some name, pc_plugin_type = ''sequence'', pc_args = YSequence steps\<rparr>"

definition exec_step :: "string \<Rightarrow> yaml" where
  "exec_step action = YMapping [(YString ''exec'', YString action)]"

lemma seq_config_sel [simp]:
  "effective_name (seq_config n vs) = n" "pc_args (seq_config n vs) = YSequence vs"
  "pc_tag (seq_config n vs) = Some n" "plugin_type_of (seq_config n vs) = ''sequence''"
proof -
  have "to_lowercase (trim ''sequence'') = ''sequence''" by code_simp
  then show "plugin_type_of (seq_config n vs) = ''sequence''" by (simp add: seq_config_def plugin_type_of_def)
qed (simp_all add: seq_config_def effective_name_def)

text \<open>Resolving fallbacks keeps names and sequences.\<close>

lemma resolve_fallbacks_keep:
  "pb_plugins (resolve_fallbacks cs b) = pb_plugins b \<and>
   (\<forall>x steps tag. pb_heap b x = SequencePlugin steps tag \<longrightarrow>
      pb_heap (resolve_fallbacks cs b) x = SequencePlugin steps tag)"
  by (induction cs arbitrary: b) (auto simp: resolve_at_sequence split: option.split)

lemma resolve_references_keep:
  assumes "resolve_references pr cs b0 = (None, b)"
  shows "\<exists>b'. rebuild_sequences pr cs b0 = (None, b') \<and> builder_get b = builder_get b' \<and>
    (\<forall>x steps tag. pb_heap b' x = SequencePlugin steps tag \<longrightarrow> pb_heap b x = SequencePlugin steps tag)"
proof -
  obtain b' where 1: "rebuild_sequences pr cs b0 = (None, b')"
    using assms by (auto simp: resolve_references_def split: prod.splits option.splits)
  let ?f = "resolve_fallbacks cs b'"
  have b: "b = ?f\<lparr>pb_heap := fold (resolve_sequence_at (pb_plugins ?f)) (map snd (pb_plugins ?f)) (pb_heap ?f)\<rparr>"
    using assms 1 by (simp add: resolve_references_def Let_def)
  have "builder_get b = builder_get b'"
    using resolve_fallbacks_keep [of cs b'] by (simp add: b builder_get_def fun_eq_iff)
  moreover have "pb_heap b x = SequencePlugin steps tag" if "pb_heap b' x = SequencePlugin steps tag" for x steps tag
    using resolve_fallbacks_keep [of cs b'] that by (simp add: b resolve_sequences_keep)
  ultimately show ?thesis using 1 by blast
qed

text \<open>What the start of the program makes of a sequence with a list of entries: its steps were made
  with the names as they stood when the sequences before it had been rebuilt.\<close>

lemma loaded_sequence:
  assumes "get_plugin_factory (pr_plugins pr) ''sequence'' = None"
    and "distinct (map effective_name (pre @ c # post))"
    and "load_plugins pr (pre @ c # post) (plugin_builder_new h0) = (None, b)"
    and "plugin_type_of c = ''sequence''" and "pc_args c = YSequence vs"
  shows "\<exists>b1 b2 a steps. builder_get b (effective_name c) = Some a \<and> pb_heap b a = SequencePlugin steps (pc_tag c) \<and>
    list_all2 (installed_from pr b1 b2) (filter (exec_ok pr b) vs) steps \<and>
    (\<forall>n. n \<notin> sequence_names (c # post) \<longrightarrow> builder_get b1 n = builder_get b n) \<and>
    (\<forall>n \<in> sequence_names (c # post). \<exists>x tag. builder_get b1 n = Some x \<and> pb_heap b x = SequencePlugin [] tag)"
proof -
  let ?b0 = "build_all pr (pre @ c # post) (plugin_builder_new h0)"
  note ph = build_all_placeholders [OF assms(1,2), of h0]
  obtain b3 where 3: "rebuild_sequences pr (pre @ c # post) ?b0 = (None, b3)" "builder_get b = builder_get b3"
    "\<And>x steps tag. pb_heap b3 x = SequencePlugin steps tag \<Longrightarrow> pb_heap b x = SequencePlugin steps tag"
    using resolve_references_keep [of pr _ ?b0 b] assms(3) unfolding load_plugins_def by blast
  obtain b1 where 1: "rebuild_sequences pr pre ?b0 = (None, b1)" "rebuild_sequences pr (c # post) b1 = (None, b3)"
    using rebuild_sequences_append [OF 3(1)] by blast
  obtain b2 where 2: "rebuild_sequence pr c b1 = (None, b2)" "rebuild_sequences pr post b2 = (None, b3)"
    using 1(2) assms(4) by (auto split: prod.splits option.splits)
  note f1 = rebuild_sequences_facts [OF 1(1)] and f13 = rebuild_sequences_facts [OF 1(2)] and f23 = rebuild_sequences_facts [OF 2(2)]
  obtain a steps b' where a: "builder_get b2 = (builder_get b1)(effective_name c \<mapsto> a)" "a < pb_next b2"
    "pb_heap b2 a = SequencePlugin steps (pc_tag c)" "parse_sequence_steps pr vs b1 = (Inr steps, b')"
    using rebuild_sequence_facts [OF 2(1)] assms(5) by blast
  have "effective_name ` set pre \<inter> effective_name ` set (c # post) = {}" "effective_name c \<notin> effective_name ` set post"
    using assms(2) by auto
  then have names: "sequence_names (c # post) \<inter> sequence_names pre = {}" "effective_name c \<notin> sequence_names post"
    using sequence_names_sub [of pre] sequence_names_sub [of "c # post"] sequence_names_sub [of post] by blast+
  have "builder_get b (effective_name c) = Some a" using f23 names(2) a(1) 3(2) by simp
  moreover have "pb_heap b a = SequencePlugin steps (pc_tag c)" using f23 a(2,3) 3(3) by simp
  moreover have pl: "\<exists>x tag. builder_get b1 n = Some x \<and> pb_heap b x = SequencePlugin [] tag"
    if n: "n \<in> sequence_names (c # post)" for n
  proof -
    obtain d where d: "d \<in> set (pre @ c # post)" "plugin_type_of d = ''sequence''" "effective_name d = n"
      using n by (auto simp: sequence_names_def)
    then obtain x where x: "builder_get ?b0 n = Some x" "pb_heap ?b0 x = SequencePlugin [] (pc_tag d)"
      using ph by blast
    moreover have "x < pb_next ?b0" using ph x(1) by (simp add: names_exist_def)
    moreover have "builder_get b1 n = builder_get ?b0 n" using f1 names(1) n by blast
    ultimately have "builder_get b1 n = Some x" "pb_heap b3 x = SequencePlugin [] (pc_tag d)"
      using rebuild_sequences_facts [OF 3(1)] by simp_all
    with 3(3) show ?thesis by blast
  qed
  moreover have "sequence_names (c # post) \<subseteq> dom (builder_get b1)" using pl by blast
  then have "exec_ok pr b = exec_ok pr b1"
    using f13 3(2) by (intro exec_ok_cong) (simp add: Un_absorb2)
  then have "list_all2 (installed_from pr b1 b') (filter (exec_ok pr b) vs) steps"
    using parse_sequence_steps_installed [OF a(4)] by simp
  moreover have "\<forall>n. n \<notin> sequence_names (c # post) \<longrightarrow> builder_get b1 n = builder_get b n"
    using f13 3(2) by metis
  ultimately show ?thesis by blast
qed

text \<open>A reference is the plugin that had the name when the entry was read.\<close>

definition no_dollar_actions :: "'s program \<Rightarrow> bool" where
  "no_dollar_actions pr \<longleftrightarrow> (\<forall>f \<in> set (pr_execs pr). \<forall>t \<in> set (ef_type f # ef_aliases f). \<not> starts_with ''$'' t)"

lemma installed_reference:
  assumes "no_dollar_actions pr" and "installed_from pr b1 b2 v st"
    and "entry_exec v = Some (YString (CHR ''$'' # n))" and "CHR '' '' \<notin> set n"
  shows "builder_get b1 n = Some (step_plugin st)"
proof -
  obtain b b' where x: "extends b1 b" "parse_exec_action pr (YString (CHR ''$'' # n)) b = (Inr (step_plugin st), b')"
    using assms(2,3) by (auto simp: installed_from_def)
  have "starts_with ''$'' (CHR ''$'' # n)" by (simp add: starts_with_def strip_prefix_def)
  then have "get_exec_plugin_factory (pr_execs pr) (CHR ''$'' # n) = None"
    using assms(1) by (auto simp: get_exec_plugin_factory_def find_None_iff no_dollar_actions_def)
  with x assms(4) show ?thesis
    by (auto simp: parse_exec_action_def split_once_def strip_prefix_def extends_get split: option.splits)
qed

section \<open>Properties\<close>

definition demo_program :: "'s program" where
  "demo_program = \<lparr>pr_plugins = [],
     pr_execs = [\<lparr>ef_type = ''reject'', ef_aliases = [], ef_create = (\<lambda>p a. Inr (Leaf (flow_leaf (RejectPlugin 5))))\<rparr>],
     pr_conditions = init_condition_builders, pr_casts = no_sets\<rparr>"

lemma demo_program_facts:
  "get_plugin_factory (pr_plugins demo_program) ''sequence'' = None" "no_dollar_actions demo_program"
  by (simp_all add: demo_program_def get_plugin_factory_def no_dollar_actions_def starts_with_def strip_prefix_def)

text \<open>The two orders of a sequence and a sequence that refers to it.\<close>

definition demo_main :: plugin_config where
  "demo_main = seq_config ''main'' [exec_step ''$sub'']"

definition demo_sub :: plugin_config where
  "demo_sub = seq_config ''sub'' [exec_step ''reject'']"

definition demo_load :: "plugin_config list \<Rightarrow> error option \<times> unit plugin_builder" where
  "demo_load configs = load_plugins demo_program configs (plugin_builder_new (\<lambda>_. Leaf (flow_leaf AcceptPlugin)))"

lemma single_step_rebuilds: "\<exists>b'. rebuild_sequence pr (seq_config n [exec_step x]) b = (None, b')"
proof -
  obtain r b1 where "parse_exec_action pr (YString x) b = (r, b1)" by fastforce
  then show ?thesis
    by (cases r) (simp_all add: rebuild_sequence_def parse_step_def exec_step_def alloc_def)
qed

lemma single_steps_resolve:
  "fst (resolve_references pr [seq_config m [exec_step x], seq_config n [exec_step y]] b) = None"
proof -
  obtain b1 where "rebuild_sequence pr (seq_config m [exec_step x]) b = (None, b1)"
    using single_step_rebuilds by blast
  moreover obtain b2 where "rebuild_sequence pr (seq_config n [exec_step y]) b1 = (None, b2)"
    using single_step_rebuilds by blast
  ultimately show ?thesis by (simp add: resolve_references_def Let_def)
qed

lemma demo_loads:
  "demo_load [demo_main, demo_sub] = (None, snd (demo_load [demo_main, demo_sub]))"
  "demo_load [demo_sub, demo_main] = (None, snd (demo_load [demo_sub, demo_main]))"
  by (rule prod_eqI; simp add: demo_load_def load_plugins_def single_steps_resolve demo_main_def demo_sub_def)+

lemma demo_configs:
  "plugin_type_of demo_main = ''sequence''" "plugin_type_of demo_sub = ''sequence''"
  "pc_args demo_main = YSequence [exec_step ''$sub'']" "pc_args demo_sub = YSequence [exec_step ''reject'']"
  "effective_name demo_main = ''main''" "effective_name demo_sub = ''sub''"
  "pc_tag demo_main = Some ''main''" "pc_tag demo_sub = Some ''sub''"
  by (simp_all add: demo_main_def demo_sub_def)

lemma demo_entry:
  "entry_exec (exec_step ''$sub'') = Some (YString ''$sub'')"
  "builder_get b ''sub'' \<noteq> None \<Longrightarrow> exec_ok demo_program b (exec_step ''$sub'')"
  by (auto simp: exec_step_def entry_exec_def exec_ok_def parse_exec_action_def split_once_def demo_program_def
      get_exec_plugin_factory_def strip_prefix_def)



text \<open>
  C22: a reference from a sequence to itself or to a sequence that comes later in the configuration is
  dead. For a configuration with distinct names that loads without an error and a sequence given as
  a list, every step from an entry that runs \<^verbatim>\<open>$n\<close>, where \<open>n\<close> is that sequence or a later one, points to
  the empty placeholder of \<open>n\<close> and not to the rebuilt sequence: whatever steps \<open>n\<close> has, running
  the step's plugin succeeds at once and changes neither the context nor the state. (The name \<open>n\<close> has
  no space in it; as in the program, no factory is registered for the type \<^verbatim>\<open>sequence\<close> and no action
  starts with a dollar sign.)
\<close>

theorem forward_reference_is_dead:
  assumes "get_plugin_factory (pr_plugins pr) ''sequence'' = None" and "no_dollar_actions pr"
    and "distinct (map effective_name (pre @ c # post))"
    and "load_plugins pr (pre @ c # post) (plugin_builder_new h0) = (None, b)"
    and "plugin_type_of c = ''sequence''" and "pc_args c = YSequence vs"
    and "d \<in> set (c # post)" and "plugin_type_of d = ''sequence''" and "CHR '' '' \<notin> set (effective_name d)"
  shows "\<exists>a steps. builder_get b (effective_name c) = Some a \<and> pb_heap b a = SequencePlugin steps (pc_tag c) \<and>
    length steps = length (filter (exec_ok pr b) vs) \<and>
    (\<forall>i < length steps. entry_exec (filter (exec_ok pr b) vs ! i) = Some (YString (CHR ''$'' # effective_name d)) \<longrightarrow>
       (\<exists>tag. pb_heap b (step_plugin (steps ! i)) = SequencePlugin [] tag) \<and>
       (\<forall>reg fuel ctx s. 2 \<le> fuel \<longrightarrow> exec_plugin (pb_heap b) reg fuel (step_plugin (steps ! i)) ctx s = Some (None, ctx, s)))"
proof -
  obtain b1 b2 a steps where l: "builder_get b (effective_name c) = Some a" "pb_heap b a = SequencePlugin steps (pc_tag c)"
    "list_all2 (installed_from pr b1 b2) (filter (exec_ok pr b) vs) steps"
    "\<And>n. n \<in> sequence_names (c # post) \<Longrightarrow> \<exists>x tag. builder_get b1 n = Some x \<and> pb_heap b x = SequencePlugin [] tag"
    using loaded_sequence [OF assms(1,3-6)] by blast
  have "effective_name d \<in> sequence_names (c # post)" using assms(7,8) unfolding sequence_names_def by blast
  then obtain x tag where x: "builder_get b1 (effective_name d) = Some x" "pb_heap b x = SequencePlugin [] tag"
    using l(4) by blast
  have run: "exec_plugin (pb_heap b) reg fuel x ctx s = Some (None, ctx, s)" if "2 \<le> fuel" for reg fuel ctx s
    using that x(2) by (cases fuel; cases "fuel - 1") (simp_all add: exec_simps)
  have "step_plugin (steps ! i) = x" if "i < length steps"
    "entry_exec (filter (exec_ok pr b) vs ! i) = Some (YString (CHR ''$'' # effective_name d))" for i
  proof -
    have "installed_from pr b1 b2 (filter (exec_ok pr b) vs ! i) (steps ! i)"
      using l(3) that(1) by (metis list_all2_conv_all_nth)
    then show ?thesis using installed_reference [OF assms(2) _ that(2) assms(9)] x(1) by simp
  qed
  then show ?thesis
    using l(1,2) x(2) run list_all2_lengthD [OF l(3)]
    by (intro exI [of _ a] exI [of _ steps]) auto
qed

theorem forward_reference_is_dead_witness:
  "\<exists>b a st. demo_load [demo_main, demo_sub] = (None, b) \<and> builder_get b ''main'' = Some a \<and>
     pb_heap b a = SequencePlugin [st] (Some ''main'') \<and>
     exec_plugin (pb_heap b) [] 2 (step_plugin st) (context_new demo_query) () = Some (None, context_new demo_query, ())"
proof -
  obtain b where b: "demo_load [demo_main, demo_sub] = (None, b)" using demo_loads(1) by blast
  have d: "distinct (map effective_name ([] @ demo_main # [demo_sub]))" "distinct (map effective_name ([demo_main] @ demo_sub # []))"
    by (simp_all add: demo_main_def demo_sub_def)
  have l: "load_plugins demo_program ([] @ demo_main # [demo_sub]) (plugin_builder_new (\<lambda>_. Leaf (flow_leaf AcceptPlugin))) = (None, b)"
    "load_plugins demo_program ([demo_main] @ demo_sub # []) (plugin_builder_new (\<lambda>_. Leaf (flow_leaf AcceptPlugin))) = (None, b)"
    using b by (simp_all add: demo_load_def)
  obtain x where "builder_get b ''sub'' = Some x"
    using forward_reference_is_dead [OF demo_program_facts d(2) l(2) demo_configs(2,4), of demo_sub]
    by (auto simp: demo_configs)
  then have ok: "exec_ok demo_program b (exec_step ''$sub'')" by (simp add: demo_entry(2))
  obtain a steps where s: "builder_get b ''main'' = Some a" "pb_heap b a = SequencePlugin steps (Some ''main'')"
    "length steps = 1"
    "\<forall>i < length steps. entry_exec ([exec_step ''$sub''] ! i) = Some (YString ''$sub'') \<longrightarrow>
       (\<forall>reg fuel ctx s. 2 \<le> fuel \<longrightarrow> exec_plugin (pb_heap b) reg fuel (step_plugin (steps ! i)) ctx s = Some (None, ctx, s))"
    using forward_reference_is_dead [OF demo_program_facts d(1) l(1) demo_configs(1,3), of demo_sub] ok
    by (auto simp: demo_configs)
  obtain st where st: "steps = [st]" using s(3) by (cases steps) auto
  have "exec_plugin (pb_heap b) [] 2 (step_plugin st) (context_new demo_query) () = Some (None, context_new demo_query, ())"
    using s(4) by (simp add: st demo_entry)
  then show ?thesis using s(1,2) st b by auto
qed

section \<open>Fallbacks from their configuration\<close>

definition fallback_init :: "plugin_config \<Rightarrow> 's plugin" where
  "fallback_init config =
     (let args = effective_args config;
          name = \<lambda>key. (case arg_str key args of Some s \<Rightarrow> s | None \<Rightarrow> []);
          error_only = (case Option.bind (args ''error_only'') as_bool of Some b \<Rightarrow> b | None \<Rightarrow> False)
      in FallbackPlugin [] (filter (\<lambda>n. n \<noteq> []) [name ''primary'', name ''secondary'']) error_only (pc_tag config))"

definition fallback_config :: "string \<Rightarrow> string \<Rightarrow> plugin_config" where
  "fallback_config p s =
     \<lparr>pc_tag = None, pc_plugin_type = ''fallback'',
      pc_args = YMapping [(YString ''primary'', YString p), (YString ''secondary'', YString s)]\<rparr>"

text \<open>A configured fallback runs its primary before its secondary; a name that is not registered is
  left out, and with it the alternative.\<close>

lemma fallback_config_resolved:
  assumes "p \<noteq> []" and "s \<noteq> []"
  shows "resolve_children reg (fallback_init (fallback_config p s)) =
    FallbackPlugin (List.map_filter (registry_get reg) [p, s]) [] False None"
  using assms by (simp add: fallback_init_def fallback_config_def effective_args_def arg_str_def Let_def)

lemma fallback_loses_unknown_secondary:
  "p \<noteq> [] \<Longrightarrow> s \<noteq> [] \<Longrightarrow> registry_get reg p = Some a \<Longrightarrow> registry_get reg s = None \<Longrightarrow>
     resolve_children reg (fallback_init (fallback_config p s)) = FallbackPlugin [a] [] False None"
  by (simp add: fallback_config_resolved map_filter_def)

end
