(* ===== verification/Rewrite_Plugins.thy ===== *)
theory Rewrite_Plugins
  imports Hosts Pipeline
begin

text \<open>
  The executables of \<^verbatim>\<open>src/src/plugins/executable\<close> that rewrite a query or a response: \<^verbatim>\<open>ttl.rs\<close>,
  \<^verbatim>\<open>mark.rs\<close>, \<^verbatim>\<open>drop_resp.rs\<close>, \<^verbatim>\<open>black_hole.rs\<close>, \<^verbatim>\<open>redirect.rs\<close>, \<^verbatim>\<open>dual_selector.rs\<close>, \<^verbatim>\<open>query_summary.rs\<close>,
  \<^verbatim>\<open>ecs.rs\<close> and \<^verbatim>\<open>edns0opt.rs\<close>.
\<close>

section \<open>TTL\<close>

record ttl_plugin =
  tp_fix :: u32
  tp_min :: u32
  tp_max :: u32

definition ttl_new :: "u32 \<Rightarrow> u32 \<Rightarrow> u32 \<Rightarrow> ttl_plugin" where
  "ttl_new f mn mx = \<lparr>tp_fix = f, tp_min = mn, tp_max = mx\<rparr>"

definition new_ttl :: "ttl_plugin \<Rightarrow> u32 \<Rightarrow> u32" where
  "new_ttl p t =
     (if tp_fix p > 0 then tp_fix p
      else let t = (if tp_min p > 0 \<and> t < tp_min p then tp_min p else t) in
           if tp_max p > 0 \<and> t > tp_max p then tp_max p else t)"

definition ttl_execute :: "ttl_plugin \<Rightarrow> ctx \<Rightarrow> error option \<times> ctx" where
  "ttl_execute p c = (None, update_response (update_records (\<lambda>rr. set_ttl (new_ttl p (rr_ttl rr)) rr)) c)"

definition i64_arg :: "string \<Rightarrow> (string \<rightharpoonup> yaml) \<Rightarrow> int" where
  "i64_arg key args =
     (case args key of
        Some (YNumber n) \<Rightarrow> (case as_i64 n of Some i \<Rightarrow> i | None \<Rightarrow> 0)
      | _ \<Rightarrow> 0)"

definition ttl_init :: "plugin_config \<Rightarrow> ttl_plugin result" where
  "ttl_init config =
     (let args = effective_args config;
          ttl = (of_int (i64_arg ''ttl'' args) :: u32);
          mn = of_int (i64_arg ''min'' args);
          mx = of_int (i64_arg ''max'' args)
      in Inr (if ttl = 0 \<and> mn = 0 \<and> mx = 0 then ttl_new 300 0 0 else ttl_new ttl mn mx))"

definition u32_or_0 :: "string \<Rightarrow> u32" where
  "u32_or_0 s = (case parse_u32 s of Some v \<Rightarrow> v | None \<Rightarrow> 0)"

definition ttl_quick_setup :: "string \<Rightarrow> string \<Rightarrow> ttl_plugin result" where
  "ttl_quick_setup pfx exec_str =
     (if pfx \<noteq> ''ttl'' then Inl (bad_prefix pfx ''ttl'')
      else case split_once (CHR ''-'') exec_str of
        Some (l, u) \<Rightarrow> Inr (ttl_new 0 (u32_or_0 l) (u32_or_0 u))
      | None \<Rightarrow> Inr (ttl_new (u32_or_0 exec_str) 0 0))"

section \<open>Marks\<close>

record mark_plugin =
  mp_name :: string
  mp_value :: "string option"

definition mark_execute :: "mark_plugin \<Rightarrow> ctx \<Rightarrow> error option \<times> ctx" where
  "mark_execute p c =
     (None, set_metadata (mp_name p) (case mp_value p of Some v \<Rightarrow> MString v | None \<Rightarrow> MBool True) c)"

definition mark_init :: "plugin_config \<Rightarrow> mark_plugin result" where
  "mark_init config =
     (let args = effective_args config in
      case args ''name'' of
        Some (YString name) \<Rightarrow>
          (case args ''value'' of
             Some (YString v) \<Rightarrow> Inr \<lparr>mp_name = name, mp_value = Some v\<rparr>
           | Some _ \<Rightarrow> Inl (Config ''mark value must be a string'')
           | None \<Rightarrow> Inr \<lparr>mp_name = name, mp_value = None\<rparr>)
      | Some _ \<Rightarrow> Inl (Config ''mark name must be a string'')
      | None \<Rightarrow> Inl (Config ''mark name is required''))"

definition mark_quick_setup :: "string \<Rightarrow> string \<Rightarrow> mark_plugin result" where
  "mark_quick_setup pfx exec_str =
     (if pfx \<noteq> ''mark'' then Inl (bad_prefix pfx ''mark'')
      else case split_whitespace exec_str of
        [] \<Rightarrow> Inl (Config ''mark exec requires at least a key name'')
      | name # rest \<Rightarrow>
          Inr \<lparr>mp_name = name, mp_value = (if rest = [] then None else Some (spaced rest))\<rparr>)"

section \<open>Dropping the response\<close>

definition drop_resp_execute :: "ctx \<Rightarrow> error option \<times> ctx" where
  "drop_resp_execute c = (None, ctx_set_response None c)"

definition drop_resp_quick_setup :: "string \<Rightarrow> string \<Rightarrow> unit result" where
  "drop_resp_quick_setup pfx exec_str =
     (if pfx \<noteq> ''drop_resp'' then Inl (bad_prefix pfx ''drop_resp'') else Inr ())"

section \<open>Black hole\<close>

record blackhole =
  bh_ipv4 :: "ipv4 list"
  bh_ipv6 :: "ipv6 list"

fun add_blackhole_ips :: "string list \<Rightarrow> blackhole \<Rightarrow> blackhole result" where
  "add_blackhole_ips [] p = Inr p"
| "add_blackhole_ips (s # ss) p =
     (case parse_ipv4 s of
        Some a \<Rightarrow> add_blackhole_ips ss (p\<lparr>bh_ipv4 := bh_ipv4 p @ [a]\<rparr>)
      | None \<Rightarrow>
          (case parse_ipv6 s of
             Some a \<Rightarrow> add_blackhole_ips ss (p\<lparr>bh_ipv6 := bh_ipv6 p @ [a]\<rparr>)
           | None \<Rightarrow> Inl (InvalidAddress s)))"

definition blackhole_new :: "string list \<Rightarrow> blackhole result" where
  "blackhole_new ips = add_blackhole_ips ips \<lparr>bh_ipv4 = [], bh_ipv6 = []\<rparr>"

definition sink_response :: "message \<Rightarrow> question \<Rightarrow> record_type \<Rightarrow> rdata list \<Rightarrow> message" where
  "sink_response req q t ds =
     fold (\<lambda>d. add_answer (rr_new (qname q) t CL_IN 300 d)) ds
       (add_question q (set_response True (set_id (msg_id req) message_new)))"

definition make_response_for_a :: "blackhole \<Rightarrow> message \<Rightarrow> message option" where
  "make_response_for_a p req =
     (if question_count req \<noteq> 1 \<or> bh_ipv4 p = [] then None
      else let q = msg_questions req ! 0 in
        if qtype q \<noteq> RT_A then None else Some (sink_response req q RT_A (map RD_A (bh_ipv4 p))))"

definition make_response_for_aaaa :: "blackhole \<Rightarrow> message \<Rightarrow> message option" where
  "make_response_for_aaaa p req =
     (if question_count req \<noteq> 1 \<or> bh_ipv6 p = [] then None
      else let q = msg_questions req ! 0 in
        if qtype q \<noteq> RT_AAAA then None else Some (sink_response req q RT_AAAA (map RD_AAAA (bh_ipv6 p))))"

definition blackhole_execute :: "blackhole \<Rightarrow> ctx \<Rightarrow> error option \<times> ctx" where
  "blackhole_execute p c =
     (case (case make_response_for_a p (request c) of
              Some r \<Rightarrow> Some r | None \<Rightarrow> make_response_for_aaaa p (request c)) of
        Some r \<Rightarrow> (None, ctx_set_response (Some r) c)
      | None \<Rightarrow> (None, c))"

definition blackhole_aliases :: "string list" where
  "blackhole_aliases = [''sinkhole'', ''black_hole'', ''null_dns'']"

definition blackhole_init :: "plugin_config \<Rightarrow> blackhole result" where
  "blackhole_init config =
     blackhole_new (case effective_args config ''ips'' of Some (YSequence seq) \<Rightarrow> str_items seq | _ \<Rightarrow> [])"

definition blackhole_quick_setup :: "string \<Rightarrow> string \<Rightarrow> blackhole result" where
  "blackhole_quick_setup pfx exec_str =
     (if pfx \<noteq> ''blackhole'' \<and> pfx \<notin> set blackhole_aliases
      then Inl (Config (''ExecPlugin quick_setup: unsupported prefix '' @ [CHR 0x27] @ pfx @ [CHR 0x27] @
        '', expected one of ['' @ quoted ''sinkhole'' @ '', '' @ quoted ''black_hole'' @ '', '' @ quoted ''null_dns'' @ '']''))
      else blackhole_new (filter (\<lambda>s. s \<noteq> []) (map trim (split_on (CHR '','') exec_str))))"

section \<open>Redirection\<close>

record redirect_rule =
  rd_from :: string
  rd_to :: string

definition redirect_matches :: "redirect_rule \<Rightarrow> string \<Rightarrow> bool" where
  "redirect_matches r name =
     (let from_lower = to_lowercase (rd_from r); qname_lower = to_lowercase name in
      case strip_prefix ''*.'' from_lower of
        Some sfx \<Rightarrow> qname_lower = sfx \<or> ends_with (''.'' @ sfx) qname_lower
      | None \<Rightarrow> qname_lower = from_lower)"

definition redirect_apply :: "redirect_rule \<Rightarrow> string \<Rightarrow> string" where
  "redirect_apply r name =
     (let from_lower = to_lowercase (rd_from r); qname_lower = to_lowercase name; to_lower = to_lowercase (rd_to r) in
      case (strip_prefix ''*.'' from_lower, strip_prefix ''*.'' to_lower) of
        (Some from_suffix, Some to_suffix) \<Rightarrow>
          (case strip_suffix from_suffix qname_lower of
             Some pfx \<Rightarrow>
               (if ends_with ''.'' pfx \<and> starts_with ''.'' to_suffix then butlast pfx else pfx) @ to_suffix
           | None \<Rightarrow> rd_to r)
      | _ \<Rightarrow> rd_to r)"

definition redirect_execute :: "redirect_rule list \<Rightarrow> ctx \<Rightarrow> error option \<times> ctx" where
  "redirect_execute rules c =
     (case msg_questions (request c) of
        q # qs \<Rightarrow>
          (case find (\<lambda>r. redirect_matches r (qname q)) rules of
             Some r \<Rightarrow>
               (None, c\<lparr>request := (request c)\<lparr>msg_questions := set_qname (redirect_apply r (qname q)) q # qs\<rparr>\<rparr>)
           | None \<Rightarrow> (None, c))
      | [] \<Rightarrow> (None, c))"

text \<open>\<open>show\<close> is the \<^verbatim>\<open>Debug\<close> text of a YAML value.\<close>

definition redirect_entry :: "(yaml \<Rightarrow> string) \<Rightarrow> yaml \<Rightarrow> redirect_rule result" where
  "redirect_entry show v =
     (case v of
        YString s \<Rightarrow>
          (case split_whitespace s of
             [f, t] \<Rightarrow> Inr \<lparr>rd_from = f, rd_to = t\<rparr>
           | _ \<Rightarrow> Inl (Config (''redirect rule must be 'from to', got: '' @ s)))
      | YMapping m \<Rightarrow>
          (case Option.bind (map_of m (YString ''from'')) as_str of
             None \<Rightarrow> Inl (Config (''redirect rule missing 'from'' @ [CHR 0x27]))
           | Some f \<Rightarrow>
               (case Option.bind (map_of m (YString ''to'')) as_str of
                  None \<Rightarrow> Inl (Config (''redirect rule missing 'to'' @ [CHR 0x27]))
                | Some t \<Rightarrow> Inr \<lparr>rd_from = f, rd_to = t\<rparr>))
      | other \<Rightarrow> Inl (Config (''unsupported redirect rule format: '' @ show other)))"

fun redirect_entries :: "(yaml \<Rightarrow> string) \<Rightarrow> yaml list \<Rightarrow> redirect_rule list result" where
  "redirect_entries show [] = Inr []"
| "redirect_entries show (v # vs) =
     (case redirect_entry show v of
        Inl e \<Rightarrow> Inl e
      | Inr r \<Rightarrow> map_sum id ((#) r) (redirect_entries show vs))"

definition redirect_init :: "(yaml \<Rightarrow> string) \<Rightarrow> plugin_config \<Rightarrow> redirect_rule list result" where
  "redirect_init show config =
     (case effective_args config ''rules'' of
        Some (YSequence seq) \<Rightarrow>
          if seq = [] then Inl (Config ''redirect requires at least one rule'') else redirect_entries show seq
      | _ \<Rightarrow> Inl (Config ''redirect plugin requires 'rules' array''))"

section \<open>Selecting an address family\<close>

datatype ip_preference = IPv4 | IPv6 | IPv4PreferIPv6Fallback | IPv6PreferIPv4Fallback | Both

definition select_answers :: "ip_preference \<Rightarrow> resource_record list \<Rightarrow> resource_record list" where
  "select_answers pref as =
     (let has_ipv4 = (\<exists>r \<in> set as. rr_rtype r = RT_A); has_ipv6 = (\<exists>r \<in> set as. rr_rtype r = RT_AAAA) in
      case pref of
        IPv4 \<Rightarrow> filter (\<lambda>r. rr_rtype r \<noteq> RT_AAAA) as
      | IPv6 \<Rightarrow> filter (\<lambda>r. rr_rtype r \<noteq> RT_A) as
      | IPv4PreferIPv6Fallback \<Rightarrow> if has_ipv4 then filter (\<lambda>r. rr_rtype r \<noteq> RT_AAAA) as else as
      | IPv6PreferIPv4Fallback \<Rightarrow> if has_ipv6 then filter (\<lambda>r. rr_rtype r \<noteq> RT_A) as else as
      | Both \<Rightarrow> as)"

definition dual_selector_execute :: "ip_preference \<Rightarrow> ctx \<Rightarrow> error option \<times> ctx" where
  "dual_selector_execute pref c =
     (None, update_response (\<lambda>r. r\<lparr>msg_answers := select_answers pref (msg_answers r)\<rparr>) c)"

definition dual_selector_init :: "plugin_config \<Rightarrow> ip_preference result" where
  "dual_selector_init config =
     (let s = (case arg_str ''preference'' (effective_args config) of Some s \<Rightarrow> s | None \<Rightarrow> ''both'');
          s = map (\<lambda>ch. if ch = CHR ''-'' then CHR ''_'' else ch) (to_lowercase s)
      in if s = ''ipv4'' then Inr IPv4
         else if s = ''ipv6'' then Inr IPv6
         else if s = ''ipv4_prefer_ipv6_fallback'' \<or> s = ''ipv4_prefer_ipv6'' then Inr IPv4PreferIPv6Fallback
         else if s = ''ipv6_prefer_ipv4_fallback'' \<or> s = ''ipv6_prefer_ipv4'' then Inr IPv6PreferIPv4Fallback
         else if s = ''both'' then Inr Both
         else Inl (Config (''dual_selector: unknown preference '' @ [CHR 0x27] @ s @ [CHR 0x27])))"

section \<open>Query summary\<close>

definition query_summary_execute :: "string \<Rightarrow> ctx \<Rightarrow> error option \<times> ctx" where
  "query_summary_execute key c =
     (let parts = map (\<lambda>q. spaced [qname q, record_class_fmt (qclass q), record_type_fmt (qtype q)])
                    (msg_questions (request c));
          joined = concat (case parts of [] \<Rightarrow> [] | p # ps \<Rightarrow> p # map (\<lambda>x. ''; '' @ x) ps)
      in (None, set_metadata key (MString joined) c))"

definition query_summary_quick_setup :: "string \<Rightarrow> string \<Rightarrow> string result" where
  "query_summary_quick_setup pfx exec_str =
     (if pfx \<noteq> ''query_summary'' then Inl (bad_prefix pfx ''query_summary'')
      else let key = trim exec_str in
        if key = []
        then Inl (Config ''query_summary requires a metadata key (e.g., 'query_summary summary')'')
        else Inr key)"

section \<open>Client subnet\<close>

record ecs_args =
  ea_forward :: "bool option"
  ea_send :: "bool option"
  ea_preset :: "string option"
  ea_mask4 :: "u8 option"
  ea_mask6 :: "u8 option"

record ecs_plugin =
  ep_forward :: bool
  ep_send :: bool
  ep_preset :: "ip_addr option"
  ep_mask4 :: u8
  ep_mask6 :: u8

definition unwrap_or :: "'a \<Rightarrow> 'a option \<Rightarrow> 'a" where
  "unwrap_or d x = (case x of Some v \<Rightarrow> v | None \<Rightarrow> d)"

definition ecs_new :: "ecs_args \<Rightarrow> ecs_plugin result" where
  "ecs_new args =
     (let mask4 = unwrap_or 24 (ea_mask4 args); mask6 = unwrap_or 48 (ea_mask6 args);
          build = (\<lambda>preset. \<lparr>ep_forward = unwrap_or False (ea_forward args),
                             ep_send = unwrap_or False (ea_send args),
                             ep_preset = preset, ep_mask4 = mask4, ep_mask6 = mask6\<rparr>)
      in if mask4 > 32 \<or> mask6 > 128 then Inl (Other ''invalid mask'')
         else case ea_preset args of
           None \<Rightarrow> Inr (build None)
         | Some p \<Rightarrow>
             (case parse_ip p of
                Some ip \<Rightarrow> Inr (build (Some ip))
              | None \<Rightarrow> Inl (Other ''invalid preset addr: invalid IP address syntax'')))"

definition make_ecs_option :: "ip_addr \<Rightarrow> u8 \<Rightarrow> u8 \<Rightarrow> (u16 \<times> u8 list) option" where
  "make_ecs_option ip mask4 mask6 =
     (case ip of
        V4 a \<Rightarrow>
          (let src_mask = min mask4 32; nbytes = (unat src_mask + 7) div 8
           in Some (8, [0, 1] @ [src_mask] @ [0] @ take nbytes (v4_octets a)))
      | V6 a \<Rightarrow>
          (let src_mask = min mask6 128; nbytes = (unat src_mask + 7) div 8
           in Some (8, [0, 2] @ [src_mask] @ [0] @ take nbytes (v6_octets a))))"

definition set_edns0_options :: "(u16 \<times> u8 list) list \<Rightarrow> ctx \<Rightarrow> ctx" where
  "set_edns0_options opts c =
     set_metadata ''edns0_preserve_existing'' (MBool True)
       (set_metadata ''edns0_options'' (MOptions opts) c)"

definition ecs_execute :: "ecs_plugin \<Rightarrow> ctx \<Rightarrow> error option \<times> ctx" where
  "ecs_execute p c =
     (case (if ep_forward p then get_options ''client_edns0_options'' c else None) of
        Some opts \<Rightarrow> (None, set_edns0_options opts c)
      | None \<Rightarrow>
          (case ep_preset p of
             Some ip \<Rightarrow>
               (case make_ecs_option ip (ep_mask4 p) (ep_mask6 p) of
                  Some opt \<Rightarrow> (None, set_edns0_options [opt] c)
                | None \<Rightarrow> (None, c))
           | None \<Rightarrow>
               (case (if ep_send p then Option.bind (get_string ''client_addr'' c) parse_ip else None) of
                  Some ip \<Rightarrow>
                    (case make_ecs_option ip (ep_mask4 p) (ep_mask6 p) of
                       Some opt \<Rightarrow> (None, set_edns0_options [opt] c)
                     | None \<Rightarrow> (None, c))
                | None \<Rightarrow> (None, c))))"

definition parse_bool :: "string \<Rightarrow> bool option" where
  "parse_bool s = (if s = ''true'' then Some True else if s = ''false'' then Some False else None)"

definition in_quotes :: "string \<Rightarrow> string" where
  "in_quotes s = [CHR 0x27] @ s @ [CHR 0x27]"

definition ecs_option :: "string \<Rightarrow> string \<Rightarrow> ecs_args \<Rightarrow> ecs_args result" where
  "ecs_option key v args =
     (if key = ''forward'' then
        (case parse_bool v of
           Some b \<Rightarrow> Inr (args\<lparr>ea_forward := Some b\<rparr>)
         | None \<Rightarrow> Inl (Config (''Invalid boolean for forward: '' @ in_quotes v)))
      else if key = ''send'' then
        (case parse_bool v of
           Some b \<Rightarrow> Inr (args\<lparr>ea_send := Some b\<rparr>)
         | None \<Rightarrow> Inl (Config (''Invalid boolean for send: '' @ in_quotes v)))
      else if key = ''preset'' then Inr (args\<lparr>ea_preset := Some v\<rparr>)
      else if key = ''mask4'' then
        (case parse_u8 v of
           Some m \<Rightarrow> Inr (args\<lparr>ea_mask4 := Some m\<rparr>)
         | None \<Rightarrow> Inl (Config (''Invalid u8 for mask4: '' @ in_quotes v)))
      else if key = ''mask6'' then
        (case parse_u8 v of
           Some m \<Rightarrow> Inr (args\<lparr>ea_mask6 := Some m\<rparr>)
         | None \<Rightarrow> Inl (Config (''Invalid u8 for mask6: '' @ in_quotes v)))
      else Inl (Config (''Unknown option: '' @ in_quotes key)))"

fun ecs_options :: "string list \<Rightarrow> ecs_args \<Rightarrow> ecs_args result" where
  "ecs_options [] args = Inr args"
| "ecs_options (part # parts) args =
     (let part = trim part in
      if part = [] then ecs_options parts args
      else case split_once (CHR ''='') part of
        None \<Rightarrow> Inl (Config (''Invalid key=value pair: '' @ in_quotes part))
      | Some (k, v) \<Rightarrow>
          (case ecs_option (trim k) (trim v) args of
             Inl e \<Rightarrow> Inl e
           | Inr args \<Rightarrow> ecs_options parts args))"

definition ecs_quick_setup :: "string \<Rightarrow> string \<Rightarrow> ecs_plugin result" where
  "ecs_quick_setup pfx exec_str =
     (if pfx \<noteq> ''ecs'' then Inl (bad_prefix pfx ''ecs'')
      else case ecs_options (split_on (CHR '','') exec_str)
                  \<lparr>ea_forward = None, ea_send = None, ea_preset = None, ea_mask4 = None, ea_mask6 = None\<rparr> of
        Inl e \<Rightarrow> Inl e
      | Inr args \<Rightarrow> ecs_new args)"

section \<open>EDNS0 options\<close>

record edns0_plugin =
  eo_options :: "(u16 \<times> u8 list) list"
  eo_preserve :: bool

definition edns0_new :: edns0_plugin where
  "edns0_new = \<lparr>eo_options = [], eo_preserve = True\<rparr>"

definition edns0_entry :: "yaml \<Rightarrow> (u16 \<times> u8 list) option" where
  "edns0_entry v =
     (case v of
        YMapping m \<Rightarrow>
          (case (map_of m (YString ''code''), map_of m (YString ''data'')) of
             (Some (YNumber n), Some (YSequence ds)) \<Rightarrow>
               Some (ucast (unwrap_or 0 (as_u64 n)),
                     List.map_filter (\<lambda>d. case d of YNumber k \<Rightarrow> map_option ucast (as_u64 k) | _ \<Rightarrow> None) ds)
           | _ \<Rightarrow> None)
      | _ \<Rightarrow> None)"

definition edns0_init :: "plugin_config \<Rightarrow> edns0_plugin result" where
  "edns0_init config =
     (let args = effective_args config;
          opts = (case args ''options'' of Some (YSequence seq) \<Rightarrow> List.map_filter edns0_entry seq | _ \<Rightarrow> []);
          preserve = (case args ''preserve_existing'' of Some (YBool b) \<Rightarrow> b | _ \<Rightarrow> True)
      in Inr \<lparr>eo_options = opts, eo_preserve = preserve\<rparr>)"

definition edns0_execute :: "edns0_plugin \<Rightarrow> ctx \<Rightarrow> error option \<times> ctx" where
  "edns0_execute p c =
     (if eo_options p \<noteq> []
      then (None, set_metadata ''edns0_preserve_existing'' (MBool (eo_preserve p))
                    (set_metadata ''edns0_options'' (MEdns0 (eo_options p)) c))
      else (None, c))"

section \<open>What the executables guarantee\<close>

lemma new_ttl_bounds:
  assumes "tp_fix p = 0" and "tp_max p = 0 \<or> tp_min p \<le> tp_max p"
  shows "tp_min p \<le> new_ttl p t" and "tp_max p > 0 \<Longrightarrow> new_ttl p t \<le> tp_max p"
  using assms by (auto simp: new_ttl_def Let_def word_gt_0 not_less)

lemma ttl_execute_spec:
  "fst (ttl_execute p c) = None"
  "response c = Some m \<Longrightarrow> \<exists>m'. response (snd (ttl_execute p c)) = Some m' \<and>
     map rr_ttl (records m') = map (new_ttl p \<circ> rr_ttl) (records m)"
  by (auto simp: ttl_execute_def)

lemma redirect_matches_wildcard:
  "redirect_matches \<lparr>rd_from = ''*.'' @ d, rd_to = t\<rparr> n \<longleftrightarrow>
     to_lowercase n = to_lowercase d \<or> ends_with (''.'' @ to_lowercase d) (to_lowercase n)"
  by (simp add: redirect_matches_def strip_prefix_def to_lowercase_def lower_char_def Let_def)

text \<open>
  The rules are compared as they are written: one without a final dot does not apply to a name
  that has one.
\<close>

lemma redirect_misses_rooted_name:
  assumes "rd_from r = d @ [x]" and "x \<noteq> CHR ''.''" and "name = n @ ''.''"
  shows "\<not> redirect_matches r name"
proof -
  have x: "lower_char x \<noteq> CHR ''.''" "CHR ''.'' \<noteq> lower_char x" using assms(2) by (simp, metis lower_char_eq_dot)
  have low: "to_lowercase (rd_from r) = to_lowercase d @ [lower_char x]" "to_lowercase name = to_lowercase n @ ''.''"
    using assms(1,3) by (simp_all add: to_lowercase_def lower_char_def)
  show ?thesis
  proof (cases "strip_prefix ''*.'' (to_lowercase (rd_from r))")
    case None
    with low x show ?thesis by (simp add: redirect_matches_def)
  next
    case (Some sfx)
    then have "to_lowercase d @ [lower_char x] = ''*.'' @ sfx"
      using low(1) by (simp add: strip_prefix_Some_iff)
    then obtain u where u: "sfx = u @ [lower_char x]"
      using x by (cases sfx rule: rev_cases) (auto simp: append_eq_Cons_conv)
    have "\<not> ends_with (''.'' @ sfx) (to_lowercase name)" "to_lowercase name \<noteq> sfx"
      using low(2) x u by (auto simp: ends_with_iff simp flip: append_assoc)
    with Some show ?thesis by (simp add: redirect_matches_def)
  qed
qed

lemma redirect_first_match:
  assumes "msg_questions (request c) = q # qs" and "\<forall>r \<in> set pre. \<not> redirect_matches r (qname q)"
    and "redirect_matches r (qname q)"
  shows "msg_questions (request (snd (redirect_execute (pre @ r # post) c))) =
    set_qname (redirect_apply r (qname q)) q # qs"
proof -
  have "find (\<lambda>r. redirect_matches r (qname q)) (pre @ r # post) = Some r"
    using assms(2,3) by (induction pre) auto
  with assms(1) show ?thesis by (simp add: redirect_execute_def)
qed

lemma select_answers_subseq: "set (select_answers pref as) \<subseteq> set as"
  by (auto simp: select_answers_def Let_def split: ip_preference.splits)

lemma select_answers_keeps_some:
  assumes "\<exists>r \<in> set as. rr_rtype r = RT_A \<or> rr_rtype r = RT_AAAA"
    and "pref = IPv4PreferIPv6Fallback \<or> pref = IPv6PreferIPv4Fallback \<or> pref = Both"
  shows "\<exists>r \<in> set (select_answers pref as). rr_rtype r = RT_A \<or> rr_rtype r = RT_AAAA"
  using assms by (auto simp: select_answers_def Let_def)

lemma blackhole_answers:
  assumes "make_response_for_a p req = Some r"
  shows "msg_id r = msg_id req" and "map rr_rdata (msg_answers r) = map RD_A (bh_ipv4 p)"
proof -
  have ans: "map rr_rdata (msg_answers (fold (\<lambda>d. add_answer (rr_new n t CL_IN 300 d)) ds m)) =
      map rr_rdata (msg_answers m) @ ds \<and>
      msg_id (fold (\<lambda>d. add_answer (rr_new n t CL_IN 300 d)) ds m) = msg_id m" for n t ds m
    by (induction ds arbitrary: m) (simp_all add: add_answer_def rr_new_def)
  from assms have r: "r = sink_response req (msg_questions req ! 0) RT_A (map RD_A (bh_ipv4 p))"
    by (auto simp: make_response_for_a_def Let_def split: if_splits)
  show "msg_id r = msg_id req" "map rr_rdata (msg_answers r) = map RD_A (bh_ipv4 p)"
    unfolding r sink_response_def by (simp_all add: ans message_new_def add_question_def set_id_def set_response_def)
qed

text \<open>
  The servers store the peer as a socket address, so \<^verbatim>\<open>send\<close>, which reads the metadata as a
  string, attaches nothing.
\<close>

lemma ecs_send_ignores_socket_address:
  assumes "metadata c ''client_addr'' = Some (MSockAddr a)" and "ep_preset p = None" and "\<not> ep_forward p"
  shows "ecs_execute p c = (None, c)"
  using assms by (simp add: ecs_execute_def get_string_def)

lemma make_ecs_option_shape:
  "\<exists>bs. make_ecs_option (V4 a) m4 m6 = Some (8, [0, 1, min m4 32, 0] @ bs) \<and>
     length bs = (unat (min m4 32) + 7) div 8"
proof -
  have "unat (min m4 32) \<le> 32" by (simp add: min_def word_le_nat_alt)
  then show ?thesis by (simp add: make_ecs_option_def Let_def)
qed

text \<open>The subnet option carries whole octets: the bits of the last one below the mask are the
  client's own.\<close>

lemma ecs_option_leaks_host_bits:
  "make_ecs_option (V4 (v4_new 10 1 2 255)) 25 48 = Some (8, [0, 1, 25, 0, 10, 1, 2, 255])"
  by (simp add: make_ecs_option_def Let_def)

end
