(* ===== verification/Reverse_Lookup.thy ===== *)
theory Reverse_Lookup
  imports Pipeline Config_Value "HOL-Library.AList"
begin

text \<open>
  The reverse-lookup plugin, \<^verbatim>\<open>src/src/plugins/executable/reverse_lookup.rs\<close>: it remembers the
  query name behind every address it sees in a response and answers PTR queries from that table.
  The concurrent map is an association list; instants are nanoseconds.
\<close>

record reverse_lookup =
  rv_cache :: "(string \<times> string \<times> nat) list"
  rv_handle_ptr :: bool
  rv_ttl :: u32

definition reverse_new :: "bool \<Rightarrow> u32 \<Rightarrow> reverse_lookup" where
  "reverse_new handle_ptr ttl = \<lparr>rv_cache = [], rv_handle_ptr = handle_ptr, rv_ttl = ttl\<rparr>"

definition reverse_default :: reverse_lookup where
  "reverse_default = reverse_new True 7200"

text \<open>\<^verbatim>\<open>u8::from_str_radix(_, 16)\<close> on two characters: a leading plus sign is accepted.\<close>

definition hex_pair :: "char \<Rightarrow> char \<Rightarrow> u8 option" where
  "hex_pair a b =
     (if a = CHR ''+'' then map_option of_nat (hex_val b)
      else case (hex_val a, hex_val b) of
        (Some x, Some y) \<Rightarrow> Some (of_nat (16 * x + y))
      | _ \<Rightarrow> None)"

fun hex_bytes :: "string \<Rightarrow> u8 list option" where
  "hex_bytes (a # b # rest) =
     (case hex_pair a b of
        None \<Rightarrow> None
      | Some v \<Rightarrow> map_option ((#) v) (hex_bytes rest))"
| "hex_bytes _ = Some []"

definition parse_ptr :: "string \<Rightarrow> ip_addr option" where
  "parse_ptr name =
     (let s = to_lowercase (trim_end_matches (CHR ''.'') name) in
      if ends_with ''.in-addr.arpa'' s then
        (let parts = split_on (CHR ''.'') (trim_end_matches (CHR ''.'') (trim_end_str ''.in-addr.arpa'' s))
         in if length parts = 4 then parse_ip (join_with (CHR ''.'') (rev parts)) else None)
      else if ends_with ''.ip6.arpa'' s then
        (let labels = split_on (CHR ''.'') (trim_end_matches (CHR ''.'') (trim_end_str ''.ip6.arpa'' s)) in
         if \<exists>l \<in> set labels. length l \<noteq> 1 then None
         else let hex = concat (rev labels);
                  hex = (if length hex mod 2 \<noteq> 0 then hex @ ''0'' else hex)
              in case hex_bytes hex of
                   Some bytes \<Rightarrow> if length bytes = 16 then Some (V6 (v6_from_octets bytes)) else None
                 | None \<Rightarrow> None)
      else None)"

definition reverse_get :: "nat \<Rightarrow> ip_addr \<Rightarrow> reverse_lookup \<Rightarrow> string option \<times> reverse_lookup" where
  "reverse_get now ip p =
     (let key = ip_to_string ip in
      case map_of (rv_cache p) key of
        None \<Rightarrow> (None, p)
      | Some (fqdn, expires_at) \<Rightarrow>
          if expires_at > now then (Some fqdn, p)
          else (None, p\<lparr>rv_cache := AList.delete key (rv_cache p)\<rparr>))"

fun answer_addr :: "rdata \<Rightarrow> ip_addr option" where
  "answer_addr (RD_A a) = Some (V4 a)"
| "answer_addr (RD_AAAA a) = Some (V6 a)"
| "answer_addr _ = None"

definition save_record :: "nat \<Rightarrow> message \<Rightarrow> u32 \<Rightarrow> resource_record \<Rightarrow>
    (string \<times> string \<times> nat) list \<Rightarrow> (string \<times> string \<times> nat) list" where
  "save_record now req max_ttl rr cache =
     (case answer_addr (rr_rdata rr) of
        None \<Rightarrow> cache
      | Some ip \<Rightarrow>
          (let ttl = min (rr_ttl rr) max_ttl;
               expires_at = now + unat ttl * 1000000000;
               name = (if question_count req = 1 then qname (msg_questions req ! 0) else rr_name rr)
           in AList.update (ip_to_string ip) (name, expires_at) cache))"

definition save_from_response :: "nat \<Rightarrow> message \<Rightarrow> message \<Rightarrow> reverse_lookup \<Rightarrow> reverse_lookup" where
  "save_from_response now req resp p =
     (if answer_count resp = 0 then p
      else p\<lparr>rv_cache := fold (save_record now req (rv_ttl p)) (msg_answers resp) (rv_cache p)\<rparr>)"

definition reverse_cleanup :: "nat \<Rightarrow> reverse_lookup \<Rightarrow> nat \<times> reverse_lookup" where
  "reverse_cleanup now p =
     (let kept = filter (\<lambda>(k, fqdn, expires_at). expires_at > now) (rv_cache p)
      in (length (rv_cache p) - length kept, p\<lparr>rv_cache := kept\<rparr>))"

definition reverse_init :: "plugin_config \<Rightarrow> reverse_lookup result" where
  "reverse_init config =
     (let args = effective_args config;
          handle_ptr = (case args ''handle_ptr'' of Some (YBool b) \<Rightarrow> b | _ \<Rightarrow> True);
          ttl = (case args ''ttl'' of
                   Some (YNumber n) \<Rightarrow> (case as_u64 n of Some u \<Rightarrow> ucast u | None \<Rightarrow> 7200)
                 | Some (YString s) \<Rightarrow> (case parse_u32 s of Some u \<Rightarrow> u | None \<Rightarrow> 7200)
                 | _ \<Rightarrow> 7200)
      in Inr (reverse_new handle_ptr ttl))"

definition ptr_response :: "message \<Rightarrow> question \<Rightarrow> string \<Rightarrow> message" where
  "ptr_response req q fqdn =
     add_answer (rr_new (qname q) RT_PTR CL_IN 5 (RD_PTR fqdn))
       (add_question q (set_response True (set_id (msg_id req) message_new)))"

definition reverse_execute :: "nat \<Rightarrow> reverse_lookup \<Rightarrow> ctx \<Rightarrow> error option \<times> ctx \<times> reverse_lookup" where
  "reverse_execute now p c =
     (if \<not> rv_handle_ptr p then (None, c, p)
      else case msg_questions (request c) of
        [] \<Rightarrow> (None, c, p)
      | q # _ \<Rightarrow>
          if qtype q \<noteq> RT_PTR then (None, c, p)
          else case parse_ptr (qname q) of
            None \<Rightarrow> (None, c, p)
          | Some ip \<Rightarrow>
              (case reverse_get now ip p of
                 (None, p') \<Rightarrow> (None, c, p')
               | (Some fqdn, p') \<Rightarrow> (None, ctx_set_response (Some (ptr_response (request c) q fqdn)) c, p')))"

definition reverse_leaf :: "nat \<Rightarrow> reverse_lookup leaf" where
  "reverse_leaf now =
     \<lparr>leaf_name = ''reverse_lookup'',
      leaf_execute = (\<lambda>c p. reverse_execute now p c),
      leaf_save_ips_after = Some (save_from_response now)\<rparr>"

section \<open>The table\<close>

definition reverse_inv :: "reverse_lookup \<Rightarrow> bool" where
  "reverse_inv p \<longleftrightarrow> distinct (map fst (rv_cache p))"

lemma reverse_inv_new [simp]: "reverse_inv (reverse_new b t)"
  by (simp add: reverse_inv_def reverse_new_def)

lemma save_record_distinct:
  "distinct (map fst cache) \<Longrightarrow> distinct (map fst (save_record now req t rr cache))"
  by (simp add: save_record_def Let_def distinct_update split: option.split)

lemma fold_save_distinct:
  "distinct (map fst cache) \<Longrightarrow> distinct (map fst (fold (save_record now req t) rrs cache))"
  by (induction rrs arbitrary: cache) (simp_all add: save_record_distinct)

lemma reverse_inv_save: "reverse_inv p \<Longrightarrow> reverse_inv (save_from_response now req resp p)"
  by (simp add: reverse_inv_def save_from_response_def fold_save_distinct)

lemma reverse_inv_get: "reverse_inv p \<Longrightarrow> reverse_inv (snd (reverse_get now ip p))"
  by (auto simp: reverse_inv_def reverse_get_def Let_def distinct_delete split: option.split prod.split)

lemma reverse_inv_cleanup: "reverse_inv p \<Longrightarrow> reverse_inv (snd (reverse_cleanup now p))"
  by (simp add: reverse_inv_def reverse_cleanup_def Let_def distinct_map_filter)

lemma reverse_inv_execute: "reverse_inv p \<Longrightarrow> reverse_inv (snd (snd (reverse_execute now p c)))"
  by (simp add: reverse_execute_def split: list.split option.split prod.split)
    (metis reverse_inv_get snd_conv)

text \<open>A lookup does not tell a swept table from an unswept one.\<close>

lemma map_of_filter_live:
  assumes "distinct (map fst xs)"
  shows "map_of (filter (\<lambda>(k, f, e). e > (now :: nat)) xs) key =
    (case map_of xs key of Some (f, e) \<Rightarrow> if e > now then Some (f, e) else None | None \<Rightarrow> None)"
  using assms
proof (induction xs)
  case Nil
  then show ?case by simp
next
  case (Cons x xs)
  have "k \<notin> fst ` set xs \<Longrightarrow> map_of (filter (\<lambda>(k, f, e). e > now) xs) k = None" for k
    by (auto simp: map_of_eq_None_iff)
  with Cons show ?case by (cases x) (auto split: option.splits)
qed

lemma cleanup_transparent:
  assumes "reverse_inv p" and "now \<le> now'"
  shows "fst (reverse_get now' ip (snd (reverse_cleanup now p))) = fst (reverse_get now' ip p)"
  using assms
  by (auto simp: reverse_get_def reverse_cleanup_def reverse_inv_def Let_def map_of_filter_live
      split: option.split prod.split)

section \<open>Reverse names\<close>

text \<open>The in-addr.arpa name of an address, as the codec hands it over.\<close>

definition ptr_name :: "ipv4 \<Rightarrow> string" where
  "ptr_name a = join_with (CHR ''.'') (rev (map (\<lambda>b. show_nat (unat b)) (v4_octets a))) @ ''.in-addr.arpa''"

lemma digit_not_dot: "digit_val ch \<noteq> None \<Longrightarrow> ch \<noteq> CHR ''.'' \<and> ch \<noteq> CHR '':'' \<and> ch \<noteq> CHR ''a'' \<and> lower_char ch = ch"
  by (auto simp: digit_val_def lower_char_def Let_def split: if_splits)

lemma join_chars: "set (join_with c ps) \<subseteq> insert c (\<Union> (set ` set ps))"
  by (induction c ps rule: join_with.induct) auto

lemma join_last:
  assumes "ps \<noteq> []" and "\<forall>p \<in> set ps. p \<noteq> []"
  shows "join_with c ps \<noteq> [] \<and> last (join_with c ps) = last (last ps)"
  using assms by (induction c ps rule: join_with.induct) auto

lemma parse_ptr_of_labels:
  assumes ps: "length ps = 4" "\<forall>p \<in> set ps. p \<noteq> [] \<and> (\<forall>ch \<in> set p. digit_val ch \<noteq> None)"
  shows "parse_ptr (join_with (CHR ''.'') ps @ ''.in-addr.arpa'') = parse_ip (join_with (CHR ''.'') (rev ps))"
proof -
  define j where "j = join_with (CHR ''.'') ps"
  have ne: "ps \<noteq> []" using ps(1) by auto
  have low: "to_lowercase j = j"
    using ps(2) join_chars [of "CHR ''.''" ps] digit_not_dot
    unfolding j_def to_lowercase_def by (intro map_idI) (auto simp: lower_char_def)
  have last: "j \<noteq> []" "digit_val (last j) \<noteq> None"
    using join_last [OF ne, of "CHR ''.''"] ps(2) last_in_set [OF ne] unfolding j_def by auto
  then have noend: "\<not> ends_with ''.in-addr.arpa'' j"
    by (auto simp: ends_with_iff digit_val_def)
  have nodot: "trim_end_matches (CHR ''.'') j = j"
    using last digit_not_dot by (cases j rule: rev_cases) (auto simp: trim_end_matches_def)
  have s: "to_lowercase (trim_end_matches (CHR ''.'') (j @ ''.in-addr.arpa'')) = j @ ''.in-addr.arpa''"
    by (simp add: trim_end_matches_def to_lowercase_def lower_char_def low [unfolded to_lowercase_def])
  have parts: "split_on (CHR ''.'') j = ps"
    unfolding j_def using ne ps(2) digit_not_dot by (intro split_join) blast+
  show ?thesis
    unfolding j_def [symmetric] parse_ptr_def s Let_def
    using ps(1) by (simp add: trim_end_str_once [OF noend] nodot parts ends_with_iff)
qed

lemma parse_ptr_name [simp]: "parse_ptr (ptr_name a) = Some (V4 a)"
proof -
  have "parse_ptr (ptr_name a) = parse_ip (v4_to_string a)"
    unfolding ptr_name_def v4_to_string_def
    by (subst parse_ptr_of_labels) (auto dest: show_nat_digits)
  then show ?thesis by simp
qed

text \<open>
  An \<^verbatim>\<open>ip6.arpa\<close> name needs 32 nibbles, yet one with 31 is read as if the last were zero, and a plus
  sign passes for a leading zero nibble.
\<close>

lemma parse_ptr_short_v6:
  "parse_ptr (concat (replicate 31 ''1.'') @ ''ip6.arpa'') = Some (V6 0x11111111111111111111111111111110)"
  by code_simp

lemma parse_ptr_plus_v6:
  "parse_ptr (concat (replicate 31 ''1.'') @ ''+.ip6.arpa'') = Some (V6 0x01111111111111111111111111111111)"
  by code_simp

section \<open>Remembering and answering\<close>

lemma join_has_sep: "length ps \<ge> 2 \<Longrightarrow> c \<in> set (join_with c ps)"
  by (induction c ps rule: join_with.induct) auto

lemma colon_in_v6: "CHR '':'' \<in> set (v6_to_string b)"
proof -
  have "length (v6_segments b) = 8" by (simp add: v6_segments_def)
  then show ?thesis
    by (cases "zero_run 0 (0, 0) (0, 0) (v6_segments b)")
      (auto simp: v6_to_string_def Let_def hex_groups_def intro!: join_has_sep)
qed

lemma v4_not_v6: "v4_to_string a \<noteq> v6_to_string b"
proof -
  have "CHR '':'' \<notin> set (v4_to_string a)"
    using join_chars [of "CHR ''.''" "map (\<lambda>b. show_nat (unat b)) (v4_octets a)"] show_nat_digits digit_not_dot
    unfolding v4_to_string_def by fastforce
  then show ?thesis using colon_in_v6 [of b] by metis
qed

lemma v4_key_inject: "ip_to_string ip = v4_to_string a \<longleftrightarrow> ip = V4 a"
  by (cases ip) (auto simp: v4_not_v6 dest: sym)

lemma save_record_other:
  assumes "answer_addr (rr_rdata rr) \<noteq> Some (V4 a)"
  shows "map_of (save_record now req t rr cache) (v4_to_string a) = map_of cache (v4_to_string a)"
proof (cases "answer_addr (rr_rdata rr)")
  case None
  then show ?thesis by (simp add: save_record_def)
next
  case (Some ip)
  with assms have "ip_to_string ip \<noteq> v4_to_string a" by (simp add: v4_key_inject)
  with Some show ?thesis by (simp add: save_record_def Let_def update_conv')
qed

lemma save_records_other:
  assumes "\<forall>rr \<in> set rrs. answer_addr (rr_rdata rr) \<noteq> Some (V4 a)"
  shows "map_of (fold (save_record now req t) rrs cache) (v4_to_string a) = map_of cache (v4_to_string a)"
  using assms by (induction rrs arbitrary: cache) (simp_all add: save_record_other)

lemma saved_entry:
  assumes "msg_questions req = [q]" and "msg_answers resp = pre @ rr # post" and "rr_rdata rr = RD_A a"
    and "\<forall>r \<in> set post. rr_rdata r \<noteq> RD_A a"
  shows "map_of (rv_cache (save_from_response now req resp p)) (v4_to_string a) =
    Some (qname q, now + unat (min (rr_ttl rr) (rv_ttl p)) * 1000000000)"
proof -
  have "\<forall>r \<in> set post. answer_addr (rr_rdata r) \<noteq> Some (V4 a)"
  proof
    fix r assume "r \<in> set post"
    with assms(4) show "answer_addr (rr_rdata r) \<noteq> Some (V4 a)" by (cases "rr_rdata r") auto
  qed
  with assms(1-3) show ?thesis
    by (simp add: save_from_response_def answer_count_def save_records_other)
      (simp add: save_record_def Let_def update_conv' question_count_def)
qed

text \<open>
  C24: A name that was answered with an address is the answer to the PTR query for that address, in a
  plugin that is configured to handle PTR queries (\<^verbatim>\<open>handle_ptr\<close>, on by default): after the plugin
  has seen a response to a one-question request, whose last record for the IPv4 address has some
  TTL, a PTR query for the address's \<^verbatim>\<open>in-addr.arpa\<close> name is answered with the query name as long
  as the smaller of that TTL and the configured one has not passed, and from then on not at all.
\<close>

theorem reverse_round_trip:
  assumes "msg_questions req = [q]" and "msg_answers resp = pre @ rr # post" and "rr_rdata rr = RD_A a"
    and "\<forall>r \<in> set post. rr_rdata r \<noteq> RD_A a"
    and "rv_handle_ptr p" and "msg_questions (request c) = [pq]"
    and "qname pq = ptr_name a" and "qtype pq = RT_PTR"
  shows "reverse_execute t (save_from_response now req resp p) c =
    (if t < now + unat (min (rr_ttl rr) (rv_ttl p)) * 1000000000
     then (None, ctx_set_response (Some (ptr_response (request c) pq (qname q))) c,
           save_from_response now req resp p)
     else (None, c, (save_from_response now req resp p)
             \<lparr>rv_cache := AList.delete (v4_to_string a) (rv_cache (save_from_response now req resp p))\<rparr>))"
proof -
  have "rv_handle_ptr (save_from_response now req resp p)"
    using assms(5) by (simp add: save_from_response_def)
  with saved_entry [OF assms(1-4), of now p] assms(6-8) show ?thesis
    by (simp add: reverse_execute_def reverse_get_def Let_def)
qed

theorem reverse_round_trip_witness:
  "let a = v4_new 192 0 2 7;
       q = question_new ''example.org.'' RT_A CL_IN;
       rr = rr_new ''example.org.'' RT_A CL_IN 60 (RD_A a);
       pq = question_new (ptr_name a) RT_PTR CL_IN;
       req = add_question q message_new;
       resp = add_answer rr req;
       c = context_new (add_question pq message_new)
   in response (fst (snd (reverse_execute 59000000000 (save_from_response 0 req resp reverse_default) c))) =
        Some (ptr_response (request c) pq ''example.org.'') \<and>
      fst (snd (reverse_execute 60000000000 (save_from_response 0 req resp reverse_default) c)) = c"
proof -
  define a :: ipv4 where "a = v4_new 192 0 2 7"
  define q where "q = question_new ''example.org.'' RT_A CL_IN"
  define rr where "rr = rr_new ''example.org.'' RT_A CL_IN 60 (RD_A a)"
  define pq where "pq = question_new (ptr_name a) RT_PTR CL_IN"
  define req where "req = add_question q message_new"
  define resp where "resp = add_answer rr req"
  define c where "c = context_new (add_question pq message_new)"
  have "msg_questions req = [q]" "msg_answers resp = [] @ rr # []" "rr_rdata rr = RD_A a"
    "msg_questions (request c) = [pq]" "qname pq = ptr_name a" "qtype pq = RT_PTR"
    "rr_ttl rr = 60" "qname q = ''example.org.''"
    by (simp_all add: req_def resp_def rr_def c_def pq_def q_def add_question_def add_answer_def
        message_new_def rr_new_def question_new_def context_new_def)
  note rt = reverse_round_trip [OF this(1,2,3) _ _ this(4,5,6), of reverse_default _ 0, unfolded this(7,8)]
  have "response (fst (snd (reverse_execute 59000000000 (save_from_response 0 req resp reverse_default) c))) =
      Some (ptr_response (request c) pq ''example.org.'')"
    "fst (snd (reverse_execute 60000000000 (save_from_response 0 req resp reverse_default) c)) = c"
    by (subst rt; simp add: reverse_default_def reverse_new_def ctx_set_response_def)+
  then show ?thesis
    unfolding Let_def a_def [symmetric] q_def [symmetric] rr_def [symmetric] pq_def [symmetric]
      req_def [symmetric] resp_def [symmetric] c_def [symmetric] by simp
qed

end
