(* ===== verification/Disk.thy ===== *)
theory Disk
  imports Prelude
begin

text \<open>
  The file system seen by the code that writes files: a map from paths to contents with a script of
  faults. Each operation consumes one entry of the script and fails where it says so, a write after
  some of its bytes.
\<close>

section \<open>The disk\<close>

record disk =
  dk_files :: "string \<rightharpoonup> u8 list"
  dk_faults :: "(error \<times> nat) option list"

type_synonym io = "disk \<Rightarrow> error option \<times> disk"

definition next_fault :: "disk \<Rightarrow> (error \<times> nat) option \<times> disk" where
  "next_fault d = (case dk_faults d of [] \<Rightarrow> (None, d) | f # fs \<Rightarrow> (f, d\<lparr>dk_faults := fs\<rparr>))"

definition io_step :: "(disk \<Rightarrow> disk) \<Rightarrow> (nat \<Rightarrow> disk \<Rightarrow> disk) \<Rightarrow> io" where
  "io_step finish partial d =
     (case next_fault d of (None, d) \<Rightarrow> (None, finish d) | (Some (e, k), d) \<Rightarrow> (Some e, partial k d))"

definition append_to :: "string \<Rightarrow> u8 list \<Rightarrow> disk \<Rightarrow> disk" where
  "append_to p bs d =
     d\<lparr>dk_files := (dk_files d)(p \<mapsto> (case dk_files d p of Some old \<Rightarrow> old @ bs | None \<Rightarrow> bs))\<rparr>"

definition create_dir_all :: io where
  "create_dir_all = io_step id (\<lambda>_. id)"

definition create_file :: "string \<Rightarrow> io" where
  "create_file p = io_step (\<lambda>d. d\<lparr>dk_files := (dk_files d)(p \<mapsto> [])\<rparr>) (\<lambda>_. id)"

definition write_all :: "string \<Rightarrow> u8 list \<Rightarrow> io" where
  "write_all p bs = io_step (append_to p bs) (\<lambda>k. append_to p (take k bs))"

definition flush_file :: io where
  "flush_file = io_step id (\<lambda>_. id)"

definition rename_file :: "string \<Rightarrow> string \<Rightarrow> io" where
  "rename_file p q =
     io_step (\<lambda>d. if p = q then d else d\<lparr>dk_files := (dk_files d)(q := dk_files d p, p := None)\<rparr>) (\<lambda>_. id)"

definition seq_io :: "io \<Rightarrow> io \<Rightarrow> io" where
  "seq_io f g d = (case f d of (None, d) \<Rightarrow> g d | (Some e, d) \<Rightarrow> (Some e, d))"

end
