(* ===== verification/Cache_Persistence.thy ===== *)
theory Cache_Persistence
  imports Cache_Plugin Config_Value Wire Disk "HOL-Library.Monad_Syntax"
begin

text \<open>
  The dump file of the cache, \<^verbatim>\<open>src/src/plugins/cache/persistence.rs\<close>, and the construction of the
  plugin from its configuration, which restores it (\<^verbatim>\<open>src/src/plugins/cache/mod.rs\<close>). The disk and its
  faults are those of \<open>Disk\<close>.
\<close>

section \<open>Paths\<close>

text \<open>
  \<^verbatim>\<open>Path::parent\<close> and \<^verbatim>\<open>Path::with_extension\<close> on the text of a path: trailing separators and
  current-directory components do not count; a name that starts with its only dot has no extension.
\<close>

fun trim_path :: "string \<Rightarrow> string" where
  "trim_path (a # b # s) =
     (if a = CHR ''/'' then trim_path (b # s)
      else if a = CHR ''.'' \<and> b = CHR ''/'' then trim_path (b # s)
      else a # b # s)"
| "trim_path s = s"

definition path_split :: "string \<Rightarrow> string \<times> string" where
  "path_split p =
     (let r = trim_path (rev p); name = takeWhile (\<lambda>c. c \<noteq> CHR ''/'') r
      in (rev (drop (length name) r), rev name))"

definition has_parent_dir :: "string \<Rightarrow> bool" where
  "has_parent_dir p \<longleftrightarrow> fst (path_split p) \<noteq> []"

definition file_stem :: "string \<Rightarrow> string" where
  "file_stem name =
     (let ext = takeWhile (\<lambda>c. c \<noteq> CHR ''.'') (rev name)
      in if length ext + 1 < length name then take (length name - length ext - 1) name else name)"

definition with_extension :: "string \<Rightarrow> string \<Rightarrow> string" where
  "with_extension p ext =
     (case path_split p of (dir, name) \<Rightarrow>
        if name \<in> {'''', ''.'', ''..''} then p else dir @ file_stem name @ ''.'' @ ext)"

section \<open>Little-endian integers\<close>

fun le_bytes :: "nat \<Rightarrow> 'a::len word \<Rightarrow> u8 list" where
  "le_bytes 0 w = []"
| "le_bytes (Suc k) w = ucast w # le_bytes k (drop_bit 8 w)"

fun from_le_bytes :: "u8 list \<Rightarrow> 'a::len word" where
  "from_le_bytes [] = 0"
| "from_le_bytes (b # bs) = ucast b OR push_bit 8 (from_le_bytes bs)"

section \<open>Dumping\<close>

definition MAGIC :: "u8 list" where
  "MAGIC = str_bytes ''LZDNSCv1''"

definition write_entry :: "(message \<Rightarrow> u8 list result) \<Rightarrow> string \<Rightarrow> string \<times> cache_entry \<Rightarrow> io" where
  "write_entry serialize tmp ke =
     (case ke of (key, e) \<Rightarrow>
        seq_io (write_all tmp (le_bytes 2 (of_nat (length (str_bytes key)) :: u16)))
          (seq_io (write_all tmp (str_bytes key))
            (seq_io (write_all tmp (le_bytes 8 (ce_cached_at_unix e)))
              (seq_io (write_all tmp (le_bytes 4 (ce_original_ttl e)))
                (case serialize (ce_response e) of
                   Inl err \<Rightarrow> \<lambda>d. (Some err, d)
                 | Inr bs \<Rightarrow>
                     seq_io (write_all tmp (le_bytes 4 (of_nat (length bs) :: u32))) (write_all tmp bs))))))"

definition dump_cache :: "(message \<Rightarrow> u8 list result) \<Rightarrow> string \<Rightarrow> (string \<times> cache_entry) list \<Rightarrow> io" where
  "dump_cache serialize path entries =
     (let tmp = with_extension path ''tmp'' in
      seq_io (if has_parent_dir path then create_dir_all else (\<lambda>d. (None, d)))
        (seq_io (create_file tmp)
          (seq_io (write_all tmp MAGIC)
            (seq_io (write_all tmp (le_bytes 4 (of_nat (length entries) :: u32)))
              (seq_io (fold (\<lambda>ke io. seq_io io (write_entry serialize tmp ke)) entries (\<lambda>d. (None, d)))
                (seq_io flush_file (rename_file tmp path)))))))"

section \<open>Loading\<close>

record persisted =
  pe_key :: string
  pe_response :: message
  pe_cached_at_unix :: u64
  pe_original_ttl :: u32

text \<open>\<open>buf\<close> is the rest of the file from the read position; a record cut short (\<open>None\<close>) ends the loop.\<close>

definition take_exact :: "nat \<Rightarrow> u8 list \<Rightarrow> (u8 list \<times> u8 list) option" where
  "take_exact n buf = (if length buf < n then None else Some (take n buf, drop n buf))"

definition live_entry :: "(u8 list \<Rightarrow> message result) \<Rightarrow> u64 \<Rightarrow> string \<Rightarrow> u64 \<Rightarrow> u32 \<Rightarrow> u8 list \<Rightarrow> persisted option" where
  "live_entry parse now key cached_at ttl msg_bytes =
     (if saturating_sub now cached_at \<ge> ucast ttl then None
      else case parse msg_bytes of
        Inr resp \<Rightarrow>
          Some \<lparr>pe_key = key, pe_response = resp, pe_cached_at_unix = cached_at, pe_original_ttl = ttl\<rparr>
      | Inl e \<Rightarrow> None)"

definition load_record :: "(u8 list \<Rightarrow> message result) \<Rightarrow> u64 \<Rightarrow> u8 list \<Rightarrow> (persisted option \<times> u8 list) option" where
  "load_record parse now buf =
     do {
       (kl, buf) \<leftarrow> take_exact 2 buf;
       (key, buf) \<leftarrow> take_exact (unat (from_le_bytes kl :: u16)) buf;
       (nums, buf) \<leftarrow> take_exact 12 buf;
       (ml, buf) \<leftarrow> take_exact 4 buf;
       (msg_bytes, buf) \<leftarrow> take_exact (unat (from_le_bytes ml :: u32)) buf;
       Some (live_entry parse now (from_utf8_lossy key)
               (from_le_bytes (take 8 nums)) (from_le_bytes (drop 8 nums)) msg_bytes, buf)
     }"

primrec load_entries :: "(u8 list \<Rightarrow> message result) \<Rightarrow> u64 \<Rightarrow> nat \<Rightarrow> u8 list \<Rightarrow> persisted list" where
  "load_entries parse now 0 buf = []"
| "load_entries parse now (Suc n) buf =
     (case load_record parse now buf of
        None \<Rightarrow> []
      | Some (pe, rest) \<Rightarrow>
          (case pe of Some e \<Rightarrow> [e] | None \<Rightarrow> []) @ load_entries parse now n rest)"

definition debug_bytes :: "u8 list \<Rightarrow> string" where
  "debug_bytes bs = ''['' @ concat (case map (\<lambda>b. show_nat (unat b)) bs of
     [] \<Rightarrow> [] | s # ss \<Rightarrow> s # map ((@) '', '') ss) @ '']''"

definition load_bytes :: "(u8 list \<Rightarrow> message result) \<Rightarrow> u64 \<Rightarrow> u8 list \<Rightarrow> persisted list result" where
  "load_bytes parse now buf =
     (if length buf < 12 then Inr []
      else if take 8 buf \<noteq> MAGIC
      then Inl (Config (''invalid cache dump magic: expected '' @ debug_bytes MAGIC @ '', got '' @ debug_bytes (take 8 buf)))
      else Inr (load_entries parse now (unat (from_le_bytes (take 4 (drop 8 buf)) :: u32)) (drop 12 buf)))"

definition load_cache :: "(u8 list \<Rightarrow> message result) \<Rightarrow> u64 \<Rightarrow> string \<Rightarrow> disk \<Rightarrow> persisted list result \<times> disk" where
  "load_cache parse now path d =
     (case dk_files d path of
        None \<Rightarrow> (Inr [], d)
      | Some buf \<Rightarrow>
          (case next_fault d of
             (Some (e, _), d) \<Rightarrow> (Inl e, d)
           | (None, d) \<Rightarrow> (load_bytes parse now buf, d)))"

definition restored_entry :: "nat \<Rightarrow> u64 \<Rightarrow> persisted \<Rightarrow> cache_entry option" where
  "restored_entry now now_unix pe =
     (let elapsed = saturating_sub now_unix (pe_cached_at_unix pe);
          remaining = saturating_sub (pe_original_ttl pe) (ucast elapsed)
      in if remaining = 0 then None
         else Some \<lparr>ce_response = pe_response pe, ce_cached_at = now, ce_ttl = remaining,
                    ce_cache_ttl = remaining, ce_original_ttl = pe_original_ttl pe,
                    ce_last_accessed = now, ce_cached_at_unix = pe_cached_at_unix pe\<rparr>)"

definition restore_entries :: "(cache_entry, 'l) lru_ops \<Rightarrow> nat \<Rightarrow> u64 \<Rightarrow> persisted list \<Rightarrow> 'l sharded \<Rightarrow> 'l sharded" where
  "restore_entries ops now now_unix =
     fold (\<lambda>pe c. case restored_entry now now_unix pe of
                    None \<Rightarrow> c | Some e \<Rightarrow> snd (sharded_push ops (pe_key pe) e c))"

definition restore_from_dump :: "(cache_entry, 'l) lru_ops \<Rightarrow> (u8 list \<Rightarrow> message result) \<Rightarrow> nat \<Rightarrow> u64
    \<Rightarrow> 'l cache_plugin \<Rightarrow> disk \<Rightarrow> 'l cache_plugin \<times> disk" where
  "restore_from_dump ops parse now now_unix p d =
     (case cp_dump_file p of
        None \<Rightarrow> (p, d)
      | Some path \<Rightarrow>
          (case load_cache parse now_unix path d of
             (Inl e, d) \<Rightarrow> (p, d)
           | (Inr loaded, d) \<Rightarrow> (p\<lparr>cp_cache := restore_entries ops now now_unix loaded (cp_cache p)\<rparr>, d)))"

section \<open>Construction from the configuration\<close>

text \<open>
  The float computations are arguments: \<open>hot\<close> the lazy-refresh test for a configured or the
  default threshold, \<open>limit\<close> the number of entries that counts as pressure for a capacity.
\<close>

definition size_arg :: "(string \<rightharpoonup> yaml) \<Rightarrow> nat result" where
  "size_arg args =
     (case args ''size'' of
        Some (YNumber n) \<Rightarrow>
          (case as_i64 n of Some i \<Rightarrow> Inr (i64_as_usize i) | None \<Rightarrow> Inl (Config ''Invalid size value''))
      | Some _ \<Rightarrow> Inl (Config ''size must be a number'')
      | None \<Rightarrow> Inr 1024)"

definition negative_ttl_arg :: "(string \<rightharpoonup> yaml) \<Rightarrow> u32 result" where
  "negative_ttl_arg args =
     (case args ''negative_ttl'' of
        Some (YNumber n) \<Rightarrow>
          (case as_i64 n of Some i \<Rightarrow> Inr (of_int i) | None \<Rightarrow> Inl (Config ''Invalid negative_ttl value''))
      | Some _ \<Rightarrow> Inl (Config ''negative_ttl must be a number'')
      | None \<Rightarrow> Inr 300)"

definition init_negative :: "(string \<rightharpoonup> yaml) \<Rightarrow> 'l cache_plugin \<Rightarrow> 'l cache_plugin result" where
  "init_negative args p =
     (if args ''negative_cache'' = Some (YBool True)
      then map_sum id (\<lambda>ttl. with_negative_cache ttl p) (negative_ttl_arg args) else Inr p)"

definition init_cache_ttl :: "(string \<rightharpoonup> yaml) \<Rightarrow> 'l cache_plugin \<Rightarrow> 'l cache_plugin result" where
  "init_cache_ttl args p =
     (case args ''cache_ttl'' of
        Some (YNumber n) \<Rightarrow>
          (case as_i64 n of
             None \<Rightarrow> Inl (Config ''Invalid cache_ttl value'')
           | Some i \<Rightarrow> Inr (if (of_int i :: u32) > 0 then with_cache_ttl (of_int i) p else p))
      | _ \<Rightarrow> Inr p)"

definition init_coordinator :: "'l cache_plugin \<Rightarrow> 'l cache_plugin" where
  "init_coordinator p = (if cp_enable_lazycache p \<or> cp_cache_ttl p \<noteq> None then ensure_coordinator p else p)"

definition init_lazycache :: "(yaml_number option \<Rightarrow> u32 \<Rightarrow> u32 \<Rightarrow> bool) \<Rightarrow> (string \<rightharpoonup> yaml)
    \<Rightarrow> 'l cache_plugin \<Rightarrow> 'l cache_plugin result" where
  "init_lazycache hot args p =
     (if args ''enable_lazycache'' = Some (YBool True)
      then case args ''lazycache_threshold'' of
          Some (YNumber n) \<Rightarrow> Inr (with_lazycache (hot (Some n)) p)
        | Some _ \<Rightarrow> Inl (Config ''lazycache_threshold must be a number'')
        | None \<Rightarrow> Inr (with_lazycache (hot None) p)
      else Inr p)"

definition init_dump :: "(cache_entry, 'l) lru_ops \<Rightarrow> (u8 list \<Rightarrow> message result) \<Rightarrow> nat \<Rightarrow> u64
    \<Rightarrow> (string \<rightharpoonup> yaml) \<Rightarrow> 'l cache_plugin \<Rightarrow> disk \<Rightarrow> 'l cache_plugin \<times> disk" where
  "init_dump ops parse now now_unix args p d =
     (case args ''dump_file'' of
        Some (YString s) \<Rightarrow>
          (let p = p\<lparr>cp_dump_file := Some s\<rparr>;
               p = (case args ''dump_interval'' of
                      Some (YNumber n) \<Rightarrow> p\<lparr>cp_dump_interval_secs := (case as_u64 n of Some u \<Rightarrow> u | None \<Rightarrow> 600)\<rparr>
                    | _ \<Rightarrow> p)
           in restore_from_dump ops parse now now_unix p d)
      | _ \<Rightarrow> (p, d))"

definition cache_init :: "(cache_entry, 'l) lru_ops \<Rightarrow> (u8 list \<Rightarrow> message result)
    \<Rightarrow> (yaml_number option \<Rightarrow> u32 \<Rightarrow> u32 \<Rightarrow> bool) \<Rightarrow> (nat \<Rightarrow> nat) \<Rightarrow> nat \<Rightarrow> u64
    \<Rightarrow> plugin_config \<Rightarrow> disk \<Rightarrow> 'l cache_plugin result \<times> disk" where
  "cache_init ops parse hot limit now now_unix config d =
     (let args = effective_args config in
      case size_arg args of Inl e \<Rightarrow> (Inl e, d) | Inr size_ \<Rightarrow>
      (case init_negative args (cache_plugin_new ops (hot None) (limit size_) size_) of
         Inl e \<Rightarrow> (Inl e, d) | Inr p \<Rightarrow>
      (case init_cache_ttl args p of Inl e \<Rightarrow> (Inl e, d) | Inr p \<Rightarrow>
      (case init_lazycache hot args (init_coordinator p) of Inl e \<Rightarrow> (Inl e, d) | Inr p \<Rightarrow>
         let p = with_cleanup True 60 (limit size_) p in
         case init_dump ops parse now now_unix args p d of (p, d) \<Rightarrow>
           (Inr (p\<lparr>cp_tag := pc_tag config\<rparr>), d)))))"

section \<open>Facts about the format\<close>

lemma length_le_bytes [simp]: "length (le_bytes k w) = k"
  by (induction k arbitrary: w) auto

lemma from_le_bytes_take: "(from_le_bytes (le_bytes k w) :: 'a::len word) = take_bit (8 * k) (w :: 'a word)"
proof (induction k arbitrary: w)
  case 0
  then show ?case by simp
next
  case (Suc k)
  show ?case
    by (rule bit_word_eqI) (auto simp: Suc bit_simps)
qed

lemma from_le_bytes_id [simp]:
  "(from_le_bytes (le_bytes 2 w2) :: u16) = w2"
  "(from_le_bytes (le_bytes 4 w4) :: u32) = w4"
  "(from_le_bytes (le_bytes 8 w8) :: u64) = w8"
  by (simp_all add: from_le_bytes_take take_bit_word_eq_self)

lemma length_str_bytes [simp]: "length (str_bytes s) = length s"
  by (simp add: str_bytes_def)

lemma take_exact_append [simp]: "length x = n \<Longrightarrow> take_exact n (x @ y) = Some (x, y)"
  by (simp add: take_exact_def)

lemma le_bytes_snoc_drop [simp]: "drop 8 (le_bytes 8 w @ y) = y" "take 8 (le_bytes 8 w @ y) = le_bytes 8 w"
  by simp_all

definition entry_bytes :: "(message \<Rightarrow> u8 list result) \<Rightarrow> string \<times> cache_entry \<Rightarrow> u8 list option" where
  "entry_bytes serialize ke =
     (case serialize (ce_response (snd ke)) of
        Inl _ \<Rightarrow> None
      | Inr bs \<Rightarrow>
          Some (le_bytes 2 (of_nat (length (fst ke)) :: u16) @ str_bytes (fst ke) @
            le_bytes 8 (ce_cached_at_unix (snd ke)) @ le_bytes 4 (ce_original_ttl (snd ke)) @
            le_bytes 4 (of_nat (length bs) :: u32) @ bs))"

text \<open>What an entry needs to survive: a key of at most 65535 bytes of valid UTF-8, and a message
  that the codec brings back.\<close>

definition entry_ok :: "(message \<Rightarrow> u8 list result) \<Rightarrow> (u8 list \<Rightarrow> message result) \<Rightarrow> string \<times> cache_entry \<Rightarrow> bool" where
  "entry_ok serialize parse ke \<longleftrightarrow>
     length (fst ke) < 65536 \<and> from_utf8_lossy (str_bytes (fst ke)) = fst ke \<and>
     (case serialize (ce_response (snd ke)) of
        Inl _ \<Rightarrow> False
      | Inr bs \<Rightarrow> length bs < 4294967296 \<and> parse bs = Inr (ce_response (snd ke)))"

definition persisted_of :: "u64 \<Rightarrow> string \<times> cache_entry \<Rightarrow> persisted option" where
  "persisted_of now ke =
     (if saturating_sub now (ce_cached_at_unix (snd ke)) \<ge> ucast (ce_original_ttl (snd ke)) then None
      else Some \<lparr>pe_key = fst ke, pe_response = ce_response (snd ke),
                 pe_cached_at_unix = ce_cached_at_unix (snd ke), pe_original_ttl = ce_original_ttl (snd ke)\<rparr>)"

lemma load_record_entry:
  assumes "entry_ok serialize parse ke" and "entry_bytes serialize ke = Some x"
  shows "load_record parse now (x @ rest) = Some (persisted_of now ke, rest)"
proof -
  obtain key e where ke: "ke = (key, e)" by fastforce
  with assms obtain bs where bs: "serialize (ce_response e) = Inr bs" "length bs < 4294967296"
    "parse bs = Inr (ce_response e)" "length key < 65536" "from_utf8_lossy (str_bytes key) = key"
    by (auto simp: entry_ok_def split: sum.splits)
  have x: "x = le_bytes 2 (of_nat (length key) :: u16) @ str_bytes key @
      (le_bytes 8 (ce_cached_at_unix e) @ le_bytes 4 (ce_original_ttl e)) @
      le_bytes 4 (of_nat (length bs) :: u32) @ bs"
    using assms(2) by (simp add: entry_bytes_def ke bs(1))
  have n: "unat (of_nat (length key) :: u16) = length key" "unat (of_nat (length bs) :: u32) = length bs"
    using bs(2,4) by (simp_all add: unat_of_nat take_bit_nat_eq_self)
  have nums: "take_exact 12 ((le_bytes 8 (ce_cached_at_unix e) @ le_bytes 4 (ce_original_ttl e)) @ r) =
      Some (le_bytes 8 (ce_cached_at_unix e) @ le_bytes 4 (ce_original_ttl e), r)" for r
    by (rule take_exact_append) simp
  have key: "take_exact (length key) (str_bytes key @ r) = Some (str_bytes key, r)"
    and msg: "take_exact (length bs) (bs @ r) = Some (bs, r)"
    and two: "take_exact 2 (le_bytes 2 w @ r) = Some (le_bytes 2 w, r)"
    and four: "take_exact 4 (le_bytes 4 w' @ r) = Some (le_bytes 4 w', r)" for r and w :: u16 and w' :: u32
    by (rule take_exact_append; simp)+
  show ?thesis
    unfolding load_record_def x append_assoc [of _ _ rest] append_assoc [of "str_bytes key"]
    by (simp add: two n key nums four msg live_entry_def persisted_of_def ke bs(3,5) del: append_assoc)
qed

lemma load_entries_image:
  assumes "\<forall>ke \<in> set entries. entry_ok serialize parse ke"
  shows "load_entries parse now (length entries) (concat (map (\<lambda>ke. the (entry_bytes serialize ke)) entries) @ rest) =
    List.map_filter (persisted_of now) entries"
  using assms
proof (induction entries)
  case Nil
  then show ?case by (simp add: map_filter_simps)
next
  case (Cons ke entries)
  then obtain x where "entry_bytes serialize ke = Some x"
    by (auto simp: entry_ok_def entry_bytes_def split: sum.splits)
  with Cons.prems have "load_record parse now (x @ r) = Some (persisted_of now ke, r)" for r
    by (intro load_record_entry) auto
  with Cons \<open>entry_bytes serialize ke = Some x\<close> show ?case
    by (simp add: map_filter_simps split: option.split)
qed

lemma length_MAGIC [simp]: "length MAGIC = 8"
  by (simp add: MAGIC_def)

definition dump_image :: "(message \<Rightarrow> u8 list result) \<Rightarrow> (string \<times> cache_entry) list \<Rightarrow> u8 list" where
  "dump_image serialize entries =
     MAGIC @ le_bytes 4 (of_nat (length entries) :: u32) @
     concat (map (\<lambda>ke. the (entry_bytes serialize ke)) entries)"

lemma load_bytes_image:
  assumes "\<forall>ke \<in> set entries. entry_ok serialize parse ke" and "length entries < 4294967296"
  shows "load_bytes parse now (dump_image serialize entries) = Inr (List.map_filter (persisted_of now) entries)"
proof -
  have "unat (of_nat (length entries) :: u32) = length entries"
    using assms(2) by (simp add: unat_of_nat take_bit_nat_eq_self)
  with load_entries_image [OF assms(1), of now "[]"] show ?thesis
    by (simp add: load_bytes_def dump_image_def)
qed

section \<open>What reaches the disk\<close>

text \<open>
  A specification of the operations that write to one file: on success the file has grown by the
  given bytes and nothing else has changed; on failure no other file has changed. An operation
  with image \<open>None\<close> always fails.
\<close>

definition appends :: "string \<Rightarrow> u8 list option \<Rightarrow> io \<Rightarrow> bool" where
  "appends p img f \<longleftrightarrow>
     (\<forall>d old. dk_files d p = Some old \<longrightarrow>
        (case f d of
           (None, d') \<Rightarrow> \<exists>bs. img = Some bs \<and> dk_files d' = (dk_files d)(p \<mapsto> old @ bs)
         | (Some _, d') \<Rightarrow> \<exists>new. dk_files d' = (dk_files d)(p := new)))"

fun cat_opt :: "'a list option \<Rightarrow> 'a list option \<Rightarrow> 'a list option" where
  "cat_opt (Some x) (Some y) = Some (x @ y)"
| "cat_opt _ _ = None"

lemma appends_write: "appends p (Some bs) (write_all p bs)"
proof -
  have "dk_files (append_to p cs d) = (dk_files d)(p \<mapsto> old @ cs)" if "dk_files d p = Some old" for cs old d
    using that by (simp add: append_to_def)
  moreover have "dk_files (snd (next_fault d)) = dk_files d" for d
    by (simp add: next_fault_def split: list.split)
  ultimately show ?thesis
    by (auto simp: appends_def write_all_def io_step_def split: prod.split option.split)
      (metis snd_conv)+
qed

lemma appends_fail: "appends p img (\<lambda>d. (Some e, d))"
  by (auto simp: appends_def) (metis fun_upd_triv)

lemma appends_skip: "appends p (Some []) (\<lambda>d. (None, d))"
  by (auto simp: appends_def fun_upd_idem_iff)

lemma appends_seq:
  assumes f: "appends p b f" and g: "appends p c g"
  shows "appends p (cat_opt b c) (seq_io f g)"
  unfolding appends_def
proof (intro allI impI)
  fix d :: disk and old assume d: "dk_files d p = Some old"
  obtain r d1 where f1: "f d = (r, d1)" by fastforce
  show "case seq_io f g d of
      (None, d') \<Rightarrow> \<exists>bs. cat_opt b c = Some bs \<and> dk_files d' = (dk_files d)(p \<mapsto> old @ bs)
    | (Some _, d') \<Rightarrow> \<exists>new. dk_files d' = (dk_files d)(p := new)"
  proof (cases r)
    case None
    with f f1 d obtain x where x: "b = Some x" "dk_files d1 = (dk_files d)(p \<mapsto> old @ x)"
      unfolding appends_def by fastforce
    obtain r2 d2 where g2: "g d1 = (r2, d2)" by fastforce
    have "dk_files d1 p = Some (old @ x)" using x by simp
    with g g2 have "case r2 of
        None \<Rightarrow> \<exists>bs. c = Some bs \<and> dk_files d2 = (dk_files d1)(p \<mapsto> (old @ x) @ bs)
      | Some _ \<Rightarrow> \<exists>new. dk_files d2 = (dk_files d1)(p := new)"
      unfolding appends_def by (cases r2) fastforce+
    with None f1 g2 x show ?thesis by (cases r2) (auto simp: seq_io_def)
  next
    case (Some e)
    with f f1 d show ?thesis unfolding appends_def by (fastforce simp: seq_io_def)
  qed
qed

lemma appends_entry: "appends p (entry_bytes serialize ke) (write_entry serialize p ke)"
proof (cases "serialize (ce_response (snd ke))")
  case (Inl e)
  have "appends p (cat_opt (Some x) (cat_opt (Some y) (cat_opt (Some z) (cat_opt (Some w) None)))) 
    (seq_io (write_all p x) (seq_io (write_all p y) (seq_io (write_all p z) (seq_io (write_all p w) (\<lambda>d. (Some e, d))))))"
    for x y z w
    by (intro appends_seq appends_write appends_fail)
  with Inl show ?thesis by (cases ke) (simp add: write_entry_def entry_bytes_def)
next
  case (Inr bs)
  have "appends p (cat_opt (Some x) (cat_opt (Some y) (cat_opt (Some z) (cat_opt (Some w) (cat_opt (Some u) (Some bs))))))
    (seq_io (write_all p x) (seq_io (write_all p y) (seq_io (write_all p z) (seq_io (write_all p w)
      (seq_io (write_all p u) (write_all p bs))))))" for x y z w u
    by (intro appends_seq appends_write)
  with Inr show ?thesis by (cases ke) (simp add: write_entry_def entry_bytes_def)
qed

definition entries_image :: "(message \<Rightarrow> u8 list result) \<Rightarrow> (string \<times> cache_entry) list \<Rightarrow> u8 list option \<Rightarrow> u8 list option" where
  "entries_image serialize = fold (\<lambda>ke b. cat_opt b (entry_bytes serialize ke))"

lemma appends_entries:
  "appends p b f \<Longrightarrow> appends p (entries_image serialize entries b)
     (fold (\<lambda>ke io. seq_io io (write_entry serialize p ke)) entries f)"
  by (induction entries arbitrary: b f) (simp_all add: entries_image_def appends_seq appends_entry)

lemma entries_image_None [simp]: "entries_image serialize entries None = None"
  by (induction entries) (simp_all add: entries_image_def)

lemma entries_image_Some:
  "entries_image serialize entries (Some x) =
     (if \<forall>ke \<in> set entries. entry_bytes serialize ke \<noteq> None
      then Some (x @ concat (map (\<lambda>ke. the (entry_bytes serialize ke)) entries)) else None)"
proof (induction entries arbitrary: x)
  case Nil
  then show ?case by (simp add: entries_image_def)
next
  case (Cons ke entries)
  have "entries_image serialize (ke # entries) (Some x) =
      entries_image serialize entries (cat_opt (Some x) (entry_bytes serialize ke))"
    by (simp add: entries_image_def)
  with Cons show ?case by (cases "entry_bytes serialize ke") auto
qed

lemma seq_io_assoc: "seq_io (seq_io f g) h = seq_io f (seq_io g h)"
  by (rule ext) (simp add: seq_io_def split: prod.split option.split)

definition dump_body :: "(message \<Rightarrow> u8 list result) \<Rightarrow> string \<Rightarrow> (string \<times> cache_entry) list \<Rightarrow> io" where
  "dump_body serialize tmp entries =
     seq_io (write_all tmp MAGIC)
       (seq_io (write_all tmp (le_bytes 4 (of_nat (length entries) :: u32)))
         (fold (\<lambda>ke io. seq_io io (write_entry serialize tmp ke)) entries (\<lambda>d. (None, d))))"

definition image_of :: "(message \<Rightarrow> u8 list result) \<Rightarrow> (string \<times> cache_entry) list \<Rightarrow> u8 list option" where
  "image_of serialize entries =
     (if \<forall>ke \<in> set entries. \<exists>bs. serialize (ce_response (snd ke)) = Inr bs
      then Some (dump_image serialize entries) else None)"

lemma entry_bytes_None: "entry_bytes serialize ke \<noteq> None \<longleftrightarrow> (\<exists>bs. serialize (ce_response (snd ke)) = Inr bs)"
  by (simp add: entry_bytes_def split: sum.split)

lemma appends_body: "appends p (image_of serialize entries) (dump_body serialize p entries)"
proof -
  have "appends p (cat_opt (Some MAGIC) (cat_opt (Some (le_bytes 4 (of_nat (length entries) :: u32)))
      (entries_image serialize entries (Some [])))) (dump_body serialize p entries)"
    unfolding dump_body_def by (intro appends_seq appends_write appends_entries appends_skip)
  then show ?thesis
    unfolding image_of_def entry_bytes_None [symmetric] by (auto simp: entries_image_Some dump_image_def split: if_splits)
qed

lemma dump_cache_phases:
  "dump_cache serialize path entries =
     (let tmp = with_extension path ''tmp'' in
      seq_io (if has_parent_dir path then create_dir_all else (\<lambda>d. (None, d)))
        (seq_io (create_file tmp)
          (seq_io (dump_body serialize tmp entries) (seq_io flush_file (rename_file tmp path)))))"
  by (simp add: dump_cache_def dump_body_def seq_io_assoc Let_def)

lemma appendsE:
  assumes "appends p img f" and "dk_files d p = Some old" and "f d = (r, d')"
  obtains bs where "r = None" "img = Some bs" "dk_files d' = (dk_files d)(p \<mapsto> old @ bs)"
    | e new where "r = Some e" "dk_files d' = (dk_files d)(p := new)"
  using assms unfolding appends_def by (cases r) fastforce+

lemma dump_files:
  assumes "with_extension path ''tmp'' \<noteq> path"
  shows "case dump_cache serialize path entries d of
      (None, d') \<Rightarrow> image_of serialize entries \<noteq> None \<and>
        dk_files d' = (dk_files d)(path := image_of serialize entries, with_extension path ''tmp'' := None)
    | (Some e, d') \<Rightarrow> dk_files d' path = dk_files d path"
proof -
  define tmp where "tmp = with_extension path ''tmp''"
  let ?dir = "if has_parent_dir path then create_dir_all else (\<lambda>d. (None, d))"
  obtain r0 d0 where dir: "?dir d = (r0, d0)" by fastforce
  then have d0: "dk_files d0 = dk_files d"
    by (auto simp: create_dir_all_def io_step_def next_fault_def split: if_splits list.splits option.splits)
  obtain r1 d1 where cr: "create_file tmp d0 = (r1, d1)" by fastforce
  then have d1: "dk_files d1 = (if r1 = None then (dk_files d)(tmp \<mapsto> []) else dk_files d)"
    using d0 by (auto simp: create_file_def io_step_def next_fault_def split: list.splits option.splits)
  obtain r2 d2 where body: "dump_body serialize tmp entries d1 = (r2, d2)" by fastforce
  obtain r3 d3 where fl: "flush_file d2 = (r3, d3)" by fastforce
  then have d3: "dk_files d3 = dk_files d2"
    by (auto simp: flush_file_def io_step_def next_fault_def split: list.splits option.splits)
  obtain r4 d4 where rn: "rename_file tmp path d3 = (r4, d4)" by fastforce
  then have d4: "dk_files d4 = (if r4 = None then (dk_files d3)(path := dk_files d3 tmp, tmp := None) else dk_files d3)"
    using assms unfolding tmp_def
    by (auto simp: rename_file_def io_step_def next_fault_def split: list.splits option.splits if_splits)
  have eq: "dump_cache serialize path entries d =
      (case r0 of Some e \<Rightarrow> (Some e, d0) | None \<Rightarrow> case r1 of Some e \<Rightarrow> (Some e, d1) | None \<Rightarrow>
       case r2 of Some e \<Rightarrow> (Some e, d2) | None \<Rightarrow> case r3 of Some e \<Rightarrow> (Some e, d3) | None \<Rightarrow> (r4, d4))"
    unfolding dump_cache_phases Let_def tmp_def [symmetric] seq_io_def [of ?dir] dir
    by (simp add: seq_io_def cr body fl rn split: option.split)
  show ?thesis
  proof (cases "r0 = None \<and> r1 = None")
    case False
    with d0 d1 show ?thesis unfolding eq by (auto split: option.split)
  next
    case True
    with d1 have "dk_files d1 tmp = Some []" by simp
    from appends_body this body show ?thesis
    proof (cases rule: appendsE)
      case (1 bs)
      with True assms d1 d3 d4 show ?thesis
        unfolding eq tmp_def by (auto simp: fun_upd_twist split: option.split)
    next
      case (2 e new)
      with True assms d1 show ?thesis unfolding eq tmp_def by (auto split: option.split)
    qed
  qed
qed

text \<open>
  C26: A dump replaces the file as a whole or not at all. Whatever operation fails, and after
  however many bytes, the dump file keeps its old contents; when the dump succeeds the file
  holds the complete image of the cache and the temporary file is gone. The temporary file must
  be another file, which it is unless the configured name ends in \<^verbatim>\<open>.tmp\<close>.
\<close>

theorem dump_atomic:
  assumes "with_extension path ''tmp'' \<noteq> path"
  shows "case dump_cache serialize path entries d of
      (None, d') \<Rightarrow> image_of serialize entries \<noteq> None \<and>
        dk_files d' = (dk_files d)(path := image_of serialize entries, with_extension path ''tmp'' := None)
    | (Some e, d') \<Rightarrow> dk_files d' path = dk_files d path"
  by (rule dump_files [OF assms])

theorem dump_atomic_witness:
  "with_extension ''cache.dump'' ''tmp'' \<noteq> ''cache.dump'' \<and>
   (\<forall>serialize entries d.
     case dump_cache serialize ''cache.dump'' entries d of
       (None, d') \<Rightarrow> image_of serialize entries \<noteq> None \<and>
         dk_files d' = (dk_files d)(''cache.dump'' := image_of serialize entries, with_extension ''cache.dump'' ''tmp'' := None)
     | (Some e, d') \<Rightarrow> dk_files d' ''cache.dump'' = dk_files d ''cache.dump'')"
proof -
  have tmp: "with_extension ''cache.dump'' ''tmp'' \<noteq> ''cache.dump''" by code_simp
  then show ?thesis using dump_atomic [OF tmp] by blast
qed

lemma temporary_file_may_be_the_dump_file: "with_extension ''cache.tmp'' ''tmp'' = ''cache.tmp''"
  by code_simp

text \<open>One entry that the codec cannot serialise keeps the whole cache from being saved.\<close>

lemma bad_entry_blocks_dump:
  assumes "ke \<in> set entries" and "serialize (ce_response (snd ke)) = Inl err"
    and "with_extension path ''tmp'' \<noteq> path"
  shows "fst (dump_cache serialize path entries d) \<noteq> None"
proof -
  have "image_of serialize entries = None" using assms(1,2) by (force simp: image_of_def)
  then show ?thesis using dump_files [OF assms(3), of serialize entries d] by (auto split: prod.splits option.splits)
qed

section \<open>A restart\<close>

text \<open>On a disk without faults every operation succeeds.\<close>

definition reliable :: "io \<Rightarrow> bool" where
  "reliable f \<longleftrightarrow> (\<forall>d. dk_faults d = [] \<longrightarrow> fst (f d) = None \<and> dk_faults (snd (f d)) = [])"

lemma reliable_seq: "reliable f \<Longrightarrow> reliable g \<Longrightarrow> reliable (seq_io f g)"
  by (fastforce simp: reliable_def seq_io_def split: prod.split option.split)

lemma reliable_basic [simp]:
  "reliable create_dir_all" "reliable flush_file" "reliable (create_file p)" "reliable (write_all p bs)"
  "reliable (rename_file p q)" "reliable (\<lambda>d. (None, d))"
  by (simp_all add: reliable_def create_dir_all_def flush_file_def create_file_def write_all_def
      rename_file_def io_step_def next_fault_def append_to_def)

lemma reliable_entry:
  "serialize (ce_response (snd ke)) = Inr bs \<Longrightarrow> reliable (write_entry serialize p ke)"
  by (cases ke) (auto simp: write_entry_def intro!: reliable_seq)

lemma reliable_entries:
  "reliable f \<Longrightarrow> \<forall>ke \<in> set entries. \<exists>bs. serialize (ce_response (snd ke)) = Inr bs \<Longrightarrow>
     reliable (fold (\<lambda>ke io. seq_io io (write_entry serialize p ke)) entries f)"
  by (induction entries arbitrary: f) (auto simp: reliable_seq reliable_entry)

lemma dump_reliable:
  assumes "\<forall>ke \<in> set entries. \<exists>bs. serialize (ce_response (snd ke)) = Inr bs"
  shows "reliable (dump_cache serialize path entries)"
  unfolding dump_cache_def Let_def using assms by (auto intro!: reliable_seq reliable_entries)

definition entry_live :: "u64 \<Rightarrow> cache_entry \<Rightarrow> bool" where
  "entry_live now e \<longleftrightarrow> saturating_sub now (ce_cached_at_unix e) < ucast (ce_original_ttl e)"

definition aged_entry :: "nat \<Rightarrow> u64 \<Rightarrow> cache_entry \<Rightarrow> cache_entry" where
  "aged_entry t now e =
     (let remaining = ce_original_ttl e - ucast (saturating_sub now (ce_cached_at_unix e))
      in e\<lparr>ce_cached_at := t, ce_last_accessed := t, ce_ttl := remaining, ce_cache_ttl := remaining\<rparr>)"

lemma live_elapsed:
  assumes "(x :: u64) < ucast (ttl :: u32)"
  shows "(ucast x :: u32) < ttl"
proof -
  have "unat x < unat ttl" using assms order_less_le_trans [OF _ take_bit_nat_less_eq_self [of 64 "unat ttl"], of "unat x"]
    by (simp only: word_less_nat_alt unsigned_ucast_eq) simp
  moreover have "unat (ucast x :: u32) \<le> unat x" by (simp add: unsigned_ucast_eq take_bit_nat_less_eq_self)
  ultimately show ?thesis by (simp add: word_less_nat_alt)
qed

lemma restored_persisted:
  "persisted_of now (k, e) =
     (if entry_live now e
      then Some \<lparr>pe_key = k, pe_response = ce_response e, pe_cached_at_unix = ce_cached_at_unix e,
                 pe_original_ttl = ce_original_ttl e\<rparr> else None)"
  "entry_live now e \<Longrightarrow>
     restored_entry t now \<lparr>pe_key = k, pe_response = ce_response e, pe_cached_at_unix = ce_cached_at_unix e,
       pe_original_ttl = ce_original_ttl e\<rparr> = Some (aged_entry t now e)"
  using live_elapsed [of "saturating_sub now (ce_cached_at_unix e)" "ce_original_ttl e"]
  by (auto simp: persisted_of_def entry_live_def restored_entry_def aged_entry_def Let_def saturating_sub_def not_le)

lemma restored_list:
  "map (\<lambda>pe. (pe_key pe, restored_entry t now pe)) (List.map_filter (persisted_of now) entries) =
   map (\<lambda>(k, e). (k, Some (aged_entry t now e))) (filter (\<lambda>(k, e). entry_live now e) entries)"
  by (induction entries) (auto simp: map_filter_simps restored_persisted)

text \<open>
  C25: A restart keeps the cache. A dump to a disk without faults succeeds, and reading it back
  at any later time restores exactly the entries whose TTL has not run out in between, in order,
  with their keys, messages and times of origin and with the TTL that remains; here for entries whose message
  the codec brings back and whose key is valid UTF-8 of less than 65536 bytes.
\<close>

theorem restart_keeps_live_entries:
  assumes "\<forall>ke \<in> set entries. entry_ok serialize parse ke" and "length entries < 4294967296"
    and "with_extension path ''tmp'' \<noteq> path" and "dk_faults d = []"
  shows "\<exists>d' loaded. dump_cache serialize path entries d = (None, d') \<and>
    load_cache parse now path d' = (Inr loaded, d') \<and>
    map (\<lambda>pe. (pe_key pe, restored_entry t now pe)) loaded =
    map (\<lambda>(k, e). (k, Some (aged_entry t now e))) (filter (\<lambda>(k, e). entry_live now e) entries)"
proof -
  have ser: "\<forall>ke \<in> set entries. \<exists>bs. serialize (ce_response (snd ke)) = Inr bs"
    using assms(1) by (fastforce simp: entry_ok_def split: sum.splits)
  obtain r d' where d': "dump_cache serialize path entries d = (r, d')" by fastforce
  then have r: "r = None" "dk_faults d' = []"
    using dump_reliable [OF ser] assms(4) by (auto simp: reliable_def) (metis fst_conv snd_conv)+
  have "dk_files d' path = Some (dump_image serialize entries)"
    using dump_files [OF assms(3), of serialize entries d] ser assms(3) d' r(1)
    by (auto simp: image_of_def split: if_splits)
  then have "load_cache parse now path d' = (Inr (List.map_filter (persisted_of now) entries), d')"
    using r(2) by (simp add: load_cache_def next_fault_def load_bytes_image [OF assms(1,2)])
  with d' r(1) restored_list show ?thesis by blast
qed

definition demo_entry :: cache_entry where
  "demo_entry = cache_entry_new 0 1000 demo_response 300 300"

theorem restart_keeps_live_entries_witness:
  "\<exists>d' loaded.
     dump_cache (\<lambda>m. Inr [0, 1]) ''cache.dump'' [(''a'', demo_entry), (''b'', demo_entry\<lparr>ce_original_ttl := 5\<rparr>)]
       \<lparr>dk_files = Map.empty, dk_faults = []\<rparr> = (None, d') \<and>
     load_cache (\<lambda>bs. Inr demo_response) 1100 ''cache.dump'' d' = (Inr loaded, d') \<and>
     map (\<lambda>pe. (pe_key pe, restored_entry 7 1100 pe)) loaded = [(''a'', Some (aged_entry 7 1100 demo_entry))] \<and>
     ce_ttl (aged_entry 7 1100 demo_entry) = 200"
proof -
  have tmp: "with_extension ''cache.dump'' ''tmp'' \<noteq> ''cache.dump''" by code_simp
  have utf: "from_utf8_lossy (str_bytes ''a'') = ''a''" "from_utf8_lossy (str_bytes ''b'') = ''b''"
    by code_simp+
  have live: "entry_live 1100 demo_entry" "\<not> entry_live 1100 (demo_entry\<lparr>ce_original_ttl := 5\<rparr>)"
    by (simp_all add: entry_live_def demo_entry_def cache_entry_new_def saturating_sub_def)
  have "ce_ttl (aged_entry 7 1100 demo_entry) = 200"
    by (simp add: aged_entry_def demo_entry_def cache_entry_new_def saturating_sub_def Let_def)
  moreover have "\<forall>ke \<in> set [(''a'', demo_entry), (''b'', demo_entry\<lparr>ce_original_ttl := 5\<rparr>)].
      entry_ok (\<lambda>m. Inr [0, 1]) (\<lambda>bs. Inr demo_response) ke"
    using utf by (simp add: entry_ok_def demo_entry_def cache_entry_new_def)
  from restart_keeps_live_entries [OF this _ tmp, of "\<lparr>dk_files = Map.empty, dk_faults = []\<rparr>" 1100 7]
  have "\<exists>d' loaded.
     dump_cache (\<lambda>m. Inr [0, 1]) ''cache.dump'' [(''a'', demo_entry), (''b'', demo_entry\<lparr>ce_original_ttl := 5\<rparr>)]
       \<lparr>dk_files = Map.empty, dk_faults = []\<rparr> = (None, d') \<and>
     load_cache (\<lambda>bs. Inr demo_response) 1100 ''cache.dump'' d' = (Inr loaded, d') \<and>
     map (\<lambda>pe. (pe_key pe, restored_entry 7 1100 pe)) loaded = [(''a'', Some (aged_entry 7 1100 demo_entry))]"
    by (simp add: live)
  ultimately show ?thesis by simp
qed

end
