(* ===== verification/Servers.thy ===== *)
theory Servers
  imports Pipeline Wire Rate_Limit Acl
begin

text \<open>
  The servers of \<^verbatim>\<open>src/src/server\<close>: what each transport reads, the request context it hands to the
  handler and what it writes, for UDP (\<^verbatim>\<open>udp.rs\<close>), TCP (\<^verbatim>\<open>tcp.rs\<close>), TLS (\<^verbatim>\<open>dot.rs\<close>), QUIC (\<^verbatim>\<open>doq.rs\<close>) and
  HTTPS (\<^verbatim>\<open>doh.rs\<close>), with the accept loops and their permits as a step relation. A handler is a
  function on the request context and the state of the plugins, \<open>None\<close> when it does not return; the codec is the parameter of \<open>Wire\<close>,
  the base64 crate a parameter here.
\<close>

type_synonym 's handler = "request_context \<Rightarrow> 's \<Rightarrow> (message result \<times> 's) option"

section \<open>Configuration\<close>

record 'h server_config =
  sc_udp_addr :: "sock_addr option"
  sc_tcp_addr :: "sock_addr option"
  sc_max_connections :: nat
  sc_timeout_secs :: nat
  sc_max_udp_size :: nat
  sc_max_tcp_size :: nat
  sc_handler :: "'h option"
  sc_has_tls :: bool
  sc_cert_path :: "string option"
  sc_key_path :: "string option"
  sc_doh_path :: "string option"
  sc_trust_forwarded_for :: bool

definition server_config_default :: "'h server_config" where
  "server_config_default =
     \<lparr>sc_udp_addr = Some \<lparr>sa_ip = V4 (v4_new 127 0 0 1), sa_port = 5353\<rparr>,
      sc_tcp_addr = Some \<lparr>sa_ip = V4 (v4_new 127 0 0 1), sa_port = 5353\<rparr>,
      sc_max_connections = 1000, sc_timeout_secs = 5, sc_max_udp_size = 512, sc_max_tcp_size = 65535,
      sc_handler = None, sc_has_tls = False, sc_cert_path = None, sc_key_path = None,
      sc_doh_path = None, sc_trust_forwarded_for = False\<rparr>"

section \<open>UDP\<close>

definition client_udp_limit :: "message \<Rightarrow> nat" where
  "client_udp_limit req =
     (case find (\<lambda>rr. rr_rtype rr = RT_OPT) (msg_additional req) of
        Some rr \<Rightarrow> (case rr_rclass rr of CL_Unknown n \<Rightarrow> if n \<ge> 512 then unat n else 512 | _ \<Rightarrow> 512)
      | None \<Rightarrow> 512)"

definition truncated_form :: "message \<Rightarrow> message" where
  "truncated_form resp =
     (set_truncated True resp)\<lparr>msg_answers := [], msg_authority := [], msg_additional := []\<rparr>"

definition fit_udp_response :: "'n hickory_ops \<Rightarrow> message \<Rightarrow> u8 list \<Rightarrow> nat \<Rightarrow> u8 list" where
  "fit_udp_response ops resp serialized limit =
     (if length serialized \<le> limit then serialized
      else case serialize_message ops (truncated_form resp) of
        Inr data \<Rightarrow> data
      | Inl _ \<Rightarrow> serialized)"

text \<open>\<^verbatim>\<open>handle_request\<close> up to the datagram it hands to the socket.\<close>

definition udp_handle_request :: "'n hickory_ops \<Rightarrow> 's handler \<Rightarrow> u8 list \<Rightarrow> sock_addr \<Rightarrow> 's
    \<Rightarrow> (u8 list result \<times> 's) option" where
  "udp_handle_request ops handler data peer s =
     (case parse_message ops data of
        Inl e \<Rightarrow> Some (Inl e, s)
      | Inr req \<Rightarrow>
          (case handler (request_context_with_client req (Some peer) Udp) s of
             None \<Rightarrow> None
           | Some (Inl e, s) \<Rightarrow> Some (Inl e, s)
           | Some (Inr resp, s) \<Rightarrow>
               (let resp = set_id (msg_id req) resp in
                case serialize_message ops resp of
                  Inl e \<Rightarrow> Some (Inl e, s)
                | Inr bytes \<Rightarrow> Some (Inr (fit_udp_response ops resp bytes (client_udp_limit req)), s))))"

definition RECV_BUF_MIN :: nat where
  "RECV_BUF_MIN = 4096"

text \<open>The read buffer cuts a longer datagram off.\<close>

definition received_data :: "'h server_config \<Rightarrow> u8 list \<Rightarrow> u8 list" where
  "received_data cfg datagram = take (max (sc_max_udp_size cfg) RECV_BUF_MIN) datagram"

section \<open>Streams\<close>

text \<open>
  What a peer sends before it closes the connection, stalls past the read timeout or the
  connection breaks (with the text of the error that a read then gives); and the writing side, which may break after some bytes.
\<close>

datatype stream_end = Closed string | Stalled | Broken string

record in_stream =
  is_bytes :: "u8 list"
  is_end :: stream_end

record out_stream =
  os_written :: "u8 list"
  os_breaks :: "(nat \<times> string) option"

definition read_exact :: "nat \<Rightarrow> in_stream \<Rightarrow> (stream_end + u8 list) \<times> in_stream" where
  "read_exact n st =
     (if length (is_bytes st) < n then (Inl (is_end st), st\<lparr>is_bytes := []\<rparr>)
      else (Inr (take n (is_bytes st)), st\<lparr>is_bytes := drop n (is_bytes st)\<rparr>))"

definition write_stream :: "u8 list \<Rightarrow> out_stream \<Rightarrow> error option \<times> out_stream" where
  "write_stream bs st =
     (case os_breaks st of
        Some (k, e) \<Rightarrow>
          if length (os_written st) + length bs > k
          then (Some (Io e), st\<lparr>os_written := take k (os_written st @ bs)\<rparr>)
          else (None, st\<lparr>os_written := os_written st @ bs\<rparr>)
      | None \<Rightarrow> (None, st\<lparr>os_written := os_written st @ bs\<rparr>))"

definition u16_be :: "u16 \<Rightarrow> u8 list" where
  "u16_be w = [ucast (drop_bit 8 w), ucast w]"

definition u16_from_be :: "u8 list \<Rightarrow> u16" where
  "u16_from_be bs = (case bs of [a, b] \<Rightarrow> push_bit 8 (ucast a) OR ucast b | _ \<Rightarrow> 0)"

definition write_frame :: "u16 \<Rightarrow> u8 list \<Rightarrow> out_stream \<Rightarrow> error option \<times> out_stream" where
  "write_frame len data out =
     (case write_stream (u16_be len) out of
        (Some e, out) \<Rightarrow> (Some e, out)
      | (None, out) \<Rightarrow> write_stream data out)"

section \<open>TCP\<close>

definition read_error :: "string \<Rightarrow> stream_end \<Rightarrow> error" where
  "read_error timed_out e =
     (case e of
        Closed m \<Rightarrow> Io m
      | Stalled \<Rightarrow> Other timed_out
      | Broken m \<Rightarrow> Io m)"

definition too_large :: "string \<Rightarrow> nat \<Rightarrow> error" where
  "too_large what n = Other (''response too large for '' @ what @ '' DNS framing: '' @ show_nat n @ '' bytes (max 65535)'')"

definition tcp_handle_connection :: "'n hickory_ops \<Rightarrow> 's handler \<Rightarrow> nat \<Rightarrow> sock_addr \<Rightarrow> in_stream \<Rightarrow> out_stream \<Rightarrow> 's
    \<Rightarrow> (error option \<times> out_stream \<times> 's) option" where
  "tcp_handle_connection ops handler max_size peer st out s =
     (case read_exact 2 st of
        (Inl e, st) \<Rightarrow> Some (Some (read_error ''timed out reading message length'' e), out, s)
      | (Inr len_buf, st) \<Rightarrow>
          (let msg_len = unat (u16_from_be len_buf) in
           if msg_len > max_size
           then Some (Some (DnsProtocol (''Message too large: '' @ show_nat msg_len @ '' > '' @ show_nat max_size)), out, s)
           else case read_exact msg_len st of
             (Inl e, st) \<Rightarrow> Some (Some (read_error ''timed out reading message body'' e), out, s)
           | (Inr buf, st) \<Rightarrow>
               (case parse_message ops buf of
                  Inl e \<Rightarrow> Some (Some e, out, s)
                | Inr req \<Rightarrow>
                    (case handler (request_context_with_client req (Some peer) Tcp) s of
                       None \<Rightarrow> None
                     | Some (Inl e, s) \<Rightarrow> Some (Some e, out, s)
                     | Some (Inr resp, s) \<Rightarrow>
                         (case serialize_message ops resp of
                            Inl e \<Rightarrow> Some (Some e, out, s)
                          | Inr data \<Rightarrow>
                              if length data > 65535 then Some (Some (too_large ''TCP'' (length data)), out, s)
                              else (case write_frame (of_nat (length data)) data out of
                                      (r, out) \<Rightarrow> Some (r, out, s)))))))"

section \<open>TLS\<close>

text \<open>
  After the handshake the connection carries any number of exchanges. The test of the length
  against 65535 in the source is void, the prefix being 16 bits wide.
\<close>

function dot_exchanges :: "'n hickory_ops \<Rightarrow> 's handler \<Rightarrow> sock_addr option \<Rightarrow> in_stream \<Rightarrow> out_stream \<Rightarrow> 's
    \<Rightarrow> (error option \<times> out_stream \<times> 's) option" where
  "dot_exchanges ops handler peer st out s =
     (case read_exact 2 st of
        (Inl (Closed m), st) \<Rightarrow> Some (None, out, s)
      | (Inl Stalled, st) \<Rightarrow> Some (None, out, s)
      | (Inl (Broken m), st) \<Rightarrow> Some (Some (Io m), out, s)
      | (Inr len_buf, st1) \<Rightarrow>
          (let msg_len = unat (u16_from_be len_buf) in
           if msg_len = 0 then Some (None, out, s)
           else case read_exact msg_len st1 of
             (Inl e, st) \<Rightarrow> Some (Some (read_error ''DoT body read timed out'' e), out, s)
           | (Inr buf, st2) \<Rightarrow>
               (case parse_message ops buf of
                  Inl e \<Rightarrow> Some (Some e, out, s)
                | Inr req \<Rightarrow>
                    (case handler (request_context_with_client req peer DoT) s of
                       None \<Rightarrow> None
                     | Some (Inl e, s) \<Rightarrow> Some (Some e, out, s)
                     | Some (Inr resp, s) \<Rightarrow>
                         (case serialize_message ops resp of
                            Inl e \<Rightarrow> Some (Some e, out, s)
                          | Inr data \<Rightarrow>
                              if length data > 65535 then Some (Some (too_large ''DoT'' (length data)), out, s)
                              else case write_frame (of_nat (length data)) data out of
                                (Some e, out) \<Rightarrow> Some (Some e, out, s)
                              | (None, out) \<Rightarrow> dot_exchanges ops handler peer st2 out s)))))"
  by pat_completeness auto

termination dot_exchanges
  by (relation "measure (\<lambda>(ops, handler, peer, st, out, s). length (is_bytes st))")
    (auto simp: read_exact_def split: if_splits)

declare dot_exchanges.simps [simp del]

definition dot_handle_connection :: "'n hickory_ops \<Rightarrow> 's handler \<Rightarrow> sock_addr option \<Rightarrow> string option \<Rightarrow> in_stream
    \<Rightarrow> out_stream \<Rightarrow> 's \<Rightarrow> (error option \<times> out_stream \<times> 's) option" where
  "dot_handle_connection ops handler peer handshake st out s =
     (case handshake of
        Some e \<Rightarrow> Some (Some (Other (''TLS handshake failed: '' @ e)), out, s)
      | None \<Rightarrow> dot_exchanges ops handler peer st out s)"

section \<open>QUIC\<close>

text \<open>One exchange per stream; the context has no client, and the length prefix is a cast. There is no
  read timeout: a stalled stream fails when the connection is lost, with the text \<open>lost\<close>.\<close>

definition doq_read_error :: "string \<Rightarrow> stream_end \<Rightarrow> error" where
  "doq_read_error lost e = Io (case e of Closed m \<Rightarrow> m | Stalled \<Rightarrow> lost | Broken m \<Rightarrow> m)"

definition doq_handle_stream :: "'n hickory_ops \<Rightarrow> 's handler \<Rightarrow> string \<Rightarrow> in_stream \<Rightarrow> out_stream \<Rightarrow> 's
    \<Rightarrow> (error option \<times> out_stream \<times> 's) option" where
  "doq_handle_stream ops handler lost st out s =
     (case read_exact 2 st of
        (Inl e, st) \<Rightarrow> Some (Some (doq_read_error lost e), out, s)
      | (Inr len_buf, st) \<Rightarrow>
          (case read_exact (unat (u16_from_be len_buf)) st of
             (Inl e, st) \<Rightarrow> Some (Some (doq_read_error lost e), out, s)
           | (Inr buf, st) \<Rightarrow>
               (case parse_message ops buf of
                  Inl e \<Rightarrow> Some (Some e, out, s)
                | Inr req \<Rightarrow>
                    (case handler (request_context_new req DoQ) s of
                       None \<Rightarrow> None
                     | Some (Inl e, s) \<Rightarrow> Some (Some e, out, s)
                     | Some (Inr resp, s) \<Rightarrow>
                         (case serialize_message ops resp of
                            Inl e \<Rightarrow> Some (Some e, out, s)
                          | Inr data \<Rightarrow>
                              (case write_frame (of_nat (length data)) data out of (r, out) \<Rightarrow> Some (r, out, s)))))))"

section \<open>HTTPS\<close>

record http_response =
  hr_status :: nat
  hr_content_type :: "string option"
  hr_body :: "u8 list"

definition text_response :: "nat \<Rightarrow> string \<Rightarrow> http_response" where
  "text_response status text =
     \<lparr>hr_status = status, hr_content_type = Some ''text/plain; charset=utf-8'', hr_body = str_bytes text\<rparr>"

text \<open>Header values by lower-case name; a value that is not visible ASCII has no text.\<close>

type_synonym headers = "string \<rightharpoonup> string"

definition header_text :: "string \<Rightarrow> string option" where
  "header_text v =
     (if \<forall>c \<in> set v. let n = (of_char c :: nat) in n = 9 \<or> (32 \<le> n \<and> n < 127) then Some v else None)"

definition extract_client_addr :: "headers \<Rightarrow> sock_addr option \<Rightarrow> bool \<Rightarrow> sock_addr option" where
  "extract_client_addr hs connect_addr trust_forwarded_for =
     (case (if trust_forwarded_for
            then Option.bind (Option.bind (hs ''x-forwarded-for'') header_text)
                   (\<lambda>v. parse_ip (trim (hd (split_on (CHR '','') v))))
            else None) of
        Some ip \<Rightarrow>
          Some \<lparr>sa_ip = ip, sa_port = (case connect_addr of Some a \<Rightarrow> sa_port a | None \<Rightarrow> 443)\<rparr>
      | None \<Rightarrow> connect_addr)"

text \<open>The common part of both handlers, from the wire format to the response.\<close>

definition doh_answer :: "'n hickory_ops \<Rightarrow> 's handler \<Rightarrow> sock_addr option \<Rightarrow> u8 list \<Rightarrow> 's \<Rightarrow> (http_response \<times> 's) option" where
  "doh_answer ops handler client data s =
     (case parse_message ops data of
        Inl e \<Rightarrow> Some (text_response 400 (''Invalid DNS message: '' @ error_fmt e), s)
      | Inr req \<Rightarrow>
          (case handler (request_context_with_client req client DoH) s of
             None \<Rightarrow> None
           | Some (Inl e, s) \<Rightarrow> Some (text_response 500 (''Query processing failed: '' @ error_fmt e), s)
           | Some (Inr resp, s) \<Rightarrow>
               (case serialize_message ops resp of
                  Inl e \<Rightarrow> Some (text_response 500 (''Response serialization failed: '' @ error_fmt e), s)
                | Inr bytes \<Rightarrow>
                    Some (\<lparr>hr_status = 200, hr_content_type = Some ''application/dns-message'', hr_body = bytes\<rparr>, s))))"

definition handle_get_query :: "'n hickory_ops \<Rightarrow> (string \<Rightarrow> string + u8 list) \<Rightarrow> 's handler \<Rightarrow> bool \<Rightarrow> sock_addr
    \<Rightarrow> (string \<rightharpoonup> string) \<Rightarrow> headers \<Rightarrow> 's \<Rightarrow> (http_response \<times> 's) option" where
  "handle_get_query ops decode handler trust connect_addr params hs s =
     (case params ''dns'' of
        None \<Rightarrow> Some (text_response 400
          ''Missing 'dns' query parameter. Usage: /dns-query?dns=<base64url-encoded-query>'', s)
      | Some p \<Rightarrow>
          (case decode p of
             Inl e \<Rightarrow> Some (text_response 400 (''Invalid base64url encoding: '' @ e), s)
           | Inr data \<Rightarrow> doh_answer ops handler (extract_client_addr hs (Some connect_addr) trust) data s))"

definition handle_post_query :: "'n hickory_ops \<Rightarrow> 's handler \<Rightarrow> bool \<Rightarrow> sock_addr
    \<Rightarrow> headers \<Rightarrow> u8 list \<Rightarrow> 's \<Rightarrow> (http_response \<times> 's) option" where
  "handle_post_query ops handler trust connect_addr hs body s =
     (case hs ''content-type'' of
        None \<Rightarrow> Some (text_response 400 ''Content-Type header required'', s)
      | Some ct \<Rightarrow>
          if ct \<noteq> ''application/dns-message''
          then Some (text_response 415 ''Content-Type must be application/dns-message'', s)
          else doh_answer ops handler (extract_client_addr hs (Some connect_addr) trust) body s)"

section \<open>Construction\<close>

definition udp_from_config :: "'h server_config \<Rightarrow> (sock_addr \<times> 'h \<times> nat) result" where
  "udp_from_config cfg =
     (case sc_handler cfg of
        None \<Rightarrow> Inl (Config ''Handler not configured'')
      | Some h \<Rightarrow>
          (case sc_udp_addr cfg of
             None \<Rightarrow> Inl (Config ''UDP address not configured'')
           | Some a \<Rightarrow> Inr (a, h, sc_max_connections cfg)))"

definition tcp_from_config :: "'h server_config \<Rightarrow> (sock_addr \<times> 'h \<times> nat) result" where
  "tcp_from_config cfg =
     (case sc_handler cfg of
        None \<Rightarrow> Inl (Config ''Handler not configured'')
      | Some h \<Rightarrow>
          (case sc_tcp_addr cfg of
             None \<Rightarrow> Inl (Config ''TCP address not configured'')
           | Some a \<Rightarrow> Inr (a, h, sc_max_connections cfg)))"

text \<open>The TLS server starts with 1000 permits and its constructor from the configuration keeps them.\<close>

definition dot_from_config :: "'h server_config \<Rightarrow> (sock_addr \<times> 'h \<times> nat \<times> nat) result" where
  "dot_from_config cfg =
     (case sc_tcp_addr cfg of
        None \<Rightarrow> Inl (Config ''TCP address not configured for DoT'')
      | Some a \<Rightarrow>
          if \<not> sc_has_tls cfg then Inl (Config ''TLS config not configured for DoT'')
          else case sc_handler cfg of
            None \<Rightarrow> Inl (Config ''Handler not configured'')
          | Some h \<Rightarrow> Inr (a, h, 1000, sc_timeout_secs cfg))"

definition doh_from_config :: "'h server_config \<Rightarrow> (sock_addr \<times> 'h \<times> string \<times> bool) result" where
  "doh_from_config cfg =
     (case sc_tcp_addr cfg of
        None \<Rightarrow> Inl (Config ''TCP address not configured for DoH'')
      | Some a \<Rightarrow>
          if \<not> sc_has_tls cfg then Inl (Config ''TLS config not configured for DoH'')
          else case sc_handler cfg of
            None \<Rightarrow> Inl (Config ''Handler not configured'')
          | Some h \<Rightarrow>
              Inr (a, h, case sc_doh_path cfg of Some p \<Rightarrow> p | None \<Rightarrow> ''/dns-query'', sc_trust_forwarded_for cfg))"

definition doq_from_config :: "'h server_config \<Rightarrow> (sock_addr \<times> string \<times> string \<times> 'h) result" where
  "doq_from_config cfg =
     (case sc_tcp_addr cfg of
        None \<Rightarrow> Inl (Config ''Address not configured for DoQ'')
      | Some a \<Rightarrow>
          (case sc_cert_path cfg of
             None \<Rightarrow> Inl (Config ''Cert path not configured for DoQ'')
           | Some cert \<Rightarrow>
               (case sc_key_path cfg of
                  None \<Rightarrow> Inl (Config ''Key path not configured for DoQ'')
                | Some key \<Rightarrow>
                    (case sc_handler cfg of
                       None \<Rightarrow> Inl (Config ''Handler not configured'')
                     | Some h \<Rightarrow> Inr (a, cert, key, h)))))"

section \<open>The accept loops\<close>

text \<open>
  UDP, TCP and TLS share one loop: a received packet or connection takes a permit or is dropped,
  its task gives the permit back, and a shutdown signal ends the loop, which then waits for its
  tasks for at most ten seconds. A job is what a task works on; \<open>al_done\<close> records the finished
  tasks and \<open>al_now\<close> is the clock in milliseconds. \<open>Draining t\<close> and \<open>Stopped t\<close> carry the instant of the signal.
\<close>

datatype loop_phase = Accepting | Draining nat | Stopped nat

record 'j accept_loop =
  al_permits :: nat
  al_jobs :: "'j list"
  al_done :: "'j list"
  al_dropped :: nat
  al_phase :: loop_phase
  al_now :: nat

definition accept_loop_new :: "nat \<Rightarrow> 'j accept_loop" where
  "accept_loop_new n = \<lparr>al_permits = n, al_jobs = [], al_done = [], al_dropped = 0, al_phase = Accepting, al_now = 0\<rparr>"

definition accept_job :: "'j \<Rightarrow> 'j accept_loop \<Rightarrow> 'j accept_loop" where
  "accept_job j al =
     (case al_permits al of
        0 \<Rightarrow> al\<lparr>al_dropped := al_dropped al + 1\<rparr>
      | Suc k \<Rightarrow> al\<lparr>al_permits := k, al_jobs := al_jobs al @ [j]\<rparr>)"

definition finish_job :: "nat \<Rightarrow> 'j accept_loop \<Rightarrow> 'j accept_loop" where
  "finish_job i al =
     al\<lparr>al_permits := al_permits al + 1, al_jobs := take i (al_jobs al) @ drop (Suc i) (al_jobs al),
       al_done := al_done al @ [al_jobs al ! i]\<rparr>"

definition drain_timeout :: nat where
  "drain_timeout = 10000"

text \<open>One poll of \<^verbatim>\<open>drain_permits\<close>: it is over when all permits are back or the timeout has passed.
  The loop polls every 25 milliseconds and when the timeout fires.\<close>

definition drain_permits :: "nat \<Rightarrow> nat \<Rightarrow> 'j accept_loop \<Rightarrow> 'j accept_loop" where
  "drain_permits total_permits timeout al =
     (case al_phase al of
        Draining t \<Rightarrow>
          if al_permits al \<ge> total_permits \<or> al_now al \<ge> t + timeout then al\<lparr>al_phase := Stopped t\<rparr> else al
      | _ \<Rightarrow> al)"

text \<open>The loop of a server with \<open>n\<close> permits. Tasks go on after the loop has stopped waiting.\<close>

inductive loop_step :: "nat \<Rightarrow> 'j accept_loop \<Rightarrow> 'j accept_loop \<Rightarrow> bool" for n :: nat where
  receive: "al_phase al = Accepting \<Longrightarrow> loop_step n al (accept_job j al)"
| receive_error: "al_phase al = Accepting \<Longrightarrow> loop_step n al al"
| finish: "i < length (al_jobs al) \<Longrightarrow> loop_step n al (finish_job i al)"
| shutdown: "al_phase al = Accepting \<Longrightarrow> loop_step n al (al\<lparr>al_phase := Draining (al_now al)\<rparr>)"
| drain: "loop_step n al (drain_permits n drain_timeout al)"
| tick: "loop_step n al (al\<lparr>al_now := al_now al + d\<rparr>)"

section \<open>Framing\<close>

definition frame :: "u8 list \<Rightarrow> u8 list" where
  "frame data = u16_be (of_nat (length data)) @ data"

lemma u16_from_be_be [simp]: "u16_from_be (u16_be w) = w"
proof (rule bit_word_eqI)
  fix n assume "n < LENGTH(16)"
  then have "n < 8 \<or> (8 \<le> n \<and> n < 16)" by auto
  then show "bit (u16_from_be (u16_be w)) n = bit w n"
    by (auto simp: u16_from_be_def u16_be_def bit_simps)
qed

lemma length_u16_be [simp]: "length (u16_be w) = 2"
  by (simp add: u16_be_def)

lemma read_frame:
  assumes "length data < 65536"
  shows "read_exact 2 \<lparr>is_bytes = frame data @ rest, is_end = e\<rparr> =
      (Inr (u16_be (of_nat (length data))), \<lparr>is_bytes = data @ rest, is_end = e\<rparr>)"
    and "unat (of_nat (length data) :: u16) = length data"
    and "read_exact (length data) \<lparr>is_bytes = data @ rest, is_end = e\<rparr> =
      (Inr data, \<lparr>is_bytes = rest, is_end = e\<rparr>)"
  using assms by (simp_all add: read_exact_def frame_def unat_of_nat take_bit_nat_eq_self)

lemma write_frame_whole:
  "os_breaks out = None \<Longrightarrow> write_frame (of_nat (length data)) data out =
     (None, out\<lparr>os_written := os_written out @ frame data\<rparr>)"
  by (simp add: write_frame_def write_stream_def frame_def)

section \<open>Handlers that answer under the id of the request\<close>

locale request_handler =
  fixes handler :: "'s handler"
  assumes keeps_id: "handler rc s = Some (Inr m, s') \<Longrightarrow> msg_id m = msg_id (rc_message rc)"
begin

text \<open>Every transport answers with a message under the id of the request it read.\<close>

lemma udp_reply:
  assumes "udp_handle_request ops handler data peer s = Some (Inr bytes, s')"
  shows "\<exists>req resp. parse_message ops data = Inr req \<and> msg_id resp = msg_id req \<and>
    (serialize_message ops resp = Inr bytes)"
proof -
  obtain req resp full where h: "parse_message ops data = Inr req"
    "serialize_message ops (set_id (msg_id req) resp) = Inr full"
    "bytes = fit_udp_response ops (set_id (msg_id req) resp) full (client_udp_limit req)"
    using assms by (auto simp: udp_handle_request_def Let_def split: sum.splits option.splits prod.splits)
  have "serialize_message ops (set_id (msg_id req) resp) = Inr bytes \<or>
      serialize_message ops (truncated_form (set_id (msg_id req) resp)) = Inr bytes"
    using h(2,3) by (auto simp: fit_udp_response_def split: if_splits sum.splits)
  moreover have "msg_id (truncated_form (set_id (msg_id req) resp)) = msg_id req"
    "msg_id (set_id (msg_id req) resp) = msg_id req"
    by (simp_all add: truncated_form_def set_truncated_def set_id_def)
  ultimately show ?thesis using h(1) by metis
qed

lemma tcp_reply:
  assumes "tcp_handle_connection ops handler mx peer st out s = Some (None, out', s')"
  shows "\<exists>data req resp bytes. parse_message ops data = Inr req \<and> msg_id resp = msg_id req \<and>
    serialize_message ops resp = Inr bytes \<and> write_frame (of_nat (length bytes)) bytes out = (None, out')"
  using assms keeps_id
  by (fastforce simp: tcp_handle_connection_def Let_def request_context_with_client_def
      split: sum.splits option.splits prod.splits if_splits)

end

lemma default_handle_id: "default_handle rc = Inr m \<Longrightarrow> msg_id m = msg_id (rc_message rc)"
  by (auto simp: default_handle_def set_recursion_available_def set_response_def)

interpretation dh: request_handler "\<lambda>rc s. Some (default_handle rc, s)"
  by unfold_locales (auto dest: default_handle_id)

text \<open>The plugin handler is one, when no leaf changes the id of the request.\<close>

lemma plugin_handler_id:
  assumes "leaves_respect same_request_id h"
  shows "request_handler (handle h reg entry fuel now)"
proof unfold_locales
  fix rc s m s' assume "handle h reg entry fuel now rc s = Some (Inr m, s')"
  from rid.handle_respects [OF assms this] show "msg_id m = msg_id (rc_message rc)"
    by (auto simp: same_request_id_def finish_response_def)
qed

interpretation ph: request_handler "handle demo_heap demo_registry ''main'' fuel now" for fuel now
  by (rule plugin_handler_id [OF demo_leaves_respect])

section \<open>Permits\<close>

definition loop_inv :: "nat \<Rightarrow> 'j accept_loop \<Rightarrow> bool" where
  "loop_inv n al \<longleftrightarrow> al_permits al + length (al_jobs al) = n \<and>
     (\<forall>t. al_phase al = Stopped t \<longrightarrow> al_jobs al = [] \<or> t + drain_timeout \<le> al_now al)"

lemma loop_inv_step: "loop_step n al al' \<Longrightarrow> loop_inv n al \<Longrightarrow> loop_inv n al'"
  by (induction rule: loop_step.induct)
    (auto simp: loop_inv_def accept_job_def finish_job_def drain_permits_def split: nat.split loop_phase.splits)

lemma loop_inv_reachable: "(loop_step n)\<^sup>*\<^sup>* (accept_loop_new n) al \<Longrightarrow> loop_inv n al"
proof (induction rule: rtranclp_induct)
  case base
  then show ?case by (simp add: loop_inv_def accept_loop_new_def)
next
  case (step al al')
  then show ?case by (blast intro: loop_inv_step)
qed

text \<open>
  C28: A server never works on more packets or connections than it has permits, and no permit is
  lost: in every state of an accept loop the free permits and the running tasks add up to the
  number of permits the loop was started with (the configured limit for UDP and TCP, a thousand
  for DNS over TLS, whose constructor keeps its default), and a packet or connection is dropped exactly when that many tasks run. After
  the shutdown signal, a poll of the draining stops the server exactly when no task is left or
  ten seconds have passed since the signal, so a stopped server has no task left or has waited
  for ten seconds.
\<close>

theorem accept_loop_permits:
  assumes "(loop_step n)\<^sup>*\<^sup>* (accept_loop_new n) al"
  shows "al_permits al + length (al_jobs al) = n \<and>
    (al_dropped (accept_job j al) = al_dropped al + 1 \<longleftrightarrow> length (al_jobs al) = n) \<and>
    (\<forall>t. al_phase al = Draining t \<longrightarrow>
       (al_phase (drain_permits n drain_timeout al) = Stopped t \<longleftrightarrow>
          al_jobs al = [] \<or> t + 10000 \<le> al_now al)) \<and>
    (\<forall>t. al_phase al = Stopped t \<longrightarrow> al_jobs al = [] \<or> t + 10000 \<le> al_now al)"
  using loop_inv_reachable [OF assms]
  by (auto simp: loop_inv_def accept_job_def drain_permits_def drain_timeout_def split: nat.split)

theorem accept_loop_permits_witness:
  "\<exists>al. (loop_step 1)\<^sup>*\<^sup>* (accept_loop_new 1) al \<and> al_jobs al = [''a''] \<and> al_phase al = Draining 0 \<and>
     al_now al = 3 \<and> al_dropped (accept_job ''b'' al) = 1 \<and>
     al_phase (drain_permits 1 drain_timeout al) \<noteq> Stopped 0"
proof -
  let ?a = "accept_job ''a'' (accept_loop_new 1)"
  let ?b = "?a\<lparr>al_phase := Draining (al_now ?a)\<rparr>"
  let ?al = "?b\<lparr>al_now := al_now ?b + 3\<rparr>"
  have "loop_step 1 (accept_loop_new 1) ?a" by (rule receive) (simp add: accept_loop_new_def)
  moreover have "loop_step 1 ?a ?b" by (rule shutdown) (simp add: accept_loop_new_def accept_job_def)
  moreover have "loop_step 1 ?b ?al" by (rule tick)
  ultimately have r: "(loop_step 1)\<^sup>*\<^sup>* (accept_loop_new 1) ?al"
    by (meson rtranclp.rtrancl_into_rtrancl rtranclp.rtrancl_refl)
  moreover have "al_jobs ?al = [''a'']" "al_dropped ?al = 0" "al_phase ?al = Draining 0" "al_now ?al = 3"
    by (simp_all add: accept_job_def accept_loop_new_def)
  ultimately show ?thesis
    using accept_loop_permits [OF r, of "''b''"] by (intro exI [of _ ?al]) auto
qed

text \<open>Every accepted job ends up done, once, when its task runs.\<close>

lemma finish_all:
  "\<exists>al'. (loop_step n)\<^sup>*\<^sup>* al al' \<and> al_jobs al' = [] \<and> al_done al' = al_done al @ al_jobs al"
proof (induction "al_jobs al" arbitrary: al)
  case Nil
  then show ?case by (intro exI [of _ al]) simp
next
  case (Cons j js)
  let ?al = "finish_job 0 al"
  have "loop_step n al ?al" using Cons.hyps(2) by (intro finish) (metis length_greater_0_conv list.distinct(1))
  moreover have "al_jobs ?al = js" "al_done ?al = al_done al @ [j]"
    using Cons.hyps(2) [symmetric] by (simp_all add: finish_job_def)
  ultimately show ?case using Cons.hyps(1) [of ?al] Cons.hyps(2) [symmetric]
    by (metis append.assoc append_Cons append_Nil converse_rtranclp_into_rtranclp)
qed

section \<open>Replies\<close>

lemma client_udp_limit_ge: "512 \<le> client_udp_limit req"
  by (auto simp: client_udp_limit_def word_le_nat_alt split: option.split record_class.split)

text \<open>
  C27: What a UDP client receives. Let the handler answer a request and the codec bring back what
  it serialises. Then the datagram decodes to a message under the id of the request: the
  handler's response, within the size the client allows, or else, when the response is larger,
  a message with the TC bit, the same question and no records. The client always gets at least
  512 bytes.
\<close>

theorem udp_reply_fits_or_truncates:
  assumes "parse_message ops data = Inr req"
    and "handler (request_context_with_client req (Some peer) Udp) s = Some (Inr resp, s')"
    and "serialize_message ops (set_id (msg_id req) resp) = Inr full"
    and "serialize_message ops (truncated_form (set_id (msg_id req) resp)) = Inr short"
    and "parse_message ops full = Inr (set_id (msg_id req) resp)"
    and "parse_message ops short = Inr (truncated_form (set_id (msg_id req) resp))"
  shows "512 \<le> client_udp_limit req \<and>
    (\<exists>bytes m. udp_handle_request ops handler data peer s = Some (Inr bytes, s') \<and>
       parse_message ops bytes = Inr m \<and> msg_id m = msg_id req \<and> msg_questions m = msg_questions resp \<and>
       (if length full \<le> client_udp_limit req then length bytes \<le> client_udp_limit req \<and> m = set_id (msg_id req) resp
        else msg_tc m \<and> records m = []))"
proof -
  have u: "udp_handle_request ops handler data peer s =
      Some (Inr (fit_udp_response ops (set_id (msg_id req) resp) full (client_udp_limit req)), s')"
    using assms(1-3) by (simp add: udp_handle_request_def Let_def)
  show ?thesis
  proof (cases "length full \<le> client_udp_limit req")
    case True
    with u assms(5) client_udp_limit_ge show ?thesis
      by (simp add: fit_udp_response_def set_id_def)
  next
    case False
    with u assms(4,6) client_udp_limit_ge show ?thesis
      by (simp add: fit_udp_response_def truncated_form_def set_truncated_def set_id_def records_def)
  qed
qed

subsection \<open>A codec for examples\<close>

text \<open>
  Names as in \<open>label_ops\<close>; three messages have encodings, a query (one byte), its response (600
  bytes) and the truncated form of the response.
\<close>

definition demo_question_msg :: message where
  "demo_question_msg = add_question (question_new ''a.example'' RT_A CL_IN) (set_id 7 message_new)"

definition crate_form :: "message \<Rightarrow> string list h_message" where
  "crate_form m = projr (convert_to_hickory label_ops m)"

definition demo_codec :: "string list hickory_ops" where
  "demo_codec = label_ops
     \<lparr>hk_from_bytes := (\<lambda>bs. if bs = [2] then Inr (crate_form demo_question_msg)
        else if bs = [0] then Inr (crate_form (truncated_form demo_exact)) else Inr (crate_form demo_exact)),
      hk_emit := (\<lambda>h. if h = crate_form demo_question_msg then Inr [2]
        else if h = crate_form (truncated_form demo_exact) then Inr [0] else Inr (replicate 600 1))\<rparr>"

lemmas demo_msg_defs = demo_exact_def demo_question_msg_def truncated_form_def set_truncated_def
  add_additional_def add_answer_def add_question_def set_response_def set_id_def message_new_def
  rr_new_def question_new_def

lemma demo_codec_names:
  "hk_name_from_utf8 demo_codec = hk_name_from_utf8 label_ops" "hk_name_to_utf8 demo_codec = hk_name_to_utf8 label_ops"
  "hk_rcode_from_u16 demo_codec = hk_rcode_from_u16 label_ops" "hk_rdata_emit demo_codec = hk_rdata_emit label_ops"
  "hk_options_iter demo_codec = hk_options_iter label_ops"
  by (simp_all add: demo_codec_def)

interpretation hd: hickory demo_codec "\<lambda>s. \<not> ends_with ''.'' s"
  using hl.hickory_axioms unfolding hickory_def demo_codec_names .

lemma demo_messages_exact:
  "message_exact (\<lambda>s. \<not> ends_with ''.'' s) demo_question_msg"
  "message_exact (\<lambda>s. \<not> ends_with ''.'' s) (truncated_form demo_exact)"
  by (simp_all add: message_exact_def demo_msg_defs ends_with_def strip_suffix_def strip_prefix_def)

lemma demo_messages_few:
  "\<forall>rr \<in> set (msg_additional demo_question_msg). few_options rr"
  "\<forall>rr \<in> set (msg_additional (truncated_form demo_exact)). few_options rr"
  by (simp_all add: demo_msg_defs)

lemma demo_convert:
  "convert_to_hickory demo_codec demo_exact = Inr (crate_form demo_exact)"
  "convert_to_hickory demo_codec (truncated_form demo_exact) = Inr (crate_form (truncated_form demo_exact))"
  "convert_to_hickory demo_codec demo_question_msg = Inr (crate_form demo_question_msg)"
  by (simp_all add: crate_form_def demo_codec_def demo_msg_defs convert_to_hickory_def name_of_def
      label_ops_def convert_to_hickory_record_def convert_to_hickory_rdata_def edns_of_def hickory_header_def)

lemma crate_form_back:
  "convert_from_hickory demo_codec (crate_form demo_exact) = Inr demo_exact"
  "convert_from_hickory demo_codec (crate_form (truncated_form demo_exact)) = Inr (truncated_form demo_exact)"
  "convert_from_hickory demo_codec (crate_form demo_question_msg) = Inr demo_question_msg"
  by (rule hd.message_back_exact [OF _ demo_convert(1)] hd.message_back_exact [OF _ demo_convert(2)]
      hd.message_back_exact [OF _ demo_convert(3)];
      rule demo_exact demo_messages_exact demo_exact_few demo_messages_few)+

lemma crate_forms_differ:
  "crate_form demo_exact \<noteq> crate_form demo_question_msg"
  "crate_form demo_exact \<noteq> crate_form (truncated_form demo_exact)"
  "crate_form (truncated_form demo_exact) \<noteq> crate_form demo_question_msg"
  using crate_form_back by (auto simp: demo_msg_defs)

lemma demo_bytes [simp]: "replicate 600 (1 :: u8) \<noteq> [x]"
  by (rule notI, drule arg_cong [of _ _ length]) simp

lemma demo_wire:
  "serialize_message demo_codec demo_exact = Inr (replicate 600 1)"
  "serialize_message demo_codec (truncated_form demo_exact) = Inr [0]"
  "parse_message demo_codec (replicate 600 1) = Inr demo_exact"
  "parse_message demo_codec [0] = Inr (truncated_form demo_exact)"
  "parse_message demo_codec [2] = Inr demo_question_msg"
  by (simp_all add: serialize_message_def parse_message_def demo_convert crate_form_back)
    (simp_all add: demo_codec_def crate_forms_differ crate_form_back [unfolded demo_codec_def])

definition demo_server_handler :: "unit handler" where
  "demo_server_handler rc s = Some (Inr demo_exact, s)"

definition demo_peer :: sock_addr where
  "demo_peer = \<lparr>sa_ip = V4 (v4_new 192 0 2 1), sa_port = 5000\<rparr>"

lemma demo_ids: "set_id 7 demo_exact = demo_exact" "msg_id demo_question_msg = 7" "client_udp_limit demo_question_msg = 512"
  by (simp_all add: demo_msg_defs client_udp_limit_def)

theorem udp_reply_fits_or_truncates_witness:
  "\<exists>bytes m. udp_handle_request demo_codec demo_server_handler [2] demo_peer () = Some (Inr bytes, ()) \<and>
     parse_message demo_codec bytes = Inr m \<and> msg_id m = 7 \<and> msg_tc m \<and> records m = []"
  using udp_reply_fits_or_truncates [of demo_codec "[2]" demo_question_msg demo_server_handler demo_peer "()"
      demo_exact "()" "replicate 600 1" "[0]"] demo_wire
  by (auto simp: demo_server_handler_def demo_ids)

section \<open>Exchanges on one connection\<close>

text \<open>What a handler answers to a list of requests, one after the other.\<close>

fun answers_of :: "'s handler \<Rightarrow> (message \<Rightarrow> request_context) \<Rightarrow> message list \<Rightarrow> 's \<Rightarrow> (message list \<times> 's) option" where
  "answers_of handler mk [] s = Some ([], s)"
| "answers_of handler mk (m # ms) s =
     (case handler (mk m) s of
        Some (Inr r, s) \<Rightarrow> map_option (\<lambda>(rs, s). (r # rs, s)) (answers_of handler mk ms s)
      | _ \<Rightarrow> None)"

lemma dot_exchange_step:
  assumes "parse_message ops data = Inr req" and "0 < length data" and "length data < 65536"
    and "handler (request_context_with_client req peer DoT) s = Some (Inr resp, s')"
    and "serialize_message ops resp = Inr bytes" and "length bytes < 65536" and "os_breaks out = None"
  shows "dot_exchanges ops handler peer \<lparr>is_bytes = frame data @ rest, is_end = e\<rparr> out s =
    dot_exchanges ops handler peer \<lparr>is_bytes = rest, is_end = e\<rparr> (out\<lparr>os_written := os_written out @ frame bytes\<rparr>) s'"
  using assms
  by (subst dot_exchanges.simps) (simp add: read_frame write_frame_whole Let_def)

lemma dot_exchanges_end:
  "dot_exchanges ops handler peer \<lparr>is_bytes = [], is_end = Closed m\<rparr> out s = Some (None, out, s)"
  by (subst dot_exchanges.simps) (simp add: read_exact_def)

lemma dot_exchanges_all:
  assumes "\<forall>m \<in> set ms. parse_message ops (enc m) = Inr m \<and> 0 < length (enc m) \<and> length (enc m) < 65536"
    and "answers_of handler (\<lambda>m. request_context_with_client m peer DoT) ms s = Some (rs, s')"
    and "\<forall>r \<in> set rs. serialize_message ops r = Inr (ser r) \<and> length (ser r) < 65536"
    and "os_breaks out = None"
  shows "dot_exchanges ops handler peer \<lparr>is_bytes = concat (map (frame \<circ> enc) ms), is_end = Closed why\<rparr> out s =
    Some (None, out\<lparr>os_written := os_written out @ concat (map (frame \<circ> ser) rs)\<rparr>, s')"
  using assms
proof (induction ms arbitrary: s rs out)
  case Nil
  then show ?case using dot_exchanges_end by simp
next
  case (Cons m ms)
  obtain r s1 where h: "handler (request_context_with_client m peer DoT) s = Some (Inr r, s1)"
    using Cons.prems(2) by (auto split: option.splits sum.splits prod.splits)
  obtain rs1 where rs: "answers_of handler (\<lambda>m. request_context_with_client m peer DoT) ms s1 = Some (rs1, s')"
    "rs = r # rs1"
    using Cons.prems(2) h by auto
  let ?out = "out\<lparr>os_written := os_written out @ frame (ser r)\<rparr>"
  have "dot_exchanges ops handler peer \<lparr>is_bytes = frame (enc m) @ concat (map (frame \<circ> enc) ms), is_end = Closed why\<rparr> out s =
      dot_exchanges ops handler peer \<lparr>is_bytes = concat (map (frame \<circ> enc) ms), is_end = Closed why\<rparr> ?out s1"
    using Cons.prems rs(2) h by (intro dot_exchange_step) auto
  also have "\<dots> = Some (None, ?out\<lparr>os_written := os_written ?out @ concat (map (frame \<circ> ser) rs1)\<rparr>, s')"
    using Cons.prems rs by (intro Cons.IH) auto
  finally show ?case by (simp add: rs(2) o_def)
qed

text \<open>
  C29: Requests pipelined on a TLS connection are answered in order. When the client sends the
  frames of any number of requests and closes, and the handler answers each, the server writes
  exactly the frames of the responses, in the order of the requests, each request handled in
  the state the previous one left.
\<close>

theorem dot_answers_in_order:
  assumes "\<forall>m \<in> set ms. parse_message ops (enc m) = Inr m \<and> 0 < length (enc m) \<and> length (enc m) < 65536"
    and "answers_of handler (\<lambda>m. request_context_with_client m peer DoT) ms s = Some (rs, s')"
    and "\<forall>r \<in> set rs. serialize_message ops r = Inr (ser r) \<and> length (ser r) < 65536"
  shows "dot_handle_connection ops handler peer None
      \<lparr>is_bytes = concat (map (frame \<circ> enc) ms), is_end = Closed why\<rparr> \<lparr>os_written = [], os_breaks = None\<rparr> s =
    Some (None, \<lparr>os_written = concat (map (frame \<circ> ser) rs), os_breaks = None\<rparr>, s')"
  using dot_exchanges_all [OF assms, of "\<lparr>os_written = [], os_breaks = None\<rparr>"]
  by (simp add: dot_handle_connection_def)

theorem dot_answers_in_order_witness:
  "dot_handle_connection demo_codec demo_server_handler (Some demo_peer) None
     \<lparr>is_bytes = frame [2] @ frame [2], is_end = Closed ''eof''\<rparr> \<lparr>os_written = [], os_breaks = None\<rparr> () =
   Some (None, \<lparr>os_written = frame (replicate 600 1) @ frame (replicate 600 1), os_breaks = None\<rparr>, ())"
  using dot_answers_in_order [of "[demo_question_msg, demo_question_msg]" demo_codec "\<lambda>_. [2]" demo_server_handler
      "Some demo_peer" "()" "[demo_exact, demo_exact]" "()" "\<lambda>_. replicate 600 1" "''eof''"] demo_wire
  by (simp add: demo_server_handler_def o_def)

text \<open>A TCP connection carries one exchange: what follows the first frame is not read.\<close>

lemma tcp_answers_once:
  assumes "parse_message ops data = Inr req" and "length data < 65536" and "length data \<le> mx"
    and "handler (request_context_with_client req (Some peer) Tcp) s = Some (Inr resp, s')"
    and "serialize_message ops resp = Inr bytes" and "length bytes < 65536"
  shows "tcp_handle_connection ops handler mx peer \<lparr>is_bytes = frame data @ rest, is_end = e\<rparr>
      \<lparr>os_written = [], os_breaks = None\<rparr> s = Some (None, \<lparr>os_written = frame bytes, os_breaks = None\<rparr>, s')"
  using assms by (simp add: tcp_handle_connection_def read_frame write_frame_whole Let_def)

section \<open>What the transports do differently\<close>

lemma u16_of_nat_mod: "(of_nat n :: u16) = of_nat (n mod 65536)"
  by (simp add: word_of_nat_eq_iff take_bit_eq_mod)

text \<open>
  A response that is too large for the two-byte length is an error on TCP, which writes
  nothing; on QUIC the length is cast, so the server writes a prefix for the size modulo 65536
  followed by all the bytes, and a reader that trusts the prefix takes a part of the response.
\<close>

theorem oversized_response:
  assumes "parse_message ops data = Inr req" and "length data < 65536" and "length data \<le> mx"
    and "handler (request_context_with_client req (Some peer) Tcp) s = Some (Inr resp, s1)"
    and "handler (request_context_new req DoQ) s = Some (Inr resp, s2)"
    and "serialize_message ops resp = Inr bytes" and "65536 \<le> length bytes"
  shows "tcp_handle_connection ops handler mx peer \<lparr>is_bytes = frame data, is_end = e\<rparr>
      \<lparr>os_written = [], os_breaks = None\<rparr> s =
      Some (Some (too_large ''TCP'' (length bytes)), \<lparr>os_written = [], os_breaks = None\<rparr>, s1) \<and>
    (\<exists>out. doq_handle_stream ops handler lost \<lparr>is_bytes = frame data, is_end = e\<rparr>
        \<lparr>os_written = [], os_breaks = None\<rparr> s = Some (None, out, s2) \<and>
      os_written out = u16_be (of_nat (length bytes mod 65536)) @ bytes \<and>
      (case read_exact 2 \<lparr>is_bytes = os_written out, is_end = e\<rparr> of
         (Inr len_buf, st) \<Rightarrow> unat (u16_from_be len_buf) < length bytes
       | _ \<Rightarrow> False))"
proof -
  have f: "read_exact 2 \<lparr>is_bytes = frame data, is_end = e\<rparr> =
      (Inr (u16_be (of_nat (length data))), \<lparr>is_bytes = data, is_end = e\<rparr>)"
    "read_exact (length data) \<lparr>is_bytes = data, is_end = e\<rparr> = (Inr data, \<lparr>is_bytes = [], is_end = e\<rparr>)"
    using read_frame(1,3) [OF assms(2), of "[]" e] by simp_all
  have n: "unat (of_nat (length data) :: u16) = length data" using read_frame(2) [OF assms(2)] .
  have fr: "frame bytes = u16_be (of_nat (length bytes mod 65536)) @ bytes"
    by (simp add: frame_def flip: u16_of_nat_mod)
  have small: "unat (of_nat (length bytes mod 65536) :: u16) < length bytes"
    using assms(7) mod_less_divisor [of 65536 "length bytes"] by (simp add: unat_of_nat take_bit_eq_mod)
  have "tcp_handle_connection ops handler mx peer \<lparr>is_bytes = frame data, is_end = e\<rparr>
      \<lparr>os_written = [], os_breaks = None\<rparr> s =
      Some (Some (too_large ''TCP'' (length bytes)), \<lparr>os_written = [], os_breaks = None\<rparr>, s1)"
    using assms by (simp add: tcp_handle_connection_def f n Let_def)
  moreover have "doq_handle_stream ops handler lost \<lparr>is_bytes = frame data, is_end = e\<rparr>
      \<lparr>os_written = [], os_breaks = None\<rparr> s =
      Some (None, \<lparr>os_written = u16_be (of_nat (length bytes mod 65536)) @ bytes, os_breaks = None\<rparr>, s2)"
    using assms by (simp add: doq_handle_stream_def f n write_frame_whole fr)
  ultimately show ?thesis using small by (simp add: read_exact_def)
qed

definition big_codec :: "string list hickory_ops" where
  "big_codec = demo_codec\<lparr>hk_emit := \<lambda>h. Inr (replicate 70000 1)\<rparr>"

lemma big_codec_wire:
  "parse_message big_codec [2] = Inr demo_question_msg"
  "serialize_message big_codec demo_exact = Inr (replicate 70000 1)"
proof -
  have "convert_from_hickory big_codec h = convert_from_hickory demo_codec h" for h
  proof -
    have ops: "hk_rdata_emit big_codec = hk_rdata_emit demo_codec" "hk_name_to_utf8 big_codec = hk_name_to_utf8 demo_codec"
      by (simp_all add: big_codec_def)
    have "unrooted_name big_codec = unrooted_name demo_codec"
      by (simp add: fun_eq_iff unrooted_name_def ops)
    then have "convert_hickory_rdata big_codec = convert_hickory_rdata demo_codec"
      by (simp add: fun_eq_iff convert_hickory_rdata_def ops split: h_rdata.split)
    then have "convert_hickory_record big_codec = convert_hickory_record demo_codec"
      using \<open>unrooted_name big_codec = _\<close> by (simp add: fun_eq_iff convert_hickory_record_def split: option.split)
    moreover have "opt_record big_codec = opt_record demo_codec"
      by (simp add: fun_eq_iff opt_record_def edns_options_blob_def big_codec_def)
    ultimately show ?thesis
      unfolding convert_from_hickory_eq using \<open>unrooted_name big_codec = _\<close> by (simp split: option.split)
  qed
  then show "parse_message big_codec [2] = Inr demo_question_msg"
    using demo_wire(5) by (simp add: parse_message_def big_codec_def split: sum.splits)
  have "convert_to_hickory big_codec demo_exact = Inr (crate_form demo_exact)"
    by (simp add: big_codec_def crate_form_def demo_codec_def demo_msg_defs convert_to_hickory_def name_of_def
        label_ops_def convert_to_hickory_record_def convert_to_hickory_rdata_def edns_of_def hickory_header_def)
  then show "serialize_message big_codec demo_exact = Inr (replicate 70000 1)"
    by (simp add: serialize_message_def big_codec_def)
qed

theorem oversized_response_witness:
  "tcp_handle_connection big_codec demo_server_handler 65535 demo_peer \<lparr>is_bytes = frame [2], is_end = Stalled\<rparr>
     \<lparr>os_written = [], os_breaks = None\<rparr> () =
     Some (Some (too_large ''TCP'' 70000), \<lparr>os_written = [], os_breaks = None\<rparr>, ()) \<and>
   (\<exists>out. doq_handle_stream big_codec demo_server_handler ''lost'' \<lparr>is_bytes = frame [2], is_end = Stalled\<rparr>
      \<lparr>os_written = [], os_breaks = None\<rparr> () = Some (None, out, ()) \<and>
      os_written out = u16_be 4464 @ replicate 70000 1)"
  using oversized_response [of big_codec "[2]" demo_question_msg 65535 demo_server_handler demo_peer "()" demo_exact "()" "()"
      "replicate 70000 1" Stalled "''lost''"] big_codec_wire
  by (auto simp: demo_server_handler_def)

text \<open>
  The client of a QUIC request is unknown to the plugins. The server calls the handler only with
  contexts that have no client: the access control list judges it by the rules for 127.0.0.1, whoever sent it,
  and the rate limiter lets it pass without counting. The UDP, TCP, TLS and HTTPS servers hand over
  the address of the peer.
\<close>

theorem quic_client_is_localhost:
  "doq_handle_stream ops handler lost st out s =
     doq_handle_stream ops (\<lambda>rc. handler (rc\<lparr>rc_client_info := None\<rparr>)) lost st out s \<and>
   (let c = initial_context entry now (request_context_new req DoQ);
       d = initial_context entry now (request_context_with_client req (Some peer) proto) in
   rate_limit_execute t limiter c = (None, c, limiter) \<and>
   acl_execute nets acl c =
     (None, if acl_evaluate nets acl (V4 (v4_new 127 0 0 1)) = Allow then c else set_refused c) \<and>
   acl_execute nets acl d =
     (None, if acl_evaluate nets acl (sa_ip peer) = Allow then d else set_refused d))"
proof -
  have "(request_context_new req DoQ)\<lparr>rc_client_info := None\<rparr> = request_context_new req DoQ" for req
    by (simp add: request_context_new_def)
  then have stream: "doq_handle_stream ops handler lost st out s =
      doq_handle_stream ops (\<lambda>rc. handler (rc\<lparr>rc_client_info := None\<rparr>)) lost st out s"
    unfolding doq_handle_stream_def by (simp split: sum.split prod.split)
  have c: "get_ip ''client_ip'' (initial_context entry now (request_context_new req DoQ)) = None"
    by (simp add: initial_context_def request_context_new_def get_ip_def set_metadata_def context_new_def Let_def)
  have d: "get_ip ''client_ip'' (initial_context entry now (request_context_with_client req (Some peer) proto)) =
      Some (sa_ip peer)"
    by (simp add: initial_context_def request_context_with_client_def client_info_from_def get_ip_def
        set_metadata_def Let_def)
  show ?thesis
    unfolding Let_def rate_limit_execute_def acl_execute_def c d LOCALHOST_IPV4_def
    using stream by (simp split: acl_action.split)
qed

section \<open>The two styles of HTTPS requests\<close>

text \<open>
  GET and POST are the same service, and only a trusted proxy can speak for another client:
  with the query's wire format base64-encoded in the parameter or as the body with the right
  content type both handlers give the same response and state, and unless forwarding headers are
  trusted the handler sees the address of the connection, whatever the headers say.
\<close>

theorem doh_get_post_agree:
  assumes "decode p = Inr body" and "params ''dns'' = Some p" and "hs ''content-type'' = Some ''application/dns-message''"
  shows "handle_get_query ops decode handler trust a params hs s = handle_post_query ops handler trust a hs body s \<and>
    (\<not> trust \<longrightarrow> handle_post_query ops handler trust a hs body s = doh_answer ops handler (Some a) body s)"
  using assms by (simp add: handle_get_query_def handle_post_query_def extract_client_addr_def)

theorem doh_get_post_agree_witness:
  "handle_get_query demo_codec (\<lambda>s. Inr [2]) demo_server_handler False demo_peer [''dns'' \<mapsto> ''Ag'']
     [''content-type'' \<mapsto> ''application/dns-message'', ''x-forwarded-for'' \<mapsto> ''127.0.0.1''] () =
   Some (\<lparr>hr_status = 200, hr_content_type = Some ''application/dns-message'', hr_body = replicate 600 1\<rparr>, ())"
  using doh_get_post_agree [of "\<lambda>s. Inr [2]" "''Ag''" "[2]" "[''dns'' \<mapsto> ''Ag'']"
      "[''content-type'' \<mapsto> ''application/dns-message'', ''x-forwarded-for'' \<mapsto> ''127.0.0.1'']" demo_codec
      demo_server_handler False demo_peer "()"] demo_wire
  by (simp add: doh_answer_def demo_server_handler_def)

end
