(* ===== verification/Config_Load.thy ===== *)
theory Config_Load
  imports Cache_Persistence Rate_Limit Rewrite_Plugins "HOL-Library.AList"
begin

text \<open>
  Loading and checking the configuration: \<^verbatim>\<open>src/src/config/mod.rs\<close>, \<^verbatim>\<open>validation.rs\<close> and \<^verbatim>\<open>loader.rs\<close>.
  The YAML parser, the file system and the environment are arguments; the three regular
  expressions of the loader are written out as matchers. Fields that exist only with the log and
  web features (the rotation of the log file, the web section) are left out.
\<close>

section \<open>The configuration\<close>

record file_log =
  fl_enabled :: bool
  fl_path :: string
  fl_compress :: bool

definition file_log_default :: file_log where
  "file_log_default = \<lparr>fl_enabled = False, fl_path = ''lazydns.log'', fl_compress = False\<rparr>"

record log_config =
  lc_level :: string
  lc_console :: bool
  lc_format :: string
  lc_file :: "file_log option"

definition log_config_default :: log_config where
  "log_config_default = \<lparr>lc_level = ''info'', lc_console = False, lc_format = ''text'', lc_file = None\<rparr>"

definition is_file_logging_enabled :: "log_config \<Rightarrow> bool" where
  "is_file_logging_enabled l = (case lc_file l of Some f \<Rightarrow> fl_enabled f | None \<Rightarrow> False)"

record admin_config =
  ac_enabled :: bool
  ac_addr :: string

definition admin_config_default :: admin_config where
  "admin_config_default = \<lparr>ac_enabled = False, ac_addr = ''127.0.0.1:8000''\<rparr>"

record monitoring_config =
  mc_enabled :: bool
  mc_addr :: string
  mc_memory_enabled :: bool
  mc_memory_interval_ms :: u64

definition monitoring_config_default :: monitoring_config where
  "monitoring_config_default =
     \<lparr>mc_enabled = False, mc_addr = ''127.0.0.1:8001'', mc_memory_enabled = True, mc_memory_interval_ms = 5000\<rparr>"

record config =
  cf_plugins :: "plugin_config list"
  cf_log :: log_config
  cf_admin :: admin_config
  cf_monitoring :: monitoring_config

definition config_default :: config where
  "config_default =
     \<lparr>cf_plugins = [], cf_log = log_config_default, cf_admin = admin_config_default,
      cf_monitoring = monitoring_config_default\<rparr>"

section \<open>Validation\<close>

definition comma_list :: "string list \<Rightarrow> string" where
  "comma_list xs = concat (case xs of [] \<Rightarrow> [] | y # ys \<Rightarrow> y # map ((@) '', '') ys)"

definition in_ticks :: "string \<Rightarrow> string" where
  "in_ticks s = [CHR 0x27] @ s @ [CHR 0x27]"

definition one_of :: "string \<Rightarrow> string list \<Rightarrow> string \<Rightarrow> unit result" where
  "one_of what valid v =
     (if v \<in> set valid then Inr ()
      else Inl (Config (''Invalid log '' @ what @ '' '' @ in_ticks v @ ''. Must be one of: '' @ comma_list valid)))"

definition validate_log_level :: "string \<Rightarrow> unit result" where
  "validate_log_level = one_of ''level'' [''trace'', ''debug'', ''info'', ''warn'', ''error'']"

definition validate_log_format :: "string \<Rightarrow> unit result" where
  "validate_log_format = one_of ''format'' [''text'', ''json'']"

text \<open>The address shorthands that the validator accepts.\<close>

definition rsplit_colon :: "string \<Rightarrow> (string \<times> string) option" where
  "rsplit_colon s = map_option (\<lambda>(a, b). (rev b, rev a)) (split_once (CHR '':'') (rev s))"

definition normalize_socket_addr :: "string \<Rightarrow> string" where
  "normalize_socket_addr addr =
     (case strip_prefix '':::'' addr of
        Some port \<Rightarrow> ''[::]:'' @ port
      | None \<Rightarrow>
          (case strip_prefix ''::'' addr of
             Some rest \<Rightarrow>
               (case rsplit_colon rest of
                  Some (ip_part, port_part) \<Rightarrow>
                    if ip_part \<noteq> [] then
                      (if parse_u16 port_part \<noteq> None then ''[::'' @ ip_part @ '']:'' @ port_part else addr)
                    else ''[::]:'' @ rest
                | None \<Rightarrow> if parse_u16 rest \<noteq> None then ''[::]:'' @ rest else addr)
           | None \<Rightarrow> if starts_with '':'' addr \<and> \<not> starts_with ''::['' addr then ''0.0.0.0'' @ addr else addr))"

text \<open>\<^verbatim>\<open>SocketAddr::from_str\<close>: an IPv4 address or a bracketed IPv6 address with an optional scope, and
  a port, which may have leading zeros. The scope is not kept.\<close>

definition read_port :: "string \<Rightarrow> u16 option" where
  "read_port s =
     (case s of
        c # ds \<Rightarrow>
          if c \<noteq> CHR '':'' then None
          else (case read_run digit_val 10 (length ds) 0 0 ds of
                  Some (cnt, n, []) \<Rightarrow> if cnt > 0 \<and> n \<le> 65535 then Some (of_nat n) else None
                | _ \<Rightarrow> None)
      | [] \<Rightarrow> None)"

definition skip_scope :: "string \<Rightarrow> string option" where
  "skip_scope s =
     (case strip_prefix ''%'' s of
        None \<Rightarrow> Some s
      | Some ds \<Rightarrow>
          (case read_run digit_val 10 (length ds) 0 0 ds of
             Some (cnt, n, rest) \<Rightarrow> if cnt > 0 \<and> n \<le> 4294967295 then Some rest else None
           | None \<Rightarrow> None))"

definition parse_socket_addr :: "string \<Rightarrow> sock_addr option" where
  "parse_socket_addr s =
     (case Option.bind (read_ipv4 s) (\<lambda>(a, rest). map_option (\<lambda>p. \<lparr>sa_ip = V4 a, sa_port = p\<rparr>) (read_port rest)) of
        Some sa \<Rightarrow> Some sa
      | None \<Rightarrow>
          Option.bind (strip_prefix ''['' s) (\<lambda>r.
          Option.bind (read_ipv6 r) (\<lambda>(a, rest).
          Option.bind (skip_scope rest) (\<lambda>rest.
          Option.bind (strip_prefix '']'' rest) (\<lambda>rest.
            map_option (\<lambda>p. \<lparr>sa_ip = V6 a, sa_port = p\<rparr>) (read_port rest))))))"

definition MIN_PORT :: u16 where "MIN_PORT = 1"
definition MAX_TTL :: nat where "MAX_TTL = 2147483647"
definition MIN_TIMEOUT_SECS :: nat where "MIN_TIMEOUT_SECS = 1"
definition MAX_TIMEOUT_SECS :: nat where "MAX_TIMEOUT_SECS = 3600"
definition MIN_RATE_LIMIT :: nat where "MIN_RATE_LIMIT = 1"
definition MAX_RATE_LIMIT :: nat where "MAX_RATE_LIMIT = 1000000"
definition MIN_WINDOW_SECS :: nat where "MIN_WINDOW_SECS = 1"
definition MAX_WINDOW_SECS :: nat where "MAX_WINDOW_SECS = 86400"

lemmas limit_defs = MAX_TTL_def MIN_TIMEOUT_SECS_def MAX_TIMEOUT_SECS_def MIN_RATE_LIMIT_def
  MAX_RATE_LIMIT_def MIN_WINDOW_SECS_def MAX_WINDOW_SECS_def

definition validate_socket_addr :: "string \<Rightarrow> string \<Rightarrow> unit result" where
  "validate_socket_addr addr ctxt =
     (case parse_socket_addr (normalize_socket_addr addr) of
        None \<Rightarrow> Inl (Config (''Invalid '' @ ctxt @ '' address '' @ in_ticks addr @ '': invalid socket address syntax''))
      | Some sa \<Rightarrow>
          if sa_port sa < MIN_PORT
          then Inl (Config (''Invalid '' @ ctxt @ '' port '' @ show_nat (unat (sa_port sa)) @ '': must be at least 1''))
          else Inr ())"

text \<open>An integer type by its name and its largest value.\<close>

datatype int_type = TU32 | TU64 | TUsize

fun type_name :: "int_type \<Rightarrow> string" where
  "type_name TU32 = ''u32''"
| "type_name TU64 = ''u64''"
| "type_name TUsize = ''usize''"

fun type_max :: "int_type \<Rightarrow> nat" where
  "type_max TU32 = 4294967295"
| "type_max TU64 = 18446744073709551615"
| "type_max TUsize = 18446744073709551615"

definition not_valid :: "int_type \<Rightarrow> string \<Rightarrow> error" where
  "not_valid t key = Config (''Parameter '' @ in_ticks key @ '' must be a valid '' @ type_name t @ '' number'')"

definition extract_int :: "int_type \<Rightarrow> yaml \<Rightarrow> string \<Rightarrow> nat result" where
  "extract_int t v key =
     (case v of
        YNumber n \<Rightarrow>
          (case as_u64 n of
             Some u \<Rightarrow> if unat u \<le> type_max t then Inr (unat u) else Inl (not_valid t key)
           | None \<Rightarrow> Inl (not_valid t key))
      | YString s \<Rightarrow> (case parse_uint (type_max t) s of Some n \<Rightarrow> Inr n | None \<Rightarrow> Inl (not_valid t key))
      | _ \<Rightarrow> Inl (Config (''Parameter '' @ in_ticks key @ '' must be a number'')))"

definition validate_int_range :: "int_type \<Rightarrow> (string \<rightharpoonup> yaml) \<Rightarrow> string \<Rightarrow> nat \<Rightarrow> nat \<Rightarrow> bool \<Rightarrow> unit result" where
  "validate_int_range t args key mn mx optional =
     (case args key of
        Some v \<Rightarrow>
          (case extract_int t v key of
             Inl e \<Rightarrow> Inl e
           | Inr n \<Rightarrow>
               if n < mn \<or> n > mx
               then Inl (Config (''Parameter '' @ in_ticks key @ '' must be between '' @ show_nat mn @ '' and '' @
                 show_nat mx @ '', got '' @ show_nat n))
               else Inr ())
      | None \<Rightarrow>
          if optional then Inr () else Inl (Config (''Required parameter '' @ in_ticks key @ '' is missing'')))"

definition then_check :: "unit result \<Rightarrow> unit result \<Rightarrow> unit result" where
  "then_check a b = (case a of Inl e \<Rightarrow> Inl e | Inr _ \<Rightarrow> b)"

definition validate_plugin_args :: "string \<Rightarrow> (string \<rightharpoonup> yaml) \<Rightarrow> unit result" where
  "validate_plugin_args plugin_type args =
     (if plugin_type = ''rate_limit'' then
        then_check (validate_int_range TU32 args ''max_queries'' MIN_RATE_LIMIT MAX_RATE_LIMIT True)
          (validate_int_range TU64 args ''window_secs'' MIN_WINDOW_SECS MAX_WINDOW_SECS True)
      else if plugin_type = ''ttl'' then
        then_check (validate_int_range TU32 args ''ttl'' 0 MAX_TTL True)
          (then_check (validate_int_range TU32 args ''min'' 0 MAX_TTL True)
            (validate_int_range TU32 args ''max'' 0 MAX_TTL True))
      else if plugin_type = ''downloader'' then
        then_check (validate_int_range TU64 args ''timeout_secs'' MIN_TIMEOUT_SECS MAX_TIMEOUT_SECS True)
          (then_check (validate_int_range TU64 args ''retry_delay_secs'' 0 MAX_TIMEOUT_SECS True)
            (validate_int_range TUsize args ''max_retries'' 0 100 True))
      else if plugin_type = ''cache'' then
        then_check (validate_int_range TUsize args ''size'' 1 18446744073709551615 True)
          (validate_int_range TU32 args ''negative_ttl'' 0 MAX_TTL True)
      else if plugin_type = ''forward'' then
        then_check (validate_int_range TU64 args ''timeout'' MIN_TIMEOUT_SECS MAX_TIMEOUT_SECS True)
          (validate_int_range TUsize args ''concurrent'' 1 1000 True)
      else Inr ())"

fun check_names :: "string list \<Rightarrow> plugin_config list \<Rightarrow> unit result" where
  "check_names seen [] = Inr ()"
| "check_names seen (p # ps) =
     (if effective_name p \<in> set seen
      then Inl (Config (''Duplicate plugin name: '' @ in_ticks (effective_name p)))
      else check_names (effective_name p # seen) ps)"

fun check_types :: "plugin_config list \<Rightarrow> unit result" where
  "check_types [] = Inr ()"
| "check_types (p # ps) =
     (if pc_plugin_type p = [] then Inl (Config ''Plugin type cannot be empty'')
      else then_check (validate_plugin_args (pc_plugin_type p) (effective_args p)) (check_types ps))"

definition validate_plugins :: "plugin_config list \<Rightarrow> unit result" where
  "validate_plugins ps = then_check (check_names [] ps) (check_types ps)"

definition validate_config :: "config \<Rightarrow> unit result" where
  "validate_config c =
     then_check (validate_log_level (lc_level (cf_log c)))
       (then_check (validate_log_format (lc_format (cf_log c)))
         (then_check (validate_socket_addr (ac_addr (cf_admin c)) ''admin'')
           (then_check (validate_socket_addr (mc_addr (cf_monitoring c)) ''monitoring'')
             (validate_plugins (cf_plugins c)))))"

section \<open>Matching\<close>

text \<open>
  \<^verbatim>\<open>captures_iter\<close>: the matches from left to right, without overlap. A matcher looks at the text from
  one position on and gives the captures and the length of the match.
\<close>

function scan :: "(string \<Rightarrow> ('a \<times> nat) option) \<Rightarrow> string \<Rightarrow> 'a list" where
  "scan m [] = []"
| "scan m (x # xs) =
     (case m (x # xs) of
        Some (a, k) \<Rightarrow> a # scan m (drop (k - 1) xs)
      | None \<Rightarrow> scan m xs)"
  by pat_completeness auto

termination scan
  by (relation "measure (length \<circ> snd)") auto

definition env_char :: "char \<Rightarrow> bool" where
  "env_char c = (let n = (of_char c :: nat) in (65 \<le> n \<and> n \<le> 90) \<or> (48 \<le> n \<and> n \<le> 57) \<or> n = 95)"

text \<open>A dollar sign, an opening brace, a name, optionally a colon, a dash and a default, a closing brace.\<close>

definition env_match :: "string \<Rightarrow> ((string \<times> string \<times> string option) \<times> nat) option" where
  "env_match s =
     (case strip_prefix ''${'' s of
        None \<Rightarrow> None
      | Some r \<Rightarrow>
          (let name = takeWhile env_char r; r1 = dropWhile env_char r;
               found = (\<lambda>d rest. let k = length s - length rest in Some ((take k s, name, d), k))
           in if name = [] then None
              else case strip_prefix ''}'' r1 of
                Some rest \<Rightarrow> found None rest
              | None \<Rightarrow>
                  (case strip_prefix '':-'' r1 of
                     None \<Rightarrow> None
                   | Some r2 \<Rightarrow>
                       (let d = takeWhile (\<lambda>c. c \<noteq> CHR ''}'') r2 in
                        if d = [] then None
                        else Option.bind (strip_prefix ''}'' (dropWhile (\<lambda>c. c \<noteq> CHR ''}'') r2)) (found (Some d))))))"

text \<open>The word \<^verbatim>\<open>!include\<close>, white space, and a path without white space.\<close>

definition include_match :: "string \<Rightarrow> ((string \<times> string) \<times> nat) option" where
  "include_match s =
     (case strip_prefix ''!include'' s of
        None \<Rightarrow> None
      | Some r \<Rightarrow>
          (let ws = takeWhile is_whitespace r; p = takeWhile (\<lambda>c. \<not> is_whitespace c) (dropWhile is_whitespace r);
               k = 8 + length ws + length p
           in if ws = [] \<or> p = [] then None else Some ((take k s, p), k)))"

text \<open>\<^verbatim>\<open>PLUGINS_\<close>, a tag, \<^verbatim>\<open>_ARGS_\<close> and a key path to the end; the tag is as long as possible.\<close>

definition plugin_args_match :: "string \<Rightarrow> (string \<times> string) option" where
  "plugin_args_match key =
     (case strip_prefix ''PLUGINS_'' key of
        None \<Rightarrow> None
      | Some r \<Rightarrow>
          map_option (\<lambda>i. (take i r, drop (i + 6) r))
            (find (\<lambda>i. list_all env_char (take i r) \<and> starts_with ''_ARGS_'' (drop i r) \<and>
                       drop (i + 6) r \<noteq> [] \<and> CHR 0x0A \<notin> set (drop (i + 6) r))
              (rev [1..<length r])))"

section \<open>The environment in the text\<close>

type_synonym env = "(string \<times> string) list"

fun substitute_captures :: "env \<Rightarrow> (string \<times> string \<times> string option) list \<Rightarrow> string \<Rightarrow> string result" where
  "substitute_captures env [] result = Inr result"
| "substitute_captures env ((full, name, dflt) # caps) result =
     (case (case map_of env name of Some v \<Rightarrow> Some v | None \<Rightarrow> dflt) of
        Some v \<Rightarrow> substitute_captures env caps (replace_all full v result)
      | None \<Rightarrow> Inl (Config (''Environment variable '' @ name @ '' not found and no default provided'')))"

definition substitute_env_vars :: "env \<Rightarrow> string \<Rightarrow> string result" where
  "substitute_env_vars env content = substitute_captures env (scan env_match content) content"

section \<open>Includes\<close>

text \<open>
  Files by path, \<open>Inl\<close> the text of the error. Each capture of the content is replaced by the
  processed content of its file; fuel bounds the depth, \<open>None\<close> is a recursion that has not ended.
\<close>

type_synonym files = "string \<Rightarrow> string + string"

definition path_parent :: "string \<Rightarrow> string option" where
  "path_parent p =
     (let r = dropWhile (\<lambda>c. c = CHR ''/'') (rev p) in
      if r = [] then None
      else let d = dropWhile (\<lambda>c. c \<noteq> CHR ''/'') r; t = dropWhile (\<lambda>c. c = CHR ''/'') d
           in Some (if d \<noteq> [] \<and> t = [] then ''/'' else rev t))"

fun process_includes :: "files \<Rightarrow> env \<Rightarrow> nat \<Rightarrow> string option \<Rightarrow> string \<Rightarrow> string result option"
and include_captures :: "files \<Rightarrow> env \<Rightarrow> nat \<Rightarrow> string option \<Rightarrow> (string \<times> string) list \<Rightarrow> string \<Rightarrow> string result option" where
  "process_includes fs env n base content =
     (case n of
        0 \<Rightarrow> None
      | Suc n \<Rightarrow> include_captures fs env n base (scan include_match content) content)"
| "include_captures fs env n base [] result = Some (Inr result)"
| "include_captures fs env n base ((full, p) # caps) result =
     (let path = path_join base p in
      case fs path of
        Inl e \<Rightarrow> Some (Inl (Config (''Failed to read included file '' @ path @ '': '' @ e)))
      | Inr text \<Rightarrow>
          (case substitute_env_vars env text of
             Inl e \<Rightarrow> Some (Inl e)
           | Inr text \<Rightarrow>
               (case process_includes fs env n (path_parent path) text of
                  None \<Rightarrow> None
                | Some (Inl e) \<Rightarrow> Some (Inl e)
                | Some (Inr inc) \<Rightarrow> include_captures fs env n base caps (replace_all full inc result))))"

declare process_includes.simps [simp del]

section \<open>Overrides from the environment\<close>

definition normalize_identifier :: "string \<Rightarrow> string" where
  "normalize_identifier s = map (\<lambda>c. if c = CHR ''_'' then CHR ''-'' else c) (to_lowercase s)"

datatype segment = Key string | Index nat

definition segments :: "string \<Rightarrow> segment list" where
  "segments p =
     map (\<lambda>part. case parse_uint 18446744073709551615 part of
                   Some i \<Rightarrow> Index i | None \<Rightarrow> Key (normalize_identifier part))
       (split_on (CHR ''_'') p)"

fun fresh_for :: "segment list \<Rightarrow> yaml" where
  "fresh_for (Index _ # _) = YSequence []"
| "fresh_for _ = YMapping []"

text \<open>The sequence grows to the index; that it may not fit into memory is left aside.\<close>

definition resized :: "nat \<Rightarrow> yaml list \<Rightarrow> yaml list" where
  "resized i xs = xs @ replicate (Suc i - length xs) YNull"

fun set_path :: "segment list \<Rightarrow> yaml \<Rightarrow> yaml \<Rightarrow> yaml" where
  "set_path [] v t = v"
| "set_path (Key k # path) v t =
     (let m = (case t of YMapping m \<Rightarrow> m | _ \<Rightarrow> []) in
      if path = [] then YMapping (AList.update (YString k) v m)
      else let cur = (case map_of m (YString k) of Some x \<Rightarrow> x | None \<Rightarrow> fresh_for path)
           in YMapping (AList.update (YString k) (set_path path v cur) m))"
| "set_path (Index i # path) v t =
     (let xs = resized i (case t of YSequence xs \<Rightarrow> xs | _ \<Rightarrow> []) in
      if path = [] then YSequence (xs[i := v])
      else let cur = (if xs ! i = YNull then fresh_for path else xs ! i)
           in YSequence (xs[i := set_path path v cur]))"

definition parse_yaml_value :: "(string \<Rightarrow> yaml option) \<Rightarrow> string \<Rightarrow> yaml" where
  "parse_yaml_value yaml_of s = (case yaml_of s of Some v \<Rightarrow> v | None \<Rightarrow> YString s)"

fun override_plugin :: "(string \<Rightarrow> yaml option) \<Rightarrow> string \<Rightarrow> string \<Rightarrow> string \<Rightarrow> plugin_config list \<Rightarrow> plugin_config list" where
  "override_plugin yaml_of tag path v [] = []"
| "override_plugin yaml_of tag path v (p # ps) =
     (if normalize_identifier (effective_name p) = tag
      then p\<lparr>pc_args := set_path (segments path) (parse_yaml_value yaml_of v)
               (case pc_args p of YMapping m \<Rightarrow> YMapping m | _ \<Rightarrow> YMapping [])\<rparr> # ps
      else p # override_plugin yaml_of tag path v ps)"

definition env_true :: "string \<Rightarrow> bool" where
  "env_true v = (let n = to_lowercase v in n = ''true'' \<or> n = ''1'' \<or> n = ''yes'')"

definition set_log_file :: "string \<Rightarrow> log_config \<Rightarrow> log_config" where
  "set_log_file path l =
     l\<lparr>lc_file := Some (case lc_file l of
          Some f \<Rightarrow> f\<lparr>fl_path := path, fl_enabled := True\<rparr>
        | None \<Rightarrow> file_log_default\<lparr>fl_enabled := True, fl_path := path\<rparr>)\<rparr>"

definition apply_log_var :: "string \<Rightarrow> string \<Rightarrow> log_config \<Rightarrow> log_config" where
  "apply_log_var key v l =
     (if key = ''LOG_LEVEL'' then l\<lparr>lc_level := v\<rparr>
      else if key = ''LOG_FORMAT'' then l\<lparr>lc_format := v\<rparr>
      else if key = ''LOG_FILE'' then set_log_file v l
      else if key = ''LOG_CONSOLE'' then l\<lparr>lc_console := env_true v\<rparr>
      else l)"

definition log_vars :: "string list" where
  "log_vars = [''LOG_LEVEL'', ''LOG_FORMAT'', ''LOG_FILE'', ''LOG_CONSOLE'']"

definition apply_env_var :: "(string \<Rightarrow> yaml option) \<Rightarrow> string \<times> string \<Rightarrow> config \<Rightarrow> config" where
  "apply_env_var yaml_of kv c =
     (case kv of (key, v) \<Rightarrow>
        if key \<in> set log_vars then (if v = [] then c else c\<lparr>cf_log := apply_log_var key v (cf_log c)\<rparr>)
        else if key = ''ADMIN_ENABLED'' then c\<lparr>cf_admin := (cf_admin c)\<lparr>ac_enabled := env_true v\<rparr>\<rparr>
        else if key = ''ADMIN_ADDR'' then c\<lparr>cf_admin := (cf_admin c)\<lparr>ac_addr := v\<rparr>\<rparr>
        else if key = ''METRICS_ENABLED'' then c\<lparr>cf_monitoring := (cf_monitoring c)\<lparr>mc_enabled := env_true v\<rparr>\<rparr>
        else if key = ''METRICS_ADDR'' then c\<lparr>cf_monitoring := (cf_monitoring c)\<lparr>mc_addr := v\<rparr>\<rparr>
        else case plugin_args_match key of
          Some (tag, path) \<Rightarrow> c\<lparr>cf_plugins := override_plugin yaml_of (normalize_identifier tag) path v (cf_plugins c)\<rparr>
        | None \<Rightarrow> c)"

definition apply_env_overrides_from_snapshot :: "(string \<Rightarrow> yaml option) \<Rightarrow> env \<Rightarrow> config \<Rightarrow> config" where
  "apply_env_overrides_from_snapshot yaml_of env = fold (apply_env_var yaml_of) env"

definition first_non_empty :: "env \<Rightarrow> string \<Rightarrow> string option" where
  "first_non_empty env key = (case map_of env key of Some v \<Rightarrow> if v = [] then None else Some v | None \<Rightarrow> None)"

definition apply_env_overrides :: "(string \<Rightarrow> yaml option) \<Rightarrow> env \<Rightarrow> config \<Rightarrow> config" where
  "apply_env_overrides yaml_of env c =
     apply_env_overrides_from_snapshot yaml_of env
       (fold (\<lambda>key c. case first_non_empty env key of
                 Some v \<Rightarrow> c\<lparr>cf_log := apply_log_var key v (cf_log c)\<rparr> | None \<Rightarrow> c) log_vars c)"

section \<open>Loading\<close>

definition load_from_yaml :: "(string \<Rightarrow> string + config) \<Rightarrow> (string \<Rightarrow> yaml option) \<Rightarrow> env \<Rightarrow> string \<Rightarrow> config result" where
  "load_from_yaml parse yaml_of env text =
     (case parse text of
        Inl e \<Rightarrow> Inl (Config (''Failed to parse YAML: '' @ e))
      | Inr c \<Rightarrow>
          (let c = apply_env_overrides yaml_of env c in
           case validate_config c of Inl e \<Rightarrow> Inl e | Inr _ \<Rightarrow> Inr c))"

definition load_from_file :: "(string \<Rightarrow> string + config) \<Rightarrow> (string \<Rightarrow> yaml option) \<Rightarrow> (string \<Rightarrow> string + string) \<Rightarrow> files \<Rightarrow> env
    \<Rightarrow> nat \<Rightarrow> string \<Rightarrow> config result option" where
  "load_from_file parse yaml_of canonicalize fs env n path =
     (case canonicalize path of
        Inl e \<Rightarrow> Some (Inl (Config (''Failed to resolve path: '' @ e)))
      | Inr _ \<Rightarrow>
          (case fs path of
             Inl e \<Rightarrow> Some (Inl (Config (''Failed to read config file: '' @ e)))
           | Inr text \<Rightarrow>
               (case substitute_env_vars env text of
                  Inl e \<Rightarrow> Some (Inl e)
                | Inr text \<Rightarrow>
                    (case process_includes fs env n (path_parent path) text of
                       None \<Rightarrow> None
                     | Some (Inl e) \<Rightarrow> Some (Inl e)
                     | Some (Inr text) \<Rightarrow> Some (load_from_yaml parse yaml_of env text)))))"

section \<open>What validation guarantees\<close>

lemma then_check_ok [simp]: "then_check a b = Inr u \<longleftrightarrow> a = Inr () \<and> b = Inr u"
  by (cases a) (auto simp: then_check_def)

lemma check_names_ok:
  "check_names seen ps = Inr () \<longleftrightarrow>
     distinct (map effective_name ps) \<and> set (map effective_name ps) \<inter> set seen = {}"
  by (induction ps arbitrary: seen) auto

lemma check_types_ok:
  "check_types ps = Inr () \<longleftrightarrow>
     (\<forall>p \<in> set ps. pc_plugin_type p \<noteq> [] \<and> validate_plugin_args (pc_plugin_type p) (effective_args p) = Inr ())"
  by (induction ps) auto

lemma validate_plugins_ok:
  "validate_plugins ps = Inr () \<longleftrightarrow> distinct (map effective_name ps) \<and>
     (\<forall>p \<in> set ps. pc_plugin_type p \<noteq> [] \<and> validate_plugin_args (pc_plugin_type p) (effective_args p) = Inr ())"
  by (auto simp: validate_plugins_def check_names_ok check_types_ok)

lemma validate_int_range_ok:
  "validate_int_range t args key mn mx True = Inr () \<longleftrightarrow>
     (\<forall>v. args key = Some v \<longrightarrow> (\<exists>n. extract_int t v key = Inr n \<and> mn \<le> n \<and> n \<le> mx))"
  by (auto simp: validate_int_range_def split: option.splits sum.splits)

lemma parse_uint_bound: "parse_uint mx s = Some n \<Longrightarrow> n \<le> mx"
  by (auto simp: parse_uint_def Let_def split: option.splits if_splits list.splits)

lemma extract_int_bound: "extract_int t v key = Inr n \<Longrightarrow> n \<le> type_max t"
  by (auto simp: extract_int_def parse_uint_bound split: yaml.splits option.splits if_splits)

lemma extract_max_queries:
  assumes "extract_int TU32 v key = Inr n"
  shows "max_queries_arg v = Inr (of_nat n)"
  using assms by (auto simp: extract_int_def max_queries_arg_def parse_u32_def
      split: yaml.splits option.splits if_splits)

lemma extract_window_secs:
  assumes "extract_int TU64 v key = Inr n"
  shows "window_secs_arg v = Inr (of_nat n)"
  using assms by (auto simp: extract_int_def window_secs_arg_def parse_u64_def
      split: yaml.splits option.splits if_splits)

lemma unat_of_nat_small:
  "n \<le> 4294967295 \<Longrightarrow> unat (of_nat n :: u32) = n" "m \<le> 18446744073709551615 \<Longrightarrow> unat (of_nat m :: u64) = m"
  by (simp_all add: unat_of_nat take_bit_nat_eq_self)

lemma validated_limiter:
  assumes "validate_plugin_args ''rate_limit'' (effective_args p) = Inr ()"
  shows "\<exists>l. rate_limit_init p = Inr l \<and> rl_limits l = [] \<and>
    1 \<le> unat (rl_max_queries l) \<and> unat (rl_max_queries l) \<le> 1000000 \<and>
    1 \<le> unat (rl_window_secs l) \<and> unat (rl_window_secs l) \<le> 86400"
proof -
  let ?args = "effective_args p"
  have v: "validate_int_range TU32 ?args ''max_queries'' 1 1000000 True = Inr ()"
    "validate_int_range TU64 ?args ''window_secs'' 1 86400 True = Inr ()"
    using assms by (simp_all add: validate_plugin_args_def limit_defs)
  obtain mx where mx: "(case ?args ''max_queries'' of Some v \<Rightarrow> max_queries_arg v | None \<Rightarrow> Inr 100) = Inr mx"
    "1 \<le> unat mx" "unat mx \<le> 1000000"
  proof (cases "?args ''max_queries''")
    case None
    then show ?thesis by (intro that [of 100]) simp_all
  next
    case (Some a)
    with v(1) obtain n where "extract_int TU32 a ''max_queries'' = Inr n" "1 \<le> n" "n \<le> 1000000"
      by (auto simp: validate_int_range_ok)
    with Some extract_max_queries [of a _ n] show ?thesis
      by (intro that [of "of_nat n"]) (auto simp: unat_of_nat_small)
  qed
  obtain w where w: "(case ?args ''window_secs'' of Some v \<Rightarrow> window_secs_arg v | None \<Rightarrow> Inr 60) = Inr w"
    "1 \<le> unat w" "unat w \<le> 86400"
  proof (cases "?args ''window_secs''")
    case None
    then show ?thesis by (intro that [of 60]) simp_all
  next
    case (Some a)
    with v(2) obtain n where "extract_int TU64 a ''window_secs'' = Inr n" "1 \<le> n" "n \<le> 86400"
      by (auto simp: validate_int_range_ok)
    with Some extract_window_secs [of a _ n] show ?thesis
      by (intro that [of "of_nat n"]) (auto simp: unat_of_nat_small)
  qed
  show ?thesis using mx w by (simp add: rate_limit_init_def rate_limit_new_def)
qed

lemma short_window_never_panics:
  assumes "unat (rl_window_secs l) \<le> 86400"
  shows "rate_cleanup now l \<noteq> None"
    and "unat (background_task_interval l) = 2 * max (unat (rl_window_secs l)) 30"
proof -
  show "rate_cleanup now l \<noteq> None" using assms by (simp add: rate_cleanup_def)
  have m: "unat (max (rl_window_secs l) 30) = max (unat (rl_window_secs l)) 30"
    by (simp add: max_def word_le_nat_alt)
  have "unat (max (rl_window_secs l) 30 * 2) = unat (max (rl_window_secs l) 30) * unat (2 :: u64)"
    by (rule unat_mult_lem [THEN iffD1]) (use assms m in simp)
  then show "unat (background_task_interval l) = 2 * max (unat (rl_window_secs l)) 30"
    by (simp add: background_task_interval_def m)
qed

text \<open>
  C30: Whatever the text and the environment are, a configuration that loads has plugins with
  distinct names and with types, and every plugin in it whose type is written exactly
  \<^verbatim>\<open>rate_limit\<close> initialises: to a limiter without clients whose limit is between 1 and a million and
  whose window lasts between a second and a day, so that its cleanup never panics and its
  background interval does not wrap. (A type the builder only normalises to \<^verbatim>\<open>rate_limit\<close>, such as
  \<^verbatim>\<open>Rate_Limit\<close>, is not checked: \<open>capitalised_limiter_unchecked\<close>.)
\<close>

theorem loaded_config_is_safe:
  assumes "load_from_yaml parse yaml_of env content = Inr c"
  shows "distinct (map effective_name (cf_plugins c)) \<and>
    (\<forall>p \<in> set (cf_plugins c). pc_plugin_type p \<noteq> [] \<and>
       (pc_plugin_type p = ''rate_limit'' \<longrightarrow>
         (\<exists>l. rate_limit_init p = Inr l \<and> rl_limits l = [] \<and>
            1 \<le> unat (rl_max_queries l) \<and> unat (rl_max_queries l) \<le> 1000000 \<and>
            1 \<le> unat (rl_window_secs l) \<and> unat (rl_window_secs l) \<le> 86400 \<and>
            (\<forall>now l'. rl_window_secs l' = rl_window_secs l \<longrightarrow> rate_cleanup now l' \<noteq> None) \<and>
            unat (background_task_interval l) = 2 * max (unat (rl_window_secs l)) 30)))"
proof -
  have "validate_config c = Inr ()"
    using assms by (auto simp: load_from_yaml_def Let_def split: sum.splits)
  then have ok: "validate_plugins (cf_plugins c) = Inr ()" by (simp add: validate_config_def)
  have lim: "\<exists>l. rate_limit_init p = Inr l \<and> rl_limits l = [] \<and>
      1 \<le> unat (rl_max_queries l) \<and> unat (rl_max_queries l) \<le> 1000000 \<and>
      1 \<le> unat (rl_window_secs l) \<and> unat (rl_window_secs l) \<le> 86400 \<and>
      (\<forall>now l'. rl_window_secs l' = rl_window_secs l \<longrightarrow> rate_cleanup now l' \<noteq> None) \<and>
      unat (background_task_interval l) = 2 * max (unat (rl_window_secs l)) 30"
    if "p \<in> set (cf_plugins c)" "pc_plugin_type p = ''rate_limit''" for p
    using that ok validated_limiter [of p] short_window_never_panics
    by (metis validate_plugins_ok)
  show ?thesis using ok lim by (auto simp: validate_plugins_ok)
qed

text \<open>The checks go by the type as it is written, the builder by the type in lower case: a limiter
  with a capitalised type loads with any window, one whose cleanup panics once it has a client included.\<close>

definition capitalised_limiter :: plugin_config where
  "capitalised_limiter = \<lparr>pc_tag = None, pc_plugin_type = ''Rate_Limit'',
     pc_args = YMapping [(YString ''window_secs'', YNumber (YInt 10000000000000000000))]\<rparr>"

lemma capitalised_limiter_unchecked:
  "to_lowercase (trim (pc_plugin_type capitalised_limiter)) = ''rate_limit'' \<and>
   validate_plugins [capitalised_limiter] = Inr () \<and>
   (\<exists>l. rate_limit_init capitalised_limiter = Inr l \<and>
      (\<forall>now l'. rl_window_secs l' = rl_window_secs l \<and> rl_limits l' \<noteq> [] \<longrightarrow> rate_cleanup now l' = None))"
proof (intro conjI)
  show "to_lowercase (trim (pc_plugin_type capitalised_limiter)) = ''rate_limit''"
    unfolding capitalised_limiter_def plugin_config.select_convs by code_simp
  show "validate_plugins [capitalised_limiter] = Inr ()"
    by (simp add: validate_plugins_ok capitalised_limiter_def validate_plugin_args_def)
  show "\<exists>l. rate_limit_init capitalised_limiter = Inr l \<and>
      (\<forall>now l'. rl_window_secs l' = rl_window_secs l \<and> rl_limits l' \<noteq> [] \<longrightarrow> rate_cleanup now l' = None)"
    by (simp add: capitalised_limiter_def rate_limit_init_def effective_args_def window_secs_arg_def
        rate_limit_new_def rate_cleanup_def)
qed

definition limiter_config :: plugin_config where
  "limiter_config = \<lparr>pc_tag = None, pc_plugin_type = ''rate_limit'',
     pc_args = YMapping [(YString ''max_queries'', YString ''20''), (YString ''window_secs'', YNumber (YInt 1))]\<rparr>"

definition limiter_loaded :: config where
  "limiter_loaded = config_default\<lparr>cf_plugins := [limiter_config]\<rparr>"

lemmas effective_defs = effective_name_def effective_args_def

lemmas validation_defs = validate_plugin_args_def validate_int_range_def extract_int_def parse_uint_def
  limit_defs then_check_def

lemma default_addrs_read:
  "read_ipv4 ''127.0.0.1:8000'' = Some (0x7F000001, '':8000'')"
  "read_ipv4 ''127.0.0.1:8001'' = Some (0x7F000001, '':8001'')"
  by code_simp+

lemma default_addrs_validate:
  "validate_socket_addr ''127.0.0.1:8000'' what = Inr ()" "validate_socket_addr ''127.0.0.1:8001'' what = Inr ()"
  by (simp_all add: validate_socket_addr_def normalize_socket_addr_def parse_socket_addr_def
      default_addrs_read read_port_def digit_val_def strip_prefix_def starts_with_def MIN_PORT_def)

lemma limiter_validates: "validate_plugins [limiter_config] = Inr ()"
  by (simp add: validate_plugins_ok limiter_config_def effective_defs validation_defs digit_val_def)

lemma limiter_loads: "load_from_yaml (\<lambda>_. Inr limiter_loaded) (\<lambda>_. None) [] [] = Inr limiter_loaded"
proof -
  have "validate_config limiter_loaded = Inr ()"
    by (simp add: validate_config_def limiter_loaded_def config_default_def log_config_default_def
        admin_config_default_def monitoring_config_default_def default_addrs_validate limiter_validates
        validate_log_level_def validate_log_format_def one_of_def)
  then show ?thesis
    by (simp add: load_from_yaml_def apply_env_overrides_def apply_env_overrides_from_snapshot_def
        first_non_empty_def log_vars_def)
qed

theorem loaded_config_is_safe_witness:
  "\<exists>l. rate_limit_init limiter_config = Inr l \<and> rate_cleanup 7 l \<noteq> None \<and> unat (background_task_interval l) = 60"
proof -
  have "rate_limit_init limiter_config = Inr \<lparr>rl_max_queries = 20, rl_window_secs = 1, rl_limits = []\<rparr>"
    by (simp add: rate_limit_init_def limiter_config_def effective_args_def max_queries_arg_def
        window_secs_arg_def parse_u32_def parse_uint_def digit_val_def rate_limit_new_def)
  then show ?thesis
    using loaded_config_is_safe [OF limiter_loads]
    by (force simp: limiter_loaded_def limiter_config_def)
qed

text \<open>Validation reads a number or the text of a number; the plugins themselves do not: a cache
  size given as text passes validation and fails at initialisation, a time to live given as text
  passes and is taken for 0.\<close>

lemma size_text_validates_and_fails:
  fixes args :: "string \<rightharpoonup> yaml"
  defines "args \<equiv> [''size'' \<mapsto> YString ''2048'']"
  shows "validate_plugin_args ''cache'' args = Inr () \<and> size_arg args = Inl (Config ''size must be a number'')"
  by (simp add: args_def validation_defs size_arg_def digit_val_def)

lemma ttl_text_validates_and_is_ignored:
  fixes p :: plugin_config
  defines "p \<equiv> \<lparr>pc_tag = None, pc_plugin_type = ''ttl'', pc_args = YMapping [(YString ''ttl'', YString ''60'')]\<rparr>"
  shows "validate_plugin_args ''ttl'' (effective_args p) = Inr () \<and> ttl_init p = Inr (ttl_new 300 0 0)"
  by (simp add: p_def validation_defs effective_defs ttl_init_def i64_arg_def digit_val_def)

section \<open>Paths into a value\<close>

text \<open>Reading along a path, to state what writing does.\<close>

fun get_path :: "segment list \<Rightarrow> yaml \<Rightarrow> yaml option" where
  "get_path [] t = Some t"
| "get_path (Key k # path) t =
     (case t of YMapping m \<Rightarrow> Option.bind (map_of m (YString k)) (get_path path) | _ \<Rightarrow> None)"
| "get_path (Index i # path) t =
     (case t of YSequence xs \<Rightarrow> if i < length xs then get_path path (xs ! i) else None | _ \<Rightarrow> None)"

text \<open>Two paths part at the keys of one mapping or at the positions of one sequence.\<close>

fun apart :: "segment list \<Rightarrow> segment list \<Rightarrow> bool" where
  "apart (Key a # p) (Key b # q) = (a \<noteq> b \<or> apart p q)"
| "apart (Index i # p) (Index j # q) = (i \<noteq> j \<or> apart p q)"
| "apart _ _ = False"

lemma length_resized [simp]: "length (resized i xs) = max (Suc i) (length xs)"
  by (simp add: resized_def)

lemma nth_resized: "j < length xs \<Longrightarrow> resized i xs ! j = xs ! j"
  by (simp add: resized_def nth_append)

lemma map_of_update: "map_of (AList.update k v m) j = (if j = k then Some v else map_of m j)"
  by (simp add: update_conv')

lemma get_set_path: "get_path path (set_path path v t) = Some v"
  by (induction path v t rule: set_path.induct) (auto simp: Let_def map_of_update)

lemma get_path_null [simp]: "get_path q YNull = Some w \<longleftrightarrow> q = [] \<and> w = YNull"
  by (cases "(q, YNull)" rule: get_path.cases) auto

lemma apart_Nil [simp]: "\<not> apart p []"
  by (cases "(p, [] :: segment list)" rule: apart.cases) auto

lemma get_set_path_apart:
  assumes "get_path q t = Some w" "apart p q"
  shows "get_path q (set_path p v t) = Some w"
  using assms
proof (induction p v t arbitrary: q rule: set_path.induct)
  case (1 v t)
  then show ?case by simp
next
  case (2 k path v t)
  then show ?case
    by (cases "(Key k # path, q)" rule: apart.cases)
      (auto simp: Let_def map_of_update bind_eq_Some_conv split: yaml.splits option.splits)
next
  case (3 i path v t)
  then show ?case
    by (cases "(Index i # path, q)" rule: apart.cases)
      (auto simp: Let_def nth_list_update nth_resized split: yaml.splits if_splits)
qed

lemma override_plugin_first:
  assumes "i < length ps" "normalize_identifier (effective_name (ps ! i)) = tag"
    and "\<forall>j < i. normalize_identifier (effective_name (ps ! j)) \<noteq> tag"
  shows "override_plugin yaml_of tag path v ps =
    ps[i := (ps ! i)\<lparr>pc_args := set_path (segments path) (parse_yaml_value yaml_of v)
               (case pc_args (ps ! i) of YMapping m \<Rightarrow> YMapping m | _ \<Rightarrow> YMapping [])\<rparr>]"
  using assms
proof (induction ps arbitrary: i)
  case (Cons p ps)
  show ?case
  proof (cases i)
    case 0
    then show ?thesis using Cons.prems by simp
  next
    case (Suc k)
    have "normalize_identifier (effective_name p) \<noteq> tag" using Cons.prems(3) Suc by auto
    moreover have "\<forall>j < k. normalize_identifier (effective_name (ps ! j)) \<noteq> tag"
      using Cons.prems(3) Suc by (metis Suc_less_eq nth_Cons_Suc)
    ultimately show ?thesis using Cons Suc by simp
  qed
qed simp

text \<open>
  C31: A variable \<^verbatim>\<open>PLUGINS_<TAG>_ARGS_<PATH>\<close> reaches exactly one plugin, the first whose name
  normalises to the tag. Afterwards the path of that plugin's arguments reads the value of the
  variable, parsed as YAML or else kept as text, and the other plugins are as they were. If the
  plugin's arguments are a mapping, every path that parts from the written one reads what it read
  before; if they are not (the list of a sequence, or none at all), nothing of them is left: the
  path is written into an empty mapping.
\<close>

theorem env_override_writes_one_path:
  assumes "key \<notin> set log_vars \<union> {''ADMIN_ENABLED'', ''ADMIN_ADDR'', ''METRICS_ENABLED'', ''METRICS_ADDR''}"
    and "plugin_args_match key = Some (tag, path)"
    and "i < length (cf_plugins c)" "cf_plugins c ! i = p"
    and "normalize_identifier (effective_name p) = normalize_identifier tag"
    and "\<forall>j < i. normalize_identifier (effective_name (cf_plugins c ! j)) \<noteq> normalize_identifier tag"
  shows "\<exists>a. apply_env_var yaml_of (key, v) c = c\<lparr>cf_plugins := (cf_plugins c)[i := p\<lparr>pc_args := a\<rparr>]\<rparr> \<and>
    get_path (segments path) a = Some (parse_yaml_value yaml_of v) \<and>
    (\<forall>m q w. pc_args p = YMapping m \<longrightarrow> apart (segments path) q \<longrightarrow> get_path q (pc_args p) = Some w \<longrightarrow> get_path q a = Some w) \<and>
    ((\<forall>m. pc_args p \<noteq> YMapping m) \<longrightarrow> a = set_path (segments path) (parse_yaml_value yaml_of v) (YMapping []))"
proof (intro exI conjI allI impI)
  let ?t = "case pc_args p of YMapping m \<Rightarrow> YMapping m | _ \<Rightarrow> YMapping []"
  let ?a = "set_path (segments path) (parse_yaml_value yaml_of v) ?t"
  show "apply_env_var yaml_of (key, v) c = c\<lparr>cf_plugins := (cf_plugins c)[i := p\<lparr>pc_args := ?a\<rparr>]\<rparr>"
    using assms override_plugin_first [of i "cf_plugins c" "normalize_identifier tag"]
    by (simp add: apply_env_var_def)
  show "get_path (segments path) ?a = Some (parse_yaml_value yaml_of v)" by (rule get_set_path)
  show "get_path q ?a = Some w"
    if "pc_args p = YMapping m" "apart (segments path) q" "get_path q (pc_args p) = Some w" for m q w
    using that by (intro get_set_path_apart) auto
  show "?a = set_path (segments path) (parse_yaml_value yaml_of v) (YMapping [])" if "\<forall>m. pc_args p \<noteq> YMapping m"
    using that by (cases "pc_args p") simp_all
qed

definition two_caches :: config where
  "two_caches = config_default\<lparr>cf_plugins :=
     [\<lparr>pc_tag = Some ''my_cache'', pc_plugin_type = ''cache'', pc_args = YMapping [(YString ''size'', YNull)]\<rparr>,
      \<lparr>pc_tag = Some ''my-cache'', pc_plugin_type = ''cache'', pc_args = YMapping []\<rparr>]\<rparr>"

theorem env_override_writes_one_path_witness:
  "\<exists>a. apply_env_var (\<lambda>_. None) (''PLUGINS_MY_CACHE_ARGS_SIZE'', ''9'') two_caches =
      two_caches\<lparr>cf_plugins := (cf_plugins two_caches)[0 := (cf_plugins two_caches ! 0)\<lparr>pc_args := a\<rparr>]\<rparr> \<and>
    get_path [Key ''size''] a = Some (YString ''9'')"
proof -
  have "plugin_args_match ''PLUGINS_MY_CACHE_ARGS_SIZE'' = Some (''MY_CACHE'', ''SIZE'')"
    "''PLUGINS_MY_CACHE_ARGS_SIZE'' \<notin> set log_vars \<union> {''ADMIN_ENABLED'', ''ADMIN_ADDR'', ''METRICS_ENABLED'', ''METRICS_ADDR''}"
    "normalize_identifier ''my_cache'' = normalize_identifier ''MY_CACHE''"
    by code_simp+
  moreover have "segments ''SIZE'' = [Key ''size'']"
  proof -
    have "normalize_identifier ''SIZE'' = ''size''" by code_simp
    then show ?thesis by (simp add: segments_def parse_uint_def digit_val_def)
  qed
  ultimately show ?thesis
    using env_override_writes_one_path [of "''PLUGINS_MY_CACHE_ARGS_SIZE''" "''MY_CACHE''" "''SIZE''" 0 two_caches
        "cf_plugins two_caches ! 0" "\<lambda>_. None" "''9''"]
    by (auto simp: two_caches_def effective_name_def parse_yaml_value_def)
qed

section \<open>Names that no variable reaches\<close>

lemma normalize_no_underscore: "CHR ''_'' \<notin> set (normalize_identifier s)"
  by (auto simp: normalize_identifier_def)

lemma segments_no_underscore: "Key k \<in> set (segments p) \<Longrightarrow> CHR ''_'' \<notin> set k"
  using normalize_no_underscore by (auto simp: segments_def split: option.splits)

lemma segments_not_Nil: "segments p \<noteq> []"
  by (simp add: segments_def)

lemma foldl_args_cong:
  "acc key = acc' key \<Longrightarrow>
     foldl (\<lambda>acc (k, v). case k of YString key \<Rightarrow> acc(key \<mapsto> v) | _ \<Rightarrow> acc) acc m key =
     foldl (\<lambda>acc (k, v). case k of YString key \<Rightarrow> acc(key \<mapsto> v) | _ \<Rightarrow> acc) acc' m key"
proof (induction m arbitrary: acc acc')
  case (Cons kv m)
  obtain j w where kv: "kv = (j, w)" by (cases kv)
  show ?case unfolding kv foldl_Cons by (rule Cons.IH) (use Cons.prems in \<open>simp split: yaml.split\<close>)
qed simp

lemma foldl_args_update:
  assumes "k \<noteq> key"
  shows "foldl (\<lambda>acc (k, v). case k of YString key \<Rightarrow> acc(key \<mapsto> v) | _ \<Rightarrow> acc) acc (AList.update (YString k) v m) key =
     foldl (\<lambda>acc (k, v). case k of YString key \<Rightarrow> acc(key \<mapsto> v) | _ \<Rightarrow> acc) acc m key"
proof (induction m arbitrary: acc)
  case Nil
  show ?case using assms by simp
next
  case (Cons kv m)
  obtain j w where kv: "kv = (j, w)" by (cases kv)
  show ?case
  proof (cases "j = YString k")
    case True
    then show ?thesis unfolding kv using assms
      by (simp, intro foldl_args_cong) simp
  next
    case False
    then show ?thesis unfolding kv by (simp add: Cons.IH)
  qed
qed

lemma set_path_other_arg:
  assumes "CHR ''_'' \<in> set key"
  shows "effective_args (p\<lparr>pc_args := set_path (segments path) v
      (case pc_args p of YMapping m \<Rightarrow> YMapping m | _ \<Rightarrow> YMapping [])\<rparr>) key \<in> {effective_args p key, None}"
proof (cases "segments path")
  case Nil
  then show ?thesis by (simp add: segments_not_Nil)
next
  case (Cons s rest)
  show ?thesis
  proof (cases s)
    case (Key k)
    then have "k \<noteq> key" using assms Cons segments_no_underscore [of k path] by auto
    then show ?thesis using Cons Key
      by (auto simp: effective_args_def Let_def foldl_args_update split: yaml.splits)
  next
    case (Index i)
    then show ?thesis using Cons by (simp add: effective_args_def Let_def)
  qed
qed

lemma override_plugin_other_arg:
  assumes "CHR ''_'' \<in> set key"
  shows "list_all2 (\<lambda>p' p. effective_args p' key \<in> {effective_args p key, None})
    (override_plugin yaml_of tag path v ps) ps"
proof (induction ps)
  case (Cons p ps)
  then show ?case using set_path_other_arg [OF assms] by (simp add: list_all2_same)
qed simp

lemma apply_env_var_other_arg:
  assumes "CHR ''_'' \<in> set key"
  shows "list_all2 (\<lambda>p' p. effective_args p' key \<in> {effective_args p key, None})
    (cf_plugins (apply_env_var yaml_of kv c)) (cf_plugins c)"
proof (cases kv)
  case (Pair k v)
  then show ?thesis
    using override_plugin_other_arg [OF assms, of yaml_of _ _ v "cf_plugins c"]
    by (cases "plugin_args_match k") (auto simp: apply_env_var_def list_all2_same)
qed

lemma snapshot_other_arg:
  assumes "CHR ''_'' \<in> set key"
  shows "list_all2 (\<lambda>p' p. effective_args p' key \<in> {effective_args p key, None})
    (cf_plugins (apply_env_overrides_from_snapshot yaml_of env c)) (cf_plugins c)"
proof (induction env arbitrary: c)
  case (Cons kv env)
  let ?c = "apply_env_var yaml_of kv c"
  have "apply_env_overrides_from_snapshot yaml_of (kv # env) c = apply_env_overrides_from_snapshot yaml_of env ?c"
    by (simp add: apply_env_overrides_from_snapshot_def)
  then show ?case
    using list_all2_trans [OF _ Cons [of ?c] apply_env_var_other_arg [OF assms, of yaml_of kv c]] by fastforce
qed (simp add: apply_env_overrides_from_snapshot_def list_all2_same)

lemma log_fold_plugins:
  "cf_plugins (fold (\<lambda>key c. case first_non_empty env key of
      Some v \<Rightarrow> c\<lparr>cf_log := apply_log_var key v (cf_log c)\<rparr> | None \<Rightarrow> c) keys c) = cf_plugins c"
  by (induction keys arbitrary: c) (auto split: option.splits)

text \<open>
  No environment can give a plugin an argument whose name has an underscore, such as
  \<^verbatim>\<open>negative_ttl\<close>: the path is split at underscores. For every plugin such an argument is, after the
  overrides, what the file said or gone.
\<close>

theorem underscore_args_cannot_be_overridden:
  assumes "CHR ''_'' \<in> set key"
  shows "list_all2 (\<lambda>p' p. effective_args p' key \<in> {effective_args p key, None})
    (cf_plugins (apply_env_overrides yaml_of env c)) (cf_plugins c)"
proof -
  define c' where "c' = fold (\<lambda>key c. case first_non_empty env key of
      Some v \<Rightarrow> c\<lparr>cf_log := apply_log_var key v (cf_log c)\<rparr> | None \<Rightarrow> c) log_vars c"
  have "cf_plugins c' = cf_plugins c" unfolding c'_def by (rule log_fold_plugins)
  then show ?thesis
    using snapshot_other_arg [OF assms, of yaml_of env c'] by (simp add: apply_env_overrides_def c'_def)
qed

theorem underscore_args_cannot_be_overridden_witness:
  "map (\<lambda>p. effective_args p ''negative_ttl'')
     (cf_plugins (apply_env_overrides (\<lambda>_. None) [(''PLUGINS_MY_CACHE_ARGS_NEGATIVE_TTL'', ''3600'')] two_caches)) = [None, None]"
proof -
  have "CHR ''_'' \<in> set ''negative_ttl''" by simp
  from underscore_args_cannot_be_overridden [OF this, of "\<lambda>_. None" "[(''PLUGINS_MY_CACHE_ARGS_NEGATIVE_TTL'', ''3600'')]" two_caches]
  show ?thesis by (auto simp: two_caches_def effective_args_def list_all2_Cons2)
qed

section \<open>Substitution and includes\<close>

lemma substitute_captures_ok:
  "(\<exists>r. substitute_captures env caps content = Inr r) \<longleftrightarrow>
     (\<forall>(full, name, d) \<in> set caps. map_of env name \<noteq> None \<or> d \<noteq> None)"
  by (induction env caps content rule: substitute_captures.induct) (auto split: option.splits)

lemma substitute_env_vars_ok:
  "(\<exists>r. substitute_env_vars env content = Inr r) \<longleftrightarrow>
     (\<forall>(full, name, d) \<in> set (scan env_match content). map_of env name \<noteq> None \<or> d \<noteq> None)"
  unfolding substitute_env_vars_def by (rule substitute_captures_ok)

lemma no_dollar_no_env_match: "CHR ''$'' \<notin> set s \<Longrightarrow> scan env_match s = []"
  by (induction s) (auto simp: env_match_def strip_prefix_def starts_with_def split: option.splits)

lemma substitute_plain: "CHR ''$'' \<notin> set s \<Longrightarrow> substitute_env_vars env s = Inr s"
  by (simp add: substitute_env_vars_def no_dollar_no_env_match)

lemma no_bang_no_include: "CHR ''!'' \<notin> set s \<Longrightarrow> scan include_match s = []"
  by (induction s) (auto simp: include_match_def strip_prefix_def starts_with_def split: option.splits)

lemma process_includes_plain: "CHR ''!'' \<notin> set s \<Longrightarrow> process_includes fs env (Suc n) base s = Some (Inr s)"
  by (subst process_includes.simps) (simp add: no_bang_no_include)

text \<open>What one file includes: the text that is processed next for a capture, with its directory.\<close>

definition included :: "files \<Rightarrow> env \<Rightarrow> string option \<Rightarrow> string \<times> string \<Rightarrow> (string option \<times> string) option" where
  "included fs env base cap =
     (let path = path_join base (snd cap) in
      case fs path of
        Inl _ \<Rightarrow> None
      | Inr text \<Rightarrow>
          (case substitute_env_vars env text of Inl _ \<Rightarrow> None | Inr t \<Rightarrow> Some (path_parent path, t)))"

lemma include_captures_diverges:
  assumes "included fs env base cap = Some (b, t)" "process_includes fs env n b t = None"
  shows "include_captures fs env n base (cap # caps) r = None"
  using assms by (cases cap) (auto simp: included_def Let_def split: sum.splits)

lemma include_captures_returns:
  assumes "\<And>cap b t. cap \<in> set caps \<Longrightarrow> included fs env base cap = Some (b, t) \<Longrightarrow>
      process_includes fs env n b t \<noteq> None"
  shows "include_captures fs env n base caps r \<noteq> None"
  using assms
proof (induction caps arbitrary: r)
  case (Cons cap caps)
  obtain full p where cap: "cap = (full, p)" by (cases cap)
  have IH: "include_captures fs env n base caps r \<noteq> None" for r
    by (rule Cons.IH) (use Cons.prems in \<open>meson list.set_intros(2)\<close>)
  have rec: "process_includes fs env n b t \<noteq> None" if "included fs env base cap = Some (b, t)" for b t
    using Cons.prems [of cap] that by auto
  show ?case
    using IH rec unfolding cap
    by (auto simp: included_def Let_def split: sum.splits option.splits)
qed simp

text \<open>
  Circular includes are not detected. In any set of texts of which each one's first include
  leads to a text of the set again (a file that includes itself, two files that include each
  other), the processing of includes does not end, whatever the bound on its depth.
\<close>

theorem include_cycle_never_ends:
  assumes "\<forall>(base, t) \<in> S. \<exists>cap caps next. scan include_match t = cap # caps \<and>
      included fs env base cap = Some next \<and> next \<in> S"
    and "(base, t) \<in> S"
  shows "process_includes fs env n base t = None"
  using assms(2)
proof (induction n arbitrary: base t)
  case 0
  show ?case by (subst process_includes.simps) simp
next
  case (Suc n)
  obtain cap caps b u where c: "scan include_match t = cap # caps" "included fs env base cap = Some (b, u)" "(b, u) \<in> S"
    using assms(1) Suc.prems by fast
  show ?case
    by (subst process_includes.simps) (simp add: c(1) include_captures_diverges [OF c(2) Suc.IH [OF c(3)]])
qed

definition self_including :: files where
  "self_including p = (if p = ''/a.yaml'' then Inr ''!include a.yaml'' else Inl ''No such file'')"

theorem include_cycle_never_ends_witness:
  "process_includes self_including [] 1000 (Some ''/'') ''!include a.yaml'' = None"
proof (rule include_cycle_never_ends [where S = "{(Some ''/'', ''!include a.yaml'')}"])
  have "scan include_match ''!include a.yaml'' = [(''!include a.yaml'', ''a.yaml'')]"
    "included self_including [] (Some ''/'') (''!include a.yaml'', ''a.yaml'') = Some (Some ''/'', ''!include a.yaml'')"
    by code_simp+
  then show "\<forall>(base, t) \<in> {(Some ''/'', ''!include a.yaml'')}. \<exists>cap caps next. scan include_match t = cap # caps \<and>
      included self_including [] base cap = Some next \<and> next \<in> {(Some ''/'', ''!include a.yaml'')}"
    by auto
qed simp

text \<open>
  Includes without a cycle end: when some measure falls from every text to each text it
  includes, a depth of one more than the measure is enough, and the result is a text or an error.
\<close>

theorem ranked_includes_end:
  assumes "\<And>base t cap next. cap \<in> set (scan include_match t) \<Longrightarrow> included fs env base cap = Some next \<Longrightarrow>
      rank next < (rank (base, t) :: nat)"
    and "rank (base, t) < n"
  shows "\<exists>r. process_includes fs env n base t = Some r"
  using assms(2)
proof (induction n arbitrary: base t)
  case (Suc n)
  have "include_captures fs env n base (scan include_match t) t \<noteq> None"
  proof (rule include_captures_returns)
    fix cap b u assume "cap \<in> set (scan include_match t)" "included fs env base cap = Some (b, u)"
    then have "rank (b, u) < n" using assms(1) [of cap t base "(b, u)"] Suc.prems by simp
    then show "process_includes fs env n b u \<noteq> None" using Suc.IH by auto
  qed
  then show ?case by (subst process_includes.simps) simp
qed simp

definition one_include :: files where
  "one_include p = (if p = ''b.yaml'' then Inr ''x: 1'' else Inl ''No such file'')"

theorem ranked_includes_end_witness:
  "\<exists>r. process_includes one_include [] 2 None ''!include b.yaml'' = Some r"
proof (rule ranked_includes_end [where rank = "\<lambda>(b, t). if scan include_match t = [] then 0 else 1"])
  fix base t cap "next"
  assume a: "cap \<in> set (scan include_match t)" "included one_include [] base cap = Some next"
  have s: "substitute_env_vars [] ''x: 1'' = Inr ''x: 1''" "scan include_match ''x: 1'' = []" by code_simp+
  have "snd next = ''x: 1''"
    using a(2) s(1) by (auto simp: included_def one_include_def Let_def split: if_splits)
  then show "(case next of (b, t) \<Rightarrow> if scan include_match t = [] then 0 else 1)
      < ((case (base, t) of (b, t) \<Rightarrow> if scan include_match t = [] then 0 else 1) :: nat)"
    using a(1) s(2) by (cases "next") auto
qed simp

end
