(* ===== verification/Launcher.thy ===== *)
theory Launcher
  imports Servers Config_Load "HOL-Library.Sublist"
begin

text \<open>
  Starting and stopping the servers: \<^verbatim>\<open>src/src/server/launcher.rs\<close>, \<^verbatim>\<open>src/src/server/tls.rs\<close> and the handlers of
  \<^verbatim>\<open>src/src/server/admin.rs\<close>. Sockets, files and the PEM parser are parameters; the outcome of a
  bind may depend on the servers that already run. A task is what it was started with.
\<close>

section \<open>Certificates\<close>

record ('c, 'k) tls_config =
  tls_certs :: "'c list"
  tls_key :: 'k

record ('c, 'k) pem_ops =
  pem_certs :: "u8 list \<Rightarrow> string + 'c list"
  pem_private_key :: "u8 list \<Rightarrow> string + 'k option"

definition load_certs :: "(string \<Rightarrow> string + u8 list) \<Rightarrow> ('c, 'k) pem_ops \<Rightarrow> string \<Rightarrow> 'c list result" where
  "load_certs fs pem path =
     (case fs path of
        Inl e \<Rightarrow> Inl (Config (''Failed to read certificate file: '' @ e))
      | Inr bytes \<Rightarrow>
          (case pem_certs pem bytes of
             Inl e \<Rightarrow> Inl (Config (''Failed to parse certificate: '' @ e))
           | Inr certs \<Rightarrow> if certs = [] then Inl (Config ''No certificates found in file'') else Inr certs))"

definition load_key :: "(string \<Rightarrow> string + u8 list) \<Rightarrow> ('c, 'k) pem_ops \<Rightarrow> string \<Rightarrow> 'k result" where
  "load_key fs pem path =
     (case fs path of
        Inl e \<Rightarrow> Inl (Config (''Failed to read key file: '' @ e))
      | Inr bytes \<Rightarrow>
          (case pem_private_key pem bytes of
             Inl e \<Rightarrow> Inl (Config (''Failed to parse private key: '' @ e))
           | Inr None \<Rightarrow> Inl (Config ''No private key found in file'')
           | Inr (Some k) \<Rightarrow> Inr k))"

definition tls_from_files :: "(string \<Rightarrow> string + u8 list) \<Rightarrow> ('c, 'k) pem_ops \<Rightarrow> string \<Rightarrow> string \<Rightarrow> ('c, 'k) tls_config result" where
  "tls_from_files fs pem cert_path key_path =
     (case load_certs fs pem cert_path of
        Inl e \<Rightarrow> Inl e
      | Inr certs \<Rightarrow>
          (case load_key fs pem key_path of
             Inl e \<Rightarrow> Inl e
           | Inr key \<Rightarrow> Inr \<lparr>tls_certs = certs, tls_key = key\<rparr>))"

section \<open>Launching\<close>

text \<open>The handler of a server is the name of its entry plugin: the registry is shared.\<close>

record server_task =
  tk_label :: string
  tk_addr :: sock_addr
  tk_config :: "string server_config"
  tk_handler :: string

record launcher =
  la_shutdown :: bool
  la_tasks :: "server_task list"

definition launcher_new :: launcher where
  "launcher_new = \<lparr>la_shutdown = False, la_tasks = []\<rparr>"

definition trigger_shutdown :: "launcher \<Rightarrow> launcher" where
  "trigger_shutdown l = l\<lparr>la_shutdown := True\<rparr>"

datatype transport = UdpSocket | TcpListener

record ('c, 'k) os =
  os_read :: "string \<Rightarrow> string + u8 list"
  os_pem :: "('c, 'k) pem_ops"
  os_bind :: "server_task list \<Rightarrow> transport \<Rightarrow> sock_addr \<Rightarrow> string option"

definition normalize_listen_addr :: "string \<Rightarrow> string" where
  "normalize_listen_addr listen = (if starts_with '':'' listen then ''0.0.0.0'' @ listen else listen)"

definition parse_listen_addr :: "(string \<rightharpoonup> yaml) \<Rightarrow> string \<Rightarrow> sock_addr option" where
  "parse_listen_addr args dflt =
     parse_socket_addr (normalize_listen_addr (case arg_str ''listen'' args of Some s \<Rightarrow> s | None \<Rightarrow> dflt))"

definition get_entry :: "(string \<rightharpoonup> yaml) \<Rightarrow> string" where
  "get_entry args = (case arg_str ''entry'' args of Some s \<Rightarrow> s | None \<Rightarrow> ''main_sequence'')"

text \<open>\<open>spawn_server\<close> also says whether the caller gets a receiver to wait for.\<close>

definition spawn_server :: "string \<Rightarrow> sock_addr \<Rightarrow> (string server_config \<times> string) result \<Rightarrow> launcher \<Rightarrow> bool \<times> launcher" where
  "spawn_server label addr r l =
     (case r of
        Inr (cfg, h) \<Rightarrow>
          (True, l\<lparr>la_tasks := la_tasks l @ [\<lparr>tk_label = label, tk_addr = addr, tk_config = cfg, tk_handler = h\<rparr>]\<rparr>)
      | Inl e \<Rightarrow> (False, l))"

definition udp_new :: "('c, 'k) os \<Rightarrow> launcher \<Rightarrow> string server_config \<Rightarrow> string \<Rightarrow> (string server_config \<times> string) result" where
  "udp_new os l cfg h =
     (case sc_udp_addr cfg of
        None \<Rightarrow> Inl (Config ''UDP address not configured'')
      | Some a \<Rightarrow> (case os_bind os (la_tasks l) UdpSocket a of Some e \<Rightarrow> Inl (Io e) | None \<Rightarrow> Inr (cfg, h)))"

definition tcp_new :: "('c, 'k) os \<Rightarrow> launcher \<Rightarrow> string server_config \<Rightarrow> string \<Rightarrow> (string server_config \<times> string) result" where
  "tcp_new os l cfg h =
     (case sc_tcp_addr cfg of
        None \<Rightarrow> Inl (Config ''TCP address not configured'')
      | Some a \<Rightarrow> (case os_bind os (la_tasks l) TcpListener a of Some e \<Rightarrow> Inl (Io e) | None \<Rightarrow> Inr (cfg, h)))"

definition launch_udp_server :: "('c, 'k) os \<Rightarrow> plugin_config \<Rightarrow> launcher \<Rightarrow> bool \<times> launcher" where
  "launch_udp_server os p l =
     (let args = effective_args p in
      case parse_listen_addr args ''0.0.0.0:53'' of
        None \<Rightarrow> (False, l)
      | Some addr \<Rightarrow>
          spawn_server ''UDP'' addr
            (udp_new os l (server_config_default\<lparr>sc_udp_addr := Some addr\<rparr>) (get_entry args)) l)"

definition launch_tcp_server :: "('c, 'k) os \<Rightarrow> plugin_config \<Rightarrow> launcher \<Rightarrow> bool \<times> launcher" where
  "launch_tcp_server os p l =
     (let args = effective_args p in
      case parse_listen_addr args ''0.0.0.0:53'' of
        None \<Rightarrow> (False, l)
      | Some addr \<Rightarrow>
          spawn_server ''TCP'' addr
            (tcp_new os l (server_config_default\<lparr>sc_tcp_addr := Some addr\<rparr>) (get_entry args)) l)"

definition cert_and_key :: "(string \<rightharpoonup> yaml) \<Rightarrow> (string \<times> string) option" where
  "cert_and_key args =
     (case (arg_str ''cert_file'' args, arg_str ''key_file'' args) of
        (Some c, Some k) \<Rightarrow> Some (c, k)
      | _ \<Rightarrow> None)"

definition launch_doh_server :: "('c, 'k) os \<Rightarrow> plugin_config \<Rightarrow> launcher \<Rightarrow> bool \<times> launcher" where
  "launch_doh_server os p l =
     (let args = effective_args p in
      case parse_listen_addr args ''0.0.0.0:443'' of
        None \<Rightarrow> (False, l)
      | Some addr \<Rightarrow>
      (case cert_and_key args of
        None \<Rightarrow> (False, l)
      | Some (cert, key) \<Rightarrow>
      (case tls_from_files (os_read os) (os_pem os) cert key of
        Inl e \<Rightarrow> (False, l)
      | Inr tls \<Rightarrow>
          (let cfg = server_config_default\<lparr>sc_tcp_addr := Some addr, sc_handler := Some (get_entry args),
                 sc_has_tls := True, sc_doh_path := arg_str ''path'' args,
                 sc_trust_forwarded_for := (case Option.bind (args ''trust_forwarded_for'') as_bool of Some b \<Rightarrow> b | None \<Rightarrow> False),
                 sc_cert_path := Some cert, sc_key_path := Some key\<rparr>
           in spawn_server ''DoH'' addr (map_sum id (\<lambda>(a, h, path, trust). (cfg, h)) (doh_from_config cfg)) l))))"

definition launch_dot_server :: "('c, 'k) os \<Rightarrow> plugin_config \<Rightarrow> launcher \<Rightarrow> bool \<times> launcher" where
  "launch_dot_server os p l =
     (let args = effective_args p in
      case parse_listen_addr args ''0.0.0.0:853'' of
        None \<Rightarrow> (False, l)
      | Some addr \<Rightarrow>
      (case cert_and_key args of
        None \<Rightarrow> (False, l)
      | Some (cert, key) \<Rightarrow>
      (case tls_from_files (os_read os) (os_pem os) cert key of
        Inl e \<Rightarrow> (False, l)
      | Inr tls \<Rightarrow>
          (let cfg = server_config_default\<lparr>sc_tcp_addr := Some addr, sc_handler := Some (get_entry args),
                 sc_has_tls := True, sc_cert_path := Some cert, sc_key_path := Some key\<rparr>
           in spawn_server ''DoT'' addr (map_sum id (\<lambda>(a, h, permits, timeout). (cfg, h)) (dot_from_config cfg)) l))))"

definition launch_doq_server :: "plugin_config \<Rightarrow> launcher \<Rightarrow> bool \<times> launcher" where
  "launch_doq_server p l =
     (let args = effective_args p in
      case parse_listen_addr args ''0.0.0.0:784'' of
        None \<Rightarrow> (False, l)
      | Some addr \<Rightarrow>
      (case cert_and_key args of
        None \<Rightarrow> (False, l)
      | Some (cert, key) \<Rightarrow>
          (let cfg = server_config_default\<lparr>sc_tcp_addr := Some addr, sc_handler := Some (get_entry args),
                 sc_cert_path := Some cert, sc_key_path := Some key\<rparr>
           in spawn_server ''DoQ'' addr (map_sum id (\<lambda>(a, c, k, h). (cfg, h)) (doq_from_config cfg)) l)))"

definition launch_one :: "('c, 'k) os \<Rightarrow> plugin_config \<Rightarrow> launcher \<Rightarrow> bool \<times> launcher" where
  "launch_one os p l =
     (if pc_plugin_type p = ''udp_server'' then launch_udp_server os p l
      else if pc_plugin_type p = ''tcp_server'' then launch_tcp_server os p l
      else if pc_plugin_type p = ''doh_server'' then launch_doh_server os p l
      else if pc_plugin_type p = ''dot_server'' then launch_dot_server os p l
      else if pc_plugin_type p = ''doq_server'' then launch_doq_server p l
      else (False, l))"

text \<open>The number of receivers and the launcher with its tasks.\<close>

fun launch_all :: "('c, 'k) os \<Rightarrow> plugin_config list \<Rightarrow> launcher \<Rightarrow> nat \<times> launcher" where
  "launch_all os [] l = (0, l)"
| "launch_all os (p # ps) l =
     (case launch_one os p l of (got, l) \<Rightarrow>
      case launch_all os ps l of (n, l) \<Rightarrow> (if got then Suc n else n, l))"

text \<open>The admin and monitoring servers get an address text; they run outside the list of tasks.\<close>

definition launch_admin_server :: "config \<Rightarrow> string option" where
  "launch_admin_server c =
     (if ac_enabled (cf_admin c) then Some (normalize_listen_addr (ac_addr (cf_admin c))) else None)"

definition launch_monitoring_server :: "config \<Rightarrow> (string \<times> u64 option) option" where
  "launch_monitoring_server c =
     (let m = cf_monitoring c in
      if mc_enabled m
      then Some (normalize_listen_addr (mc_addr m), if mc_memory_enabled m then Some (mc_memory_interval_ms m) else None)
      else None)"

section \<open>Stopping\<close>

text \<open>
  The handles are awaited from the last to the first until a deadline. When it passes, the handle
  that was being awaited is dropped, and the rest is aborted. \<open>finished\<close> says which tasks end before
  the deadline.
\<close>

fun await_handles :: "('t \<Rightarrow> bool) \<Rightarrow> 't list \<Rightarrow> 't list option" where
  "await_handles finished [] = None"
| "await_handles finished (t # ts) = (if finished t then await_handles finished ts else Some ts)"

definition wait_for_servers :: "(server_task \<Rightarrow> bool) \<Rightarrow> launcher \<Rightarrow> bool \<times> server_task list \<times> launcher" where
  "wait_for_servers finished l =
     (case await_handles finished (rev (la_tasks l)) of
        None \<Rightarrow> (True, [], l\<lparr>la_tasks := []\<rparr>)
      | Some rest \<Rightarrow> (False, rest, l\<lparr>la_tasks := []\<rparr>))"

section \<open>The admin API\<close>

text \<open>
  The state of the admin server: the shared configuration, the registry, and of the heap the cache
  plugins, which a downcast finds. Of \<^verbatim>\<open>hit_rate\<close>, a float, the two numbers it is computed from
  are kept.
\<close>

record 'l admin_state =
  ad_config :: config
  ad_registry :: registry
  ad_start :: nat
  ad_caches :: "addr \<rightharpoonup> 'l cache_plugin"

record cache_stats_response =
  sr_size :: nat
  sr_hits :: u64
  sr_misses :: u64
  sr_evictions :: u64
  sr_expirations :: u64
  sr_hit_rate :: "(u64 \<times> u64) option"

datatype api_response =
    ApiOk string
  | ApiStats cache_stats_response
  | ApiStatus string string string
  | ApiError nat string

definition get_cache_plugin :: "'l admin_state \<Rightarrow> api_response + addr" where
  "get_cache_plugin st =
     (case registry_get (ad_registry st) ''cache'' of
        None \<Rightarrow> Inl (ApiError 404 ''Cache not configured'')
      | Some a \<Rightarrow>
          (case ad_caches st a of
             None \<Rightarrow> Inl (ApiError 404 ''Cache plugin found but failed to access'')
           | Some _ \<Rightarrow> Inr a))"

definition cache_control :: "(cache_entry, 'l) lru_ops \<Rightarrow> string \<Rightarrow> 'l admin_state \<Rightarrow> api_response \<times> 'l admin_state" where
  "cache_control ops action st =
     (case get_cache_plugin st of
        Inl e \<Rightarrow> (e, st)
      | Inr a \<Rightarrow>
          if action = ''clear'' then
            (case ad_caches st a of
               Some p \<Rightarrow> (ApiOk ''Cache cleared successfully'', st\<lparr>ad_caches := (ad_caches st)(a \<mapsto> cache_clear ops p)\<rparr>)
             | None \<Rightarrow> (ApiError 500 ''Failed to downcast cache plugin'', st))
          else (ApiError 400 (''Unknown action: '' @ action), st))"

definition cache_stats_reply :: "(cache_entry, 'l) lru_ops \<Rightarrow> 'l admin_state \<Rightarrow> api_response" where
  "cache_stats_reply ops st =
     (case get_cache_plugin st of
        Inl e \<Rightarrow> e
      | Inr a \<Rightarrow>
          (case ad_caches st a of
             None \<Rightarrow> ApiError 500 ''Failed to downcast cache plugin''
           | Some p \<Rightarrow>
               (let s = cp_stats p; tot = cs_hits s + cs_misses s in
                ApiStats \<lparr>sr_size = cache_size ops p, sr_hits = cs_hits s, sr_misses = cs_misses s,
                  sr_evictions = cs_evictions s, sr_expirations = cs_expirations s,
                  sr_hit_rate = (if tot > 0 then Some (cs_hits s, tot) else None)\<rparr>)))"

definition reload_config :: "(string \<Rightarrow> string + config) \<Rightarrow> (string \<Rightarrow> yaml option) \<Rightarrow> (string \<Rightarrow> string + string) \<Rightarrow> files \<Rightarrow> env
    \<Rightarrow> nat \<Rightarrow> string option \<Rightarrow> 'l admin_state \<Rightarrow> (api_response \<times> 'l admin_state) option" where
  "reload_config parse yaml_of canonicalize fs env n requested st =
     (let path = (case requested of Some p \<Rightarrow> p | None \<Rightarrow> ''config.yaml'') in
      case load_from_file parse yaml_of canonicalize fs env n path of
        None \<Rightarrow> None
      | Some (Inr c) \<Rightarrow>
          (case validate_config c of
             Inr _ \<Rightarrow> Some (ApiOk (''Configuration reloaded from '' @ path), st\<lparr>ad_config := c\<rparr>)
           | Inl e \<Rightarrow> Some (ApiError 400 (''Configuration validation failed: '' @ error_fmt e), st))
      | Some (Inl e) \<Rightarrow> Some (ApiError 500 (''Failed to load configuration: '' @ error_fmt e), st))"

definition pad2 :: "nat \<Rightarrow> string" where
  "pad2 n = (if n < 10 then ''0'' @ show_nat n else show_nat n)"

definition format_duration :: "nat \<Rightarrow> string" where
  "format_duration secs =
     (let days = secs div 86400; hours = secs mod 86400 div 3600; minutes = secs mod 3600 div 60;
          clock = pad2 hours @ '':'' @ pad2 minutes @ '':'' @ pad2 (secs mod 60)
      in if days > 0 then show_nat days @ ''d '' @ clock else clock)"

definition server_stats :: "string \<Rightarrow> nat \<Rightarrow> 'l admin_state \<Rightarrow> api_response" where
  "server_stats version now st =
     ApiStatus ''running'' version (format_duration ((now - ad_start st) div 1000000000))"

section \<open>What is launched\<close>

text \<open>What a task has to do with the configuration it was started from.\<close>

definition server_table :: "(string \<times> string \<times> string) list" where
  "server_table =
     [(''udp_server'', ''UDP'', ''0.0.0.0:53''), (''tcp_server'', ''TCP'', ''0.0.0.0:53''), (''doh_server'', ''DoH'', ''0.0.0.0:443''),
      (''dot_server'', ''DoT'', ''0.0.0.0:853''), (''doq_server'', ''DoQ'', ''0.0.0.0:784'')]"

definition serves :: "plugin_config \<Rightarrow> server_task \<Rightarrow> bool" where
  "serves p t \<longleftrightarrow>
     (let args = effective_args p; cfg = tk_config t in
      (\<exists>dflt. (pc_plugin_type p, tk_label t, dflt) \<in> set server_table \<and> parse_listen_addr args dflt = Some (tk_addr t)) \<and>
      (if tk_label t = ''UDP'' then sc_udp_addr cfg else sc_tcp_addr cfg) = Some (tk_addr t) \<and>
      tk_handler t = get_entry args \<and>
      (tk_label t \<in> {''DoH'', ''DoT'', ''DoQ''} \<longrightarrow>
         (\<exists>c k. cert_and_key args = Some (c, k) \<and> sc_cert_path cfg = Some c \<and> sc_key_path cfg = Some k)) \<and>
      (sc_trust_forwarded_for cfg \<longleftrightarrow> tk_label t = ''DoH'' \<and> args ''trust_forwarded_for'' = Some (YBool True)))"

text \<open>The two outcomes of a launch.\<close>

definition launches :: "plugin_config \<Rightarrow> launcher \<Rightarrow> bool \<times> launcher \<Rightarrow> bool" where
  "launches p l r \<longleftrightarrow> r = (False, l) \<or> (\<exists>t. r = (True, l\<lparr>la_tasks := la_tasks l @ [t]\<rparr>) \<and> serves p t)"

lemma launches_none [simp]: "launches p l (False, l)"
  by (simp add: launches_def)

lemma launches_spawn:
  assumes "\<And>cfg h. r = Inr (cfg, h) \<Longrightarrow> serves p \<lparr>tk_label = label, tk_addr = addr, tk_config = cfg, tk_handler = h\<rparr>"
  shows "launches p l (spawn_server label addr r l)"
  using assms by (auto simp: launches_def spawn_server_def split: sum.split)

lemma as_bool_Some: "as_bool v = Some b \<longleftrightarrow> v = YBool b"
  by (cases v) auto

lemma trust_arg:
  "(case Option.bind x as_bool of Some b \<Rightarrow> b | None \<Rightarrow> False) \<longleftrightarrow> x = Some (YBool True)"
  by (auto simp: as_bool_Some bind_eq_Some_conv split: option.splits)

lemma server_config_default_trust [simp]: "sc_trust_forwarded_for server_config_default = False"
  by (simp add: server_config_default_def)

lemma launch_one_launches: "launches p l (launch_one os p l)"
proof -
  have "launches p l (launch_udp_server os p l)" if "pc_plugin_type p = ''udp_server''"
    using that unfolding launch_udp_server_def Let_def
    by (auto intro!: launches_spawn simp: udp_new_def serves_def server_table_def Let_def split: option.splits)
  moreover have "launches p l (launch_tcp_server os p l)" if "pc_plugin_type p = ''tcp_server''"
    using that unfolding launch_tcp_server_def Let_def
    by (auto intro!: launches_spawn simp: tcp_new_def serves_def server_table_def Let_def split: option.splits)
  moreover have "launches p l (launch_doh_server os p l)" if "pc_plugin_type p = ''doh_server''"
    using that unfolding launch_doh_server_def Let_def trust_arg
    by (auto intro!: launches_spawn simp: doh_from_config_def serves_def server_table_def Let_def
        split: option.split sum.split)
  moreover have "launches p l (launch_dot_server os p l)" if "pc_plugin_type p = ''dot_server''"
    using that unfolding launch_dot_server_def Let_def
    by (auto intro!: launches_spawn simp: dot_from_config_def serves_def server_table_def Let_def
        split: option.split sum.split)
  moreover have "launches p l (launch_doq_server p l)" if "pc_plugin_type p = ''doq_server''"
    using that unfolding launch_doq_server_def Let_def
    by (auto intro!: launches_spawn simp: doq_from_config_def serves_def server_table_def Let_def
        split: option.split)
  ultimately show ?thesis by (simp add: launch_one_def)
qed

lemma launch_all_tasks:
  "\<exists>qs ts. subseq qs ps \<and> list_all2 serves qs ts \<and>
     launch_all os ps l = (length ts, l\<lparr>la_tasks := la_tasks l @ ts\<rparr>)"
proof (induction ps arbitrary: l)
  case Nil
  show ?case by (rule exI [of _ "[]"], rule exI [of _ "[]"]) simp
next
  case (Cons p ps)
  consider "launch_one os p l = (False, l)"
    | t where "launch_one os p l = (True, l\<lparr>la_tasks := la_tasks l @ [t]\<rparr>)" "serves p t"
    using launch_one_launches [of p l os] unfolding launches_def by blast
  then show ?case
  proof cases
    case 1
    obtain qs ts where r: "subseq qs ps" "list_all2 serves qs ts"
      "launch_all os ps l = (length ts, l\<lparr>la_tasks := la_tasks l @ ts\<rparr>)" using Cons by blast
    then have "subseq qs (p # ps)" by auto
    with r 1 show ?thesis by auto
  next
    case 2
    obtain qs ts where r: "subseq qs ps" "list_all2 serves qs ts"
      "launch_all os ps (l\<lparr>la_tasks := la_tasks l @ [t]\<rparr>) =
        (length ts, l\<lparr>la_tasks := (la_tasks l @ [t]) @ ts\<rparr>)"
      using Cons [of "l\<lparr>la_tasks := la_tasks l @ [t]\<rparr>"] by auto
    then have "subseq (p # qs) (p # ps)" "list_all2 serves (p # qs) (t # ts)" using 2 by auto
    with r 2 show ?thesis by (intro exI [of _ "p # qs"] exI [of _ "t # ts"]) simp
  qed
qed

text \<open>
  C32: Whatever files and sockets do, the launched servers follow the configuration: they belong to a
  subsequence of the plugins, in their order, one server each, with the label of the plugin's type, the
  address of its \<^verbatim>\<open>listen\<close> argument or the default of the type, its entry as handler, and, for the
  encrypted transports, its certificate and key. There is a receiver for every launched server, and
  only an HTTPS server with \<^verbatim>\<open>trust_forwarded_for: true\<close> believes forwarded addresses.
\<close>

theorem launched_servers_follow_config:
  "\<exists>qs. subseq qs ps \<and> list_all2 serves qs (la_tasks (snd (launch_all os ps launcher_new))) \<and>
     fst (launch_all os ps launcher_new) = length (la_tasks (snd (launch_all os ps launcher_new)))"
  using launch_all_tasks [of ps os launcher_new] by (auto simp: launcher_new_def)

lemma launched_serves:
  assumes "t \<in> set (la_tasks (snd (launch_all os ps launcher_new)))"
  shows "\<exists>p \<in> set ps. serves p t"
proof -
  obtain qs ts where r: "subseq qs ps" "list_all2 serves qs ts"
    "launch_all os ps launcher_new = (length ts, launcher_new\<lparr>la_tasks := la_tasks launcher_new @ ts\<rparr>)"
    using launch_all_tasks [of ps os launcher_new] by auto
  then have "t \<in> set ts" using assms by (simp add: launcher_new_def)
  then obtain i where "i < length ts" "ts ! i = t" by (auto simp: in_set_conv_nth)
  then have "serves (qs ! i) t" "qs ! i \<in> set qs" using r(2) by (auto simp: list_all2_conv_all_nth)
  moreover have "set qs \<subseteq> set ps" using r(1) list_emb_set [of "(=)" qs ps] by auto
  ultimately show ?thesis by blast
qed

text \<open>
  When no plugin sets \<^verbatim>\<open>trust_forwarded_for\<close> to true, then for every launched server and every
  request the client is the peer of the connection, whatever the request's headers say.
\<close>

theorem headers_cannot_forge_clients:
  assumes "t \<in> set (la_tasks (snd (launch_all os ps launcher_new)))"
    and "\<forall>p \<in> set ps. effective_args p ''trust_forwarded_for'' \<noteq> Some (YBool True)"
  shows "extract_client_addr hs peer (sc_trust_forwarded_for (tk_config t)) = peer"
proof -
  obtain p where "p \<in> set ps" "serves p t" using launched_serves [OF assms(1)] by blast
  then have "\<not> sc_trust_forwarded_for (tk_config t)" using assms(2) by (auto simp: serves_def Let_def)
  then show ?thesis by (simp add: extract_client_addr_def)
qed

definition demo_os :: "(unit, unit) os" where
  "demo_os = \<lparr>os_read = (\<lambda>_. Inr []), os_pem = \<lparr>pem_certs = (\<lambda>_. Inr [()]), pem_private_key = (\<lambda>_. Inr (Some ()))\<rparr>,
     os_bind = (\<lambda>_ _ _. None)\<rparr>"

definition doh_config :: plugin_config where
  "doh_config = \<lparr>pc_tag = None, pc_plugin_type = ''doh_server'',
     pc_args = YMapping [(YString ''listen'', YString '':443''), (YString ''cert_file'', YString ''c''), (YString ''key_file'', YString ''k'')]\<rparr>"

definition doh_task :: server_task where
  "doh_task = \<lparr>tk_label = ''DoH'', tk_addr = \<lparr>sa_ip = V4 0, sa_port = 443\<rparr>,
     tk_config = server_config_default\<lparr>sc_tcp_addr := Some \<lparr>sa_ip = V4 0, sa_port = 443\<rparr>, sc_handler := Some ''main_sequence'',
       sc_has_tls := True, sc_cert_path := Some ''c'', sc_key_path := Some ''k''\<rparr>, tk_handler = ''main_sequence''\<rparr>"

lemma doh_listen: "parse_socket_addr ''0.0.0.0:443'' = Some \<lparr>sa_ip = V4 0, sa_port = 443\<rparr>"
proof -
  have "read_ipv4 ''0.0.0.0:443'' = Some (0, '':443'')" by code_simp
  then show ?thesis by (simp add: parse_socket_addr_def read_port_def digit_val_def)
qed

lemma doh_launched: "la_tasks (snd (launch_all demo_os [doh_config] launcher_new)) = [doh_task]"
  by (simp add: launch_one_def launch_doh_server_def doh_config_def demo_os_def launcher_new_def effective_args_def
      arg_str_def parse_listen_addr_def normalize_listen_addr_def starts_with_def strip_prefix_def doh_listen cert_and_key_def
      tls_from_files_def load_certs_def load_key_def doh_from_config_def spawn_server_def get_entry_def doh_task_def
      server_config_default_def Let_def)

theorem headers_cannot_forge_clients_witness:
  "extract_client_addr [''x-forwarded-for'' \<mapsto> ''127.0.0.1''] None (sc_trust_forwarded_for (tk_config doh_task)) = None"
  by (rule headers_cannot_forge_clients [where os = demo_os and ps = "[doh_config]"])
    (simp only: doh_launched list.set_intros, simp add: doh_config_def effective_args_def)

section \<open>Addresses that validate and do not listen\<close>

lemma digit_val_colon [simp]: "digit_val (CHR '':'') = None"
  by (simp add: digit_val_def)

text \<open>The validator turns \<^verbatim>\<open>::port\<close> into an IPv6 wildcard; the launcher turns it into no address.\<close>

lemma v6_shorthand_is_no_address:
  "parse_socket_addr (normalize_listen_addr (''::'' @ rest)) = None"
proof -
  have "v4_to_string 0 = ''0.0.0.0''" by code_simp
  then have "read_ipv4 (''0.0.0.0'' @ ''::'' @ rest) = Some (0, ''::'' @ rest)"
    using read_ipv4_show [of "''::'' @ rest" 0] by simp
  then show ?thesis
    by (simp add: normalize_listen_addr_def parse_socket_addr_def starts_with_def read_port_def strip_prefix_def)
qed

lemma v6_shorthand_validates: "validate_socket_addr ''::8000'' what = Inr ()"
proof -
  have "read_ipv6 ''::]:8000'' = Some (0, '']:8000'')" "read_ipv4 ''[::]:8000'' = None" by code_simp+
  then show ?thesis
    by (simp add: validate_socket_addr_def normalize_socket_addr_def parse_socket_addr_def rsplit_colon_def split_once_def
        parse_u16_def parse_uint_def read_port_def skip_scope_def digit_val_def strip_prefix_def starts_with_def MIN_PORT_def)
qed

section \<open>Shutdown\<close>

lemma await_handles_stuck:
  "\<forall>y \<in> set ys. finished y \<Longrightarrow> \<not> finished t \<Longrightarrow> await_handles finished (ys @ t # xs) = Some xs"
  by (induction ys) auto

lemma await_handles_None: "await_handles finished ts = None \<longleftrightarrow> (\<forall>t \<in> set ts. finished t)"
  by (induction ts) auto

lemma wait_succeeds_iff: "fst (wait_for_servers finished l) \<longleftrightarrow> (\<forall>t \<in> set (la_tasks l). finished t)"
  using await_handles_None [of finished "rev (la_tasks l)"]
  by (auto simp: wait_for_servers_def split: option.splits)

text \<open>
  When some server does not finish before the deadline, the last one of them in the order of
  launching is not aborted: its handle was taken from the list to wait for it, and only the
  servers launched before it are aborted.
\<close>

theorem hung_server_is_not_aborted:
  assumes "la_tasks l = xs @ t # ys" "\<not> finished t" "\<forall>y \<in> set ys. finished y"
  shows "wait_for_servers finished l = (False, rev xs, l\<lparr>la_tasks := []\<rparr>)"
  using assms by (simp add: wait_for_servers_def await_handles_stuck)

theorem hung_server_is_not_aborted_witness:
  "wait_for_servers (\<lambda>_. False) \<lparr>la_shutdown = True, la_tasks = [doh_task]\<rparr> = (False, [], \<lparr>la_shutdown = True, la_tasks = []\<rparr>)"
  using hung_server_is_not_aborted [of "\<lparr>la_shutdown = True, la_tasks = [doh_task]\<rparr>" "[]" doh_task "[]" "\<lambda>_. False"]
  by simp

section \<open>The admin API\<close>

text \<open>Loading validates already, so the reply with status 400 is never given.\<close>

lemma load_from_file_validates:
  "load_from_file parse yaml_of canonicalize fs env n path = Some (Inr c) \<Longrightarrow> validate_config c = Inr ()"
  by (auto simp: load_from_file_def load_from_yaml_def Let_def split: sum.splits option.splits)

text \<open>
  A reload over the admin API replaces the configuration by a valid one and replies with success,
  or replies with status 500 and changes nothing. It never replies with status 400. The registry and the
  caches stay as they are in any case: the running plugins are those of the old configuration.
\<close>

theorem reload_replaces_config_only:
  assumes "reload_config parse yaml_of canonicalize fs env n requested st = Some (reply, st')"
  shows "((\<exists>msg. reply = ApiOk msg \<and> validate_config (ad_config st') = Inr ()) \<or>
      (\<exists>msg. reply = ApiError 500 msg \<and> st' = st)) \<and>
    ad_registry st' = ad_registry st \<and> ad_caches st' = ad_caches st"
  using assms by (auto simp: reload_config_def Let_def dest: load_from_file_validates split: option.splits sum.splits)

theorem reload_replaces_config_only_witness:
  "\<exists>reply st'. reload_config (\<lambda>_. Inr limiter_loaded) (\<lambda>_. None) (\<lambda>_. Inl ''gone'') (\<lambda>_. Inl ''gone'') [] 0 None
     \<lparr>ad_config = config_default, ad_registry = [(''cache'', 3)], ad_start = 0, ad_caches = (Map.empty :: addr \<rightharpoonup> nat cache_plugin)\<rparr> =
   Some (reply, st') \<and> ad_registry st' = [(''cache'', 3)]"
proof -
  let ?st = "\<lparr>ad_config = config_default, ad_registry = [(''cache'', 3)], ad_start = 0, ad_caches = (Map.empty :: addr \<rightharpoonup> nat cache_plugin)\<rparr>"
  obtain reply st' where
    r: "reload_config (\<lambda>_. Inr limiter_loaded) (\<lambda>_. None) (\<lambda>_. Inl ''gone'') (\<lambda>_. Inl ''gone'') [] 0 None ?st = Some (reply, st')"
    by (simp add: reload_config_def load_from_file_def)
  then show ?thesis using reload_replaces_config_only [OF r] by auto
qed

lemma cache_control_clears:
  assumes "registry_get (ad_registry st) ''cache'' = Some a" "ad_caches st a = Some p"
  shows "cache_control ops ''clear'' st =
    (ApiOk ''Cache cleared successfully'', st\<lparr>ad_caches := (ad_caches st)(a \<mapsto> cache_clear ops p)\<rparr>)"
  using assms by (simp add: cache_control_def get_cache_plugin_def)

text \<open>
  After a clear over the admin API the cache answers no query from its memory: a query with a
  key is passed on to the rest of the chain.
\<close>

theorem cleared_cache_misses:
  assumes "response_cache ops ok" and "registry_get (ad_registry st) ''cache'' = Some a" "ad_caches st a = Some p"
    and "sharded_ok ops ok (cp_cache p)"
    and "make_key (request c) = Some key" "response c = None" "get_bool ''response_from_cache'' c = None"
  shows "\<exists>p' p''. ad_caches (snd (cache_control ops ''clear'' st)) a = Some p' \<and>
    cache_execute ops t_exp t_ttl u c p' = (None, set_metadata ''cache_checked'' (MBool True) c, p'')"
proof -
  let ?p = "cache_clear ops p"
  have "sharded_ok ops ok (cp_cache ?p)" "lookup ops (cp_cache ?p) key = None"
    using lru_cache.clear_facts [OF response_cache.axioms(1) [OF assms(1)] assms(4)]
    by (simp_all add: cache_clear_def)
  from cache_miss [OF assms(1) this(1) assms(5-7) this(2), of t_exp t_ttl u]
  show ?thesis using cache_control_clears [OF assms(2,3), of ops] by auto
qed

theorem cleared_cache_misses_witness:
  "\<exists>p' p''. ad_caches (snd (cache_control list_lru ''clear''
      \<lparr>ad_config = config_default, ad_registry = [(''cache'', 3)], ad_start = 0, ad_caches = [3 \<mapsto> demo_stored]\<rparr>)) 3 = Some p' \<and>
    cache_execute list_lru 5 5 0 (context_new demo_query) p' =
      (None, set_metadata ''cache_checked'' (MBool True) (context_new demo_query), p'')"
  by (rule cleared_cache_misses [OF lrc.response_cache_axioms _ _ demo_stored_facts(1)])
    (simp_all add: registry_get_def demo_key ctx_get_defs)

end
