(* ===== verification/Audit_Trail.thy ===== *)
theory Audit_Trail
  imports Context
begin

text \<open>
  The audit trail: \<^verbatim>\<open>event.rs\<close>, \<^verbatim>\<open>event_bus.rs\<close>, \<^verbatim>\<open>logger.rs\<close> and \<^verbatim>\<open>plugin.rs\<close> of \<^verbatim>\<open>src/src/plugins/audit\<close>. The handler
  publishes an entry for every query, other plugins publish security events, and consumers
  subscribe. The broadcast channel is tokio's: of it the model has the number of receivers, which
  decides whether a send succeeds, and the results a receiver gets. Time stamps as text are
  arguments.
\<close>

section \<open>Events\<close>

datatype security_event_type =
    RateLimitExceeded | BlockedDomainQuery | UpstreamFailure | AclDenied | MalformedQuery | QueryTimeout

fun event_type_as_str :: "security_event_type \<Rightarrow> string" where
  "event_type_as_str RateLimitExceeded = ''rate_limit_exceeded''"
| "event_type_as_str BlockedDomainQuery = ''blocked_domain_query''"
| "event_type_as_str UpstreamFailure = ''upstream_failure''"
| "event_type_as_str AclDenied = ''acl_denied''"
| "event_type_as_str MalformedQuery = ''malformed_query''"
| "event_type_as_str QueryTimeout = ''query_timeout''"

definition event_type_parse :: "string \<Rightarrow> security_event_type option" where
  "event_type_parse s =
     (if s = ''rate_limit_exceeded'' then Some RateLimitExceeded
      else if s = ''blocked_domain_query'' then Some BlockedDomainQuery
      else if s = ''upstream_failure'' then Some UpstreamFailure
      else if s = ''acl_denied'' then Some AclDenied
      else if s = ''malformed_query'' then Some MalformedQuery
      else if s = ''query_timeout'' then Some QueryTimeout
      else None)"

record query_log_entry =
  ql_timestamp :: string
  ql_query_id :: u16
  ql_client_ip :: "ip_addr option"
  ql_protocol :: string
  ql_qname :: string
  ql_qtype :: string
  ql_qclass :: string
  ql_rcode :: "string option"
  ql_answer_count :: "nat option"
  ql_response_time_ms :: "u64 option"
  ql_response_time_us :: "u64 option"
  ql_cached :: "bool option"
  ql_upstream :: "string option"
  ql_answers :: "string list option"

definition log_entry_new :: "string \<Rightarrow> u16 \<Rightarrow> string \<Rightarrow> string \<Rightarrow> string \<Rightarrow> string \<Rightarrow> query_log_entry" where
  "log_entry_new ts qid protocol qn qt qc =
     \<lparr>ql_timestamp = ts, ql_query_id = qid, ql_client_ip = None, ql_protocol = protocol, ql_qname = qn,
      ql_qtype = qt, ql_qclass = qc, ql_rcode = None, ql_answer_count = None, ql_response_time_ms = None,
      ql_response_time_us = None, ql_cached = None, ql_upstream = None, ql_answers = None\<rparr>"

definition with_response :: "string \<Rightarrow> nat \<Rightarrow> u64 \<Rightarrow> query_log_entry \<Rightarrow> query_log_entry" where
  "with_response rcode n ms e = e\<lparr>ql_rcode := Some rcode, ql_answer_count := Some n, ql_response_time_ms := Some ms\<rparr>"

definition opt_part :: "('a \<Rightarrow> string) \<Rightarrow> 'a option \<Rightarrow> string list" where
  "opt_part f x = (case x of Some a \<Rightarrow> [f a] | None \<Rightarrow> [])"

definition log_entry_to_text :: "query_log_entry \<Rightarrow> string" where
  "log_entry_to_text e =
     join_with (CHR '' '')
       ([ql_timestamp e, ''id='' @ show_nat (unat (ql_query_id e))]
        @ opt_part (\<lambda>ip. ''client='' @ ip_to_string ip) (ql_client_ip e)
        @ [''proto='' @ ql_protocol e, ''qname='' @ ql_qname e, ''qtype='' @ ql_qtype e]
        @ opt_part (\<lambda>r. ''rcode='' @ r) (ql_rcode e)
        @ opt_part (\<lambda>n. ''answers='' @ show_nat n) (ql_answer_count e)
        @ [case ql_response_time_ms e of Some ms \<Rightarrow> ''time='' @ show_nat (unat ms) @ ''ms'' | None \<Rightarrow> ''time=-'']
        @ opt_part (\<lambda>b. ''cached='' @ show_bool b) (ql_cached e))"

record security_event =
  sv_timestamp :: string
  sv_event_type :: security_event_type
  sv_message :: string
  sv_client_ip :: "ip_addr option"
  sv_qname :: "string option"

datatype audit_event = Query query_log_entry | Security security_event

definition security_with_client :: "string \<Rightarrow> security_event_type \<Rightarrow> string \<Rightarrow> ip_addr option \<Rightarrow> string option \<Rightarrow> audit_event" where
  "security_with_client ts ty msg ip qn =
     Security \<lparr>sv_timestamp = ts, sv_event_type = ty, sv_message = msg, sv_client_ip = ip, sv_qname = qn\<rparr>"

text \<open>The text of a security event, over the quoting of strings.\<close>

definition security_to_json :: "(string \<Rightarrow> string) \<Rightarrow> security_event \<Rightarrow> string" where
  "security_to_json quote e =
     (let field = (\<lambda>name v. quote name @ '':'' @ quote v @ '','') in
      ''{'' @ field ''timestamp'' (sv_timestamp e) @ field ''event_type'' (event_type_as_str (sv_event_type e))
      @ field ''message'' (sv_message e)
      @ concat (opt_part (\<lambda>ip. field ''client_ip'' (ip_to_string ip)) (sv_client_ip e))
      @ concat (opt_part (field ''qname'') (sv_qname e))
      @ quote ''type'' @ '':'' @ quote ''security'' @ ''}'')"

section \<open>The bus\<close>

record bus_stats =
  bs_published :: u64
  bs_dropped :: u64
  bs_active :: nat
  bs_peak :: nat

record event_bus =
  eb_query_receivers :: nat
  eb_security_receivers :: nat
  eb_stats :: bus_stats
  eb_capacity :: nat

text \<open>\<^verbatim>\<open>broadcast::channel(0)\<close> panics.\<close>

definition bus_with_capacity :: "nat \<Rightarrow> event_bus option" where
  "bus_with_capacity capacity =
     (if capacity = 0 then None
      else Some \<lparr>eb_query_receivers = 0, eb_security_receivers = 0,
        eb_stats = \<lparr>bs_published = 0, bs_dropped = 0, bs_active = 0, bs_peak = 0\<rparr>, eb_capacity = capacity\<rparr>)"

definition published :: "event_bus \<Rightarrow> event_bus" where
  "published b = b\<lparr>eb_stats := (eb_stats b)\<lparr>bs_published := bs_published (eb_stats b) + 1\<rparr>\<rparr>"

definition publish_query :: "event_bus \<Rightarrow> nat \<times> event_bus" where
  "publish_query b = (if eb_query_receivers b > 0 then (eb_query_receivers b, published b) else (0, b))"

definition publish_security :: "event_bus \<Rightarrow> nat \<times> event_bus" where
  "publish_security b = (if eb_security_receivers b > 0 then (eb_security_receivers b, published b) else (0, b))"

text \<open>The global bus may not be there.\<close>

definition global_publish :: "(event_bus \<Rightarrow> nat \<times> event_bus) \<Rightarrow> event_bus option \<Rightarrow> nat \<times> event_bus option" where
  "global_publish pub b = (case b of Some b \<Rightarrow> (case pub b of (n, b) \<Rightarrow> (n, Some b)) | None \<Rightarrow> (0, None))"

text \<open>What a receiver gets from the channel, and the loop of \<^verbatim>\<open>recv\<close>, which skips the notices of lost
  events but counts them. \<open>None\<close>: it still waits.\<close>

datatype 'e received = Received 'e | Lagged u64 | ChannelClosed

fun subscriber_recv :: "'e received list \<Rightarrow> u64 \<Rightarrow> 'e option option \<times> 'e received list \<times> u64" where
  "subscriber_recv [] d = (None, [], d)"
| "subscriber_recv (Received e # rs) d = (Some (Some e), rs, d)"
| "subscriber_recv (Lagged n # rs) d = subscriber_recv rs (d + n)"
| "subscriber_recv (ChannelClosed # rs) d = (Some None, rs, d)"

text \<open>\<^verbatim>\<open>try_recv\<close>: an empty channel is no event either.\<close>

fun subscriber_try_recv :: "'e received list \<Rightarrow> u64 \<Rightarrow> 'e option \<times> 'e received list \<times> u64" where
  "subscriber_try_recv [] d = (None, [], d)"
| "subscriber_try_recv (Received e # rs) d = (Some e, rs, d)"
| "subscriber_try_recv (Lagged n # rs) d = subscriber_try_recv rs (d + n)"
| "subscriber_try_recv (ChannelClosed # rs) d = (None, rs, d)"

lemma subscriber_recv_shorter: "subscriber_recv rs d = (Some e, rs', d') \<Longrightarrow> length rs' < length rs"
  by (induction rs d rule: subscriber_recv.induct) auto

text \<open>The loop of a consumer: it handles events until the channel closes, or for ever.\<close>

function consume :: "('e \<Rightarrow> 's \<Rightarrow> 's) \<Rightarrow> 'e received list \<Rightarrow> u64 \<Rightarrow> 's \<Rightarrow> 's \<times> u64" where
  "consume f rs d s =
     (case subscriber_recv rs d of
        (Some (Some e), rs', d') \<Rightarrow> consume f rs' d' (f e s)
      | (Some None, rs', d') \<Rightarrow> (s, d')
      | (None, rs', d') \<Rightarrow> (s, d'))"
  by pat_completeness auto

termination consume
  by (relation "measure (\<lambda>(f, rs, d, s). length rs)") (auto dest: subscriber_recv_shorter [OF sym])

declare consume.simps [simp del]

section \<open>Subscribing\<close>

text \<open>
  Subscribing counts the subscriber, reads the peak and writes it when it is lower; these are three
  atomic operations, between which other subscribers act. The state keeps the subscribers between
  their first and second and between their second and third operation.
\<close>

record subscribing =
  sg_active :: nat
  sg_peak :: nat
  sg_counted :: "nat list"
  sg_read :: "(nat \<times> nat) list"

definition subscribing_init :: subscribing where
  "subscribing_init = \<lparr>sg_active = 0, sg_peak = 0, sg_counted = [], sg_read = []\<rparr>"

definition count_subscriber :: "subscribing \<Rightarrow> subscribing" where
  "count_subscriber s = s\<lparr>sg_active := sg_active s + 1, sg_counted := (sg_active s + 1) # sg_counted s\<rparr>"

definition load_peak :: "nat \<Rightarrow> subscribing \<Rightarrow> subscribing" where
  "load_peak c s = s\<lparr>sg_counted := remove1 c (sg_counted s), sg_read := (c, sg_peak s) # sg_read s\<rparr>"

definition store_peak :: "nat \<times> nat \<Rightarrow> subscribing \<Rightarrow> subscribing" where
  "store_peak r s = s\<lparr>sg_read := remove1 r (sg_read s), sg_peak := (if fst r > snd r then fst r else sg_peak s)\<rparr>"

definition drop_subscriber :: "subscribing \<Rightarrow> subscribing" where
  "drop_subscriber s = s\<lparr>sg_active := sg_active s - 1\<rparr>"

inductive subscribe_step :: "subscribing \<Rightarrow> subscribing \<Rightarrow> bool" where
  counting: "subscribe_step s (count_subscriber s)"
| loading: "c \<in> set (sg_counted s) \<Longrightarrow> subscribe_step s (load_peak c s)"
| storing: "r \<in> set (sg_read s) \<Longrightarrow> subscribe_step s (store_peak r s)"
| dropping: "sg_active s > 0 \<Longrightarrow> subscribe_step s (drop_subscriber s)"

section \<open>The logger\<close>

record audit_logger =
  al_enabled :: "security_event_type list"
  al_queries_logged :: u64
  al_queries_sampled_out :: u64
  al_security_events_logged :: u64

definition audit_logger_new :: audit_logger where
  "audit_logger_new = \<lparr>al_enabled = [], al_queries_logged = 0, al_queries_sampled_out = 0, al_security_events_logged = 0\<rparr>"

definition log_query :: "audit_logger \<Rightarrow> event_bus option \<Rightarrow> audit_logger \<times> event_bus option" where
  "log_query l b =
     (case global_publish publish_query b of (n, b) \<Rightarrow>
        (if n > 0 then l\<lparr>al_queries_logged := al_queries_logged l + 1\<rparr> else l, b))"

definition log_security :: "audit_event \<Rightarrow> audit_logger \<Rightarrow> event_bus option \<Rightarrow> audit_logger \<times> event_bus option" where
  "log_security ev l b =
     (if (case ev of Security e \<Rightarrow> al_enabled l \<noteq> [] \<and> sv_event_type e \<notin> set (al_enabled l) | Query _ \<Rightarrow> False)
      then (l, b)
      else case global_publish publish_security b of (n, b) \<Rightarrow>
        (if n > 0 then l\<lparr>al_security_events_logged := al_security_events_logged l + 1\<rparr> else l, b))"

section \<open>The log of a query\<close>

definition is_dns_sd_query :: "string \<Rightarrow> bool" where
  "is_dns_sd_query qn = str_contains ''._dns-sd._udp'' qn"

text \<open>The derived \<^verbatim>\<open>Debug\<close> texts: names of the constructors.\<close>

definition unknown_debug :: "nat \<Rightarrow> string" where
  "unknown_debug n = ''Unknown('' @ show_nat n @ '')''"

definition record_type_debug :: "record_type \<Rightarrow> string" where
  "record_type_debug t = (case t of RT_Unknown n \<Rightarrow> unknown_debug (unat n) | _ \<Rightarrow> record_type_fmt t)"

fun record_class_debug :: "record_class \<Rightarrow> string" where
  "record_class_debug CL_IN = ''IN''"
| "record_class_debug CL_CH = ''CH''"
| "record_class_debug CL_HS = ''HS''"
| "record_class_debug (CL_Unknown n) = unknown_debug (unat n)"

definition address_text :: "resource_record \<Rightarrow> string option" where
  "address_text r = (case rr_rdata r of RD_A a \<Rightarrow> Some (v4_to_string a) | RD_AAAA a \<Rightarrow> Some (v6_to_string a) | _ \<Rightarrow> None)"

definition with_response_details :: "nat \<Rightarrow> ctx \<Rightarrow> message \<Rightarrow> query_log_entry \<Rightarrow> query_log_entry" where
  "with_response_details now c r e =
     (let us = (case metadata c ''request_start_time'' of Some (MInstant t) \<Rightarrow> of_nat ((now - t) div 1000) | _ \<Rightarrow> (0 :: u64));
          e = (with_response (response_code_debug (msg_rcode r)) (length (msg_answers r)) (us div 1000) e)
                \<lparr>ql_response_time_us := Some us,
                 ql_cached := Some (case get_bool ''response_from_cache'' c of Some b \<Rightarrow> b | None \<Rightarrow> False)\<rparr>;
          answers = List.map_filter address_text (msg_answers r)
      in if answers = [] then e else e\<lparr>ql_answers := Some answers\<rparr>)"

definition log_query_for_context :: "string \<Rightarrow> nat \<Rightarrow> ctx \<Rightarrow> query_log_entry option" where
  "log_query_for_context ts now c =
     (case msg_questions (request c) of
        [] \<Rightarrow> None
      | q # _ \<Rightarrow>
          if is_dns_sd_query (qname q) then None
          else
            let e = log_entry_new ts (msg_id (request c)) (case get_string ''protocol'' c of Some p \<Rightarrow> p | None \<Rightarrow> ''unknown'')
                      (qname q) (record_type_debug (qtype q)) (record_class_debug (qclass q));
                e = (case get_ip ''client_ip'' c of Some ip \<Rightarrow> e\<lparr>ql_client_ip := Some ip\<rparr> | None \<Rightarrow> e)
            in Some (case response c of Some r \<Rightarrow> with_response_details now c r e | None \<Rightarrow> e))"

section \<open>Facts\<close>

lemma event_type_roundtrip: "event_type_parse (event_type_as_str t) = Some t"
  by (cases t) (simp_all add: event_type_parse_def)

lemma event_type_parse_Some: "event_type_parse s = Some t \<longleftrightarrow> s = event_type_as_str t"
  by (cases t) (auto simp: event_type_parse_def)

text \<open>The events before the channel closes, and the notices of lost ones.\<close>

definition open_part :: "'e received list \<Rightarrow> 'e received list" where
  "open_part rs = takeWhile (\<lambda>r. case r of ChannelClosed \<Rightarrow> False | _ \<Rightarrow> True) rs"

definition received_events :: "'e received list \<Rightarrow> 'e list" where
  "received_events rs = List.map_filter (\<lambda>r. case r of Received e \<Rightarrow> Some e | _ \<Rightarrow> None) (open_part rs)"

definition lost_events :: "'e received list \<Rightarrow> u64" where
  "lost_events rs = sum_list (List.map_filter (\<lambda>r. case r of Lagged n \<Rightarrow> Some n | _ \<Rightarrow> None) (open_part rs))"

lemma consume_eq: "consume f rs d s = (fold f (received_events rs) s, d + lost_events rs)"
proof (induction rs arbitrary: d s)
  case Nil
  show ?case by (simp add: consume.simps received_events_def lost_events_def open_part_def map_filter_def)
next
  case (Cons r rs)
  show ?case
  proof (cases r)
    case (Received e)
    then show ?thesis
      using Cons [of d "f e s"]
      by (subst consume.simps) (simp add: received_events_def lost_events_def open_part_def map_filter_def)
  next
    case (Lagged n)
    have "consume f (r # rs) d s = consume f rs (d + n) s"
      by (subst (1 2) consume.simps) (simp add: Lagged)
    then show ?thesis
      using Cons [of "d + n" s] Lagged
      by (simp add: received_events_def lost_events_def open_part_def map_filter_def add.assoc)
  next
    case ChannelClosed
    then show ?thesis
      by (subst consume.simps) (simp add: received_events_def lost_events_def open_part_def map_filter_def)
  qed
qed

text \<open>Two subscribers whose operations interleave: the first one overwrites the peak of the second.\<close>

lemma peak_undercounts:
  "subscribe_step\<^sup>*\<^sup>* subscribing_init \<lparr>sg_active = 2, sg_peak = 1, sg_counted = [], sg_read = []\<rparr>"
proof -
  let ?s = "\<lambda>a p c r. \<lparr>sg_active = a, sg_peak = p, sg_counted = c, sg_read = r\<rparr>"
  have "subscribe_step subscribing_init (?s 1 0 [1] [])"
    using counting [of subscribing_init] by (simp add: subscribing_init_def count_subscriber_def)
  also have "subscribe_step\<^sup>*\<^sup>* (?s 1 0 [1] []) (?s 2 0 [2, 1] [])"
    using counting [of "?s 1 0 [1] []"] by (simp add: count_subscriber_def r_into_rtranclp numeral_2_eq_2)
  also have "subscribe_step\<^sup>*\<^sup>* (?s 2 0 [2, 1] []) (?s 2 0 [1] [(2, 0)])"
    using loading [of 2 "?s 2 0 [2, 1] []"] by (simp add: load_peak_def r_into_rtranclp)
  also have "subscribe_step\<^sup>*\<^sup>* (?s 2 0 [1] [(2, 0)]) (?s 2 0 [] [(1, 0), (2, 0)])"
    using loading [of 1 "?s 2 0 [1] [(2, 0)]"] by (simp add: load_peak_def r_into_rtranclp)
  also have "subscribe_step\<^sup>*\<^sup>* (?s 2 0 [] [(1, 0), (2, 0)]) (?s 2 2 [] [(1, 0)])"
    using storing [of "(2, 0)" "?s 2 0 [] [(1, 0), (2, 0)]"] by (simp add: store_peak_def r_into_rtranclp)
  also have "subscribe_step\<^sup>*\<^sup>* (?s 2 2 [] [(1, 0)]) (?s 2 1 [] [])"
    using storing [of "(1, 0)" "?s 2 2 [] [(1, 0)]"] by (simp add: store_peak_def r_into_rtranclp)
  finally show ?thesis .
qed

lemma debug_code_not_upper: "response_code_debug c \<noteq> ''NOERROR'' \<and> response_code_debug c \<noteq> ''NXDOMAIN''"
  by (cases c) simp_all

lemma logged_rcode:
  "log_query_for_context ts now c = Some e \<Longrightarrow> response c = Some r \<Longrightarrow> ql_rcode e = Some (response_code_debug (msg_rcode r))"
  by (auto simp: log_query_for_context_def with_response_details_def with_response_def Let_def
      split: list.splits if_splits option.splits)

lemma logged_without_response:
  "log_query_for_context ts now c = Some e \<Longrightarrow> response c = None \<Longrightarrow> ql_rcode e = None \<and> ql_cached e = None"
  by (auto simp: log_query_for_context_def log_entry_new_def Let_def split: list.splits if_splits option.splits)

end
