(* ===== verification/Top_N.thy ===== *)
theory Top_N
  imports Prelude "HOL-Library.Multiset"
begin

text \<open>
  \<^verbatim>\<open>src/src/web/metrics/top_n.rs\<close>: counters for the most frequent keys. The hash map is a list with one
  pair per key; the order of the list stands for the order of iteration, and so for the order in
  which the unstable sort leaves equal counts. Instants are natural numbers of nanoseconds.
\<close>

section \<open>The tracker\<close>

record timestamped_count =
  tc_count :: u64
  tc_first_seen :: nat
  tc_last_updated :: nat

record 'k top_n =
  tn_n :: nat
  tn_counts :: "('k \<times> timestamped_count) list"
  tn_max_items :: nat

definition topn_with_max_items :: "nat \<Rightarrow> nat \<Rightarrow> 'k top_n" where
  "topn_with_max_items n mx = \<lparr>tn_n = n, tn_counts = [], tn_max_items = mx\<rparr>"

definition topn_new :: "nat \<Rightarrow> 'k top_n" where
  "topn_new n = topn_with_max_items n (n * 10)"

definition descending :: "('a \<Rightarrow> u64) \<Rightarrow> 'a list \<Rightarrow> 'a list" where
  "descending f xs = sort_key (\<lambda>x. - uint (f x)) xs"

definition prune_locked :: "nat \<Rightarrow> ('k \<times> timestamped_count) list \<Rightarrow> ('k \<times> timestamped_count) list" where
  "prune_locked n counts =
     (if length counts \<le> n * 2 then counts
      else let vs = descending id (map (tc_count \<circ> snd) counts) in
           if n * 2 < length vs then filter (\<lambda>(k, c). tc_count c > vs ! (n * 2)) counts else counts)"

definition topn_prune :: "'k top_n \<Rightarrow> 'k top_n" where
  "topn_prune t =
     (if length (tn_counts t) > tn_max_items t then t\<lparr>tn_counts := prune_locked (tn_n t) (tn_counts t)\<rparr> else t)"

definition topn_add :: "nat \<Rightarrow> 'k \<Rightarrow> u64 \<Rightarrow> 'k top_n \<Rightarrow> 'k top_n" where
  "topn_add now key c t =
     topn_prune (t\<lparr>tn_counts := entry_or_insert key
       (\<lambda>e. e\<lparr>tc_count := tc_count e + c, tc_last_updated := now\<rparr>)
       \<lparr>tc_count = c, tc_first_seen = now, tc_last_updated = now\<rparr> (tn_counts t)\<rparr>)"

definition topn_increment :: "nat \<Rightarrow> 'k \<Rightarrow> 'k top_n \<Rightarrow> 'k top_n" where
  "topn_increment now key = topn_add now key 1"

definition topn_merge :: "'k top_n \<Rightarrow> 'k top_n \<Rightarrow> 'k top_n" where
  "topn_merge other t =
     topn_prune (t\<lparr>tn_counts := fold (\<lambda>(k, e). entry_or_insert k (\<lambda>x. x\<lparr>tc_count := tc_count x + tc_count e\<rparr>) e)
       (tn_counts other) (tn_counts t)\<rparr>)"

definition topn_top :: "'k top_n \<Rightarrow> ('k \<times> u64) list" where
  "topn_top t = take (tn_n t) (descending snd (map (\<lambda>(k, e). (k, tc_count e)) (tn_counts t)))"

definition topn_top_within :: "nat \<Rightarrow> nat \<Rightarrow> 'k top_n \<Rightarrow> ('k \<times> u64) list" where
  "topn_top_within now window_secs t =
     take (tn_n t) (descending snd (map (\<lambda>(k, e). (k, tc_count e))
       (filter (\<lambda>(k, e). now - tc_last_updated e \<le> window_secs * 1000000000) (tn_counts t))))"

definition topn_get :: "'k \<Rightarrow> 'k top_n \<Rightarrow> u64" where
  "topn_get key t = (case map_of (tn_counts t) key of Some e \<Rightarrow> tc_count e | None \<Rightarrow> 0)"

definition topn_total :: "'k top_n \<Rightarrow> u64" where
  "topn_total t = sum_list (map (tc_count \<circ> snd) (tn_counts t))"

definition topn_len :: "'k top_n \<Rightarrow> nat" where
  "topn_len t = length (tn_counts t)"

definition topn_clear :: "'k top_n \<Rightarrow> 'k top_n" where
  "topn_clear t = t\<lparr>tn_counts := []\<rparr>"

record 'k topn_entry =
  te_rank :: nat
  te_key :: 'k
  te_count :: u64

definition ranked_entries :: "('k \<times> u64) list \<Rightarrow> 'k topn_entry list" where
  "ranked_entries xs = map (\<lambda>(i, k, c). \<lparr>te_rank = i + 1, te_key = k, te_count = c\<rparr>) (enumerate 0 xs)"

definition topn_top_entries :: "'k top_n \<Rightarrow> 'k topn_entry list" where
  "topn_top_entries t = ranked_entries (topn_top t)"

definition topn_top_entries_within :: "nat \<Rightarrow> nat \<Rightarrow> 'k top_n \<Rightarrow> 'k topn_entry list" where
  "topn_top_entries_within now window_secs t = ranked_entries (topn_top_within now window_secs t)"

section \<open>Pruning\<close>

lemma mset_descending [simp]: "mset (descending f xs) = mset xs"
  by (simp add: descending_def)

lemma length_descending [simp]: "length (descending f xs) = length xs"
  by (simp add: descending_def)

lemma set_descending [simp]: "set (descending f xs) = set xs"
  by (simp add: descending_def)

lemma descending_nth: "i \<le> j \<Longrightarrow> j < length xs \<Longrightarrow> f (descending f xs ! j) \<le> f (descending f xs ! i)"
  using sorted_nth_mono [of "map (\<lambda>x. - uint (f x)) (descending f xs)" i j]
  by (simp add: descending_def word_le_def)

text \<open>At most \<open>k\<close> values are greater than the value at position \<open>k\<close>.\<close>

lemma few_above_threshold:
  assumes "k < length vs"
  shows "length (filter (\<lambda>v. v > descending id vs ! k) vs) \<le> k"
proof -
  let ?ds = "descending id vs"
  have "length (filter (\<lambda>v. v > ?ds ! k) vs) = length (filter (\<lambda>v. v > ?ds ! k) ?ds)"
    by (metis mset_descending mset_filter size_mset)
  also have "filter (\<lambda>v. v > ?ds ! k) (drop k ?ds) = []"
  proof -
    have "\<not> ?ds ! k < drop k ?ds ! i" if "i < length (drop k ?ds)" for i
      using that descending_nth [of k "k + i" vs id] by (simp add: not_less)
    then show ?thesis by (metis (no_types, lifting) filter_False in_set_conv_nth)
  qed
  then have "length (filter (\<lambda>v. v > ?ds ! k) ?ds) = length (filter (\<lambda>v. v > ?ds ! k) (take k ?ds))"
    by (metis append_Nil2 append_take_drop_id filter_append)
  also have "\<dots> \<le> length (take k ?ds)" by (rule length_filter_le)
  also have "\<dots> \<le> k" by simp
  finally show ?thesis .
qed

lemma length_prune_locked: "length (prune_locked n counts) \<le> n * 2 \<or> prune_locked n counts = counts \<and> length counts \<le> n * 2"
proof (cases "length counts \<le> n * 2")
  case False
  have "length (filter (\<lambda>(k, c). tc_count c > v) counts) = length (filter (\<lambda>x. x > v) (map (tc_count \<circ> snd) counts))" for v
    by (simp add: filter_map o_def case_prod_unfold)
  with False few_above_threshold [of "n * 2" "map (tc_count \<circ> snd) counts"] show ?thesis
    by (simp add: prune_locked_def Let_def)
qed (simp add: prune_locked_def)


lemma prune_locked_filter: "\<exists>P. prune_locked n counts = filter P counts"
proof (cases "length counts \<le> n * 2")
  case True
  then show ?thesis by (intro exI [of _ "\<lambda>_. True"]) (simp add: prune_locked_def)
next
  case False
  then show ?thesis by (auto simp: prune_locked_def Let_def)
qed

definition topn_inv :: "'k top_n \<Rightarrow> bool" where
  "topn_inv t \<longleftrightarrow> distinct (map fst (tn_counts t)) \<and> length (tn_counts t) \<le> tn_max_items t \<and> tn_n t * 2 \<le> tn_max_items t"

lemma topn_inv_prune:
  assumes "distinct (map fst (tn_counts t))" "tn_n t * 2 \<le> tn_max_items t"
  shows "topn_inv (topn_prune t)"
proof (cases "length (tn_counts t) > tn_max_items t")
  case True
  obtain P where P: "prune_locked (tn_n t) (tn_counts t) = filter P (tn_counts t)"
    using prune_locked_filter by blast
  have "length (prune_locked (tn_n t) (tn_counts t)) \<le> tn_max_items t"
    using length_prune_locked [of "tn_n t" "tn_counts t"] assms(2) by auto
  then show ?thesis using True assms P distinct_map_filter by (auto simp: topn_prune_def topn_inv_def)
qed (use assms in \<open>simp add: topn_prune_def topn_inv_def\<close>)

lemma topn_inv_add: "topn_inv t \<Longrightarrow> topn_inv (topn_add now k c t)"
  unfolding topn_add_def by (rule topn_inv_prune) (simp_all add: topn_inv_def distinct_entry)

lemma distinct_merge:
  "distinct (map fst m) \<Longrightarrow> distinct (map fst (fold (\<lambda>(k, e). entry_or_insert k (g e) (h e)) xs m))"
  by (induction xs arbitrary: m) (auto simp: distinct_entry)

lemma topn_inv_merge: "topn_inv t \<Longrightarrow> topn_inv (topn_merge other t)"
  unfolding topn_merge_def by (rule topn_inv_prune) (simp_all add: topn_inv_def distinct_merge)

lemma topn_inv_clear: "topn_inv t \<Longrightarrow> topn_inv (topn_clear t)"
  by (simp add: topn_inv_def topn_clear_def)

lemma topn_inv_new: "topn_inv (topn_new n)"
  by (simp add: topn_inv_def topn_new_def topn_with_max_items_def)

section \<open>The top keys\<close>

lemma topn_top_sorted: "sorted (map (\<lambda>x. - uint (snd x)) (topn_top t))"
  unfolding topn_top_def descending_def by (simp add: sorted_wrt_take take_map [symmetric])

text \<open>
  In every state that adding, merging and clearing can reach, the list of top keys has distinct
  keys with their counts, at most as many as asked for, the greatest first, and no tracked
  key outside the list has a greater count than one inside.
\<close>

theorem top_keys_are_maximal:
  assumes "topn_inv t"
  shows "length (topn_top t) \<le> tn_n t \<and> distinct (map fst (topn_top t)) \<and>
    (\<forall>(k, c) \<in> set (topn_top t). topn_get k t = c) \<and>
    (\<forall>(k, c) \<in> set (topn_top t). \<forall>j. j \<in> fst ` set (tn_counts t) \<and> j \<notin> fst ` set (topn_top t) \<longrightarrow> topn_get j t \<le> c)"
proof (intro conjI)
  let ?items = "map (\<lambda>(k, e). (k, tc_count e)) (tn_counts t)"
  let ?ds = "descending snd ?items"
  have fst_items: "map fst ?items = map fst (tn_counts t)" by (simp add: case_prod_unfold)
  have d: "distinct (map fst (tn_counts t))" using assms by (simp add: topn_inv_def)
  have "mset (map fst ?ds) = mset (map fst ?items)" by (simp only: mset_map mset_descending)
  then have dd: "distinct (map fst ?ds)" using d fst_items mset_eq_imp_distinct_iff by metis
  have get: "topn_get k t = c" if "(k, c) \<in> set ?ds" for k c
    using that d by (auto simp: topn_get_def)
  show "length (topn_top t) \<le> tn_n t" by (simp add: topn_top_def)
  show "distinct (map fst (topn_top t))"
    unfolding topn_top_def take_map [symmetric] using dd by (rule distinct_take)
  show "\<forall>(k, c) \<in> set (topn_top t). topn_get k t = c"
    using get by (auto simp: topn_top_def dest: in_set_takeD)
  show "\<forall>(k, c) \<in> set (topn_top t). \<forall>j. j \<in> fst ` set (tn_counts t) \<and> j \<notin> fst ` set (topn_top t) \<longrightarrow> topn_get j t \<le> c"
  proof clarify
    fix k c j e assume a: "(k, c) \<in> set (topn_top t)" "fst (j, e) \<notin> fst ` set (topn_top t)" "(j, e) \<in> set (tn_counts t)"
    have "(j, tc_count e) \<in> set ?ds" using a(3) by force
    then obtain y where y: "y < length ?ds" "?ds ! y = (j, tc_count e)" unfolding in_set_conv_nth by blast
    obtain x where x: "x < tn_n t" "x < length ?ds" "?ds ! x = (k, c)"
      using a(1) by (auto simp: topn_top_def in_set_conv_nth)
    have "\<not> y < tn_n t"
    proof
      assume "y < tn_n t"
      then have "(j, tc_count e) \<in> set (topn_top t)"
        using y unfolding topn_top_def in_set_conv_nth by (intro exI [of _ y]) simp
      with a(2) show False by (metis fst_conv imageI)
    qed
    then have "snd (?ds ! y) \<le> snd (?ds ! x)" using x y by (intro descending_nth) auto
    then show "topn_get (fst (j, e)) t \<le> c" using x y get [of j "tc_count e"] \<open>(j, tc_count e) \<in> set ?ds\<close> by simp
  qed
qed

definition demo_topn :: "nat top_n" where
  "demo_topn = fold (topn_increment 0) [7, 8, 7, 9] (topn_new 1)"

lemma fold_n: "tn_n (fold (topn_increment now) ks t) = tn_n t"
  by (induction ks arbitrary: t) (simp_all add: topn_increment_def topn_add_def topn_prune_def)

lemma topn_inv_fold: "topn_inv t \<Longrightarrow> topn_inv (fold (topn_increment now) ks t)"
  by (induction ks arbitrary: t) (simp_all add: topn_increment_def topn_inv_add)

theorem top_keys_are_maximal_witness:
  "topn_top demo_topn = [(7, 2)] \<and> topn_get 9 demo_topn \<le> 2"
proof -
  have inv: "topn_inv demo_topn" unfolding demo_topn_def by (rule topn_inv_fold [OF topn_inv_new])
  have "topn_top demo_topn = [(7, 2)]" "9 \<in> fst ` set (tn_counts demo_topn)" by code_simp+
  then show ?thesis using top_keys_are_maximal [OF inv] by auto
qed

section \<open>Exact until it prunes\<close>

lemma increment_without_pruning:
  assumes "card (insert k (fst ` set (tn_counts t))) \<le> tn_max_items t" "distinct (map fst (tn_counts t))"
  shows "topn_get j (topn_increment now k t) = topn_get j t + (if j = k then 1 else 0)"
    and "fst ` set (tn_counts (topn_increment now k t)) = insert k (fst ` set (tn_counts t))"
    and "tn_max_items (topn_increment now k t) = tn_max_items t"
proof -
  let ?m = "entry_or_insert k (\<lambda>e. e\<lparr>tc_count := tc_count e + 1, tc_last_updated := now\<rparr>)
       \<lparr>tc_count = 1, tc_first_seen = now, tc_last_updated = now\<rparr> (tn_counts t)"
  have keys: "fst ` set ?m = insert k (fst ` set (tn_counts t))"
    by simp
  have "length ?m = card (fst ` set ?m)"
    using distinct_card [OF distinct_entry [OF assms(2)]] by (metis length_map set_map)
  then have np: "\<not> length ?m > tn_max_items t" using assms(1) keys by simp
  show "topn_get j (topn_increment now k t) = topn_get j t + (if j = k then 1 else 0)"
    using np by (auto simp: topn_increment_def topn_add_def topn_prune_def topn_get_def map_of_entry split: option.splits)
  show "fst ` set (tn_counts (topn_increment now k t)) = insert k (fst ` set (tn_counts t))"
    using np keys by (simp add: topn_increment_def topn_add_def topn_prune_def)
  show "tn_max_items (topn_increment now k t) = tn_max_items t"
    using np by (simp add: topn_increment_def topn_add_def topn_prune_def)
qed

lemma increments_exact:
  assumes "topn_inv t" "card (set ks \<union> fst ` set (tn_counts t)) \<le> tn_max_items t"
  shows "topn_get j (fold (topn_increment now) ks t) = topn_get j t + of_nat (count_list ks j)"
  using assms
proof (induction ks arbitrary: t)
  case (Cons k ks)
  have d: "distinct (map fst (tn_counts t))" using Cons.prems(1) by (simp add: topn_inv_def)
  have "card (insert k (fst ` set (tn_counts t))) \<le> card (set (k # ks) \<union> fst ` set (tn_counts t))"
    by (intro card_mono) auto
  then have c: "card (insert k (fst ` set (tn_counts t))) \<le> tn_max_items t" using Cons.prems(2) by simp
  note i = increment_without_pruning [OF c d]
  have "topn_inv (topn_increment now k t)" using Cons.prems(1) by (simp add: topn_increment_def topn_inv_add)
  moreover have "card (set ks \<union> fst ` set (tn_counts (topn_increment now k t))) \<le> tn_max_items (topn_increment now k t)"
    using Cons.prems(2) by (simp add: i)
  ultimately show ?case using Cons.IH by (simp add: i add.assoc)
qed simp

lemma increments_keys:
  assumes "topn_inv t" "card (set ks \<union> fst ` set (tn_counts t)) \<le> tn_max_items t"
  shows "fst ` set (tn_counts (fold (topn_increment now) ks t)) = set ks \<union> fst ` set (tn_counts t) \<and>
    tn_max_items (fold (topn_increment now) ks t) = tn_max_items t"
  using assms
proof (induction ks arbitrary: t)
  case (Cons k ks)
  have d: "distinct (map fst (tn_counts t))" using Cons.prems(1) by (simp add: topn_inv_def)
  have "card (insert k (fst ` set (tn_counts t))) \<le> card (set (k # ks) \<union> fst ` set (tn_counts t))"
    by (intro card_mono) auto
  then have c: "card (insert k (fst ` set (tn_counts t))) \<le> tn_max_items t" using Cons.prems(2) by simp
  note i = increment_without_pruning [OF c d]
  have "topn_inv (topn_increment now k t)" using Cons.prems(1) by (simp add: topn_increment_def topn_inv_add)
  with Cons.IH [of "topn_increment now k t"] Cons.prems(2) show ?case by (simp add: i)
qed simp

text \<open>
  As long as no more distinct keys were counted than the tracker keeps (ten times the number of
  top keys), the count of every key is the number of its occurrences.
\<close>

theorem topn_counts_exactly:
  assumes "card (set ks) \<le> 10 * n"
  shows "topn_get k (fold (topn_increment now) ks (topn_new n)) = of_nat (count_list ks k)"
  using increments_exact [OF topn_inv_new, of ks n k now] assms
  by (simp add: topn_new_def topn_with_max_items_def topn_get_def)

theorem topn_counts_exactly_witness:
  "topn_get 7 (fold (topn_increment 0) [7, 8, 7] (topn_new 1 :: nat top_n)) = of_nat (count_list [7, 8, 7] (7 :: nat))"
  by (rule topn_counts_exactly, rule le_trans [OF card_length]) simp

lemma count_list_once: "distinct xs \<Longrightarrow> x \<in> set xs \<Longrightarrow> count_list xs x = 1"
  by (induction xs) (auto simp: count_list_0_iff)

text \<open>The threshold is the count at position \<open>2n\<close>, and keys that only reach it are dropped: when
  all counts are equal, all of them go.\<close>

lemma prune_equal_counts:
  assumes "\<forall>(k, e) \<in> set counts. tc_count e = c" "length counts > n * 2"
  shows "prune_locked n counts = []"
proof -
  let ?vs = "descending id (map (tc_count \<circ> snd) counts)"
  have "?vs ! (n * 2) \<in> set ?vs" using assms(2) by (intro nth_mem) simp
  then have "?vs ! (n * 2) = c" using assms(1) by auto
  then show ?thesis using assms by (auto simp: prune_locked_def Let_def filter_empty_conv)
qed

text \<open>
  Pruning can lose everything. When one key more than the tracker keeps was counted, each of
  them once, nothing is tracked any more and the list of top keys is empty.
\<close>

theorem topn_forgets_distinct_keys:
  assumes "distinct (k # ks)" "length ks = 10 * n" "n > 0"
  shows "tn_counts (fold (topn_increment now) (ks @ [k]) (topn_new n)) = []"
proof -
  let ?t = "fold (topn_increment now) ks (topn_new n)"
  have new: "tn_counts (topn_new n :: 'a top_n) = []" "tn_max_items (topn_new n :: 'a top_n) = 10 * n" "tn_n (topn_new n :: 'a top_n) = n"
    by (simp_all add: topn_new_def topn_with_max_items_def)
  have card: "card (set ks \<union> fst ` set (tn_counts (topn_new n :: 'a top_n))) \<le> tn_max_items (topn_new n :: 'a top_n)"
    using assms(1,2) by (simp add: new distinct_card)
  note keys = increments_keys [OF topn_inv_new card, of now]
  have one: "topn_get j ?t = 1" if "j \<in> set ks" for j
    using increments_exact [OF topn_inv_new card, of j now] that assms(1)
    by (simp add: topn_get_def new count_list_once)
  define m where "m = entry_or_insert k (\<lambda>e. e\<lparr>tc_count := tc_count e + 1, tc_last_updated := now\<rparr>)
       \<lparr>tc_count = 1, tc_first_seen = now, tc_last_updated = now\<rparr> (tn_counts ?t)"
  have d: "distinct (map fst (tn_counts ?t))" using topn_inv_fold [OF topn_inv_new, of now ks n] by (simp only: topn_inv_def)
  have k: "k \<notin> fst ` set (tn_counts ?t)" using assms(1) keys by (simp add: new)
  have "tc_count e = 1" if "(j, e) \<in> set m" for j e
  proof -
    have "map_of m j = Some e" using that distinct_entry [OF d] unfolding m_def by (intro map_of_is_SomeI)
    then consider "j = k" "tc_count e = 1" | "map_of (tn_counts ?t) j = Some e"
      using k unfolding m_def map_of_entry by (auto simp: map_of_eq_None_iff [THEN iffD2] split: if_splits)
    then show ?thesis
    proof cases
      case 2
      then have "j \<in> set ks" using keys map_of_SomeD [OF 2] by (auto simp: new rev_image_eqI)
      with one [of j] 2 show ?thesis by (simp add: topn_get_def)
    qed
  qed
  moreover have len: "length m = 10 * n + 1"
  proof -
    have "length (tn_counts ?t) = card (set ks)"
      using distinct_card [OF d] keys by (simp add: new)
    then show ?thesis using k assms(1,2) by (simp add: m_def length_entry distinct_card)
  qed
  ultimately have "prune_locked n m = []" using assms(3) by (intro prune_equal_counts [where c = 1]) auto
  moreover have "tn_n ?t = n" using fold_n [of now ks "topn_new n"] by (simp add: new)
  ultimately show ?thesis
    using keys len by (simp add: topn_increment_def topn_add_def topn_prune_def new m_def [symmetric])
qed

theorem topn_forgets_distinct_keys_witness:
  "tn_counts (fold (topn_increment 0) ([1..<11] @ [0]) (topn_new 1 :: nat top_n)) = []"
  by (rule topn_forgets_distinct_keys) simp_all

end
