(* ===== verification/Time_Series.thy ===== *)
theory Time_Series
  imports Prelude
begin

text \<open>
  \<^verbatim>\<open>src/src/web/metrics/timeseries.rs\<close>: sums over a sliding window of buckets and the distribution of
  latencies. Instants are natural numbers of nanoseconds. The values of a series are natural
  numbers: the program adds only ones. Latencies are natural numbers of microseconds; the source
  compares and sorts the same numbers divided by 1000. Quotients that the source computes in floating
  point are kept as pairs. A series is built with buckets of at least a second.
\<close>

section \<open>Series\<close>

text \<open>The extrema are \<open>None\<close> where the source has the greatest and the least float.\<close>

record bucket =
  bk_timestamp :: nat
  bk_sum :: nat
  bk_count :: nat
  bk_min :: "nat option"
  bk_max :: "nat option"

definition bucket_new :: "nat \<Rightarrow> bucket" where
  "bucket_new ts = \<lparr>bk_timestamp = ts, bk_sum = 0, bk_count = 0, bk_min = None, bk_max = None\<rparr>"

definition opt_min :: "nat option \<Rightarrow> nat option \<Rightarrow> nat option" where
  "opt_min a b = (case (a, b) of (Some x, Some y) \<Rightarrow> Some (min x y) | (None, _) \<Rightarrow> b | (_, None) \<Rightarrow> a)"

definition opt_max :: "nat option \<Rightarrow> nat option \<Rightarrow> nat option" where
  "opt_max a b = (case (a, b) of (Some x, Some y) \<Rightarrow> Some (max x y) | (None, _) \<Rightarrow> b | (_, None) \<Rightarrow> a)"

definition bucket_add :: "nat \<Rightarrow> bucket \<Rightarrow> bucket" where
  "bucket_add v b = b\<lparr>bk_sum := bk_sum b + v, bk_count := bk_count b + 1,
     bk_min := opt_min (bk_min b) (Some v), bk_max := opt_max (bk_max b) (Some v)\<rparr>"

definition quotient :: "nat \<Rightarrow> nat \<Rightarrow> nat \<times> nat" where
  "quotient a b = (if b = 0 then (0, 1) else (a, b))"

definition bucket_average :: "bucket \<Rightarrow> nat \<times> nat" where
  "bucket_average b = quotient (bk_sum b) (bk_count b)"

record time_series =
  se_window :: nat
  se_bucket_secs :: nat
  se_buckets :: "bucket list"
  se_start :: nat

definition series_new :: "nat \<Rightarrow> nat \<Rightarrow> nat \<Rightarrow> time_series" where
  "series_new now window bucket_secs = \<lparr>se_window = window, se_bucket_secs = bucket_secs, se_buckets = [], se_start = now\<rparr>"

definition default_qps :: "nat \<Rightarrow> time_series" where
  "default_qps now = series_new now 300 1"

definition hourly :: "nat \<Rightarrow> time_series" where
  "hourly now = series_new now 3600 60"

definition current_bucket_timestamp :: "nat \<Rightarrow> time_series \<Rightarrow> nat" where
  "current_bucket_timestamp now s =
     ((now - se_start s) div 1000000000) div se_bucket_secs s * se_bucket_secs s"

definition window_cutoff :: "nat \<Rightarrow> time_series \<Rightarrow> nat" where
  "window_cutoff now s = current_bucket_timestamp now s - se_window s"

definition cleanup_locked :: "nat \<Rightarrow> time_series \<Rightarrow> bucket list \<Rightarrow> bucket list" where
  "cleanup_locked current s = dropWhile (\<lambda>b. bk_timestamp b < current - se_window s)"

definition series_add :: "nat \<Rightarrow> nat \<Rightarrow> time_series \<Rightarrow> time_series" where
  "series_add now v s =
     (let ts = current_bucket_timestamp now s;
          bs = cleanup_locked ts s (se_buckets s)
      in s\<lparr>se_buckets :=
           (if bs \<noteq> [] \<and> bk_timestamp (last bs) = ts then butlast bs @ [bucket_add v (last bs)]
            else bs @ [bucket_add v (bucket_new ts)])\<rparr>)"

definition series_increment :: "nat \<Rightarrow> time_series \<Rightarrow> time_series" where
  "series_increment now = series_add now 1"

definition in_window :: "nat \<Rightarrow> time_series \<Rightarrow> bucket list" where
  "in_window now s = filter (\<lambda>b. bk_timestamp b \<ge> window_cutoff now s) (se_buckets s)"

definition start_time_unix :: "nat \<Rightarrow> nat \<Rightarrow> time_series \<Rightarrow> nat" where
  "start_time_unix now unix_now s = unix_now - (now - se_start s) div 1000000000"

definition series_points :: "nat \<Rightarrow> nat \<Rightarrow> time_series \<Rightarrow> (nat \<times> nat) list" where
  "series_points now unix_now s =
     map (\<lambda>b. (start_time_unix now unix_now s + bk_timestamp b, bk_sum b)) (in_window now s)"

definition series_averages :: "nat \<Rightarrow> nat \<Rightarrow> time_series \<Rightarrow> (nat \<times> nat \<times> nat) list" where
  "series_averages now unix_now s =
     map (\<lambda>b. (start_time_unix now unix_now s + bk_timestamp b, bucket_average b)) (in_window now s)"

definition series_sum :: "nat \<Rightarrow> time_series \<Rightarrow> nat" where
  "series_sum now s = sum_list (map bk_sum (in_window now s))"

definition series_count :: "nat \<Rightarrow> time_series \<Rightarrow> nat" where
  "series_count now s = sum_list (map bk_count (in_window now s))"

definition series_rate :: "nat \<Rightarrow> time_series \<Rightarrow> nat \<times> nat" where
  "series_rate now s = (series_sum now s, min (max ((now - se_start s) div 1000000000) 1) (se_window s))"

record series_stats_view =
  sv_min :: nat
  sv_max :: nat
  sv_avg :: "nat \<times> nat"
  sv_sum :: nat
  sv_count :: nat

definition series_stats :: "nat \<Rightarrow> time_series \<Rightarrow> series_stats_view" where
  "series_stats now s =
     (if se_buckets s = [] then \<lparr>sv_min = 0, sv_max = 0, sv_avg = (0, 1), sv_sum = 0, sv_count = 0\<rparr>
      else let bs = in_window now s;
               mn = foldl (\<lambda>a b. if bk_count b > 0 then opt_min a (bk_min b) else a) None bs;
               mx = foldl (\<lambda>a b. if bk_count b > 0 then opt_max a (bk_max b) else a) None bs
           in \<lparr>sv_min = (case mn of Some x \<Rightarrow> x | None \<Rightarrow> 0), sv_max = (case mx of Some x \<Rightarrow> x | None \<Rightarrow> 0),
               sv_avg = quotient (series_sum now s) (series_count now s),
               sv_sum = series_sum now s, sv_count = series_count now s\<rparr>)"

definition series_clear :: "time_series \<Rightarrow> time_series" where
  "series_clear s = s\<lparr>se_buckets := []\<rparr>"

section \<open>Latencies\<close>

record latency_distribution =
  ld_buckets :: "u64 list"
  ld_samples :: "nat list"
  ld_max_samples :: nat

definition latency_new :: latency_distribution where
  "latency_new = \<lparr>ld_buckets = replicate 7 0, ld_samples = [], ld_max_samples = 10000\<rparr>"

definition latency_index :: "nat \<Rightarrow> nat" where
  "latency_index us =
     (if us < 1000 then 0 else if us < 10000 then 1 else if us < 50000 then 2 else if us < 100000 then 3
      else if us < 500000 then 4 else if us < 1000000 then 5 else 6)"

definition latency_add :: "nat \<Rightarrow> latency_distribution \<Rightarrow> latency_distribution" where
  "latency_add us d =
     (let xs = (if length (ld_samples d) \<ge> ld_max_samples d then drop (ld_max_samples d div 10) (ld_samples d)
                else ld_samples d);
          i = latency_index us
      in d\<lparr>ld_samples := xs @ [us], ld_buckets := (ld_buckets d)[i := ld_buckets d ! i + 1]\<rparr>)"

text \<open>\<^verbatim>\<open>((len - 1) * p / 100).round()\<close>, halves away from zero. For whole percents and up to ten thousand
  samples the float is exact where it matters, at the halves.\<close>

definition percentile_index :: "nat \<Rightarrow> nat \<Rightarrow> nat" where
  "percentile_index len p = (2 * (len - 1) * p + 100) div 200"

definition percentile :: "nat list \<Rightarrow> nat \<Rightarrow> nat" where
  "percentile xs p = (if xs = [] then 0 else xs ! min (percentile_index (length xs) p) (length xs - 1))"

record latency_bucket =
  lb_label :: string
  lb_count :: u64
  lb_percentage :: "u64 \<times> u64"

definition latency_labels :: "string list" where
  "latency_labels = [''<1ms'', ''1-10ms'', ''10-50ms'', ''50-100ms'', ''100-500ms'', ''500ms-1s'', ''>1s'']"

definition pct :: "u64 \<Rightarrow> u64 \<Rightarrow> u64 \<times> u64" where
  "pct c tot = (if tot = 0 then (0, 1) else (c, tot))"

record latency_snapshot =
  ls_buckets :: "latency_bucket list"
  ls_total :: u64
  ls_p50 :: nat
  ls_p95 :: nat
  ls_p99 :: nat
  ls_max :: nat
  ls_avg :: "nat \<times> nat"

definition latency_view :: "latency_distribution \<Rightarrow> latency_snapshot" where
  "latency_view d =
     (let tot = sum_list (ld_buckets d); xs = sort (ld_samples d) in
      \<lparr>ls_buckets = map2 (\<lambda>l c. \<lparr>lb_label = l, lb_count = c, lb_percentage = pct c tot\<rparr>) latency_labels (ld_buckets d),
       ls_total = tot, ls_p50 = percentile xs 50, ls_p95 = percentile xs 95, ls_p99 = percentile xs 99,
       ls_max = (if xs = [] then 0 else last xs), ls_avg = quotient (sum_list xs) (length xs)\<rparr>)"

definition latency_clear :: "latency_distribution \<Rightarrow> latency_distribution" where
  "latency_clear d = d\<lparr>ld_buckets := replicate 7 0, ld_samples := []\<rparr>"

section \<open>The window\<close>

text \<open>What the series is about: additions at instants, in order. The additions that count at
  an instant are those whose bucket is not older than the window.\<close>

fun series_run :: "(nat \<times> nat) list \<Rightarrow> time_series \<Rightarrow> time_series" where
  "series_run [] s = s"
| "series_run ((t, v) # es) s = series_run es (series_add t v s)"

definition counted :: "nat \<Rightarrow> time_series \<Rightarrow> (nat \<times> nat) list \<Rightarrow> (nat \<times> nat) list" where
  "counted now s es = filter (\<lambda>(t, v). current_bucket_timestamp t s \<ge> window_cutoff now s) es"

text \<open>From a cutoff on, the buckets agree with the additions.\<close>

definition agrees :: "nat \<Rightarrow> time_series \<Rightarrow> (nat \<times> nat) list \<Rightarrow> bool" where
  "agrees c s es \<longleftrightarrow>
     sum_list (map bk_sum (filter (\<lambda>b. bk_timestamp b \<ge> c) (se_buckets s))) =
       sum_list (map snd (filter (\<lambda>(t, v). current_bucket_timestamp t s \<ge> c) es)) \<and>
     sum_list (map bk_count (filter (\<lambda>b. bk_timestamp b \<ge> c) (se_buckets s))) =
       length (filter (\<lambda>(t, v). current_bucket_timestamp t s \<ge> c) es)"

lemma series_add_sel [simp]:
  "se_window (series_add t v s) = se_window s" "se_bucket_secs (series_add t v s) = se_bucket_secs s"
  "se_start (series_add t v s) = se_start s"
  by (simp_all add: series_add_def Let_def)

lemma bucket_timestamp_add [simp]: "current_bucket_timestamp now (series_add t v s) = current_bucket_timestamp now s"
  by (simp add: current_bucket_timestamp_def)

lemma bucket_timestamp_mono: "t \<le> u \<Longrightarrow> current_bucket_timestamp t s \<le> current_bucket_timestamp u s"
  unfolding current_bucket_timestamp_def by (intro mult_le_mono1 div_le_mono) simp

lemma bucket_add_sel [simp]:
  "bk_timestamp (bucket_add v b) = bk_timestamp b" "bk_sum (bucket_add v b) = bk_sum b + v"
  "bk_count (bucket_add v b) = bk_count b + 1"
  by (simp_all add: bucket_add_def)

lemma bucket_new_sel [simp]:
  "bk_timestamp (bucket_new ts) = ts" "bk_sum (bucket_new ts) = 0" "bk_count (bucket_new ts) = 0"
  by (simp_all add: bucket_new_def)

lemma filter_cleanup:
  "ts - se_window s \<le> c \<Longrightarrow>
     filter (\<lambda>b. bk_timestamp b \<ge> c) (cleanup_locked ts s bs) = filter (\<lambda>b. bk_timestamp b \<ge> c) bs"
  by (induction bs) (auto simp: cleanup_locked_def)

lemma agrees_add:
  assumes "agrees c s es" "current_bucket_timestamp t s - se_window s \<le> c"
  shows "agrees c (series_add t v s) (es @ [(t, v)])"
proof -
  let ?ts = "current_bucket_timestamp t s" and ?P = "\<lambda>b. bk_timestamp b \<ge> c"
  define bs where "bs = cleanup_locked ?ts s (se_buckets s)"
  have f: "filter ?P bs = filter ?P (se_buckets s)" unfolding bs_def by (rule filter_cleanup [OF assms(2)])
  have "sum_list (map g (filter ?P (se_buckets (series_add t v s)))) =
      sum_list (map g (filter ?P (se_buckets s))) + (if ?ts \<ge> c then g (bucket_add v (bucket_new ?ts)) else 0)"
    if g: "\<And>b. g (bucket_add v b) = g b + g (bucket_add v (bucket_new ?ts))" for g :: "bucket \<Rightarrow> nat"
  proof (cases "bs \<noteq> [] \<and> bk_timestamp (last bs) = ?ts")
    case True
    then have "filter ?P bs = filter ?P (butlast bs) @ filter ?P [last bs]"
      by (metis append_butlast_last_id filter_append)
    with True f g [of "last bs"] show ?thesis
      by (simp add: series_add_def Let_def bs_def [symmetric] flip: f)
  next
    case False
    with f show ?thesis by (auto simp: series_add_def Let_def bs_def [symmetric])
  qed
  from this [of bk_sum] this [of bk_count] assms(1) show ?thesis by (auto simp: agrees_def)
qed

lemma agrees_run:
  assumes "agrees c s pre" "current_bucket_timestamp now s - se_window s \<le> c" "\<forall>(t, v) \<in> set es. t \<le> now"
  shows "agrees c (series_run es s) (pre @ es)"
  using assms
proof (induction es arbitrary: s pre)
  case (Cons e es)
  obtain t v where e: "e = (t, v)" by (cases e)
  have "current_bucket_timestamp t s - se_window s \<le> c"
    using Cons.prems bucket_timestamp_mono [of t now s] by (simp add: e)
  then show ?case
    using Cons.IH [of "series_add t v s" "pre @ [(t, v)]"] agrees_add [OF Cons.prems(1)] Cons.prems(2,3) by (simp add: e)
qed simp

lemma series_run_sel [simp]:
  "se_window (series_run es s) = se_window s" "current_bucket_timestamp now (series_run es s) = current_bucket_timestamp now s"
  by (induction es s rule: series_run.induct) simp_all

lemma window_cutoff_run [simp]: "window_cutoff now (series_run es s) = window_cutoff now s"
  by (simp add: window_cutoff_def)

lemma series_window:
  assumes "\<forall>(t, v) \<in> set es. t \<le> now"
  shows "series_count now (series_run es (series_new start w secs)) = length (counted now (series_new start w secs) es) \<and>
    series_sum now (series_run es (series_new start w secs)) = sum_list (map snd (counted now (series_new start w secs) es))"
proof -
  let ?s = "series_new start w secs" and ?c = "window_cutoff now (series_new start w secs)"
  have run: "current_bucket_timestamp t (series_run es ?s) = current_bucket_timestamp t ?s" for t by simp
  have "agrees ?c ?s []" by (simp add: agrees_def series_new_def)
  from agrees_run [OF this _ assms] have "agrees ?c (series_run es ?s) es"
    by (simp add: window_cutoff_def series_new_def)
  then show ?thesis
    by (simp add: agrees_def series_count_def series_sum_def in_window_def counted_def run)
qed

text \<open>
  C33: The buckets are a faithful window: after any additions, the count and the sum that a series
  reports at a later instant are the number and the sum of the additions whose bucket lies in the
  window at that instant. Dropping old buckets and grouping lose nothing.
\<close>

theorem series_reports_window:
  assumes "\<forall>(t, v) \<in> set es. t \<le> now"
  shows "series_count now (series_run es (series_new start w secs)) = length (counted now (series_new start w secs) es) \<and>
    series_sum now (series_run es (series_new start w secs)) = sum_list (map snd (counted now (series_new start w secs) es))"
  using assms by (rule series_window)

theorem series_reports_window_witness:
  "series_count 400000000000 (series_run [(0, 1), (99000000000, 1), (100000000000, 1), (399000000000, 1)] (series_new 0 300 1)) = 2"
proof -
  let ?es = "[(0, 1), (99000000000, 1), (100000000000, 1), (399000000000, 1)]"
  have "counted 400000000000 (series_new 0 300 1) ?es = [(100000000000, 1), (399000000000, 1)]"
    by (simp add: counted_def window_cutoff_def current_bucket_timestamp_def series_new_def)
  then show ?thesis using series_reports_window [of ?es 400000000000 0 300 1] by simp
qed

section \<open>The number of buckets\<close>

lemma sorted_le_last: "sorted xs \<Longrightarrow> x \<in> set xs \<Longrightarrow> x \<le> last xs"
  by (induction xs) auto

definition series_inv :: "nat \<Rightarrow> time_series \<Rightarrow> bool" where
  "series_inv now s \<longleftrightarrow> sorted_wrt (<) (map bk_timestamp (se_buckets s)) \<and>
     (\<forall>b \<in> set (se_buckets s). se_bucket_secs s dvd bk_timestamp b \<and> bk_timestamp b \<le> current_bucket_timestamp now s)"

lemma timestamp_dvd: "se_bucket_secs s dvd current_bucket_timestamp now s"
  by (simp add: current_bucket_timestamp_def)

lemma cleanup_suffix: "\<exists>k. cleanup_locked ts s bs = drop k bs"
  unfolding cleanup_locked_def dropWhile_eq_drop by blast

lemma cleanup_recent:
  assumes "sorted_wrt (<) (map bk_timestamp bs)" "b \<in> set (cleanup_locked ts s bs)"
  shows "ts - se_window s \<le> bk_timestamp b"
  using assms
proof (induction bs)
  case (Cons x xs)
  then show ?case
    by (cases "bk_timestamp x < ts - se_window s") (auto simp: cleanup_locked_def less_imp_le not_less dest: order_trans)
qed (simp add: cleanup_locked_def)

lemma series_inv_add:
  assumes "series_inv t0 s" "t0 \<le> t"
  shows "series_inv t (series_add t v s)"
    and "b \<in> set (se_buckets (series_add t v s)) \<Longrightarrow> current_bucket_timestamp t s - se_window s \<le> bk_timestamp b"
proof -
  let ?ts = "current_bucket_timestamp t s"
  define bs where "bs = cleanup_locked ?ts s (se_buckets s)"
  obtain k where k: "bs = drop k (se_buckets s)" unfolding bs_def using cleanup_suffix by blast
  have sub: "set bs \<subseteq> set (se_buckets s)" using k by (simp add: set_drop_subset)
  have srt: "sorted_wrt (<) (map bk_timestamp bs)"
    using assms(1) unfolding k drop_map [symmetric] by (simp add: series_inv_def sorted_wrt_drop)
  have le: "se_bucket_secs s dvd bk_timestamp b \<and> bk_timestamp b \<le> ?ts" if "b \<in> set bs" for b
    using that sub assms(1) bucket_timestamp_mono [OF assms(2), of s] unfolding series_inv_def by fastforce
  have recent: "?ts - se_window s \<le> bk_timestamp b" if "b \<in> set bs" for b
    using that cleanup_recent [of "se_buckets s"] assms(1) by (simp add: bs_def series_inv_def)
  have new: "se_buckets (series_add t v s) =
      (if bs \<noteq> [] \<and> bk_timestamp (last bs) = ?ts then butlast bs @ [bucket_add v (last bs)]
       else bs @ [bucket_add v (bucket_new ?ts)])"
    by (simp add: series_add_def Let_def bs_def)
  consider (merge) "bs \<noteq> []" "bk_timestamp (last bs) = ?ts" "se_buckets (series_add t v s) = butlast bs @ [bucket_add v (last bs)]"
    | (append) "bs = [] \<or> bk_timestamp (last bs) \<noteq> ?ts" "se_buckets (series_add t v s) = bs @ [bucket_add v (bucket_new ?ts)]"
    using new by (cases "bs \<noteq> [] \<and> bk_timestamp (last bs) = ?ts") auto
  then have "series_inv t (series_add t v s) \<and> (\<forall>b \<in> set (se_buckets (series_add t v s)). ?ts - se_window s \<le> bk_timestamp b)"
  proof cases
    case merge
    have "map bk_timestamp (butlast bs @ [bucket_add v (last bs)]) = map bk_timestamp bs"
      using merge(1) by (cases bs rule: rev_cases) simp_all
    then have "sorted_wrt (<) (map bk_timestamp (se_buckets (series_add t v s)))" using srt merge(3) by simp
    moreover have "\<forall>b \<in> set (butlast bs). se_bucket_secs s dvd bk_timestamp b \<and> bk_timestamp b \<le> ?ts \<and> ?ts - se_window s \<le> bk_timestamp b"
      using le recent by (auto dest: in_set_butlastD)
    ultimately show ?thesis using merge timestamp_dvd [of s t] by (auto simp: series_inv_def)
  next
    case append
    have lt: "bk_timestamp b < ?ts" if "b \<in> set bs" for b
    proof -
      have "bs \<noteq> []" using that by auto
      have "sorted (map bk_timestamp bs)" using srt by (simp add: strict_sorted_iff)
      then have "bk_timestamp b \<le> last (map bk_timestamp bs)" using that \<open>bs \<noteq> []\<close> by (intro sorted_le_last) auto
      then have "bk_timestamp b \<le> bk_timestamp (last bs)" using \<open>bs \<noteq> []\<close> by (simp add: last_map)
      also have "\<dots> < ?ts" using le [of "last bs"] append(1) \<open>bs \<noteq> []\<close> by (simp add: le_neq_trans)
      finally show ?thesis .
    qed
    then have "sorted_wrt (<) (map bk_timestamp (se_buckets (series_add t v s)))"
      using srt append(2) by (auto simp: sorted_wrt_append)
    then show ?thesis using append(2) le recent timestamp_dvd [of s t] by (auto simp: series_inv_def)
  qed
  then show "series_inv t (series_add t v s)"
    and "b \<in> set (se_buckets (series_add t v s)) \<Longrightarrow> ?ts - se_window s \<le> bk_timestamp b" by auto
qed

lemma few_multiples:
  assumes "sorted_wrt (<) (ts :: nat list)" "b > 0" "\<And>x. x \<in> set ts \<Longrightarrow> b dvd x \<and> x \<le> hi \<and> hi - w \<le> x" "b dvd hi"
  shows "length ts \<le> w div b + 1"
proof -
  have d: "distinct ts" using assms(1) by (simp add: strict_sorted_iff)
  have "(\<lambda>x. (hi - x) div b) ` set ts \<subseteq> {0..w div b}"
  proof
    fix y assume "y \<in> (\<lambda>x. (hi - x) div b) ` set ts"
    then obtain x where x: "x \<in> set ts" "y = (hi - x) div b" by auto
    then have "hi - x \<le> w" using assms(3) [of x] by arith
    then show "y \<in> {0..w div b}" using x by (simp add: div_le_mono)
  qed
  moreover have "inj_on (\<lambda>x. (hi - x) div b) (set ts)"
  proof (rule inj_onI)
    fix x y assume a: "x \<in> set ts" "y \<in> set ts" "(hi - x) div b = (hi - y) div b"
    then have "b dvd (hi - x)" "b dvd (hi - y)" "x \<le> hi" "y \<le> hi" using assms(3,4) by auto
    with a(3) have "hi - x = hi - y" by (metis dvd_mult_div_cancel)
    with \<open>x \<le> hi\<close> \<open>y \<le> hi\<close> show "x = y" by simp
  qed
  ultimately have "card (set ts) \<le> card {0..w div b}" by (metis card_image card_mono finite_atLeastAtMost)
  then show ?thesis using d by (simp add: distinct_card)
qed

lemma series_run_inv:
  assumes "series_inv t0 s" "sorted (t0 # map fst es)" "length (se_buckets s) \<le> se_window s div se_bucket_secs s + 1" "se_bucket_secs s > 0"
  shows "length (se_buckets (series_run es s)) \<le> se_window s div se_bucket_secs s + 1"
  using assms
proof (induction es arbitrary: s t0)
  case (Cons e es)
  obtain t v where e: "e = (t, v)" by (cases e)
  let ?s = "series_add t v s"
  have le: "t0 \<le> t" using Cons.prems(2) by (simp add: e)
  note inv = series_inv_add [OF Cons.prems(1) le, where v = v]
  have "length (map bk_timestamp (se_buckets ?s)) \<le> se_window s div se_bucket_secs s + 1"
  proof (rule few_multiples)
    show "sorted_wrt (<) (map bk_timestamp (se_buckets ?s))" using inv(1) by (simp add: series_inv_def)
    show "se_bucket_secs s dvd current_bucket_timestamp t s" by (rule timestamp_dvd)
    fix x assume "x \<in> set (map bk_timestamp (se_buckets ?s))"
    then show "se_bucket_secs s dvd x \<and> x \<le> current_bucket_timestamp t s \<and> current_bucket_timestamp t s - se_window s \<le> x"
      using inv unfolding series_inv_def by auto
  qed (use Cons.prems(4) in simp)
  then show ?case using Cons.IH [OF inv(1)] Cons.prems(2,4) by (simp add: e)
qed simp

text \<open>
  The memory of a series is bounded by its window: after additions at instants in order it has
  at most one bucket more than fit into the window.
\<close>

theorem series_buckets_bounded:
  assumes "sorted (map fst es)" "secs > 0"
  shows "length (se_buckets (series_run es (series_new start w secs))) \<le> w div secs + 1"
  using series_run_inv [of 0 "series_new start w secs" es] assms
  by (simp add: series_inv_def series_new_def)

theorem series_buckets_bounded_witness:
  "length (se_buckets (series_run [(0, 1), (61000000000, 1)] (hourly 0))) \<le> 61"
  using series_buckets_bounded [of "[(0, 1), (61000000000, 1)]" 60 0 3600] by (simp add: hourly_def)

section \<open>Percentiles\<close>

definition latency_inv :: "nat \<Rightarrow> latency_distribution \<Rightarrow> bool" where
  "latency_inv n d \<longleftrightarrow> length (ld_buckets d) = 7 \<and> sum_list (ld_buckets d) = of_nat n \<and>
     ld_max_samples d = 10000 \<and> length (ld_samples d) \<le> 10000"

lemma latency_index_less: "latency_index us < 7"
  by (simp add: latency_index_def)

lemma sum_list_bump: "i < length xs \<Longrightarrow> sum_list (xs[i := xs ! i + 1]) = sum_list xs + (1 :: u64)"
  by (induction xs arbitrary: i) (auto simp: nth_Cons split: nat.splits)

lemma latency_inv_add: "latency_inv n d \<Longrightarrow> latency_inv (Suc n) (latency_add us d)"
  using latency_index_less [of us]
  by (auto simp: latency_inv_def latency_add_def Let_def sum_list_bump)

lemma latency_inv_run: "latency_inv n d \<Longrightarrow> latency_inv (n + length xs) (fold latency_add xs d)"
proof (induction xs arbitrary: n d)
  case (Cons x xs)
  then show ?case using Cons.IH [OF latency_inv_add [OF Cons.prems, of x]] by simp
qed simp

lemma percentile_Nil [simp]: "percentile [] p = 0"
  by (simp add: percentile_def)

lemma percentile_mono:
  assumes "sorted xs" "p \<le> q"
  shows "percentile xs p \<le> percentile xs q"
proof (cases "xs = []")
  case False
  have "percentile_index (length xs) p \<le> percentile_index (length xs) q"
    using assms(2) by (auto simp: percentile_index_def intro!: div_le_mono)
  moreover have "min (percentile_index (length xs) q) (length xs - 1) < length xs"
    using False by (simp add: min_less_iff_disj)
  moreover have "min (percentile_index (length xs) p) (length xs - 1) \<le> min (percentile_index (length xs) q) (length xs - 1)"
    using \<open>percentile_index (length xs) p \<le> percentile_index (length xs) q\<close> by (rule min.mono) simp
  ultimately show ?thesis using False sorted_nth_mono [OF assms(1)] by (simp add: percentile_def)
qed (simp add: percentile_def)

lemma percentile_le_last: "sorted xs \<Longrightarrow> xs \<noteq> [] \<Longrightarrow> percentile xs p \<le> last xs"
  by (auto simp: percentile_def last_conv_nth intro!: sorted_nth_mono)

lemma percentile_in_set: "xs \<noteq> [] \<Longrightarrow> percentile xs p \<in> set xs"
  by (auto simp: percentile_def min_less_iff_disj intro!: nth_mem)

text \<open>
  Whatever latencies were recorded, the distribution counts each of them in one of its seven
  classes (up to 64-bit wrap-around), keeps at most ten thousand samples, and its percentiles are
  ordered, below the maximum, and samples themselves.
\<close>

theorem latency_view_consistent:
  fixes xs :: "nat list"
  defines "d \<equiv> fold latency_add xs latency_new"
  shows "ls_total (latency_view d) = of_nat (length xs) \<and> length (ls_buckets (latency_view d)) = 7 \<and>
    length (ld_samples d) \<le> 10000 \<and>
    ls_p50 (latency_view d) \<le> ls_p95 (latency_view d) \<and> ls_p95 (latency_view d) \<le> ls_p99 (latency_view d) \<and>
    ls_p99 (latency_view d) \<le> ls_max (latency_view d) \<and>
    (ld_samples d = [] \<or> {ls_p50 (latency_view d), ls_p95 (latency_view d), ls_p99 (latency_view d)} \<subseteq> set (ld_samples d))"
proof -
  have "latency_inv 0 latency_new" by (simp add: latency_inv_def latency_new_def sum_list_replicate)
  from latency_inv_run [OF this, of xs] have inv: "latency_inv (length xs) d" by (simp add: d_def)
  have last: "percentile (sort (ld_samples d)) 99 \<le> (if sort (ld_samples d) = [] then 0 else last (sort (ld_samples d)))"
    by (auto simp: percentile_le_last)
  have mem: "percentile (sort (ld_samples d)) p \<in> set (ld_samples d)" if "ld_samples d \<noteq> []" for p
    using percentile_in_set [of "sort (ld_samples d)" p] that by (metis set_empty set_sort)
  show ?thesis
    using inv last by (cases "ld_samples d = []") (simp_all add: mem latency_view_def Let_def latency_inv_def latency_labels_def percentile_mono)
qed

end
