(* ===== verification/Web_Metrics.thy ===== *)
theory Web_Metrics
  imports Audit_Trail Top_N Time_Series
begin

text \<open>
  The consumers of the audit trail: \<^verbatim>\<open>src/src/web/metrics/collector.rs\<close>, the configuration checks of
  \<^verbatim>\<open>src/src/web/config.rs\<close> and \<^verbatim>\<open>src/src/web/alerts/engine.rs\<close>. Percentages that the source computes in floating
  point are pairs. The parser of socket addresses and the outcomes of web requests are arguments.
\<close>

section \<open>Configuration\<close>

record metrics_config =
  mx_window_secs :: nat
  mx_top_n :: nat
  mx_track_clients :: bool
  mx_track_domains :: bool
  mx_track_latency :: bool

definition metrics_config_default :: metrics_config where
  "metrics_config_default =
     \<lparr>mx_window_secs = 300, mx_top_n = 10, mx_track_clients = True, mx_track_domains = True, mx_track_latency = True\<rparr>"

definition metrics_validate :: "metrics_config \<Rightarrow> string + unit" where
  "metrics_validate c =
     (if mx_window_secs c = 0 then Inl ''metrics.window_secs must be greater than 0''
      else if mx_top_n c = 0 then Inl ''metrics.top_n must be greater than 0''
      else Inr ())"

record sse_config =
  ss_max_connections :: nat
  ss_keepalive_secs :: nat
  ss_buffer_size :: nat

definition sse_config_default :: sse_config where
  "sse_config_default = \<lparr>ss_max_connections = 100, ss_keepalive_secs = 30, ss_buffer_size = 100\<rparr>"

definition sse_validate :: "sse_config \<Rightarrow> string + unit" where
  "sse_validate c =
     (if ss_max_connections c = 0 then Inl ''sse.max_connections must be greater than 0''
      else if ss_keepalive_secs c = 0 then Inl ''sse.keepalive_secs must be greater than 0''
      else Inr ())"

record websocket_config =
  wk_max_connections :: nat
  wk_heartbeat_secs :: nat
  wk_timeout_secs :: nat
  wk_max_message_size :: nat

definition websocket_config_default :: websocket_config where
  "websocket_config_default =
     \<lparr>wk_max_connections = 50, wk_heartbeat_secs = 30, wk_timeout_secs = 60, wk_max_message_size = 64 * 1024\<rparr>"

definition websocket_validate :: "websocket_config \<Rightarrow> string + unit" where
  "websocket_validate c =
     (if wk_max_connections c = 0 then Inl ''websocket.max_connections must be greater than 0''
      else if wk_heartbeat_secs c = 0 then Inl ''websocket.heartbeat_secs must be greater than 0''
      else if wk_timeout_secs c \<le> wk_heartbeat_secs c then Inl ''websocket.timeout_secs must be greater than heartbeat_secs''
      else Inr ())"

datatype alert_severity = SevInfo | SevWarning | SevError | SevCritical

datatype alert_condition =
    SecurityEvent string
  | RateThreshold string nat
  | UpstreamHealth string
  | ErrorRate nat

record alert_rule =
  ar_name :: string
  ar_condition :: alert_condition
  ar_severity :: alert_severity
  ar_message :: "string option"

record webhook_config =
  wh_url :: string
  wh_auth_header :: "string option"
  wh_timeout_secs :: nat
  wh_retries :: nat

record alert_config =
  an_enabled :: bool
  an_rules :: "alert_rule list"
  an_dedup_window_secs :: nat
  an_max_alerts :: nat
  an_webhook :: "webhook_config option"

definition alert_config_default :: alert_config where
  "alert_config_default =
     \<lparr>an_enabled = False, an_rules = [], an_dedup_window_secs = 300, an_max_alerts = 1000, an_webhook = None\<rparr>"

record cors_config =
  cr_allowed_origins :: "string list"
  cr_allow_credentials :: bool

record web_config =
  wc_enabled :: bool
  wc_listen :: string
  wc_static_dir :: "string option"
  wc_event_bus_capacity :: nat
  wc_metrics :: metrics_config
  wc_sse :: sse_config
  wc_websocket :: websocket_config
  wc_alerts :: alert_config
  wc_cors :: cors_config

definition web_config_default :: web_config where
  "web_config_default =
     \<lparr>wc_enabled = False, wc_listen = ''127.0.0.1:8080'', wc_static_dir = None, wc_event_bus_capacity = 1024, wc_metrics = metrics_config_default,
      wc_sse = sse_config_default, wc_websocket = websocket_config_default, wc_alerts = alert_config_default,
      wc_cors = \<lparr>cr_allowed_origins = [], cr_allow_credentials = False\<rparr>\<rparr>"

definition then_valid :: "string + unit \<Rightarrow> string + unit \<Rightarrow> string + unit" where
  "then_valid a b = (case a of Inl e \<Rightarrow> Inl e | Inr _ \<Rightarrow> b)"

definition web_validate :: "(string \<Rightarrow> string + sock_addr) \<Rightarrow> web_config \<Rightarrow> string + unit" where
  "web_validate parse c =
     (case parse (wc_listen c) of
        Inl e \<Rightarrow> Inl (''Invalid listen address '' @ [CHR 0x27] @ wc_listen c @ [CHR 0x27] @ '': '' @ e)
      | Inr _ \<Rightarrow>
          if wc_event_bus_capacity c = 0 then Inl ''event_bus_capacity must be greater than 0''
          else then_valid (metrics_validate (wc_metrics c))
                 (then_valid (sse_validate (wc_sse c)) (websocket_validate (wc_websocket c))))"

section \<open>The collector\<close>

record metrics_collector =
  co_config :: metrics_config
  co_top_domains :: "string top_n"
  co_top_clients :: "string top_n"
  co_qps :: time_series
  co_latency :: latency_distribution
  co_total :: u64
  co_cache_hits :: u64
  co_cache_misses :: u64
  co_errors :: u64
  co_blocked :: u64

definition collector_new :: "nat \<Rightarrow> metrics_config \<Rightarrow> metrics_collector" where
  "collector_new now c =
     \<lparr>co_config = c, co_top_domains = topn_new (mx_top_n c), co_top_clients = topn_new (mx_top_n c),
      co_qps = series_new now (mx_window_secs c) 1, co_latency = latency_new, co_total = 0, co_cache_hits = 0,
      co_cache_misses = 0, co_errors = 0, co_blocked = 0\<rparr>"

definition track_domain :: "nat \<Rightarrow> query_log_entry \<Rightarrow> metrics_collector \<Rightarrow> metrics_collector" where
  "track_domain now e m =
     (if mx_track_domains (co_config m)
      then m\<lparr>co_top_domains := topn_increment now (to_lowercase (trim_end_matches (CHR ''.'') (ql_qname e))) (co_top_domains m)\<rparr>
      else m)"

definition track_client :: "nat \<Rightarrow> query_log_entry \<Rightarrow> metrics_collector \<Rightarrow> metrics_collector" where
  "track_client now e m =
     (case (mx_track_clients (co_config m), ql_client_ip e) of
        (True, Some ip) \<Rightarrow> m\<lparr>co_top_clients := topn_increment now (ip_to_string ip) (co_top_clients m)\<rparr>
      | _ \<Rightarrow> m)"

text \<open>Microseconds if the entry has them, else milliseconds; without either nothing is recorded.\<close>

definition entry_latency :: "query_log_entry \<Rightarrow> nat option" where
  "entry_latency e =
     (case ql_response_time_us e of
        Some us \<Rightarrow> Some (unat us)
      | None \<Rightarrow> map_option (\<lambda>ms. unat ms * 1000) (ql_response_time_ms e))"

definition track_latency :: "query_log_entry \<Rightarrow> metrics_collector \<Rightarrow> metrics_collector" where
  "track_latency e m =
     (case (mx_track_latency (co_config m), entry_latency e) of
        (True, Some us) \<Rightarrow> m\<lparr>co_latency := latency_add us (co_latency m)\<rparr>
      | _ \<Rightarrow> m)"

definition track_cached :: "query_log_entry \<Rightarrow> metrics_collector \<Rightarrow> metrics_collector" where
  "track_cached e m =
     (case ql_cached e of
        Some True \<Rightarrow> m\<lparr>co_cache_hits := co_cache_hits m + 1\<rparr>
      | Some False \<Rightarrow> m\<lparr>co_cache_misses := co_cache_misses m + 1\<rparr>
      | None \<Rightarrow> m)"

definition is_error_code :: "string option \<Rightarrow> bool" where
  "is_error_code rcode = (case rcode of Some r \<Rightarrow> r \<noteq> ''NOERROR'' \<and> r \<noteq> ''NXDOMAIN'' | None \<Rightarrow> False)"

definition track_error :: "query_log_entry \<Rightarrow> metrics_collector \<Rightarrow> metrics_collector" where
  "track_error e m = (if is_error_code (ql_rcode e) then m\<lparr>co_errors := co_errors m + 1\<rparr> else m)"

definition process_query :: "nat \<times> query_log_entry \<Rightarrow> metrics_collector \<Rightarrow> metrics_collector" where
  "process_query te m =
     (case te of (now, e) \<Rightarrow>
        track_error e (track_cached e (track_latency e (track_client now e (track_domain now e
          (m\<lparr>co_total := co_total m + 1, co_qps := series_increment now (co_qps m)\<rparr>))))))"

record metrics_overview =
  mo_total :: u64
  mo_qps :: "nat \<times> nat"
  mo_hit_rate :: "u64 \<times> u64"
  mo_hits :: u64
  mo_misses :: u64
  mo_errors :: u64
  mo_blocked :: u64
  mo_unique_domains :: nat
  mo_unique_clients :: nat

definition get_overview :: "nat \<Rightarrow> metrics_collector \<Rightarrow> metrics_overview" where
  "get_overview now m =
     \<lparr>mo_total = co_total m, mo_qps = series_rate now (co_qps m),
      mo_hit_rate = pct (co_cache_hits m) (co_cache_hits m + co_cache_misses m),
      mo_hits = co_cache_hits m, mo_misses = co_cache_misses m, mo_errors = co_errors m, mo_blocked = co_blocked m,
      mo_unique_domains = topn_len (co_top_domains m), mo_unique_clients = topn_len (co_top_clients m)\<rparr>"

definition record_blocked :: "metrics_collector \<Rightarrow> metrics_collector" where
  "record_blocked m = m\<lparr>co_blocked := co_blocked m + 1\<rparr>"

definition collector_clear :: "metrics_collector \<Rightarrow> metrics_collector" where
  "collector_clear m =
     m\<lparr>co_top_domains := topn_clear (co_top_domains m), co_top_clients := topn_clear (co_top_clients m),
       co_qps := series_clear (co_qps m), co_latency := latency_clear (co_latency m), co_total := 0,
       co_cache_hits := 0, co_cache_misses := 0, co_errors := 0, co_blocked := 0\<rparr>"

section \<open>What the numbers mean\<close>

lemma track_sel [simp]:
  "co_total (track_domain now e m) = co_total m" "co_total (track_client now e m) = co_total m"
  "co_total (track_latency e m) = co_total m" "co_total (track_cached e m) = co_total m" "co_total (track_error e m) = co_total m"
  "co_qps (track_domain now e m) = co_qps m" "co_qps (track_client now e m) = co_qps m"
  "co_qps (track_latency e m) = co_qps m" "co_qps (track_cached e m) = co_qps m" "co_qps (track_error e m) = co_qps m"
  "co_errors (track_domain now e m) = co_errors m" "co_errors (track_client now e m) = co_errors m"
  "co_errors (track_latency e m) = co_errors m" "co_errors (track_cached e m) = co_errors m"
  "co_cache_hits (track_domain now e m) = co_cache_hits m" "co_cache_hits (track_client now e m) = co_cache_hits m"
  "co_cache_hits (track_latency e m) = co_cache_hits m" "co_cache_hits (track_error e m) = co_cache_hits m"
  "co_cache_misses (track_domain now e m) = co_cache_misses m" "co_cache_misses (track_client now e m) = co_cache_misses m"
  "co_cache_misses (track_latency e m) = co_cache_misses m" "co_cache_misses (track_error e m) = co_cache_misses m"
  by (simp_all add: track_domain_def track_client_def track_latency_def track_cached_def track_error_def
      split: option.split bool.split)

lemma process_query_sel:
  "co_total (process_query (t, e) m) = co_total m + 1"
  "co_qps (process_query (t, e) m) = series_add t 1 (co_qps m)"
  "co_errors (process_query (t, e) m) = co_errors m + (if is_error_code (ql_rcode e) then 1 else 0)"
  "co_cache_hits (process_query (t, e) m) = co_cache_hits m + (if ql_cached e = Some True then 1 else 0)"
  "co_cache_misses (process_query (t, e) m) = co_cache_misses m + (if ql_cached e = Some False then 1 else 0)"
  by (simp_all add: process_query_def series_increment_def)
    (simp_all add: track_error_def track_cached_def split: option.split bool.split)

definition entries_with :: "(query_log_entry \<Rightarrow> bool) \<Rightarrow> (nat \<times> query_log_entry) list \<Rightarrow> u64" where
  "entries_with P es = of_nat (length (filter (P \<circ> snd) es))"

lemma process_queries:
  "co_total (fold process_query es m) = co_total m + of_nat (length es)"
  "co_qps (fold process_query es m) = series_run (map (\<lambda>(t, e). (t, 1)) es) (co_qps m)"
  "co_errors (fold process_query es m) = co_errors m + entries_with (is_error_code \<circ> ql_rcode) es"
  "co_cache_hits (fold process_query es m) = co_cache_hits m + entries_with (\<lambda>e. ql_cached e = Some True) es"
  "co_cache_misses (fold process_query es m) = co_cache_misses m + entries_with (\<lambda>e. ql_cached e = Some False) es"
  by (induction es arbitrary: m) (auto simp: process_query_sel entries_with_def)

text \<open>
  The dashboard agrees with the log: after any entries the totals are the numbers of entries,
  of cached and of uncached ones (up to 64-bit wrap-around), and the count of the query series is
  the number of entries whose second lies in the window.
\<close>

theorem metrics_agree_with_log:
  assumes "\<forall>(t, e) \<in> set es. t \<le> now"
  shows "let m = fold process_query es (collector_new start c) in
    co_total m = of_nat (length es) \<and>
    co_cache_hits m = entries_with (\<lambda>e. ql_cached e = Some True) es \<and>
    co_cache_misses m = entries_with (\<lambda>e. ql_cached e = Some False) es \<and>
    series_count now (co_qps m) =
      length (filter (\<lambda>(t, e). (t - start) div 1000000000 \<ge> (now - start) div 1000000000 - mx_window_secs c) es)"
proof -
  have le: "\<forall>(t, v) \<in> set (map (\<lambda>(t, e). (t, 1 :: nat)) es). t \<le> now" using assms by auto
  have "length (counted now (series_new start (mx_window_secs c) 1) (map (\<lambda>(t, e). (t, 1)) es)) =
      length (filter (\<lambda>(t, e). (t - start) div 1000000000 \<ge> (now - start) div 1000000000 - mx_window_secs c) es)"
    by (simp add: counted_def filter_map o_def case_prod_unfold window_cutoff_def current_bucket_timestamp_def series_new_def)
  then show ?thesis
    using series_window [OF le, of start "mx_window_secs c" 1]
    by (simp add: Let_def process_queries collector_new_def)
qed

definition demo_entry :: query_log_entry where
  "demo_entry = (log_entry_new [] 7 ''udp'' ''a.example'' ''A'' ''IN'')\<lparr>ql_cached := Some True\<rparr>"

theorem metrics_agree_with_log_witness:
  "co_cache_hits (fold process_query [(5, demo_entry)] (collector_new 0 metrics_config_default)) = 1"
  using metrics_agree_with_log [of "[(5, demo_entry)]" 5 0 metrics_config_default]
  by (simp add: Let_def entries_with_def demo_entry_def)

text \<open>
  The error counter of the dashboard counts every query that got a response, whatever its
  response code, and no query without one: the log has the code as the source names the constructor
  (\<^verbatim>\<open>NoError\<close>), and the collector compares with the name of the protocol (\<^verbatim>\<open>NOERROR\<close>).
\<close>

theorem every_answer_counts_as_error:
  assumes "list_all2 (\<lambda>(t, q) (t', e). t' = t \<and> log_query_for_context ts t q = Some e) cs es"
  shows "co_errors (fold process_query es (collector_new start c)) = of_nat (length (filter (\<lambda>(t, q). response q \<noteq> None) cs))"
proof -
  have err: "is_error_code (ql_rcode e) \<longleftrightarrow> response q \<noteq> None" if "log_query_for_context ts t q = Some e" for t q e
    using logged_rcode [OF that] logged_without_response [OF that] debug_code_not_upper
    by (cases "response q") (auto simp: is_error_code_def)
  have "length (filter ((is_error_code \<circ> ql_rcode) \<circ> snd) es) = length (filter (\<lambda>(t, q). response q \<noteq> None) cs)"
    using assms by (induction cs es rule: list_all2_induct) (auto simp: err)
  then show ?thesis by (simp add: process_queries entries_with_def collector_new_def)
qed

definition answered :: ctx where
  "answered = ctx_set_response (Some message_new) (context_new (add_question (question_new ''a.example'' RT_A CL_IN) message_new))"

theorem every_answer_counts_as_error_witness:
  "\<exists>e. log_query_for_context [] 0 answered = Some e \<and> msg_rcode (the (response answered)) = RC_NoError \<and>
    co_errors (process_query (0, e) (collector_new 0 metrics_config_default)) = 1"
proof -
  obtain e where e: "log_query_for_context [] 0 answered = Some e"
    by (simp add: log_query_for_context_def answered_def add_question_def message_new_def question_new_def
        is_dns_sd_query_def starts_with_def strip_prefix_def context_new_def Let_def)
  with every_answer_counts_as_error [of "[]" "[(0, answered)]" "[(0, e)]" 0 metrics_config_default]
  show ?thesis by (simp add: answered_def message_new_def)
qed

end
