(* ===== verification/Alerts.thy ===== *)
theory Alerts
  imports Web_Metrics
begin

text \<open>
  \<^verbatim>\<open>src/src/web/alerts/engine.rs\<close>: rules over security events, deduplication by rule, a bounded list of
  alerts, the retries of the webhook. Instants are natural numbers of nanoseconds, Unix time is in
  seconds; random ids come from a sequence.
\<close>

section \<open>The engine\<close>

record alert =
  at_id :: string
  at_rule_name :: string
  at_severity :: alert_severity
  at_message :: string
  at_timestamp :: nat
  at_last_updated :: nat
  at_occurrence_count :: u64
  at_acknowledged :: bool

definition alert_new :: "string \<Rightarrow> nat \<Rightarrow> string \<Rightarrow> alert_severity \<Rightarrow> string \<Rightarrow> alert" where
  "alert_new uuid unix rule severity msg =
     \<lparr>at_id = uuid, at_rule_name = rule, at_severity = severity, at_message = msg, at_timestamp = unix,
      at_last_updated = unix, at_occurrence_count = 1, at_acknowledged = False\<rparr>"

definition increment_occurrence :: "nat \<Rightarrow> alert \<Rightarrow> alert" where
  "increment_occurrence unix a = a\<lparr>at_occurrence_count := at_occurrence_count a + 1, at_last_updated := unix\<rparr>"

definition alert_matches :: "alert \<Rightarrow> alert \<Rightarrow> bool" where
  "alert_matches a b \<longleftrightarrow> at_rule_name a = at_rule_name b \<and> at_message a = at_message b"

record alert_engine =
  en_config :: alert_config
  en_alerts :: "alert list"
  en_dedup :: "string \<rightharpoonup> nat"
  en_counter :: u64
  en_drawn :: nat

definition engine_new :: "alert_config \<Rightarrow> alert_engine" where
  "engine_new c = \<lparr>en_config = c, en_alerts = [], en_dedup = Map.empty, en_counter = 0, en_drawn = 0\<rparr>"

definition matches_rule :: "alert_rule \<Rightarrow> audit_event \<Rightarrow> bool" where
  "matches_rule rule ev =
     (case ar_condition rule of
        SecurityEvent ty \<Rightarrow> (case ev of Security e \<Rightarrow> event_type_as_str (sv_event_type e) = ty | Query _ \<Rightarrow> False)
      | RateThreshold _ _ \<Rightarrow> False
      | UpstreamHealth _ \<Rightarrow> False
      | ErrorRate _ \<Rightarrow> False)"

definition should_deduplicate :: "nat \<Rightarrow> string \<Rightarrow> alert_engine \<Rightarrow> bool \<times> alert_engine" where
  "should_deduplicate now name s =
     (case en_dedup s name of
        Some t \<Rightarrow>
          if now - t < an_dedup_window_secs (en_config s) * 1000000000 then (True, s)
          else (False, s\<lparr>en_dedup := (en_dedup s)(name \<mapsto> now)\<rparr>)
      | None \<Rightarrow> (False, s\<lparr>en_dedup := (en_dedup s)(name \<mapsto> now)\<rparr>))"

definition replace_opt :: "string \<Rightarrow> string option \<Rightarrow> string \<Rightarrow> string" where
  "replace_opt pat v s = (case v of Some x \<Rightarrow> replace_all pat x s | None \<Rightarrow> s)"

definition format_message :: "alert_rule \<Rightarrow> audit_event \<Rightarrow> string" where
  "format_message rule ev =
     (case ar_message rule of
        Some msg \<Rightarrow>
          (case ev of
             Security e \<Rightarrow>
               replace_opt ''{domain}'' (sv_qname e)
                 (replace_opt ''{client_ip}'' (map_option ip_to_string (sv_client_ip e))
                   (replace_all ''{message}'' (sv_message e)
                     (replace_all ''{event_type}'' (event_type_as_str (sv_event_type e)) msg)))
           | Query _ \<Rightarrow> msg)
      | None \<Rightarrow> (case ev of Security e \<Rightarrow> sv_message e | Query _ \<Rightarrow> ''Query alert''))"

text \<open>The loop that makes room: it pops from the back while the list is not shorter than the limit;
  popping from an empty list does nothing.\<close>

partial_function (option) make_room :: "nat \<Rightarrow> alert list \<Rightarrow> alert list option" where
  "make_room mx xs = (if length xs \<ge> mx then make_room mx (butlast xs) else Some xs)"

definition first_open_match :: "alert \<Rightarrow> alert list \<Rightarrow> nat option" where
  "first_open_match a xs =
     find (\<lambda>i. alert_matches (xs ! i) a \<and> \<not> at_acknowledged (xs ! i)) [0..<min 10 (length xs)]"

definition add_alert :: "nat \<Rightarrow> alert \<Rightarrow> alert_engine \<Rightarrow> alert_engine option" where
  "add_alert unix a s =
     (case first_open_match a (en_alerts s) of
        Some i \<Rightarrow> Some (s\<lparr>en_alerts := (en_alerts s)[i := increment_occurrence unix (en_alerts s ! i)]\<rparr>)
      | None \<Rightarrow>
          (case make_room (an_max_alerts (en_config s)) (en_alerts s) of
             None \<Rightarrow> None
           | Some xs \<Rightarrow> Some (s\<lparr>en_alerts := a # xs, en_counter := en_counter s + 1\<rparr>)))"

text \<open>One event against the rules; the result has the alerts for the webhook, in order.\<close>

fun process_rules :: "(nat \<Rightarrow> string) \<Rightarrow> nat \<Rightarrow> nat \<Rightarrow> audit_event \<Rightarrow> alert_rule list \<Rightarrow> alert_engine
    \<Rightarrow> (alert list \<times> alert_engine) option" where
  "process_rules uuid now unix ev [] s = Some ([], s)"
| "process_rules uuid now unix ev (r # rs) s =
     (if matches_rule r ev then
        (case should_deduplicate now (ar_name r) s of
           (True, s) \<Rightarrow> process_rules uuid now unix ev rs s
         | (False, s) \<Rightarrow>
             (let a = alert_new (uuid (en_drawn s)) unix (ar_name r) (ar_severity r) (format_message r ev) in
              case add_alert unix a (s\<lparr>en_drawn := en_drawn s + 1\<rparr>) of
                None \<Rightarrow> None
              | Some s \<Rightarrow>
                  (case process_rules uuid now unix ev rs s of
                     None \<Rightarrow> None
                   | Some (as, s) \<Rightarrow> Some (a # as, s))))
      else process_rules uuid now unix ev rs s)"

definition process_event :: "(nat \<Rightarrow> string) \<Rightarrow> nat \<Rightarrow> nat \<Rightarrow> audit_event \<Rightarrow> alert_engine \<Rightarrow> (alert list \<times> alert_engine) option" where
  "process_event uuid now unix ev s = process_rules uuid now unix ev (an_rules (en_config s)) s"

text \<open>The webhook: \<open>ok\<close> says which attempts succeed; the result is whether one did and the pauses
  between the attempts in milliseconds.\<close>

definition backoff_ms :: "nat \<Rightarrow> u64" where
  "backoff_ms retries = push_bit (min retries 20) 100"

function webhook_loop :: "(nat \<Rightarrow> bool) \<Rightarrow> nat \<Rightarrow> nat \<Rightarrow> bool \<times> u64 list" where
  "webhook_loop ok limit retries =
     (if ok retries then (True, [])
      else if Suc retries \<ge> limit then (False, [])
      else case webhook_loop ok limit (Suc retries) of (r, pauses) \<Rightarrow> (r, backoff_ms (Suc retries) # pauses))"
  by pat_completeness auto

termination webhook_loop
  by (relation "measure (\<lambda>(ok, limit, retries). limit - retries)") auto

declare webhook_loop.simps [simp del]

definition send_webhook :: "(nat \<Rightarrow> bool) \<Rightarrow> webhook_config \<Rightarrow> bool \<times> u64 list" where
  "send_webhook ok w = webhook_loop ok (wh_retries w) 0"

definition recent_alerts :: "nat \<Rightarrow> alert_engine \<Rightarrow> alert list" where
  "recent_alerts n s = take n (en_alerts s)"

fun acknowledge_first :: "string \<Rightarrow> alert list \<Rightarrow> bool \<times> alert list" where
  "acknowledge_first uuid [] = (False, [])"
| "acknowledge_first uuid (a # as) =
     (if at_id a = uuid then (True, a\<lparr>at_acknowledged := True\<rparr> # as)
      else case acknowledge_first uuid as of (r, as) \<Rightarrow> (r, a # as))"

definition acknowledge :: "string \<Rightarrow> alert_engine \<Rightarrow> bool \<times> alert_engine" where
  "acknowledge uuid s = (case acknowledge_first uuid (en_alerts s) of (r, as) \<Rightarrow> (r, s\<lparr>en_alerts := as\<rparr>))"

definition acknowledge_all :: "alert_engine \<Rightarrow> alert_engine" where
  "acknowledge_all s = s\<lparr>en_alerts := map (\<lambda>a. a\<lparr>at_acknowledged := True\<rparr>) (en_alerts s)\<rparr>"

definition clear_alerts :: "alert_engine \<Rightarrow> alert_engine" where
  "clear_alerts s = s\<lparr>en_alerts := []\<rparr>"

section \<open>Room for alerts\<close>

lemma make_room_pos: "make_room mx xs = Some ys \<Longrightarrow> mx \<noteq> 0"
proof (rule make_room.raw_induct [of "\<lambda>mx xs ys. mx \<noteq> 0" mx xs ys])
  fix f :: "nat \<Rightarrow> alert list \<Rightarrow> alert list option" and mx xs ys
  assume "\<And>mx xs ys. f mx xs = Some ys \<Longrightarrow> mx \<noteq> 0"
    "(if mx \<le> length xs then f mx (butlast xs) else Some xs) = Some ys"
  then show "mx \<noteq> 0" by (cases "mx \<le> length xs") auto
qed

lemma make_room_zero: "make_room 0 xs = None"
  using make_room_pos [of 0 xs] by (cases "make_room 0 xs") auto

lemma make_room_take: "mx > 0 \<Longrightarrow> make_room mx xs = Some (take (mx - 1) xs)"
proof (induction xs rule: rev_induct)
  case Nil
  then show ?case by (simp add: make_room.simps)
next
  case (snoc x xs)
  then show ?case by (subst make_room.simps) auto
qed

lemma add_alert_ok:
  assumes "an_max_alerts (en_config s) > 0" "length (en_alerts s) \<le> an_max_alerts (en_config s)"
  shows "\<exists>s'. add_alert unix a s = Some s' \<and> length (en_alerts s') \<le> an_max_alerts (en_config s) \<and>
    en_config s' = en_config s \<and> en_dedup s' = en_dedup s"
  using assms by (auto simp: add_alert_def make_room_take split: option.split)

lemma should_deduplicate_sel:
  "should_deduplicate now name s = (b, s') \<Longrightarrow> en_config s' = en_config s \<and> en_alerts s' = en_alerts s"
  by (auto simp: should_deduplicate_def split: option.splits if_splits)

lemma process_rules_ok:
  assumes "an_max_alerts (en_config s) > 0" "length (en_alerts s) \<le> an_max_alerts (en_config s)"
  shows "\<exists>as s'. process_rules uuid now unix ev rs s = Some (as, s') \<and>
    length (en_alerts s') \<le> an_max_alerts (en_config s) \<and> en_config s' = en_config s"
  using assms
proof (induction rs arbitrary: s)
  case (Cons r rs)
  show ?case
  proof (cases "matches_rule r ev")
    case True
    obtain b s1 where d: "should_deduplicate now (ar_name r) s = (b, s1)" by fastforce
    note sel = should_deduplicate_sel [OF d]
    show ?thesis
    proof (cases b)
      case True
      then show ?thesis using Cons.IH [of s1] Cons.prems sel d \<open>matches_rule r ev\<close> by simp
    next
      case False
      let ?s = "s1\<lparr>en_drawn := en_drawn s1 + 1\<rparr>"
      let ?a = "alert_new (uuid (en_drawn s1)) unix (ar_name r) (ar_severity r) (format_message r ev)"
      obtain s2 where s2: "add_alert unix ?a ?s = Some s2" "length (en_alerts s2) \<le> an_max_alerts (en_config s)"
        "en_config s2 = en_config s"
        using add_alert_ok [of ?s unix ?a] Cons.prems sel by auto
      then obtain as s3 where "process_rules uuid now unix ev rs s2 = Some (as, s3)"
        "length (en_alerts s3) \<le> an_max_alerts (en_config s)" "en_config s3 = en_config s"
        using Cons.IH [of s2] Cons.prems(1) by auto
      then show ?thesis using s2(1) d False \<open>matches_rule r ev\<close> by (simp add: Let_def)
    qed
  qed (use Cons in simp)
qed simp

text \<open>
  With room for at least one alert the engine handles every event, and never holds more
  alerts than configured.
\<close>

theorem alerts_stay_bounded:
  assumes "an_max_alerts (en_config s) > 0" "length (en_alerts s) \<le> an_max_alerts (en_config s)"
  shows "\<exists>as s'. process_event uuid now unix ev s = Some (as, s') \<and>
    length (en_alerts s') \<le> an_max_alerts (en_config s') \<and> en_config s' = en_config s"
  using process_rules_ok [OF assms] by (metis process_event_def)

text \<open>
  With \<^verbatim>\<open>max_alerts: 0\<close>, which no check refuses, the first event that a rule matches hangs the engine:
  the loop that makes room never ends.
\<close>

theorem no_room_hangs_engine:
  assumes "an_max_alerts c = 0" "r \<in> set (an_rules c)" "matches_rule r ev"
  shows "process_event uuid now unix ev (engine_new c) = None"
proof -
  have "process_rules uuid now unix ev rs s = None"
    if "an_max_alerts (en_config s) = 0" "en_alerts s = []" "en_dedup s = Map.empty" "r \<in> set rs" for rs s
    using that
  proof (induction rs)
    case (Cons q rs)
    show ?case
    proof (cases "matches_rule q ev")
      case True
      then show ?thesis using Cons.prems
        by (simp add: should_deduplicate_def add_alert_def first_open_match_def make_room_zero Let_def)
    next
      case False
      then show ?thesis using Cons assms(3) by auto
    qed
  qed simp
  then show ?thesis using assms by (simp add: process_event_def engine_new_def)
qed

definition demo_rule :: alert_rule where
  "demo_rule = \<lparr>ar_name = ''acl'', ar_condition = SecurityEvent ''acl_denied'', ar_severity = SevError, ar_message = None\<rparr>"

definition demo_event :: audit_event where
  "demo_event = security_with_client [] AclDenied ''denied'' None None"

lemma demo_rule_sel: "ar_name demo_rule = ''acl''"
  by (simp add: demo_rule_def)

lemma demo_matches: "matches_rule demo_rule demo_event"
  by (simp add: matches_rule_def demo_rule_def demo_event_def security_with_client_def)

theorem alerts_stay_bounded_witness:
  "\<exists>as s'. process_event (\<lambda>n. show_nat n) 5 0 demo_event (engine_new (alert_config_default\<lparr>an_rules := [demo_rule]\<rparr>)) = Some (as, s') \<and>
    length (en_alerts s') \<le> an_max_alerts (en_config s')"
  using alerts_stay_bounded [of "engine_new (alert_config_default\<lparr>an_rules := [demo_rule]\<rparr>)" "\<lambda>n. show_nat n" 5 0 demo_event]
  by (auto simp: engine_new_def alert_config_default_def)

theorem no_room_hangs_engine_witness:
  "process_event (\<lambda>n. show_nat n) 5 0 demo_event (engine_new (alert_config_default\<lparr>an_rules := [demo_rule], an_max_alerts := 0\<rparr>)) = None"
  by (rule no_room_hangs_engine [where r = demo_rule]) (simp_all add: demo_matches)

section \<open>Deduplication\<close>

text \<open>A sequence of events with their instants, and the alerts it raises.\<close>

fun engine_run :: "(nat \<Rightarrow> string) \<Rightarrow> (nat \<times> nat \<times> audit_event) list \<Rightarrow> alert_engine \<Rightarrow> ((nat \<times> alert) list \<times> alert_engine) option" where
  "engine_run uuid [] s = Some ([], s)"
| "engine_run uuid ((now, unix, ev) # es) s =
     (case process_event uuid now unix ev s of
        None \<Rightarrow> None
      | Some (as, s) \<Rightarrow>
          (case engine_run uuid es s of
             None \<Rightarrow> None
           | Some (rs, s) \<Rightarrow> Some (map (Pair now) as @ rs, s)))"

definition spaced :: "nat \<Rightarrow> nat \<times> alert \<Rightarrow> nat \<times> alert \<Rightarrow> bool" where
  "spaced w x y \<longleftrightarrow> (at_rule_name (snd x) = at_rule_name (snd y) \<longrightarrow> fst x + w \<le> fst y)"

text \<open>What an engine has raised so far shows in its table: the alerts are spaced and the table has the
  instants of the last ones, none of them in the future.\<close>

definition dedup_tracks :: "nat \<Rightarrow> nat \<Rightarrow> (nat \<times> alert) list \<Rightarrow> (string \<rightharpoonup> nat) \<Rightarrow> bool" where
  "dedup_tracks w now raised d \<longleftrightarrow> sorted_wrt (spaced w) raised \<and>
     (\<forall>(t, a) \<in> set raised. \<exists>u. d (at_rule_name a) = Some u \<and> t \<le> u) \<and> (\<forall>n u. d n = Some u \<longrightarrow> u \<le> now)"

lemma add_alert_dedup: "add_alert unix a s = Some s' \<Longrightarrow> en_dedup s' = en_dedup s \<and> en_config s' = en_config s"
  by (auto simp: add_alert_def split: option.splits)

lemma tracks_fire:
  assumes "dedup_tracks w now raised (en_dedup s)" "should_deduplicate now name s = (False, s')"
    "w = an_dedup_window_secs (en_config s) * 1000000000" "w > 0" "at_rule_name a = name"
  shows "dedup_tracks w now (raised @ [(now, a)]) (en_dedup s')"
proof -
  have d: "en_dedup s' = (en_dedup s)(name \<mapsto> now)"
    using assms(2) by (auto simp: should_deduplicate_def split: option.splits if_splits)
  have "t + w \<le> now" if r: "(t, b) \<in> set raised" "at_rule_name b = name" for t b
  proof -
    obtain u where u: "en_dedup s name = Some u" "t \<le> u" using assms(1) r unfolding dedup_tracks_def by blast
    then have "u \<le> now" using assms(1) by (simp add: dedup_tracks_def)
    moreover have "\<not> now - u < w" using u assms(2,3) by (auto simp: should_deduplicate_def split: if_splits)
    ultimately show ?thesis using u(2) by linarith
  qed
  then have "sorted_wrt (spaced w) (raised @ [(now, a)])"
    using assms(1,5) by (auto simp: sorted_wrt_append dedup_tracks_def spaced_def)
  moreover have "\<forall>(t, b) \<in> set (raised @ [(now, a)]). \<exists>u. en_dedup s' (at_rule_name b) = Some u \<and> t \<le> u"
    using assms(1,5) unfolding d dedup_tracks_def by fastforce
  moreover have "\<forall>n u. en_dedup s' n = Some u \<longrightarrow> u \<le> now" using assms(1) by (auto simp: d dedup_tracks_def)
  ultimately show ?thesis by (simp add: dedup_tracks_def)
qed

lemma tracks_rules:
  assumes "process_rules uuid now unix ev rs s = Some (as, s')" "dedup_tracks w now raised (en_dedup s)"
    "w = an_dedup_window_secs (en_config s) * 1000000000" "w > 0"
  shows "dedup_tracks w now (raised @ map (Pair now) as) (en_dedup s') \<and> en_config s' = en_config s"
  using assms
proof (induction rs arbitrary: s raised as)
  case (Cons r rs)
  show ?case
  proof (cases "matches_rule r ev")
    case True
    obtain b s1 where d: "should_deduplicate now (ar_name r) s = (b, s1)" by fastforce
    note sel = should_deduplicate_sel [OF d]
    show ?thesis
    proof (cases b)
      case b: True
      then have "s1 = s" using d by (auto simp: should_deduplicate_def split: option.splits if_splits)
      then show ?thesis using Cons.IH [of s as raised] Cons.prems d b True by simp
    next
      case False
      let ?a = "alert_new (uuid (en_drawn s1)) unix (ar_name r) (ar_severity r) (format_message r ev)"
      obtain s2 as' where s2: "add_alert unix ?a (s1\<lparr>en_drawn := en_drawn s1 + 1\<rparr>) = Some s2"
        "process_rules uuid now unix ev rs s2 = Some (as', s')" "as = ?a # as'"
        using Cons.prems(1) True d False by (auto simp: Let_def split: option.splits)
      note e = add_alert_dedup [OF s2(1)]
      have "dedup_tracks w now (raised @ [(now, ?a)]) (en_dedup s2)"
        using tracks_fire [OF Cons.prems(2) _ Cons.prems(3,4), of "ar_name r" s1 ?a] d False e
        by (simp add: alert_new_def)
      with Cons.IH [OF s2(2), of "raised @ [(now, ?a)]"] Cons.prems(3,4) e sel show ?thesis by (simp add: s2(3))
    qed
  qed (use Cons in simp)
qed simp

lemma tracked_later: "dedup_tracks w now raised d \<Longrightarrow> now \<le> now' \<Longrightarrow> dedup_tracks w now' raised d"
  by (auto simp: dedup_tracks_def intro: order_trans)

lemma tracks_run:
  assumes "engine_run uuid es s = Some (rs, s')" "dedup_tracks w t0 raised (en_dedup s)" "sorted (t0 # map fst es)"
    "w = an_dedup_window_secs (en_config s) * 1000000000" "w > 0"
  shows "sorted_wrt (spaced w) (raised @ rs)"
  using assms
proof (induction es arbitrary: s rs raised t0)
  case Nil
  then show ?case by (simp add: dedup_tracks_def)
next
  case (Cons e es)
  obtain now unix ev where e: "e = (now, unix, ev)" by (cases e)
  obtain as s1 rs' where r: "process_event uuid now unix ev s = Some (as, s1)" "engine_run uuid es s1 = Some (rs', s')"
    "rs = map (Pair now) as @ rs'"
    using Cons.prems(1) by (auto simp: e split: option.splits)
  have "dedup_tracks w now raised (en_dedup s)" using tracked_later [OF Cons.prems(2)] Cons.prems(3) by (simp add: e)
  from tracks_rules [OF r(1) [unfolded process_event_def] this Cons.prems(4,5)]
  have "dedup_tracks w now (raised @ map (Pair now) as) (en_dedup s1)" "en_config s1 = en_config s" by auto
  with Cons.IH [OF r(2), of now "raised @ map (Pair now) as"] Cons.prems(3-5) show ?case by (simp add: e r(3))
qed

text \<open>
  C34: Alerts of one rule are spaced: over any sequence of events in the order of time, two alerts that
  an engine raises for the same rule are at least the deduplication window apart.
\<close>

theorem alerts_of_a_rule_are_spaced:
  assumes "engine_run uuid es (engine_new c) = Some (raised, s)" "sorted (map fst es)"
    and "i < j" "j < length raised" "at_rule_name (snd (raised ! i)) = at_rule_name (snd (raised ! j))"
    and "an_dedup_window_secs c > 0"
  shows "fst (raised ! i) + an_dedup_window_secs c * 1000000000 \<le> fst (raised ! j)"
proof -
  let ?w = "an_dedup_window_secs c * 1000000000"
  have "dedup_tracks ?w 0 [] (en_dedup (engine_new c))" by (simp add: dedup_tracks_def engine_new_def)
  from tracks_run [OF assms(1) this] assms(2,6) have "sorted_wrt (spaced ?w) raised"
    by (simp add: engine_new_def)
  from sorted_wrt_nth_less [OF this assms(3,4)] assms(5) show ?thesis by (simp add: spaced_def)
qed

definition spaced_config :: alert_config where
  "spaced_config = alert_config_default\<lparr>an_rules := [demo_rule], an_dedup_window_secs := 1\<rparr>"

theorem alerts_of_a_rule_are_spaced_witness:
  "\<exists>raised s. engine_run show_nat [(0, 0, demo_event), (5, 0, demo_event), (2000000000, 2, demo_event)] (engine_new spaced_config) =
      Some (raised, s) \<and> length raised = 2 \<and> fst (raised ! 0) + 1000000000 \<le> fst (raised ! 1)"
proof -
  let ?es = "[(0, 0, demo_event), (5, 0, demo_event), (2000000000, 2, demo_event)]"
  obtain a b s where r: "engine_run show_nat ?es (engine_new spaced_config) = Some ([(0, a), (2000000000, b)], s)"
    "at_rule_name a = ''acl''" "at_rule_name b = ''acl''"
    by (simp add: demo_rule_sel process_event_def engine_new_def spaced_config_def alert_config_default_def demo_matches
        should_deduplicate_def add_alert_def make_room_take first_open_match_def alert_matches_def alert_new_def
        upt_rec increment_occurrence_def Let_def split: option.split)
  then show ?thesis
    using alerts_of_a_rule_are_spaced [OF r(1), of 0 1] by (auto simp: spaced_config_def)
qed

section \<open>The webhook\<close>

lemma webhook_loop_result:
  "fst (webhook_loop ok limit r) \<longleftrightarrow> (\<exists>k. r \<le> k \<and> k < max (Suc r) limit \<and> ok k)"
proof (induction ok limit r rule: webhook_loop.induct)
  case (1 ok limit r)
  show ?case
  proof (cases "ok r \<or> Suc r \<ge> limit")
    case True
    then show ?thesis by (subst webhook_loop.simps) (auto simp: le_less_Suc_eq max_def le_antisym)
  next
    case False
    then have "fst (webhook_loop ok limit r) = fst (webhook_loop ok limit (Suc r))"
      by (subst webhook_loop.simps) (simp split: prod.split)
    also have "\<dots> \<longleftrightarrow> (\<exists>k. Suc r \<le> k \<and> k < max (Suc (Suc r)) limit \<and> ok k)"
      using 1 False by (auto simp: not_le)
    also have "\<dots> \<longleftrightarrow> (\<exists>k. r \<le> k \<and> k < max (Suc r) limit \<and> ok k)"
    proof -
      have "max (Suc (Suc r)) limit = limit" "max (Suc r) limit = limit" using False by auto
      then show ?thesis using False by (metis Suc_leD Suc_leI le_neq_implies_less)
    qed
    finally show ?thesis .
  qed
qed

lemma webhook_loop_pauses: "length (snd (webhook_loop ok limit r)) \<le> limit - Suc r"
proof (induction ok limit r rule: webhook_loop.induct)
  case (1 ok limit r)
  then show ?case by (subst webhook_loop.simps) (auto split: prod.split)
qed

text \<open>A delivery is tried at least once and at most as often as configured, until it succeeds.\<close>

theorem webhook_delivers_iff_an_attempt_succeeds:
  "(fst (send_webhook ok w) \<longleftrightarrow> (\<exists>k < max 1 (wh_retries w). ok k)) \<and> length (snd (send_webhook ok w)) < max 1 (wh_retries w)"
  using webhook_loop_result [of ok "wh_retries w" 0] webhook_loop_pauses [of ok "wh_retries w" 0]
  by (auto simp: send_webhook_def max_def)

end
