(* ===== verification/Set_Export.thy ===== *)
theory Set_Export
  imports Ip_Net Flow_Plugins Config_Value
begin

text \<open>
  The executables of \<^verbatim>\<open>src/src/plugins/executable\<close> that hand the addresses of a response to the
  system's packet filter: \<^verbatim>\<open>ipset.rs\<close>, \<^verbatim>\<open>nftset.rs\<close> and \<^verbatim>\<open>ros_addrlist.rs\<close>. An execution returns the
  commands (or HTTP requests) it issues next to the context; the exit status of a command is only
  logged by the code and has no effect here. The HTTP client is a parameter.

  Exported prefixes denote the network of the answer at the configured length, and the byte loop
  of the IPv6 prefix is a mask of the address; the length read by the short form is an \<^verbatim>\<open>i32\<close> cut to
  eight bits, so that some lengths out of range export everything.
\<close>

section \<open>Reading the short forms\<close>

text \<open>\<^verbatim>\<open>str::parse::<i32>\<close>, with the texts of its errors.\<close>

fun parse_i32_digits :: "bool \<Rightarrow> int \<Rightarrow> string \<Rightarrow> string + int" where
  "parse_i32_digits neg acc [] = Inr acc"
| "parse_i32_digits neg acc (c # cs) =
     (case digit_val c of
        None \<Rightarrow> Inl ''invalid digit found in string''
      | Some d \<Rightarrow>
          let v = (if neg then 10 * acc - int d else 10 * acc + int d) in
          if v > 2147483647 then Inl ''number too large to fit in target type''
          else if v < - 2147483648 then Inl ''number too small to fit in target type''
          else parse_i32_digits neg v cs)"

definition parse_i32 :: "string \<Rightarrow> string + int" where
  "parse_i32 s =
     (case s of
        [] \<Rightarrow> Inl ''cannot parse integer from empty string''
      | c # cs \<Rightarrow>
          if c = CHR ''+'' \<or> c = CHR ''-''
          then (if cs = [] then Inl ''invalid digit found in string'' else parse_i32_digits (c = CHR ''-'') 0 cs)
          else parse_i32_digits False 0 s)"

text \<open>\<^verbatim>\<open>slice::chunks\<close>.\<close>

function chunks :: "nat \<Rightarrow> 'a list \<Rightarrow> 'a list list" where
  "chunks n xs = (if n = 0 \<or> xs = [] then [] else take n xs # chunks n (drop n xs))"
  by pat_completeness auto

termination chunks
  by (relation "measure (\<lambda>(n, xs). length xs)") auto

declare chunks.simps [simp del]

definition respaced :: "nat \<Rightarrow> string list \<Rightarrow> string" where
  "respaced n parts = join_with (CHR '' '') (map (join_with (CHR '','')) (chunks n parts))"

definition get_pairs :: "string \<Rightarrow> ctx \<Rightarrow> (string \<times> string) list option" where
  "get_pairs k c = (case metadata c k of Some (MPairs ps) \<Rightarrow> Some ps | _ \<Rightarrow> None)"

section \<open>ipset\<close>

record ip_set_args =
  set_name4 :: "string option"
  set_name6 :: "string option"
  mask4 :: "u8 option"
  mask6 :: "u8 option"

definition ip_set_args_default :: ip_set_args where
  "ip_set_args_default = \<lparr>set_name4 = None, set_name6 = None, mask4 = Some 24, mask6 = Some 32\<rparr>"

fun ipset_fields :: "string list \<Rightarrow> ip_set_args \<Rightarrow> ip_set_args result" where
  "ipset_fields [] args = Inr args"
| "ipset_fields (f # fs) args =
     (let ss = split_on (CHR '','') f in
      if length ss \<noteq> 3
      then Inl (Other (''invalid args, expect 3 fields, got '' @ show_nat (length ss)))
      else case parse_i32 (ss ! 2) of
        Inl e \<Rightarrow> Inl (Other (''invalid mask, '' @ e))
      | Inr m \<Rightarrow>
          if ss ! 1 = ''inet''
          then ipset_fields fs (args\<lparr>mask4 := Some (word_of_int m), set_name4 := Some (ss ! 0)\<rparr>)
          else if ss ! 1 = ''inet6''
          then ipset_fields fs (args\<lparr>mask6 := Some (word_of_int m), set_name6 := Some (ss ! 0)\<rparr>)
          else Inl (Other (''invalid set family, '' @ ss ! 1)))"

definition ipset_quick_setup :: "string \<Rightarrow> ip_set_args result" where
  "ipset_quick_setup s =
     (let fs = split_whitespace s in
      if length fs > 2 then Inl (Other (''expect no more than 2 fields, got '' @ show_nat (length fs)))
      else ipset_fields fs ip_set_args_default)"

definition ipset_exec_setup :: "string \<Rightarrow> string \<Rightarrow> ip_set_args result" where
  "ipset_exec_setup pfx exec_str =
     (if pfx \<noteq> ''ipset'' then Inl (bad_prefix pfx ''ipset'')
      else let parts = split_on (CHR '','') exec_str in
        if length parts mod 3 \<noteq> 0
        then Inl (Config (''Invalid ipset arguments: expected multiples of 3 comma-separated values, got ''
                          @ show_nat (length parts)))
        else ipset_quick_setup (respaced 3 parts))"

definition make_v4_prefix :: "ipv4 \<Rightarrow> u8 \<Rightarrow> string" where
  "make_v4_prefix ip m =
     (let m = min m 32 in
      if m = 0 then ''0.0.0.0/0''
      else let net = ip AND push_bit (32 - unat m) (NOT 0) in
        replace_all '' '' '''' (v4_to_string net @ '' /'' @ show_nat (unat m)))"

text \<open>The loop over the bytes, \<open>bits\<close> being what is left of the prefix.\<close>

fun mask_bytes :: "nat \<Rightarrow> u8 list \<Rightarrow> u8 list" where
  "mask_bytes bits [] = []"
| "mask_bytes bits (b # bs) =
     (if bits \<ge> 8 then b # mask_bytes (bits - 8) bs
      else if bits = 0 then 0 # mask_bytes 0 bs
      else (b AND push_bit (8 - bits) (NOT 0)) # mask_bytes 0 bs)"

definition make_v6_prefix :: "ipv6 \<Rightarrow> u8 \<Rightarrow> string" where
  "make_v6_prefix ip m =
     (let m = min m 128 in
      v6_to_string (v6_from_octets (mask_bytes (unat m) (v6_octets ip))) @ ''/'' @ show_nat (unat m))"

definition ipset_entry :: "ip_set_args \<Rightarrow> resource_record \<Rightarrow> (string \<times> string) list" where
  "ipset_entry p rr =
     (case rr_rdata rr of
        RD_A a \<Rightarrow>
          (case set_name4 p of
             Some n \<Rightarrow> [(n, make_v4_prefix a (case mask4 p of Some m \<Rightarrow> m | None \<Rightarrow> 24))]
           | None \<Rightarrow> [])
      | RD_AAAA a \<Rightarrow>
          (case set_name6 p of
             Some n \<Rightarrow> [(n, make_v6_prefix a (case mask6 p of Some m \<Rightarrow> m | None \<Rightarrow> 32))]
           | None \<Rightarrow> [])
      | _ \<Rightarrow> [])"

definition ipset_command :: "string \<times> string \<Rightarrow> string list" where
  "ipset_command e = [''ipset'', ''add'', fst e, snd e, ''-exist'']"

definition ipset_execute :: "ip_set_args \<Rightarrow> ctx \<Rightarrow> string list list \<times> ctx" where
  "ipset_execute p c =
     (case response c of
        None \<Rightarrow> ([], c)
      | Some resp \<Rightarrow>
          let old = (case get_pairs ''ipset_added'' c of Some ps \<Rightarrow> ps | None \<Rightarrow> []);
              to_add = foldl (\<lambda>acc rr. acc @ ipset_entry p rr) old (msg_answers resp)
          in (map ipset_command to_add,
              if to_add = [] then c else set_metadata ''ipset_added'' (MPairs to_add) c))"

section \<open>nftset\<close>

record set_args =
  table_family :: "string option"
  sa_table :: "string option"
  sa_set :: "string option"
  sa_mask :: "u8 option"

record nft_set_args =
  nft_ipv4 :: "set_args option"
  nft_ipv6 :: "set_args option"

fun nftset_fields :: "string list \<Rightarrow> nft_set_args \<Rightarrow> nft_set_args result" where
  "nftset_fields [] args = Inr args"
| "nftset_fields (f # fs) args =
     (let ss = split_on (CHR '','') f in
      if length ss \<noteq> 5
      then Inl (InvalidConfigValue ''nftset'' f
                  (''expect 5 comma-separated fields, got '' @ show_nat (length ss)))
      else case parse_i32 (ss ! 4) of
        Inl e \<Rightarrow> Inl (InvalidConfigValue ''mask'' (ss ! 4) e)
      | Inr m \<Rightarrow>
          let sa = \<lparr>table_family = Some (ss ! 0), sa_table = Some (ss ! 1), sa_set = Some (ss ! 2),
                    sa_mask = Some (word_of_int m)\<rparr> in
          if ss ! 3 = ''ipv4_addr'' then nftset_fields fs (args\<lparr>nft_ipv4 := Some sa\<rparr>)
          else if ss ! 3 = ''ipv6_addr'' then nftset_fields fs (args\<lparr>nft_ipv6 := Some sa\<rparr>)
          else Inl (InvalidAddress (''unsupported ip type: '' @ ss ! 3)))"

definition nftset_quick_setup :: "string \<Rightarrow> nft_set_args result" where
  "nftset_quick_setup s =
     (let fs = split_whitespace s in
      if length fs > 2
      then Inl (InvalidConfigValue ''nftset'' s (''expect no more than 2 fields, got '' @ show_nat (length fs)))
      else nftset_fields fs \<lparr>nft_ipv4 = None, nft_ipv6 = None\<rparr>)"

definition nftset_exec_setup :: "string \<Rightarrow> string \<Rightarrow> nft_set_args result" where
  "nftset_exec_setup pfx exec_str =
     (if pfx \<noteq> ''nftset'' then Inl (bad_prefix pfx ''nftset'')
      else let parts = split_on (CHR '','') exec_str in
        if length parts mod 5 \<noteq> 0
        then Inl (Config (''Invalid nftset arguments: expected multiples of 5 comma-separated values, got ''
                          @ show_nat (length parts)))
        else nftset_quick_setup (respaced 5 parts))"

definition nft_make_v4_prefix :: "ipv4 \<Rightarrow> u8 \<Rightarrow> string" where
  "nft_make_v4_prefix ip m =
     (let m = min m 32 in
      if m = 0 then ''0.0.0.0/0''
      else let net = ip AND push_bit (32 - unat m) (NOT 0) in
        replace_all '' '' '''' (v4_to_string net @ '' /'' @ show_nat (unat m)))"

definition nft_make_v6_prefix :: "ipv6 \<Rightarrow> u8 \<Rightarrow> string" where
  "nft_make_v6_prefix ip m =
     (let m = min m 128 in
      v6_to_string (v6_from_octets (mask_bytes (unat m) (v6_octets ip))) @ ''/'' @ show_nat (unat m))"

definition nft_entry4 :: "nft_set_args \<Rightarrow> resource_record \<Rightarrow> (string \<times> string) list" where
  "nft_entry4 p rr =
     (case (rr_rdata rr, nft_ipv4 p) of
        (RD_A a, Some sa) \<Rightarrow>
          (case sa_set sa of
             Some n \<Rightarrow> [(n, nft_make_v4_prefix a (case sa_mask sa of Some m \<Rightarrow> m | None \<Rightarrow> 24))]
           | None \<Rightarrow> [])
      | _ \<Rightarrow> [])"

definition nft_entry6 :: "nft_set_args \<Rightarrow> resource_record \<Rightarrow> (string \<times> string) list" where
  "nft_entry6 p rr =
     (case (rr_rdata rr, nft_ipv6 p) of
        (RD_AAAA a, Some sa) \<Rightarrow>
          (case sa_set sa of
             Some n \<Rightarrow> [(n, nft_make_v6_prefix a (case sa_mask sa of Some m \<Rightarrow> m | None \<Rightarrow> 48))]
           | None \<Rightarrow> [])
      | _ \<Rightarrow> [])"

text \<open>One \<^verbatim>\<open>nft\<close> command per entry, issued only when the family and the table are configured.\<close>

definition nft_commands :: "set_args option \<Rightarrow> (string \<times> string) list \<Rightarrow> string list list" where
  "nft_commands sa added =
     (case sa of
        Some a \<Rightarrow>
          (case (table_family a, sa_table a) of
             (Some fam, Some tab) \<Rightarrow>
               map (\<lambda>(n, cidr). [''nft'', ''add'', ''element'', fam, tab, n, ''{'', cidr, ''}'']) added
           | _ \<Rightarrow> [])
      | None \<Rightarrow> [])"

definition record_pairs :: "string \<Rightarrow> (string \<times> string) list \<Rightarrow> ctx \<Rightarrow> ctx" where
  "record_pairs k ps c = (if ps = [] then c else set_metadata k (MPairs ps) c)"

definition nftset_execute :: "nft_set_args \<Rightarrow> ctx \<Rightarrow> string list list \<times> ctx" where
  "nftset_execute p c =
     (case response c of
        None \<Rightarrow> ([], c)
      | Some resp \<Rightarrow>
          let added4 = concat (map (nft_entry4 p) (msg_answers resp));
              added6 = concat (map (nft_entry6 p) (msg_answers resp))
          in (nft_commands (nft_ipv4 p) added4 @ nft_commands (nft_ipv6 p) added6,
              record_pairs ''nftset_added_v6'' added6 (record_pairs ''nftset_added_v4'' added4 c)))"

section \<open>RouterOS address lists\<close>

record ros_addrlist =
  ro_list_name :: string
  ro_track_responses :: bool
  ro_server :: "string option"
  ro_user :: "string option"
  ro_passwd :: "string option"
  ro_mask4 :: "u8 option"
  ro_mask6 :: "u8 option"

definition ros_new :: "string \<Rightarrow> ros_addrlist" where
  "ros_new n = \<lparr>ro_list_name = n, ro_track_responses = True, ro_server = None, ro_user = None,
     ro_passwd = None, ro_mask4 = None, ro_mask6 = None\<rparr>"

definition ros_track_responses :: "bool \<Rightarrow> ros_addrlist \<Rightarrow> ros_addrlist" where
  "ros_track_responses b p = p\<lparr>ro_track_responses := b\<rparr>"

definition with_server :: "string \<Rightarrow> ros_addrlist \<Rightarrow> ros_addrlist" where
  "with_server s p = p\<lparr>ro_server := Some s\<rparr>"

definition with_auth :: "string \<Rightarrow> string \<Rightarrow> ros_addrlist \<Rightarrow> ros_addrlist" where
  "with_auth u w p = p\<lparr>ro_user := Some u, ro_passwd := Some w\<rparr>"

definition with_masks :: "u8 option \<Rightarrow> u8 option \<Rightarrow> ros_addrlist \<Rightarrow> ros_addrlist" where
  "with_masks m4 m6 p = p\<lparr>ro_mask4 := m4, ro_mask6 := m6\<rparr>"

definition with_mask4 :: "u8 \<Rightarrow> ros_addrlist \<Rightarrow> ros_addrlist" where
  "with_mask4 m p = p\<lparr>ro_mask4 := Some m\<rparr>"

definition with_mask6 :: "u8 \<Rightarrow> ros_addrlist \<Rightarrow> ros_addrlist" where
  "with_mask6 m p = p\<lparr>ro_mask6 := Some m\<rparr>"

fun extract_ip_from_rdata :: "rdata \<Rightarrow> ip_addr option" where
  "extract_ip_from_rdata (RD_A a) = Some (V4 a)"
| "extract_ip_from_rdata (RD_AAAA a) = Some (V6 a)"
| "extract_ip_from_rdata _ = None"

definition extract_ips :: "ctx \<Rightarrow> ip_addr list" where
  "extract_ips c =
     (case response c of
        None \<Rightarrow> []
      | Some resp \<Rightarrow> List.map_filter (\<lambda>rr. extract_ip_from_rdata (rr_rdata rr)) (msg_answers resp))"

text \<open>A request to the router, and the HTTP client: \<open>hc_build\<close> is the error of building it,
  \<open>hc_post\<close> the status of a request (\<open>Inl\<close>: the transport's error), \<open>hc_status\<close> the text of a status.\<close>

record ros_request =
  rq_url :: string
  rq_address :: string
  rq_list :: string
  rq_comment :: string
  rq_auth :: "(string \<times> string) option"

record http_client =
  hc_build :: "string option"
  hc_post :: "ros_request \<Rightarrow> string + nat"
  hc_status :: "nat \<Rightarrow> string"

definition ros_request_for :: "ros_addrlist \<Rightarrow> string \<Rightarrow> string \<Rightarrow> ip_addr \<Rightarrow> ros_request" where
  "ros_request_for p srv domain ip =
     \<lparr>rq_url = trim_end_matches (CHR ''/'') srv @ ''/rest/'' @ (case ip of V6 _ \<Rightarrow> ''ipv6'' | V4 _ \<Rightarrow> ''ip'')
                 @ ''/firewall/address-list/add'',
      rq_address = ip_to_string ip, rq_list = ro_list_name p,
      rq_comment = ''[lazydns] domain: '' @ domain,
      rq_auth = (case (ro_user p, ro_passwd p) of (Some u, Some w) \<Rightarrow> Some (u, w) | _ \<Rightarrow> None)\<rparr>"

definition ros_status :: "http_client \<Rightarrow> ip_addr \<Rightarrow> string + nat \<Rightarrow> error option" where
  "ros_status h ip r =
     (case r of
        Inl e \<Rightarrow> Some (Other (''http request failed: '' @ e))
      | Inr s \<Rightarrow>
          if s = 200 \<or> s = 400 then None
          else if s = 401 then Some (Other (''unauthorized when adding '' @ ip_to_string ip))
          else if s = 500 then Some (Other (''internal server error when adding '' @ ip_to_string ip))
          else Some (Other (''unexpected status code '' @ hc_status h s @ '' when adding '' @ ip_to_string ip)))"

fun notify_ips :: "http_client \<Rightarrow> ros_addrlist \<Rightarrow> string \<Rightarrow> string \<Rightarrow> ip_addr list \<Rightarrow> ros_request list \<times> error option" where
  "notify_ips h p srv domain [] = ([], None)"
| "notify_ips h p srv domain (ip # ips) =
     (let r = ros_request_for p srv domain ip in
      case ros_status h ip (hc_post h r) of
        Some e \<Rightarrow> ([r], Some e)
      | None \<Rightarrow> (case notify_ips h p srv domain ips of (rs, e) \<Rightarrow> (r # rs, e)))"

definition notify_server :: "http_client \<Rightarrow> ros_addrlist \<Rightarrow> ip_addr list \<Rightarrow> string \<Rightarrow> ros_request list \<times> error option" where
  "notify_server h p ips domain =
     (case hc_build h of
        Some e \<Rightarrow> ([], Some (Other (''failed build http client: '' @ e)))
      | None \<Rightarrow> (case ro_server p of Some srv \<Rightarrow> notify_ips h p srv domain ips | None \<Rightarrow> ([], None)))"

definition ros_execute :: "http_client \<Rightarrow> ros_addrlist \<Rightarrow> ctx \<Rightarrow> ros_request list" where
  "ros_execute h p c =
     (if \<not> ro_track_responses p then []
      else let ips = extract_ips c in
        if ips = [] then []
        else let domain = (case msg_questions (request c) of q # _ \<Rightarrow> trim_end_matches (CHR ''.'') (qname q) | [] \<Rightarrow> '''')
             in fst (notify_server h p ips domain))"

definition arg_i64 :: "string \<Rightarrow> (string \<rightharpoonup> yaml) \<Rightarrow> int option" where
  "arg_i64 key args = (case args key of Some (YNumber n) \<Rightarrow> as_i64 n | _ \<Rightarrow> None)"

definition ros_init :: "plugin_config \<Rightarrow> ros_addrlist result" where
  "ros_init config =
     (let args = effective_args config;
          p = ros_new (case arg_str ''addrlist'' args of Some s \<Rightarrow> s | None \<Rightarrow> ''default'');
          p = (case arg_str ''server'' args of Some s \<Rightarrow> with_server s p | None \<Rightarrow> p);
          p = (case (arg_str ''user'' args, arg_str ''passwd'' args) of
                 (Some u, Some w) \<Rightarrow> with_auth u w p | _ \<Rightarrow> p);
          p = (case arg_i64 ''mask4'' args of Some m \<Rightarrow> with_mask4 (word_of_int m) p | None \<Rightarrow> p);
          p = (case arg_i64 ''mask6'' args of Some m \<Rightarrow> with_mask6 (word_of_int m) p | None \<Rightarrow> p)
      in Inr p)"

section \<open>Facts\<close>

lemma v4_to_string_plain:
  assumes "c \<in> set (v4_to_string a)"
  shows "c = CHR ''.'' \<or> digit_val c \<noteq> None"
proof -
  have "c \<in> insert (CHR ''.'') (\<Union>x\<in>set (map (\<lambda>b. show_nat (unat b)) (v4_octets a)). set x)"
    using assms set_join_with unfolding v4_to_string_def by (rule subsetD [rotated])
  then show ?thesis by (auto dest: show_nat_digits)
qed

lemma digit_val_blank [simp]: "digit_val (CHR '' '') = None" "digit_val (CHR ''/'') = None"
  by (simp_all add: digit_val_def)

text \<open>The IPv4 prefix is the masked address, in CIDR notation.\<close>

definition v4_network :: "ipv4 \<Rightarrow> nat \<Rightarrow> ipv4" where
  "v4_network a l = a AND NOT (mask (32 - l))"

definition v6_network :: "ipv6 \<Rightarrow> nat \<Rightarrow> ipv6" where
  "v6_network a l = a AND NOT (mask (128 - l))"

lemma push_bit_not_0: "push_bit n (NOT 0) = NOT (mask n :: 'a::len word)"
  by (rule bit_word_eqI) (auto simp: bit_simps)

lemma make_v4_prefix_eq:
  "make_v4_prefix a m = v4_to_string (v4_network a (min (unat m) 32)) @ ''/'' @ show_nat (min (unat m) 32)"
proof -
  have m: "unat (min m 32) = min (unat m) 32" by (simp add: min_def word_le_nat_alt)
  show ?thesis
  proof (cases "m = 0")
    case True
    moreover have "show_nat 0 = ''0''" by code_simp
    moreover from this have "v4_to_string 0 = ''0.0.0.0''"
      by (simp add: v4_to_string_def v4_octets_def)
    moreover have "v4_network a 0 = 0"
      by (rule bit_word_eqI) (auto simp: v4_network_def bit_simps)
    ultimately show ?thesis by (simp add: make_v4_prefix_def)
  next
    case False
    define net where "net = v4_network a (min (unat m) 32)"
    have nz: "min m 32 \<noteq> 0" using False by (auto simp: min_def)
    have "CHR '' '' \<notin> set (v4_to_string net)" using v4_to_string_plain by force
    moreover have "CHR '' '' \<notin> set (''/'' @ show_nat n)" for n
      using show_nat_digits [of "CHR '' ''" n] by auto
    ultimately have r: "replace_all '' '' '''' (v4_to_string net @ '' /'' @ show_nat n)
        = v4_to_string net @ ''/'' @ show_nat n" for n
      using replace_all_append_absent [of "CHR '' ''" "v4_to_string net" "''''" "''/'' @ show_nat n"]
        replace_all_absent [of "CHR '' ''" "''/'' @ show_nat n" "''''"] by simp
    have "make_v4_prefix a m = replace_all '' '' '''' (v4_to_string net @ '' /'' @ show_nat (unat (min m 32)))"
      using nz by (simp only: make_v4_prefix_def Let_def if_False push_bit_not_0 m net_def v4_network_def)
    then show ?thesis unfolding r m by (simp only: net_def)
  qed
qed

lemma nft_prefix_same: "nft_make_v4_prefix = make_v4_prefix" "nft_make_v6_prefix = make_v6_prefix"
  by (simp_all add: fun_eq_iff nft_make_v4_prefix_def make_v4_prefix_def nft_make_v6_prefix_def make_v6_prefix_def)

lemma cidr_text_v4: "l \<le> 32 \<Longrightarrow> cidr_text (v4_to_string a @ ''/'' @ show_nat l) = Some (V4 a, l)"
proof -
  assume l: "l \<le> 32"
  have "CHR ''/'' \<notin> set (v4_to_string a)" using v4_to_string_plain by force
  then have "split_once (CHR ''/'') (v4_to_string a @ CHR ''/'' # show_nat l) = Some (v4_to_string a, show_nat l)"
    by (rule split_once_append)
  then show ?thesis using l by (simp add: cidr_text_def parse_digits_show_nat)
qed

text \<open>Bits of the bytes of an address and of the loop's result.\<close>

lemma length_mask_bytes [simp]: "length (mask_bytes n bs) = length bs"
  by (induction n bs rule: mask_bytes.induct) auto

lemma bit_mask_bytes:
  "j < length bs \<Longrightarrow> i < 8 \<Longrightarrow> bit (mask_bytes n bs ! j) i \<longleftrightarrow> bit (bs ! j) i \<and> 8 * j + 7 < n + i"
proof (induction n bs arbitrary: j rule: mask_bytes.induct)
  case (2 n b bs)
  show ?case
  proof (cases j)
    case 0
    with 2(5) show ?thesis by (auto simp: bit_simps)
  next
    case (Suc k)
    with 2 show ?thesis by auto
  qed
qed simp

lemma bit_v6_octets: "j < 16 \<Longrightarrow> i < 8 \<Longrightarrow> bit (v6_octets a ! j) i \<longleftrightarrow> bit a (8 * (15 - j) + i)"
  by (simp add: v6_octets_def rev_nth bit_simps)

lemma bit_from_octets:
  "k < 128 \<Longrightarrow> bit (foldl (\<lambda>acc b. push_bit 8 acc OR ucast b) (acc :: ipv6) (bs :: u8 list)) k \<longleftrightarrow>
     (if k < 8 * length bs then bit (bs ! (length bs - 1 - k div 8)) (k mod 8) else bit acc (k - 8 * length bs))"
proof (induction bs arbitrary: k rule: rev_induct)
  case (snoc b bs)
  show ?case
  proof (cases "k < 8")
    case True
    with snoc show ?thesis by (simp add: bit_simps nth_append)
  next
    case False
    then have "\<not> bit b k" by (simp add: u8_bit_high)
    then have "\<not> bit (ucast b :: ipv6) k" by (simp add: bit_simps)
    moreover have "k div 8 = Suc ((k - 8) div 8)" "k mod 8 = (k - 8) mod 8" using False by (simp_all add: le_div_geq le_mod_geq)
    ultimately show ?thesis using False snoc.prems snoc.IH [of "k - 8"]
      by (auto simp: bit_simps nth_append)
  qed
qed simp

lemma mask_bytes_network: "n \<le> 128 \<Longrightarrow> v6_from_octets (mask_bytes n (v6_octets a)) = v6_network a n"
proof (rule bit_word_eqI)
  fix k assume n: "n \<le> 128" and "k < LENGTH(128)"
  then have k: "k < 128" by simp
  define j where "j = 15 - k div 8"
  obtain q i where q: "k div 8 = q" "k mod 8 = i" "k = 8 * q + i" "i < 8"
    by (rule that [of "k div 8" "k mod 8"]) simp_all
  have j: "j < 16" "8 * (15 - j) + k mod 8 = k" "8 * j + 7 < n + k mod 8 \<longleftrightarrow> 128 \<le> n + k"
    using k q unfolding j_def by arith+
  have "bit (v6_from_octets (mask_bytes n (v6_octets a))) k \<longleftrightarrow> bit (mask_bytes n (v6_octets a) ! j) (k mod 8)"
    using k bit_from_octets [of k 0 "mask_bytes n (v6_octets a)"] by (simp add: v6_from_octets_def j_def)
  also have "\<dots> \<longleftrightarrow> bit a k \<and> 128 \<le> n + k" using j by (simp add: bit_mask_bytes bit_v6_octets)
  also have "\<dots> \<longleftrightarrow> bit (v6_network a n) k" using k n by (auto simp: v6_network_def bit_simps)
  finally show "bit (v6_from_octets (mask_bytes n (v6_octets a))) k \<longleftrightarrow> bit (v6_network a n) k" .
qed

lemma make_v6_prefix_eq:
  "make_v6_prefix a m = v6_to_string (v6_network a (min (unat m) 128)) @ ''/'' @ show_nat (min (unat m) 128)"
proof -
  have m: "unat (min m 128) = min (unat m) 128" by (simp add: min_def word_le_nat_alt)
  show ?thesis by (simp add: make_v6_prefix_def Let_def m mask_bytes_network)
qed

lemma in_network: "in_prefix (V4 (v4_network a l)) l ip \<longleftrightarrow> in_prefix (V4 a) l ip"
proof -
  have "drop_bit (32 - l) (v4_network a l) = drop_bit (32 - l) a"
    by (rule bit_word_eqI) (auto simp: v4_network_def bit_simps dest: bit_imp_le_length)
  then show ?thesis by (cases ip) simp_all
qed

section \<open>What is exported\<close>

definition ipset_recorded :: "ctx \<Rightarrow> (string \<times> string) list" where
  "ipset_recorded c = (case get_pairs ''ipset_added'' c of Some ps \<Rightarrow> ps | None \<Rightarrow> [])"

lemma get_pairs_set [simp]: "get_pairs k (set_metadata k (MPairs ps) c) = Some ps"
  by (simp add: get_pairs_def set_metadata_def)

lemma ipset_execute_eq:
  assumes "response c = Some resp"
  shows "fst (ipset_execute p c) =
      map ipset_command (ipset_recorded c @ concat (map (ipset_entry p) (msg_answers resp)))"
    and "ipset_recorded (snd (ipset_execute p c)) =
      ipset_recorded c @ concat (map (ipset_entry p) (msg_answers resp))"
  using assms by (auto simp: ipset_execute_def ipset_recorded_def Let_def foldl_append_concat)

lemma ipset_entry_A:
  "rr_rdata rr = RD_A a \<Longrightarrow> set_name4 p = Some n \<Longrightarrow> mask4 p = Some m \<Longrightarrow>
     ipset_entry p rr = [(n, v4_to_string (v4_network a (min (unat m) 32)) @ ''/'' @ show_nat (min (unat m) 32))]"
  by (simp add: ipset_entry_def make_v4_prefix_eq)

lemma ipset_entry_AAAA:
  "rr_rdata rr = RD_AAAA a \<Longrightarrow> set_name6 p = Some n \<Longrightarrow> mask6 p = Some m \<Longrightarrow>
     ipset_entry p rr = [(n, v6_to_string (v6_network a (min (unat m) 128)) @ ''/'' @ show_nat (min (unat m) 128))]"
  by (simp add: ipset_entry_def make_v6_prefix_eq)

text \<open>
  C37: the \<^verbatim>\<open>ipset\<close> plugin issues, for every A record of the response, a command that adds to the
  IPv4 set a prefix in CIDR notation which, read back, contains exactly the addresses that agree with
  the record's address on the configured length (at most 32 bits); the commands are those of the pairs
  recorded before in the context followed by one for each address record, and they are recorded.
\<close>

theorem ipset_exports_networks:
  assumes "response c = Some resp" and "rr \<in> set (msg_answers resp)" and "rr_rdata rr = RD_A a"
    and "set_name4 p = Some n" and "mask4 p = Some m"
  defines "l \<equiv> min (unat m) 32"
  shows "(\<exists>cidr net. ipset_command (n, cidr) \<in> set (fst (ipset_execute p c)) \<and>
      cidr_text cidr = Some (V4 net, l) \<and> (\<forall>ip. in_prefix (V4 net) l ip \<longleftrightarrow> in_prefix (V4 a) l ip)) \<and>
    fst (ipset_execute p c) = map ipset_command (ipset_recorded (snd (ipset_execute p c))) \<and>
    ipset_recorded (snd (ipset_execute p c)) =
      ipset_recorded c @ concat (map (ipset_entry p) (msg_answers resp))"
proof -
  have "ipset_entry p rr = [(n, v4_to_string (v4_network a l) @ ''/'' @ show_nat l)]"
    using assms ipset_entry_A by simp
  then have "ipset_command (n, v4_to_string (v4_network a l) @ ''/'' @ show_nat l) \<in> set (fst (ipset_execute p c))"
    using assms(2) by (force simp: ipset_execute_eq(1) [OF assms(1)])
  moreover have "cidr_text (v4_to_string (v4_network a l) @ ''/'' @ show_nat l) = Some (V4 (v4_network a l), l)"
    by (rule cidr_text_v4) (simp add: l_def)
  ultimately show ?thesis using in_network ipset_execute_eq [OF assms(1)] by metis
qed

definition demo_export_answer :: resource_record where
  "demo_export_answer = rr_new ''example.com'' RT_A CL_IN 300 (RD_A (v4_new 192 0 2 77))"

definition demo_export_context :: ctx where
  "demo_export_context =
     ctx_set_response (Some (add_answer demo_export_answer message_new)) (context_new message_new)"

theorem ipset_exports_networks_witness:
  "\<exists>cidr net. ipset_command (''s'', cidr) \<in>
       set (fst (ipset_execute (ip_set_args_default\<lparr>set_name4 := Some ''s''\<rparr>) demo_export_context)) \<and>
     cidr_text cidr = Some (V4 net, 24) \<and>
     (\<forall>ip. in_prefix (V4 net) 24 ip \<longleftrightarrow> in_prefix (V4 (v4_new 192 0 2 77)) 24 ip)"
proof -
  have "response demo_export_context = Some (add_answer demo_export_answer message_new)"
    "demo_export_answer \<in> set (msg_answers (add_answer demo_export_answer message_new))"
    "rr_rdata demo_export_answer = RD_A (v4_new 192 0 2 77)"
    "set_name4 (ip_set_args_default\<lparr>set_name4 := Some ''s''\<rparr>) = Some ''s''"
    "mask4 (ip_set_args_default\<lparr>set_name4 := Some ''s''\<rparr>) = Some 24"
    by (simp_all add: demo_export_context_def demo_export_answer_def ip_set_args_default_def rr_new_def add_answer_def)
  from conjunct1 [OF ipset_exports_networks [OF this]] show ?thesis by simp
qed

section \<open>Lengths out of range\<close>

lemma parse_i32_digits_ok:
  "parse_digits n s = Some v \<Longrightarrow> v < 2147483648 \<Longrightarrow> parse_i32_digits False (int n) s = Inr (int v)"
proof (induction n s rule: parse_digits.induct)
  case (2 acc c cs)
  obtain d where d: "digit_val c = Some d" and r: "parse_digits (10 * acc + d) cs = Some v"
    using 2(2) by (auto split: option.splits)
  have "10 * acc + d \<le> v" using r by (rule parse_digits_ge)
  then show ?case using 2(1) [OF d r 2(3)] d 2(3) by (simp add: Let_def)
qed simp

lemma parse_i32_show:
  assumes "v < 2147483648"
  shows "parse_i32 (show_nat v) = Inr (int v)"
proof -
  obtain c cs where s: "show_nat v = c # cs" using show_nat_not_Nil by (cases "show_nat v") auto
  then have "digit_val c \<noteq> None" using show_nat_digits [of c v] by simp
  then have "c \<noteq> CHR ''+''" "c \<noteq> CHR ''-''" by (auto simp: digit_val_def)
  then show ?thesis
    using parse_i32_digits_ok [OF parse_digits_show_nat assms] s by (simp add: parse_i32_def)
qed

text \<open>A set name of the short form: a nonempty word without a comma.\<close>

definition set_word :: "string \<Rightarrow> bool" where
  "set_word n \<longleftrightarrow> n \<noteq> [] \<and> CHR '','' \<notin> set n \<and> (\<forall>c\<in>set n. \<not> is_whitespace c)"

lemma words_of_word: "w \<noteq> [] \<Longrightarrow> \<forall>c\<in>set w. \<not> is_whitespace c \<Longrightarrow> split_whitespace w = [w]"
  using split_whitespace_join [of "[w]"] by simp

definition short_form :: "string \<Rightarrow> nat \<Rightarrow> string" where
  "short_form n v = join_with (CHR '','') [n, ''inet'', show_nat v]"

lemma short_form_facts:
  assumes "set_word n"
  shows "split_on (CHR '','') (short_form n v) = [n, ''inet'', show_nat v]"
    and "split_whitespace (short_form n v) = [short_form n v]"
proof -
  have d: "CHR '','' \<notin> set (show_nat v)" "\<forall>c\<in>set (show_nat v). \<not> is_whitespace c"
    using show_nat_digits digit_not_whitespace by (force simp: digit_val_def)+
  have "CHR '','' \<notin> set p" if "p \<in> set [n, ''inet'', show_nat v]" for p
    using that assms d(1) by (auto simp: set_word_def)
  then show "split_on (CHR '','') (short_form n v) = [n, ''inet'', show_nat v]"
    unfolding short_form_def by (intro split_join) simp_all
  have "\<forall>c\<in>set (short_form n v). \<not> is_whitespace c"
    using assms d(2) by (auto simp: short_form_def set_word_def is_whitespace_def)
  moreover have "short_form n v \<noteq> []" by (simp add: short_form_def)
  ultimately show "split_whitespace (short_form n v) = [short_form n v]" by (rule words_of_word [rotated])
qed

lemma short_form_setup:
  assumes "set_word n" and "v < 2147483648"
  shows "ipset_exec_setup ''ipset'' (short_form n v) =
    Inr (ip_set_args_default\<lparr>mask4 := Some (of_nat v), set_name4 := Some n\<rparr>)"
proof -
  have "respaced 3 [n, ''inet'', show_nat v] = short_form n v"
    by (simp add: respaced_def chunks.simps short_form_def)
  then show ?thesis
    by (simp add: ipset_exec_setup_def ipset_quick_setup_def short_form_facts [OF assms(1)]
        parse_i32_show [OF assms(2)])
qed

text \<open>
  A prefix length of the short form is read as a signed 32-bit number and cut to eight bits: a
  multiple of 256 is accepted and becomes the length 0, with which every A record adds the whole
  IPv4 address space to the set.
\<close>

theorem wide_mask_exports_everything:
  assumes "set_word n" and "v < 2147483648" and "256 dvd v"
  shows "\<exists>p. ipset_exec_setup ''ipset'' (short_form n v) = Inr p \<and>
    (\<forall>rr a. rr_rdata rr = RD_A a \<longrightarrow> ipset_entry p rr = [(n, ''0.0.0.0/0'')])"
proof -
  obtain k where "v = 256 * k" using assms(3) by blast
  then have "(of_nat v :: u8) = of_nat 256 * of_nat k" by (simp only: of_nat_mult)
  moreover have "(of_nat 256 :: u8) = 0" by simp
  ultimately have "(of_nat v :: u8) = 0" by (simp only: mult_zero_left)
  then show ?thesis using short_form_setup [OF assms(1,2)]
    by (simp add: ipset_entry_def make_v4_prefix_def)
qed

theorem wide_mask_exports_everything_witness:
  "\<exists>p. ipset_exec_setup ''ipset'' (short_form ''lan'' 256) = Inr p \<and>
    (\<forall>rr a. rr_rdata rr = RD_A a \<longrightarrow> ipset_entry p rr = [(''lan'', ''0.0.0.0/0'')])"
proof (rule wide_mask_exports_everything)
  show "set_word ''lan''" by (simp add: set_word_def is_whitespace_def)
qed simp_all

text \<open>The form with two sets separated by a blank, which the module documentation gives, is refused
  where the plugin is named in a sequence; the form without the blank is accepted.\<close>

lemma documented_two_set_form_refused:
  "ipset_exec_setup ''ipset'' ''a,inet,24 b,inet6,48'' =
     Inl (Config ''Invalid ipset arguments: expected multiples of 3 comma-separated values, got 5'')"
  "ipset_exec_setup ''ipset'' ''a,inet,24,b,inet6,48'' =
     Inr \<lparr>set_name4 = Some ''a'', set_name6 = Some ''b'', mask4 = Some 24, mask6 = Some 48\<rparr>"
  by code_simp+

section \<open>The other exporters\<close>

text \<open>With the same sets and lengths, \<^verbatim>\<open>nftset\<close> exports what \<^verbatim>\<open>ipset\<close> does.\<close>

lemma nft_entries_as_ipset:
  assumes "nft_ipv4 q = Some s4" and "nft_ipv6 q = Some s6"
    and "sa_set s4 = set_name4 p" and "sa_set s6 = set_name6 p"
    and "sa_mask s4 = Some m4" and "sa_mask s6 = Some m6" and "mask4 p = Some m4" and "mask6 p = Some m6"
  shows "nft_entry4 q rr @ nft_entry6 q rr = ipset_entry p rr"
  using assms
  by (cases "rr_rdata rr"; cases "set_name4 p"; cases "set_name6 p")
    (simp_all add: nft_entry4_def nft_entry6_def ipset_entry_def nft_prefix_same)

lemma ros_masks_ignored: "ros_execute h (with_masks m4 m6 p) c = ros_execute h p c"
proof -
  have r: "ros_request_for (with_masks m4 m6 p) = ros_request_for p"
    by (simp add: fun_eq_iff ros_request_for_def with_masks_def)
  have "notify_ips h (with_masks m4 m6 p) srv d ips = notify_ips h p srv d ips" for srv d ips
    by (induction ips) (simp_all add: r Let_def split: option.splits)
  then have "notify_server h (with_masks m4 m6 p) ips d = notify_server h p ips d" for ips d
    by (simp add: notify_server_def with_masks_def split: option.splits)
  then have "fst (notify_server h (with_masks m4 m6 p) ips d) = fst (notify_server h p ips d)" for ips d by simp
  moreover have "ro_track_responses (with_masks m4 m6 p) = ro_track_responses p" by (simp add: with_masks_def)
  ultimately show ?thesis by (simp only: ros_execute_def Let_def)
qed

text \<open>The requests are those of the addresses up to and including the first that fails.\<close>

lemma notify_ips_requests:
  "case notify_ips h p srv d ips of (rs, e) \<Rightarrow>
     (\<exists>n \<le> length ips. rs = map (ros_request_for p srv d) (take n ips) \<and> (e = None \<longrightarrow> n = length ips)) \<and>
     (e = None \<longleftrightarrow> (\<forall>ip\<in>set ips. ros_status h ip (hc_post h (ros_request_for p srv d ip)) = None))"
proof (induction ips)
  case (Cons ip ips)
  obtain rs e where n: "notify_ips h p srv d ips = (rs, e)" by force
  show ?case
  proof (cases "ros_status h ip (hc_post h (ros_request_for p srv d ip))")
    case None
    from Cons n obtain k where "k \<le> length ips" "rs = map (ros_request_for p srv d) (take k ips)"
      "e = None \<longrightarrow> k = length ips" by auto
    then have "Suc k \<le> length (ip # ips) \<and> ros_request_for p srv d ip # rs = map (ros_request_for p srv d) (take (Suc k) (ip # ips)) \<and>
      (e = None \<longrightarrow> Suc k = length (ip # ips))" by simp
    then show ?thesis using Cons n None by auto
  next
    case (Some x)
    then have "1 \<le> length (ip # ips) \<and> [ros_request_for p srv d ip] = map (ros_request_for p srv d) (take 1 (ip # ips))"
      by simp
    then show ?thesis using Some by auto
  qed
qed simp

end
