(* ===== verification/Geo.thy ===== *)
theory Geo
  imports Domain_Set Ip_Net
begin

text \<open>
  The geographic tables of \<^verbatim>\<open>src/src/plugins/geosite.rs\<close> and \<^verbatim>\<open>src/src/plugins/geoip.rs\<close>: names and
  networks grouped by category, loaded from lines of text, looked up by the query's name or by the
  addresses of the response. The tables are hash maps whose iteration order is not specified: a
  lookup takes the order as an argument, any listing of the entries. What both tables promise is
  the locale \<open>category_table\<close>, interpreted on each.
\<close>

section \<open>Sites\<close>

record site_set =
  ss_exact :: "string list"
  ss_suffixes :: "string list"

definition site_set_new :: site_set where
  "site_set_new = \<lparr>ss_exact = [], ss_suffixes = []\<rparr>"

definition add_exact :: "string \<Rightarrow> site_set \<Rightarrow> site_set" where
  "add_exact d s = s\<lparr>ss_exact := List.insert (to_lowercase d) (ss_exact s)\<rparr>"

definition add_suffix :: "string \<Rightarrow> site_set \<Rightarrow> site_set" where
  "add_suffix x s =
     (let x = to_lowercase x;
          x = (case strip_prefix ''.'' x of Some y \<Rightarrow> y | None \<Rightarrow> x)
      in s\<lparr>ss_suffixes := List.insert x (ss_suffixes s)\<rparr>)"

definition site_matches :: "site_set \<Rightarrow> string \<Rightarrow> bool" where
  "site_matches s domain =
     (let d = to_lowercase domain in
      d \<in> set (ss_exact s) \<or> list_ex (\<lambda>x. d = x \<or> ends_with (''.'' @ x) d) (ss_suffixes s))"

definition site_len :: "site_set \<Rightarrow> nat" where
  "site_len s = length (ss_exact s) + length (ss_suffixes s)"

record geo_site =
  gs_metadata_key :: string
  gs_categories :: "(string \<times> site_set) list"

definition geosite_new :: "string \<Rightarrow> geo_site" where
  "geosite_new k = \<lparr>gs_metadata_key = k, gs_categories = []\<rparr>"

definition add_pattern :: "string \<Rightarrow> site_set \<Rightarrow> site_set" where
  "add_pattern domain s =
     (case strip_prefix ''*.'' domain of
        Some x \<Rightarrow> add_suffix x s
      | None \<Rightarrow> (case strip_prefix ''.'' domain of Some x \<Rightarrow> add_suffix x s | None \<Rightarrow> add_exact domain s))"

definition add_domain :: "string \<Rightarrow> string \<Rightarrow> geo_site \<Rightarrow> geo_site" where
  "add_domain category domain g =
     g\<lparr>gs_categories := entry_or_insert (to_lowercase category) (add_pattern domain)
        (add_pattern domain site_set_new) (gs_categories g)\<rparr>"

text \<open>The two fields of a line that both loaders read; comments, blank and short lines are skipped.\<close>

definition geo_fields :: "string \<Rightarrow> (string \<times> string) option" where
  "geo_fields l =
     (let l = trim l in
      if l = [] \<or> starts_with ''#'' l then None
      else case split_whitespace l of a # b # _ \<Rightarrow> Some (a, b) | _ \<Rightarrow> None)"

definition geosite_load :: "string \<Rightarrow> geo_site \<Rightarrow> geo_site" where
  "geosite_load content g =
     foldl (\<lambda>g l. case geo_fields l of Some (c, d) \<Rightarrow> add_domain c d g | None \<Rightarrow> g) g (str_lines content)"

type_synonym 'e order = "'e list \<Rightarrow> 'e list"

definition geosite_lookup :: "(string \<times> site_set) order \<Rightarrow> geo_site \<Rightarrow> string \<Rightarrow> string option" where
  "geosite_lookup ord g domain = map_option fst (find (\<lambda>(c, s). site_matches s domain) (ord (gs_categories g)))"

definition category_count :: "geo_site \<Rightarrow> nat" where
  "category_count g = length (gs_categories g)"

definition domain_count :: "geo_site \<Rightarrow> nat" where
  "domain_count g = sum_list (map (site_len \<circ> snd) (gs_categories g))"

definition geosite_is_empty :: "geo_site \<Rightarrow> bool" where
  "geosite_is_empty g \<longleftrightarrow> gs_categories g = []"

definition geosite_clear :: "geo_site \<Rightarrow> geo_site" where
  "geosite_clear g = g\<lparr>gs_categories := []\<rparr>"

definition geosite_execute :: "(string \<times> site_set) order \<Rightarrow> geo_site \<Rightarrow> ctx \<Rightarrow> error option \<times> ctx" where
  "geosite_execute ord g c =
     (None,
      case msg_questions (request c) of
        [] \<Rightarrow> c
      | q # _ \<Rightarrow>
          if qtype q \<noteq> RT_A \<and> qtype q \<noteq> RT_AAAA then c
          else case geosite_lookup ord g (qname q) of
            Some cat \<Rightarrow> set_metadata (gs_metadata_key g) (MString cat) c
          | None \<Rightarrow> c)"

text \<open>Both plugins read the files and then the inline entries of their configuration, what is not a
  text being skipped.\<close>

fun load_geo_files :: "string \<Rightarrow> (string \<Rightarrow> string + string) \<Rightarrow> (string \<Rightarrow> 'g \<Rightarrow> 'g result) \<Rightarrow> string list \<Rightarrow> 'g \<Rightarrow> 'g result" where
  "load_geo_files kind fs load [] g = Inr g"
| "load_geo_files kind fs load (f # files) g =
     (case fs f of
        Inl e \<Rightarrow> Inl (Config (''Failed to read '' @ kind @ '' file '' @ [CHR 0x27] @ f @ [CHR 0x27] @ '': '' @ e))
      | Inr content \<Rightarrow> (case load content g of Inl e \<Rightarrow> Inl e | Inr g' \<Rightarrow> load_geo_files kind fs load files g'))"

fun load_geo_data :: "(string \<Rightarrow> 'g \<Rightarrow> 'g result) \<Rightarrow> string list \<Rightarrow> 'g \<Rightarrow> 'g result" where
  "load_geo_data load [] g = Inr g"
| "load_geo_data load (d # ds) g = (case load d g of Inl e \<Rightarrow> Inl e | Inr g' \<Rightarrow> load_geo_data load ds g')"

definition text_list_arg :: "string \<Rightarrow> (string \<rightharpoonup> yaml) \<Rightarrow> string list" where
  "text_list_arg key args = (case args key of Some (YSequence seq) \<Rightarrow> List.map_filter as_str seq | _ \<Rightarrow> [])"

definition metadata_key_arg :: "string \<Rightarrow> (string \<rightharpoonup> yaml) \<Rightarrow> string" where
  "metadata_key_arg dflt args = (case args ''metadata_key'' of Some (YString s) \<Rightarrow> s | _ \<Rightarrow> dflt)"

definition load_geo :: "string \<Rightarrow> (string \<Rightarrow> string + string) \<Rightarrow> (string \<Rightarrow> 'g \<Rightarrow> 'g result) \<Rightarrow> (string \<rightharpoonup> yaml) \<Rightarrow> 'g \<Rightarrow> 'g result" where
  "load_geo kind fs load args g =
     (case load_geo_files kind fs load (text_list_arg ''files'' args) g of
        Inl e \<Rightarrow> Inl e
      | Inr g' \<Rightarrow> load_geo_data load (text_list_arg ''data'' args) g')"

definition geosite_init :: "(string \<Rightarrow> string + string) \<Rightarrow> plugin_config \<Rightarrow> geo_site result" where
  "geosite_init fs config =
     (let args = effective_args config in
      load_geo ''GeoSite'' fs (\<lambda>t g. Inr (geosite_load t g)) args (geosite_new (metadata_key_arg ''category'' args)))"

section \<open>Addresses\<close>

record 'n geo_ip =
  gi_metadata_key :: string
  gi_ranges :: "(string \<times> 'n list) list"

definition geoip_new :: "string \<Rightarrow> 'n geo_ip" where
  "geoip_new k = \<lparr>gi_metadata_key = k, gi_ranges = []\<rparr>"

definition add_country_cidr :: "string \<Rightarrow> 'n \<Rightarrow> 'n geo_ip \<Rightarrow> 'n geo_ip" where
  "add_country_cidr country n g =
     g\<lparr>gi_ranges := entry_or_insert (to_uppercase country) (\<lambda>ns. ns @ [n]) [n] (gi_ranges g)\<rparr>"

fun geoip_load_lines :: "'n ipnet_ops \<Rightarrow> string list \<Rightarrow> 'n geo_ip \<Rightarrow> 'n geo_ip result" where
  "geoip_load_lines ops [] g = Inr g"
| "geoip_load_lines ops (l # ls) g =
     (case geo_fields l of
        None \<Rightarrow> geoip_load_lines ops ls g
      | Some (a, country) \<Rightarrow>
          (case net_parse ops a of
             Inl e \<Rightarrow> Inl (Config (''Invalid CIDR '' @ [CHR 0x27] @ a @ [CHR 0x27] @ '': '' @ e))
           | Inr n \<Rightarrow> geoip_load_lines ops ls (add_country_cidr country n g)))"

definition geoip_load :: "'n ipnet_ops \<Rightarrow> string \<Rightarrow> 'n geo_ip \<Rightarrow> 'n geo_ip result" where
  "geoip_load ops content g = geoip_load_lines ops (str_lines content) g"

definition geoip_lookup :: "'n ipnet_ops \<Rightarrow> (string \<times> 'n list) order \<Rightarrow> 'n geo_ip \<Rightarrow> ip_addr \<Rightarrow> string option" where
  "geoip_lookup ops ord g ip = map_option fst (find (\<lambda>(c, ns). list_ex (\<lambda>n. net_contains ops n ip) ns) (ord (gi_ranges g)))"

definition country_count :: "'n geo_ip \<Rightarrow> nat" where
  "country_count g = length (gi_ranges g)"

definition range_count :: "'n geo_ip \<Rightarrow> nat" where
  "range_count g = sum_list (map (length \<circ> snd) (gi_ranges g))"

definition geoip_is_empty :: "'n geo_ip \<Rightarrow> bool" where
  "geoip_is_empty g \<longleftrightarrow> gi_ranges g = []"

definition geoip_clear :: "'n geo_ip \<Rightarrow> 'n geo_ip" where
  "geoip_clear g = g\<lparr>gi_ranges := []\<rparr>"

fun extract_ip :: "rdata \<Rightarrow> ip_addr option" where
  "extract_ip (RD_A a) = Some (V4 a)"
| "extract_ip (RD_AAAA a) = Some (V6 a)"
| "extract_ip _ = None"

fun first_country :: "'n ipnet_ops \<Rightarrow> (string \<times> 'n list) order \<Rightarrow> 'n geo_ip \<Rightarrow> resource_record list \<Rightarrow> string option" where
  "first_country ops ord g [] = None"
| "first_country ops ord g (rr # rrs) =
     (case extract_ip (rr_rdata rr) of
        Some ip \<Rightarrow> (case geoip_lookup ops ord g ip of Some c \<Rightarrow> Some c | None \<Rightarrow> first_country ops ord g rrs)
      | None \<Rightarrow> first_country ops ord g rrs)"

definition geoip_execute :: "'n ipnet_ops \<Rightarrow> (string \<times> 'n list) order \<Rightarrow> 'n geo_ip \<Rightarrow> ctx \<Rightarrow> error option \<times> ctx" where
  "geoip_execute ops ord g c =
     (None,
      case response c of
        None \<Rightarrow> c
      | Some resp \<Rightarrow>
          (case first_country ops ord g (msg_answers resp) of
             Some country \<Rightarrow> set_metadata (gi_metadata_key g) (MString country) c
           | None \<Rightarrow> c))"

definition geoip_init :: "'n ipnet_ops \<Rightarrow> (string \<Rightarrow> string + string) \<Rightarrow> plugin_config \<Rightarrow> 'n geo_ip result" where
  "geoip_init ops fs config =
     (let args = effective_args config in
      load_geo ''GeoIP'' fs (geoip_load ops) args (geoip_new (metadata_key_arg ''country'' args)))"

section \<open>Tables of categories\<close>

text \<open>\<open>entries\<close> is the table, \<open>covers\<close> what an entry matches, \<open>add\<close> adds a rule to a category whose
  name is folded by \<open>fold_name\<close>, \<open>rule_covers\<close> is what a rule matches.\<close>

locale category_table =
  fixes entries :: "'t \<Rightarrow> (string \<times> 'd) list"
    and covers :: "'d \<Rightarrow> 'k \<Rightarrow> bool"
    and look :: "(string \<times> 'd) order \<Rightarrow> 't \<Rightarrow> 'k \<Rightarrow> string option"
    and add :: "string \<Rightarrow> 'r \<Rightarrow> 't \<Rightarrow> 't"
    and fold_name :: "string \<Rightarrow> string"
    and rule_covers :: "'r \<Rightarrow> 'k \<Rightarrow> bool"
  assumes look_find: "look ord t k = map_option fst (find (\<lambda>(c, d). covers d k) (ord (entries t)))"
    and add_distinct: "distinct (map fst (entries t)) \<Longrightarrow> distinct (map fst (entries (add c r t)))"
    and add_covers: "distinct (map fst (entries t)) \<Longrightarrow>
      (\<exists>d. (c, d) \<in> set (entries (add c' r t)) \<and> covers d k) \<longleftrightarrow>
        (\<exists>d. (c, d) \<in> set (entries t) \<and> covers d k) \<or> c = fold_name c' \<and> rule_covers r k"
begin

definition holds_rules :: "(string \<times> 'r) list \<Rightarrow> 't \<Rightarrow> bool" where
  "holds_rules rs t \<longleftrightarrow> distinct (map fst (entries t)) \<and>
     (\<forall>c k. (\<exists>d. (c, d) \<in> set (entries t) \<and> covers d k) \<longleftrightarrow> (\<exists>(c', r) \<in> set rs. c = fold_name c' \<and> rule_covers r k))"

lemma holds_rules_empty: "entries t = [] \<Longrightarrow> holds_rules [] t"
  by (simp add: holds_rules_def)

lemma holds_rules_add: "holds_rules rs t \<Longrightarrow> holds_rules (rs @ [(c, r)]) (add c r t)"
  by (auto simp: holds_rules_def add_covers add_distinct)

lemma look_Some: "set (ord (entries t)) = set (entries t) \<Longrightarrow> look ord t k = Some c \<Longrightarrow>
    \<exists>d. (c, d) \<in> set (entries t) \<and> covers d k"
  by (auto simp: look_find find_Some_iff) (metis nth_mem)

lemma look_None: "set (ord (entries t)) = set (entries t) \<Longrightarrow>
    look ord t k = None \<longleftrightarrow> \<not> (\<exists>c d. (c, d) \<in> set (entries t) \<and> covers d k)"
  by (auto simp: look_find find_None_iff)

lemma look_rules:
  assumes "holds_rules rs t" and "set (ord (entries t)) = set (entries t)"
  shows "look ord t k = Some c \<Longrightarrow> \<exists>(c', r) \<in> set rs. c = fold_name c' \<and> rule_covers r k"
    and "look ord t k = None \<longleftrightarrow> \<not> (\<exists>(c', r) \<in> set rs. rule_covers r k)"
    and "(c', r) \<in> set rs \<Longrightarrow> rule_covers r k \<Longrightarrow>
      \<forall>(c2, r2) \<in> set rs. rule_covers r2 k \<longrightarrow> fold_name c2 = fold_name c' \<Longrightarrow> look ord t k = Some (fold_name c')"
proof -
  show s: "look ord t k = Some c \<Longrightarrow> \<exists>(c', r) \<in> set rs. c = fold_name c' \<and> rule_covers r k" for c
    using look_Some [of ord t k, OF assms(2)] assms(1) by (auto simp: holds_rules_def)
  show n: "look ord t k = None \<longleftrightarrow> \<not> (\<exists>(c', r) \<in> set rs. rule_covers r k)"
    using look_None [of ord t k, OF assms(2)] assms(1) by (force simp: holds_rules_def)
  assume r: "(c', r) \<in> set rs" "rule_covers r k"
    and u: "\<forall>(c2, r2) \<in> set rs. rule_covers r2 k \<longrightarrow> fold_name c2 = fold_name c'"
  then obtain c where c: "look ord t k = Some c" using n by (cases "look ord t k") auto
  with s [OF c] u show "look ord t k = Some (fold_name c')" by fastforce
qed

end

section \<open>Rules\<close>

definition suffix_covers :: "string \<Rightarrow> string \<Rightarrow> bool" where
  "suffix_covers x domain \<longleftrightarrow>
     (let d = to_lowercase domain; x = to_lowercase x; y = (case strip_prefix ''.'' x of Some y \<Rightarrow> y | None \<Rightarrow> x)
      in d = y \<or> ends_with (''.'' @ y) d)"

definition pattern_covers :: "string \<Rightarrow> string \<Rightarrow> bool" where
  "pattern_covers pat domain \<longleftrightarrow>
     (case strip_prefix ''*.'' pat of
        Some x \<Rightarrow> suffix_covers x domain
      | None \<Rightarrow>
          (case strip_prefix ''.'' pat of
             Some x \<Rightarrow> suffix_covers x domain
           | None \<Rightarrow> to_lowercase domain = to_lowercase pat))"

lemma site_matches_new: "\<not> site_matches site_set_new d"
  by (simp add: site_matches_def site_set_new_def)

lemma site_matches_add_suffix: "site_matches (add_suffix x s) d \<longleftrightarrow> site_matches s d \<or> suffix_covers x d"
  by (auto simp: site_matches_def add_suffix_def suffix_covers_def Let_def list_ex_iff)

lemma site_matches_add: "site_matches (add_pattern p s) d \<longleftrightarrow> site_matches s d \<or> pattern_covers p d"
proof -
  have "site_matches (add_exact p s) d \<longleftrightarrow> site_matches s d \<or> to_lowercase d = to_lowercase p"
    by (auto simp: site_matches_def add_exact_def Let_def)
  then show ?thesis
    by (auto simp: add_pattern_def pattern_covers_def site_matches_add_suffix split: option.splits)
qed

text \<open>Adding to an entry of the table, whatever the entries hold.\<close>

lemma entry_covers:
  assumes "distinct (map fst m)" and "\<And>d. P (f d) \<longleftrightarrow> P d \<or> Q" and "P v \<longleftrightarrow> Q"
  shows "(\<exists>d. (c, d) \<in> set (entry_or_insert k f v m) \<and> P d) \<longleftrightarrow> (\<exists>d. (c, d) \<in> set m \<and> P d) \<or> c = k \<and> Q"
  using assms(1)
proof (induction m)
  case Nil
  then show ?case using assms(3) by auto
next
  case (Cons e m)
  obtain j w where e: "e = (j, w)" by force
  show ?case
  proof (cases "j = k")
    case True
    then have "(k, d) \<notin> set m" for d using Cons.prems e by (auto simp: image_iff)
    then show ?thesis using True e assms(2) by auto
  next
    case False
    then show ?thesis using Cons e by auto
  qed
qed

interpretation sites: category_table gs_categories site_matches geosite_lookup add_domain to_lowercase pattern_covers
proof unfold_locales
  fix t :: geo_site and c c' r k
  assume "distinct (map fst (gs_categories t))"
  then show "distinct (map fst (gs_categories (add_domain c r t)))"
    and "(\<exists>d. (c, d) \<in> set (gs_categories (add_domain c' r t)) \<and> site_matches d k) \<longleftrightarrow>
      (\<exists>d. (c, d) \<in> set (gs_categories t) \<and> site_matches d k) \<or> c = to_lowercase c' \<and> pattern_covers r k"
    using entry_covers [of "gs_categories t" "\<lambda>d. site_matches d k" "add_pattern r" "pattern_covers r k"
        "add_pattern r site_set_new" c "to_lowercase c'"]
    by (simp_all add: add_domain_def distinct_entry site_matches_add site_matches_new)
qed (simp add: geosite_lookup_def)

interpretation ranges: category_table gi_ranges "\<lambda>ns ip. list_ex (\<lambda>n. net_contains ops n ip) ns"
    "geoip_lookup ops" add_country_cidr to_uppercase "net_contains ops"
  for ops :: "'n ipnet_ops"
proof unfold_locales
  fix t :: "'n geo_ip" and c c' r k
  assume "distinct (map fst (gi_ranges t))"
  then show "distinct (map fst (gi_ranges (add_country_cidr c r t)))"
    and "(\<exists>d. (c, d) \<in> set (gi_ranges (add_country_cidr c' r t)) \<and> list_ex (\<lambda>n. net_contains ops n k) d) \<longleftrightarrow>
      (\<exists>d. (c, d) \<in> set (gi_ranges t) \<and> list_ex (\<lambda>n. net_contains ops n k) d) \<or> c = to_uppercase c' \<and> net_contains ops r k"
    using entry_covers [of "gi_ranges t" "\<lambda>d. list_ex (\<lambda>n. net_contains ops n k) d" "\<lambda>ns. ns @ [r]"
        "net_contains ops r k" "[r]" c "to_uppercase c'"]
    by (simp_all add: add_country_cidr_def distinct_entry)
qed (simp add: geoip_lookup_def)

section \<open>What a configuration loads\<close>

definition geo_texts :: "(string \<Rightarrow> string + string) \<Rightarrow> (string \<rightharpoonup> yaml) \<Rightarrow> string list" where
  "geo_texts fs args =
     List.map_filter (\<lambda>f. case fs f of Inr c \<Rightarrow> Some c | Inl _ \<Rightarrow> None) (text_list_arg ''files'' args)
       @ text_list_arg ''data'' args"

definition site_rules :: "string \<Rightarrow> (string \<times> string) list" where
  "site_rules content = List.map_filter geo_fields (str_lines content)"

definition range_rules :: "'n ipnet_ops \<Rightarrow> string \<Rightarrow> (string \<times> 'n) list" where
  "range_rules ops content =
     List.map_filter (\<lambda>l. case geo_fields l of
        Some (a, c) \<Rightarrow> (case net_parse ops a of Inr n \<Rightarrow> Some (c, n) | Inl _ \<Rightarrow> None) | None \<Rightarrow> None) (str_lines content)"

lemma geosite_load_rules:
  "sites.holds_rules rs g \<Longrightarrow> sites.holds_rules (rs @ site_rules content) (geosite_load content g)"
proof -
  have "sites.holds_rules rs g \<Longrightarrow> sites.holds_rules (rs @ List.map_filter geo_fields ls)
      (foldl (\<lambda>g l. case geo_fields l of Some (c, d) \<Rightarrow> add_domain c d g | None \<Rightarrow> g) g ls)" for ls rs g
  proof (induction ls arbitrary: rs g)
    case (Cons l ls)
    then show ?case
      using sites.holds_rules_add [OF Cons.prems]
      by (cases "geo_fields l") (fastforce simp: map_filter_simps)+
  qed (simp add: map_filter_simps)
  then show "sites.holds_rules rs g \<Longrightarrow> ?thesis" by (simp add: geosite_load_def site_rules_def)
qed

lemma geoip_load_rules:
  "geoip_load ops content g = Inr g' \<Longrightarrow> ranges.holds_rules ops rs g \<Longrightarrow>
     ranges.holds_rules ops (rs @ range_rules ops content) g'"
proof -
  have "geoip_load_lines ops ls g = Inr g' \<Longrightarrow> ranges.holds_rules ops rs g \<Longrightarrow>
      ranges.holds_rules ops (rs @ List.map_filter (\<lambda>l. case geo_fields l of
        Some (a, c) \<Rightarrow> (case net_parse ops a of Inr n \<Rightarrow> Some (c, n) | Inl _ \<Rightarrow> None) | None \<Rightarrow> None) ls) g'"
    for ls rs g
  proof (induction ls arbitrary: rs g)
    case (Cons l ls)
    show ?case
    proof (cases "geo_fields l")
      case None
      with Cons show ?thesis by (simp add: map_filter_simps)
    next
      case (Some f)
      obtain a c where f: "f = (a, c)" by force
      with Some Cons.prems obtain n where n: "net_parse ops a = Inr n"
        "geoip_load_lines ops ls (add_country_cidr c n g) = Inr g'"
        by (auto split: sum.splits)
      from Cons.IH [OF n(2) ranges.holds_rules_add [OF Cons.prems(2)]] Some f n(1)
      show ?thesis by (simp add: map_filter_simps)
    qed
  qed (simp add: map_filter_simps)
  then show "geoip_load ops content g = Inr g' \<Longrightarrow> ranges.holds_rules ops rs g \<Longrightarrow> ?thesis"
    by (simp add: geoip_load_def range_rules_def)
qed

text \<open>Loading extends what holds of the rules by the rules of every text.\<close>

lemma load_geo_data_rules:
  assumes step: "\<And>t g g' rs. load t g = Inr g' \<Longrightarrow> I rs g \<Longrightarrow> I (rs @ rules t) g'"
  shows "load_geo_data load ts g = Inr g' \<Longrightarrow> I rs g \<Longrightarrow> I (rs @ concat (map rules ts)) g'"
proof (induction ts arbitrary: rs g)
  case (Cons t ts)
  then obtain h where "load t g = Inr h" "load_geo_data load ts h = Inr g'" by (auto split: sum.splits)
  with Cons.IH [of h "rs @ rules t"] Cons.prems(2) step show ?case by simp
qed simp

lemma load_geo_files_rules:
  assumes step: "\<And>t g g' rs. load t g = Inr g' \<Longrightarrow> I rs g \<Longrightarrow> I (rs @ rules t) g'"
  shows "load_geo_files kind fs load files g = Inr g' \<Longrightarrow> I rs g \<Longrightarrow>
    I (rs @ concat (map rules (List.map_filter (\<lambda>f. case fs f of Inr c \<Rightarrow> Some c | Inl _ \<Rightarrow> None) files))) g'"
proof (induction files arbitrary: rs g)
  case (Cons f files)
  then obtain t h where "fs f = Inr t" "load t g = Inr h" "load_geo_files kind fs load files h = Inr g'"
    by (auto split: sum.splits)
  with Cons.IH [of h "rs @ rules t"] Cons.prems(2) step show ?case by (simp add: map_filter_simps)
qed (simp add: map_filter_simps)

lemma load_geo_rules:
  assumes "\<And>t g g' rs. load t g = Inr g' \<Longrightarrow> I rs g \<Longrightarrow> I (rs @ rules t) g'"
    and "load_geo kind fs load args g = Inr g'" and "I [] g"
  shows "I (concat (map rules (geo_texts fs args))) g'"
proof -
  obtain h where h: "load_geo_files kind fs load (text_list_arg ''files'' args) g = Inr h"
    "load_geo_data load (text_list_arg ''data'' args) h = Inr g'"
    using assms(2) by (auto simp: load_geo_def split: sum.splits)
  from load_geo_data_rules [where I = I and rules = rules, OF assms(1) h(2)
      load_geo_files_rules [where I = I and rules = rules, OF assms(1) h(1) assms(3)]]
  show ?thesis by (simp add: geo_texts_def)
qed

lemma geosite_init_rules:
  assumes "geosite_init fs config = Inr g"
  shows "sites.holds_rules (concat (map site_rules (geo_texts fs (effective_args config)))) g"
proof (rule load_geo_rules [where I = sites.holds_rules and rules = site_rules])
  show "load_geo ''GeoSite'' fs (\<lambda>t g. Inr (geosite_load t g)) (effective_args config)
      (geosite_new (metadata_key_arg ''category'' (effective_args config))) = Inr g"
    using assms by (simp add: geosite_init_def Let_def)
qed (auto simp: geosite_load_rules sites.holds_rules_empty geosite_new_def)

lemma geoip_init_rules:
  assumes "geoip_init ops fs config = Inr g"
  shows "ranges.holds_rules ops (concat (map (range_rules ops) (geo_texts fs (effective_args config)))) g"
proof (rule load_geo_rules [where I = "ranges.holds_rules ops" and rules = "range_rules ops"])
  show "load_geo ''GeoIP'' fs (geoip_load ops) (effective_args config)
      (geoip_new (metadata_key_arg ''country'' (effective_args config))) = Inr g"
    using assms by (simp add: geoip_init_def Let_def)
qed (auto simp: geoip_load_rules ranges.holds_rules_empty geoip_new_def)

section \<open>Lookups\<close>

text \<open>
  C36: after \<^verbatim>\<open>geo_site\<close> has loaded its files and inline data, a lookup finds no category exactly when
  no line covers the name (an equal name, or a name below a \<^verbatim>\<open>*.\<close> or \<^verbatim>\<open>.\<close> pattern, ignoring case); a
  category it finds is that of a line which covers the name, and when all lines that cover the name
  have one category, it is found whatever the iteration order of the hash map.
\<close>

theorem geosite_answers_from_lines:
  assumes "geosite_init fs config = Inr g" and "set (ord (gs_categories g)) = set (gs_categories g)"
  defines "rs \<equiv> concat (map site_rules (geo_texts fs (effective_args config)))"
  shows "(geosite_lookup ord g d = None \<longleftrightarrow> \<not> (\<exists>(c, p) \<in> set rs. pattern_covers p d)) \<and>
    (\<forall>c. geosite_lookup ord g d = Some c \<longrightarrow> (\<exists>(c', p) \<in> set rs. c = to_lowercase c' \<and> pattern_covers p d)) \<and>
    (\<forall>(c, p) \<in> set rs. pattern_covers p d \<longrightarrow>
       (\<forall>(c', p') \<in> set rs. pattern_covers p' d \<longrightarrow> to_lowercase c' = to_lowercase c) \<longrightarrow>
       geosite_lookup ord g d = Some (to_lowercase c))"
proof -
  note l = sites.look_rules [where ord = ord and t = g and k = d, OF geosite_init_rules [OF assms(1)] assms(2), folded rs_def]
  from l show ?thesis by blast
qed

definition demo_geo_config :: plugin_config where
  "demo_geo_config = \<lparr>pc_tag = None, pc_plugin_type = ''geo_site'',
     pc_args = YMapping [(YString ''data'', YSequence [YString ''CN *.QQ.com''])]\<rparr>"

theorem geosite_answers_from_lines_witness:
  "case geosite_init (\<lambda>_. Inl ''no file'') demo_geo_config of
     Inr g \<Rightarrow> geosite_lookup id g ''mail.qq.com'' = Some ''cn'' \<and> geosite_lookup id g ''qq.org'' = None
   | Inl _ \<Rightarrow> False"
proof -
  have i: "geosite_init (\<lambda>_. Inl ''no file'') demo_geo_config = Inr \<lparr>gs_metadata_key = ''category'',
      gs_categories = [(''cn'', \<lparr>ss_exact = [], ss_suffixes = [''qq.com'']\<rparr>)]\<rparr>" (is "_ = Inr ?g")
    by code_simp
  have t: "geo_texts (\<lambda>_. Inl ''no file'') (effective_args demo_geo_config) = [''CN *.QQ.com'']"
    by code_simp
  have r: "site_rules ''CN *.QQ.com'' = [(''CN'', ''*.QQ.com'')]" by code_simp
  have c: "pattern_covers ''*.QQ.com'' ''mail.qq.com''" "\<not> pattern_covers ''*.QQ.com'' ''qq.org''" by code_simp+
  have "to_lowercase ''CN'' = ''cn''" by code_simp
  then show ?thesis
    using geosite_answers_from_lines [OF i, of id "''mail.qq.com''"] geosite_answers_from_lines [OF i, of id "''qq.org''"]
    by (simp add: i t r c)
qed

text \<open>
  After \<^verbatim>\<open>geo_ip\<close> has loaded its files and inline data, a lookup finds no country exactly when no
  loaded range contains the address, a country it finds has a loaded range that contains it, and when
  all ranges that contain the address have one country, it is found whatever the iteration order of
  the hash map.
\<close>

theorem geoip_answers_from_ranges:
  assumes "geoip_init ops fs config = Inr g" and "set (ord (gi_ranges g)) = set (gi_ranges g)"
  defines "rs \<equiv> concat (map (range_rules ops) (geo_texts fs (effective_args config)))"
  shows "(geoip_lookup ops ord g ip = None \<longleftrightarrow> \<not> (\<exists>(c, n) \<in> set rs. net_contains ops n ip)) \<and>
    (\<forall>c. geoip_lookup ops ord g ip = Some c \<longrightarrow> (\<exists>(c', n) \<in> set rs. c = to_uppercase c' \<and> net_contains ops n ip)) \<and>
    (\<forall>(c, n) \<in> set rs. net_contains ops n ip \<longrightarrow>
       (\<forall>(c', n') \<in> set rs. net_contains ops n' ip \<longrightarrow> to_uppercase c' = to_uppercase c) \<longrightarrow>
       geoip_lookup ops ord g ip = Some (to_uppercase c))"
proof -
  note l = ranges.look_rules [where ops = ops and ord = ord and t = g and k = ip,
      OF geoip_init_rules [OF assms(1)] assms(2), folded rs_def]
  from l show ?thesis by blast
qed

definition demo_ranges_config :: plugin_config where
  "demo_ranges_config = \<lparr>pc_tag = None, pc_plugin_type = ''geo_ip'',
     pc_args = YMapping [(YString ''data'', YSequence [YString ''10.0.0.0/8 aa''])]\<rparr>"

theorem geoip_answers_from_ranges_witness:
  "case geoip_init mask_net (\<lambda>_. Inl ''no file'') demo_ranges_config of
     Inr g \<Rightarrow> geoip_lookup mask_net id g (V4 (v4_new 10 1 2 3)) = Some ''AA''
   | Inl _ \<Rightarrow> False"
proof -
  have i: "geoip_init mask_net (\<lambda>_. Inl ''no file'') demo_ranges_config = Inr \<lparr>gi_metadata_key = ''country'',
      gi_ranges = [(''AA'', [(V4 (v4_new 10 0 0 0), 8)])]\<rparr>" (is "_ = Inr ?g")
    by code_simp
  have t: "geo_texts (\<lambda>_. Inl ''no file'') (effective_args demo_ranges_config) = [''10.0.0.0/8 aa'']"
    by code_simp
  have r: "range_rules mask_net ''10.0.0.0/8 aa'' = [(''aa'', (V4 (v4_new 10 0 0 0), 8))]" by code_simp
  have c: "net_contains mask_net (V4 (v4_new 10 0 0 0), 8) (V4 (v4_new 10 1 2 3))" by code_simp
  have "to_uppercase ''aa'' = ''AA''" by code_simp
  then show ?thesis
    using geoip_answers_from_ranges [OF i, of id "V4 (v4_new 10 1 2 3)"] by (simp add: i t r c)
qed

text \<open>Where two categories cover a name, the category found is that of the one met first: it depends
  on the iteration order.\<close>

lemma overlapping_categories_depend_on_order:
  defines "g \<equiv> add_domain ''ads'' ''*.example.com'' (add_domain ''cn'' ''*.example.com'' (geosite_new ''category''))"
  shows "geosite_lookup id g ''www.example.com'' = Some ''cn''" and "geosite_lookup rev g ''www.example.com'' = Some ''ads''"
  unfolding g_def by code_simp+

text \<open>The category set by an execution is the lookup's, and only for address queries.\<close>

lemma geosite_execute_tags:
  assumes "msg_questions (request c) = q # qs"
  shows "snd (geosite_execute ord g c) =
    (if qtype q \<in> {RT_A, RT_AAAA}
     then (case geosite_lookup ord g (qname q) of
             Some cat \<Rightarrow> set_metadata (gs_metadata_key g) (MString cat) c | None \<Rightarrow> c) else c)"
  using assms by (auto simp: geosite_execute_def)

end
