(* ===== verification/Downloader.thy ===== *)
theory Downloader
  imports Disk Config_Value Context
begin

text \<open>
  The plugin that downloads rule files, \<^verbatim>\<open>src/src/plugins/executable/downloader.rs\<close>. The answers of the
  HTTP client are a parameter, one for every attempt; files are written to the disk with faults of
  \<open>Disk\<close>. Concurrent downloads are a step relation at the grain of system calls, with open files as
  inodes, so that every interleaving of the tasks is a run.

  A download leaves the old file or a complete body, sequentially under every fault, and
  concurrently when no two entries share a path; two entries with one path can tear it.
\<close>

section \<open>Configuration\<close>

record download_spec =
  ds_url :: string
  ds_path :: string

record downloader =
  dl_files :: "download_spec list"
  dl_timeout_secs :: u64
  dl_concurrent :: bool
  dl_max_retries :: nat
  dl_retry_delay_secs :: u64

definition downloader_new :: "download_spec list \<Rightarrow> u64 \<Rightarrow> bool \<Rightarrow> nat \<Rightarrow> u64 \<Rightarrow> downloader" where
  "downloader_new fs t c r d = \<lparr>dl_files = fs, dl_timeout_secs = t, dl_concurrent = c, dl_max_retries = r,
     dl_retry_delay_secs = d\<rparr>"

definition downloader_default :: downloader where
  "downloader_default = downloader_new [] 30 False 3 2"

definition map_text :: "string \<Rightarrow> (yaml \<times> yaml) list \<Rightarrow> string" where
  "map_text key m = (case Option.bind (map_of m (YString key)) as_str of Some s \<Rightarrow> s | None \<Rightarrow> '''')"

definition file_entry :: "yaml \<Rightarrow> download_spec option" where
  "file_entry item =
     (case item of
        YMapping m \<Rightarrow>
          (let url = map_text ''url'' m; path = map_text ''path'' m in
           if url \<noteq> [] \<and> path \<noteq> [] then Some \<lparr>ds_url = url, ds_path = path\<rparr> else None)
      | _ \<Rightarrow> None)"

definition u64_arg_or :: "string \<Rightarrow> u64 \<Rightarrow> (string \<rightharpoonup> yaml) \<Rightarrow> u64" where
  "u64_arg_or key dflt args =
     (case args key of
        Some (YNumber n) \<Rightarrow> (case as_u64 n of Some v \<Rightarrow> v | None \<Rightarrow> dflt)
      | _ \<Rightarrow> dflt)"

definition downloader_init :: "plugin_config \<Rightarrow> downloader result" where
  "downloader_init config =
     (let args = effective_args config in
      case (case args ''files'' of
              None \<Rightarrow> Inr []
            | Some (YSequence seq) \<Rightarrow> Inr (List.map_filter file_entry seq)
            | Some _ \<Rightarrow> Inl (Config ''files must be a sequence of {url, path} objects'')) of
        Inl e \<Rightarrow> Inl e
      | Inr files \<Rightarrow>
          if files = [] then Inl (Config ''Downloader plugin requires at least one file to download'')
          else Inr (downloader_new files (u64_arg_or ''timeout_secs'' 30 args)
            (case Option.bind (args ''concurrent'') as_bool of Some b \<Rightarrow> b | None \<Rightarrow> False)
            (unat (u64_arg_or ''max_retries'' 3 args)) (u64_arg_or ''retry_delay_secs'' 2 args)))"

section \<open>One download\<close>

text \<open>What a request gives: no connection, a status that is not a success (its text), a body that
  cannot be read, or a body.\<close>

datatype fetch = SendFailed string | BadStatus string | BodyFailed string | Body "u8 list"

text \<open>The text of an I/O error, as the operating system describes it.\<close>

fun io_text :: "error \<Rightarrow> string" where
  "io_text (Io s) = s"
| "io_text e = error_fmt e"

definition remove_file :: "string \<Rightarrow> io" where
  "remove_file p = io_step (\<lambda>d. d\<lparr>dk_files := (dk_files d)(p := None)\<rparr>) (\<lambda>_. id)"

definition temp_path :: "string \<Rightarrow> string" where
  "temp_path p = p @ ''.tmp''"

definition rename_or_remove :: "string \<Rightarrow> string \<Rightarrow> io" where
  "rename_or_remove tmp final d =
     (case rename_file tmp final d of
        (None, d) \<Rightarrow> (None, d)
      | (Some e, d) \<Rightarrow> (Some e, snd (remove_file tmp d)))"

definition write_and_rename :: "string \<Rightarrow> u8 list \<Rightarrow> io" where
  "write_and_rename path content =
     seq_io (create_file (temp_path path))
       (seq_io (write_all (temp_path path) content) (rename_or_remove (temp_path path) path))"

definition fetch_error :: "download_spec \<Rightarrow> fetch \<Rightarrow> error option" where
  "fetch_error spec r =
     (case r of
        SendFailed e \<Rightarrow> Some (Config (''Failed to download '' @ ds_url spec @ '': '' @ e))
      | BadStatus s \<Rightarrow> Some (Config (''HTTP '' @ s @ '' for '' @ ds_url spec))
      | BodyFailed e \<Rightarrow> Some (Config (''Failed to read response body: '' @ e))
      | Body content \<Rightarrow> if content = [] then Some (Config ''Downloaded file is empty'') else None)"

fun fetch_body :: "fetch \<Rightarrow> u8 list" where
  "fetch_body (Body content) = content"
| "fetch_body _ = []"

definition write_error :: "error \<Rightarrow> error" where
  "write_error e = Config (''Failed to write file: '' @ io_text e)"

definition download_attempt :: "download_spec \<Rightarrow> fetch \<Rightarrow> io" where
  "download_attempt spec r d =
     (case fetch_error spec r of
        Some e \<Rightarrow> (Some e, d)
      | None \<Rightarrow>
          (case write_and_rename (ds_path spec) (fetch_body r) d of
             (None, d) \<Rightarrow> (None, d)
           | (Some e, d) \<Rightarrow> (Some (write_error e), d)))"

definition saturating_mul :: "u64 \<Rightarrow> u64 \<Rightarrow> u64" where
  "saturating_mul a b = (if unat a * unat b < 2 ^ 64 then a * b else - 1)"

text \<open>The shift amount is taken modulo the width, as in a build without overflow checks (with them,
  attempt 64 panics).\<close>

definition backoff :: "u64 \<Rightarrow> nat \<Rightarrow> u64" where
  "backoff delay attempt = saturating_mul delay (push_bit (attempt mod 64) 1)"

text \<open>The attempts from number \<open>k\<close> on, with \<open>n\<close> retries left: the error, the pauses, the disk.\<close>

fun attempts :: "(nat \<Rightarrow> fetch) \<Rightarrow> download_spec \<Rightarrow> u64 \<Rightarrow> nat \<Rightarrow> nat \<Rightarrow> disk \<Rightarrow> error option \<times> u64 list \<times> disk" where
  "attempts net spec delay k n d =
     (case download_attempt spec (net k) d of
        (None, d) \<Rightarrow> (None, [], d)
      | (Some e, d) \<Rightarrow>
          (case n of
             0 \<Rightarrow> (Some e, [], d)
           | Suc n \<Rightarrow>
               (case attempts net spec delay (Suc k) n d of (r, ps, d) \<Rightarrow> (r, backoff delay k # ps, d))))"

declare attempts.simps [simp del]

definition download_single :: "downloader \<Rightarrow> (nat \<Rightarrow> fetch) \<Rightarrow> download_spec \<Rightarrow> disk \<Rightarrow> error option \<times> u64 list \<times> disk" where
  "download_single p net spec d = attempts net spec (dl_retry_delay_secs p) 0 (dl_max_retries p) d"

text \<open>\<open>net i\<close> answers the attempts for the file number \<open>i\<close>.\<close>

fun download_sequential :: "downloader \<Rightarrow> (nat \<Rightarrow> nat \<Rightarrow> fetch) \<Rightarrow> nat \<Rightarrow> download_spec list \<Rightarrow> io" where
  "download_sequential p net i [] d = (None, d)"
| "download_sequential p net i (spec # specs) d =
     (case download_single p (net i) spec d of
        (Some e, _, d) \<Rightarrow> (Some e, d)
      | (None, _, d) \<Rightarrow> download_sequential p net (Suc i) specs d)"

section \<open>Concurrent downloads\<close>

text \<open>Names, inodes and their contents: a file renamed while open keeps its inode, and so do the writes
  that follow.\<close>

record posix =
  px_names :: "string \<rightharpoonup> nat"
  px_data :: "nat \<Rightarrow> u8 list"
  px_next :: nat

definition px_content :: "posix \<Rightarrow> string \<Rightarrow> u8 list option" where
  "px_content x q = map_option (px_data x) (px_names x q)"

definition open_truncated :: "string \<Rightarrow> posix \<Rightarrow> nat \<times> posix" where
  "open_truncated q x =
     (case px_names x q of
        Some i \<Rightarrow> (i, x\<lparr>px_data := (px_data x)(i := [])\<rparr>)
      | None \<Rightarrow> (px_next x, x\<lparr>px_names := (px_names x)(q \<mapsto> px_next x), px_data := (px_data x)(px_next x := []),
                   px_next := Suc (px_next x)\<rparr>))"

definition write_at :: "nat \<Rightarrow> nat \<Rightarrow> u8 list \<Rightarrow> posix \<Rightarrow> posix" where
  "write_at i pos bs x =
     (let old = px_data x i in
      x\<lparr>px_data := (px_data x)(i := take pos (old @ replicate (pos - length old) 0) @ bs @ drop (pos + length bs) old)\<rparr>)"

text \<open>A task: about to send attempt \<open>k\<close>, writing its body to an open file at a position, removing the
  temporary file after a failed rename, or finished.\<close>

datatype task =
    Fetching nat
  | Writing nat "u8 list" nat nat
  | Removing nat error
  | Finished "error option"

definition retry :: "nat \<Rightarrow> nat \<Rightarrow> error \<Rightarrow> task" where
  "retry n k e = (if k < n then Fetching (Suc k) else Finished (Some e))"

inductive task_step :: "nat \<Rightarrow> (nat \<Rightarrow> fetch) \<Rightarrow> download_spec \<Rightarrow> posix \<times> task \<Rightarrow> posix \<times> task \<Rightarrow> bool"
  for n net spec where
  reject: "fetch_error spec (net k) = Some e \<Longrightarrow> task_step n net spec (x, Fetching k) (x, retry n k e)"
| create: "fetch_error spec (net k) = None \<Longrightarrow> open_truncated (temp_path (ds_path spec)) x = (i, x') \<Longrightarrow>
    task_step n net spec (x, Fetching k) (x', Writing k (fetch_body (net k)) i 0)"
| create_fails: "fetch_error spec (net k) = None \<Longrightarrow>
    task_step n net spec (x, Fetching k) (x, retry n k (write_error e))"
| append: "0 < c \<Longrightarrow> pos + c \<le> length bs \<Longrightarrow>
    task_step n net spec (x, Writing k bs i pos) (write_at i pos (take c (drop pos bs)) x, Writing k bs i (pos + c))"
| append_fails: "pos < length bs \<Longrightarrow>
    task_step n net spec (x, Writing k bs i pos) (x, retry n k (write_error e))"
| rename: "pos = length bs \<Longrightarrow> px_names x (temp_path (ds_path spec)) = Some j \<Longrightarrow>
    task_step n net spec (x, Writing k bs i pos)
      (x\<lparr>px_names := (px_names x)(ds_path spec \<mapsto> j, temp_path (ds_path spec) := None)\<rparr>, Finished None)"
| rename_fails: "pos = length bs \<Longrightarrow>
    task_step n net spec (x, Writing k bs i pos) (x, Removing k e)"
| remove: "task_step n net spec (x, Removing k e)
    (x\<lparr>px_names := (px_names x)(temp_path (ds_path spec) := None)\<rparr>, retry n k (write_error e))"
| remove_fails: "task_step n net spec (x, Removing k e) (x, retry n k (write_error e))"

inductive_cases task_stepE: "task_step n net spec (x, t) (x', t')"

text \<open>Any task may take the next step.\<close>

inductive conc_step :: "nat \<Rightarrow> (nat \<Rightarrow> nat \<Rightarrow> fetch) \<Rightarrow> download_spec list \<Rightarrow> posix \<times> task list \<Rightarrow> posix \<times> task list \<Rightarrow> bool"
  for n net specs where
  conc: "i < length ts \<Longrightarrow> i < length specs \<Longrightarrow> task_step n (net i) (specs ! i) (x, ts ! i) (x', t') \<Longrightarrow>
    conc_step n net specs (x, ts) (x', ts[i := t'])"

definition spawned_tasks :: "download_spec list \<Rightarrow> task list" where
  "spawned_tasks specs = map (\<lambda>_. Fetching 0) specs"

text \<open>The handles are awaited in the order of the files; the first error ends the wait (\<open>None\<close>: still
  waiting), the tasks that were not awaited go on.\<close>

fun await_tasks :: "task list \<Rightarrow> error option option" where
  "await_tasks [] = Some None"
| "await_tasks (Finished None # ts) = await_tasks ts"
| "await_tasks (Finished (Some e) # ts) = Some (Some e)"
| "await_tasks (_ # ts) = None"

text \<open>What an execution does: nothing, the sequential loop, or the tasks to interleave.\<close>

datatype download_plan = NoFiles | Sequential "download_spec list" | Concurrent "task list"

definition download_files :: "downloader \<Rightarrow> download_plan" where
  "download_files p =
     (if dl_files p = [] then NoFiles
      else if dl_concurrent p then Concurrent (spawned_tasks (dl_files p)) else Sequential (dl_files p))"

section \<open>Facts\<close>

lemma seq_io_cases:
  "seq_io f g d = (r, d') \<Longrightarrow> (\<exists>e. f d = (Some e, d') \<and> r = Some e) \<or> (\<exists>d1. f d = (None, d1) \<and> g d1 = (r, d'))"
  by (auto simp: seq_io_def split: prod.splits option.splits)

lemma io_step_cases:
  "io_step fin part d = (r, d') \<Longrightarrow>
     \<exists>fs. (r = None \<and> d' = fin (d\<lparr>dk_faults := fs\<rparr>)) \<or> (\<exists>e k. r = Some e \<and> d' = part k (d\<lparr>dk_faults := fs\<rparr>))"
proof -
  obtain f d1 where n: "next_fault d = (f, d1)" by force
  then have "d1 = d\<lparr>dk_faults := dk_faults d1\<rparr>" by (cases "dk_faults d") (auto simp: next_fault_def)
  then obtain fs where "d1 = d\<lparr>dk_faults := fs\<rparr>" by blast
  moreover assume "io_step fin part d = (r, d')"
  ultimately show ?thesis using n by (cases f) (auto simp: io_step_def)
qed

lemma temp_path_neq [simp]: "temp_path p \<noteq> p" "p \<noteq> temp_path p"
  by (simp_all add: temp_path_def)

text \<open>Writing a file changes only its path and the temporary one; the path has the content exactly
  when no fault was reported, and is as before otherwise.\<close>

lemma write_and_rename_files:
  assumes "write_and_rename p content d = (r, d')"
  shows "q \<notin> {p, temp_path p} \<Longrightarrow> dk_files d' q = dk_files d q"
    and "dk_files d' p = (if r = None then Some content else dk_files d p)"
proof -
  let ?t = "temp_path p"
  note defs = create_file_def write_all_def rename_file_def remove_file_def append_to_def
  have "(q \<notin> {p, ?t} \<longrightarrow> dk_files d' q = dk_files d q) \<and> dk_files d' p = (if r = None then Some content else dk_files d p)"
    using assms unfolding write_and_rename_def
  proof (elim seq_io_cases [THEN disjE] exE conjE)
    fix e assume "create_file ?t d = (Some e, d')" "r = Some e"
    then show ?thesis by (auto simp: defs dest!: io_step_cases)
  next
    fix d1 e assume "create_file ?t d = (None, d1)" "write_all ?t content d1 = (Some e, d')" "r = Some e"
    then show ?thesis by (auto simp: defs dest!: io_step_cases)
  next
    fix d1 d2 assume c: "create_file ?t d = (None, d1)" "write_all ?t content d1 = (None, d2)"
      and m: "rename_or_remove ?t p d2 = (r, d')"
    then have d2: "dk_files d2 = (dk_files d)(?t \<mapsto> content)" by (auto simp: defs dest!: io_step_cases)
    obtain r1 d3 where "rename_file ?t p d2 = (r1, d3)" by force
    with m d2 show ?thesis
      by (cases r1) (auto simp: rename_or_remove_def defs io_step_def next_fault_def split: list.splits option.splits
          dest!: io_step_cases)
  qed
  then show "q \<notin> {p, temp_path p} \<Longrightarrow> dk_files d' q = dk_files d q"
    and "dk_files d' p = (if r = None then Some content else dk_files d p)" by simp_all
qed

lemma download_attempt_files:
  assumes "download_attempt spec f d = (r, d')"
  shows "q \<notin> {ds_path spec, temp_path (ds_path spec)} \<Longrightarrow> dk_files d' q = dk_files d q"
    and "r = None \<Longrightarrow> \<exists>content. f = Body content \<and> content \<noteq> [] \<and> dk_files d' (ds_path spec) = Some content"
    and "r \<noteq> None \<Longrightarrow> dk_files d' (ds_path spec) = dk_files d (ds_path spec)"
  using assms write_and_rename_files
  by (auto simp: download_attempt_def fetch_error_def split: fetch.splits if_splits prod.splits option.splits)

lemma attempts_step:
  assumes "attempts net spec delay k n d = (r, ps, d')"
  obtains (settled) "download_attempt spec (net k) d = (r, d')" "r = None \<or> n = 0" "ps = []"
  | (again) e d1 m qs where "download_attempt spec (net k) d = (Some e, d1)" "n = Suc m"
      "attempts net spec delay (Suc k) m d1 = (r, qs, d')" "ps = backoff delay k # qs"
  using assms by (subst (asm) attempts.simps) (auto split: prod.splits option.splits nat.splits)

lemma attempts_files:
  assumes "attempts net spec delay k n d = (r, ps, d')"
  shows "(q \<notin> {ds_path spec, temp_path (ds_path spec)} \<longrightarrow> dk_files d' q = dk_files d q) \<and>
    (r = None \<longrightarrow> (\<exists>j content. k \<le> j \<and> j \<le> k + n \<and> net j = Body content \<and> content \<noteq> [] \<and>
       dk_files d' (ds_path spec) = Some content)) \<and>
    (r \<noteq> None \<longrightarrow> dk_files d' (ds_path spec) = dk_files d (ds_path spec))"
  using assms
proof (induction n arbitrary: k d ps)
  case 0
  then show ?case
  proof (cases rule: attempts_step)
    case settled
    then show ?thesis using download_attempt_files [OF settled(1)] by fastforce
  qed simp
next
  case (Suc n)
  from Suc.prems show ?case
  proof (cases rule: attempts_step)
    case settled
    then show ?thesis using download_attempt_files [OF settled(1)] by fastforce
  next
    case (again e d1 m qs)
    note a = download_attempt_files [OF again(1)]
    have ih: "(q \<notin> {ds_path spec, temp_path (ds_path spec)} \<longrightarrow> dk_files d' q = dk_files d1 q)"
      "r \<noteq> None \<longrightarrow> dk_files d' (ds_path spec) = dk_files d1 (ds_path spec)"
      "r = None \<longrightarrow> (\<exists>j content. Suc k \<le> j \<and> j \<le> Suc k + n \<and> net j = Body content \<and> content \<noteq> [] \<and>
         dk_files d' (ds_path spec) = Some content)"
      using Suc.IH [of "Suc k" d1 qs] again(2,3) by blast+
    have "r = None \<longrightarrow> (\<exists>j content. k \<le> j \<and> j \<le> k + Suc n \<and> net j = Body content \<and> content \<noteq> [] \<and>
         dk_files d' (ds_path spec) = Some content)"
      using ih(3) by (metis Suc_leD add_Suc_shift)
    then show ?thesis using ih(1,2) a(1,3) by simp
  qed
qed

text \<open>The pauses double from attempt to attempt until the shift wraps.\<close>

lemma attempts_pauses: "attempts net spec delay k n d = (r, ps, d') \<Longrightarrow>
    length ps \<le> n \<and> ps = map (backoff delay) [k..<k + length ps]"
proof (induction n arbitrary: k d ps)
  case 0
  then show ?case by (cases rule: attempts_step) auto
next
  case (Suc n)
  from Suc.prems show ?case
  proof (cases rule: attempts_step)
    case (again e d1 m qs)
    with Suc.IH [of "Suc k" d1 qs] have "qs = map (backoff delay) [Suc k..<Suc k + length qs]" "length qs \<le> n" by auto
    moreover have "[k..<k + Suc (length qs)] = k # [Suc k..<Suc k + length qs]"
      using upt_conv_Cons [of k "k + Suc (length qs)"] by (simp del: upt_Suc)
    ultimately show ?thesis using again(4) by (simp del: upt_Suc)
  qed simp
qed

lemma backoff_restarts: "backoff delay (attempt + 64) = backoff delay attempt"
  by (simp add: backoff_def)

section \<open>Sequential downloads\<close>

definition paths_apart :: "download_spec list \<Rightarrow> bool" where
  "paths_apart specs \<longleftrightarrow> distinct (map ds_path specs) \<and>
     (\<forall>s \<in> set specs. \<forall>t \<in> set specs. ds_path s \<noteq> temp_path (ds_path t))"

lemma paths_apart_ConsD:
  assumes "paths_apart (s # specs)"
  shows "paths_apart specs" and "t \<in> set specs \<Longrightarrow> ds_path t \<noteq> ds_path s"
    and "t \<in> set specs \<Longrightarrow> ds_path t \<noteq> temp_path (ds_path s)" and "t \<in> set specs \<Longrightarrow> temp_path (ds_path t) \<noteq> ds_path s"
  using assms unfolding paths_apart_def by auto (metis image_eqI)

definition downloaded :: "nat \<Rightarrow> (nat \<Rightarrow> fetch) \<Rightarrow> disk \<Rightarrow> string \<Rightarrow> bool" where
  "downloaded n net d path \<longleftrightarrow> (\<exists>k content. k \<le> n \<and> net k = Body content \<and> content \<noteq> [] \<and> dk_files d path = Some content)"

lemma download_single_files:
  assumes "download_single p net spec d = (r, ps, d')"
  shows "q \<notin> {ds_path spec, temp_path (ds_path spec)} \<Longrightarrow> dk_files d' q = dk_files d q"
    and "r = None \<Longrightarrow> downloaded (dl_max_retries p) net d' (ds_path spec)"
    and "r \<noteq> None \<Longrightarrow> dk_files d' (ds_path spec) = dk_files d (ds_path spec)"
  using attempts_files [OF assms [unfolded download_single_def]] by (auto simp: downloaded_def)

lemma download_sequential_keeps:
  "download_sequential p net i specs d = (r, d') \<Longrightarrow> \<forall>s \<in> set specs. q \<notin> {ds_path s, temp_path (ds_path s)} \<Longrightarrow>
     dk_files d' q = dk_files d q"
proof (induction specs arbitrary: i d)
  case (Cons s specs)
  obtain r1 ps d1 where s: "download_single p (net i) s d = (r1, ps, d1)" by (metis prod_cases3)
  show ?case
  proof (cases r1)
    case None
    with Cons s show ?thesis using download_single_files(1) [OF s, of q] by simp
  next
    case (Some e)
    with Cons.prems s show ?thesis using download_single_files(1) [OF s, of q] by simp
  qed
qed simp

text \<open>
  A sequential download writes, for a first part of the configured files, the complete nonempty
  body of one of the first attempts, leaves every later file as it was, and reports success exactly
  when all files were written, under every fault of the disk and of the network; it assumes that no
  configured path is repeated or is the temporary path of another.
\<close>

theorem sequential_download_prefix:
  assumes "download_sequential p net i specs d = (r, d')" and "paths_apart specs"
  shows "\<exists>xs ys. specs = xs @ ys \<and> (r = None \<longleftrightarrow> ys = []) \<and>
    (\<forall>j < length xs. downloaded (dl_max_retries p) (net (i + j)) d' (ds_path (xs ! j))) \<and>
    (\<forall>s \<in> set ys. dk_files d' (ds_path s) = dk_files d (ds_path s))"
  using assms
proof (induction specs arbitrary: i d)
  case (Cons s specs)
  obtain r1 ps d1 where s: "download_single p (net i) s d = (r1, ps, d1)" by (metis prod_cases3)
  note f = download_single_files [OF s]
  have ap: "paths_apart specs" and out: "\<forall>t \<in> set specs. ds_path t \<notin> {ds_path s, temp_path (ds_path s)}"
    and out': "\<forall>t \<in> set specs. ds_path s \<notin> {ds_path t, temp_path (ds_path t)}"
    using paths_apart_ConsD [OF Cons.prems(2)] by (simp_all add: eq_commute [of "ds_path s"])
  show ?case
  proof (cases r1)
    case None
    then have rest: "download_sequential p net (Suc i) specs d1 = (r, d')" using Cons.prems(1) s by simp
    from Cons.IH [OF this ap] obtain xs ys where m: "specs = xs @ ys" "r = None \<longleftrightarrow> ys = []"
      "\<forall>j < length xs. downloaded (dl_max_retries p) (net (Suc i + j)) d' (ds_path (xs ! j))"
      "\<forall>s \<in> set ys. dk_files d' (ds_path s) = dk_files d1 (ds_path s)"
      by blast
    have "downloaded (dl_max_retries p) (net i) d' (ds_path s)"
      using f(2) [OF None] download_sequential_keeps [OF rest out'] by (simp add: downloaded_def)
    with m(3) have "\<forall>j < length (s # xs). downloaded (dl_max_retries p) (net (i + j)) d' (ds_path ((s # xs) ! j))"
      by (simp add: All_less_Suc2)
    moreover have "\<forall>t \<in> set ys. dk_files d' (ds_path t) = dk_files d (ds_path t)"
      using m(1,4) f(1) out by simp
    ultimately show ?thesis using m(1,2) by (intro exI [of _ "s # xs"] exI [of _ ys]) simp
  next
    case (Some e)
    then have "d' = d1" "r = Some e" using Cons.prems(1) s by simp_all
    then have "\<forall>t \<in> set (s # specs). dk_files d' (ds_path t) = dk_files d (ds_path t)"
      using Some f(1,3) out by simp
    then show ?thesis using \<open>r = Some e\<close> by (intro exI [of _ "[]"] exI [of _ "s # specs"]) simp
  qed
qed simp

definition one_spec :: "download_spec list" where
  "one_spec = [\<lparr>ds_url = ''u'', ds_path = ''a''\<rparr>]"

definition flaky_disk :: disk where
  "flaky_disk = \<lparr>dk_files = [''a'' \<mapsto> [9]], dk_faults = [None, Some (Io ''no space'', 1)]\<rparr>"

lemma one_spec_apart: "paths_apart one_spec"
  by (simp add: paths_apart_def one_spec_def)

theorem sequential_download_prefix_witness:
  "dk_files (snd (download_sequential downloader_default (\<lambda>_ _. Body [1, 2]) 0 one_spec flaky_disk)) ''a'' = Some [1, 2]"
proof -
  let ?run = "download_sequential downloader_default (\<lambda>_ _. Body [1, 2]) 0 one_spec flaky_disk"
  have n: "fst ?run = None"
    by (simp add: one_spec_def flaky_disk_def download_single_def attempts.simps download_attempt_def fetch_error_def
        write_and_rename_def seq_io_def create_file_def write_all_def rename_or_remove_def rename_file_def io_step_def
        next_fault_def append_to_def downloader_default_def downloader_new_def numeral_eq_Suc)
  obtain xs ys where xs: "one_spec = xs @ ys" "fst ?run = None \<longleftrightarrow> ys = []"
    "\<forall>j < length xs. downloaded (dl_max_retries downloader_default) (\<lambda>_. Body [1, 2]) (snd ?run) (ds_path (xs ! j))"
    using sequential_download_prefix [where r = "fst ?run" and d' = "snd ?run", OF _ one_spec_apart,
      of downloader_default "\<lambda>_ _. Body [1, 2]" 0 flaky_disk] by auto
  have "xs = one_spec" using n xs(1,2) by simp
  then have "downloaded (dl_max_retries downloader_default) (\<lambda>_. Body [1, 2]) (snd ?run) (ds_path (one_spec ! 0))"
    using xs(3) by (auto simp only: one_spec_def list.size)
  then have "downloaded (dl_max_retries downloader_default) (\<lambda>_. Body [1, 2]) (snd ?run) ''a''"
    by (simp add: one_spec_def del: download_sequential.simps)
  then show ?thesis by (auto simp: downloaded_def)
qed

section \<open>Interleavings\<close>

definition px_ok :: "posix \<Rightarrow> bool" where
  "px_ok x \<longleftrightarrow> (\<forall>q r i. px_names x q = Some i \<longrightarrow> px_names x r = Some i \<longrightarrow> q = r) \<and>
     (\<forall>q i. px_names x q = Some i \<longrightarrow> i < px_next x)"

definition task_ok :: "nat \<Rightarrow> (nat \<Rightarrow> fetch) \<Rightarrow> string \<Rightarrow> posix \<Rightarrow> task \<Rightarrow> bool" where
  "task_ok n net path x t \<longleftrightarrow>
     (case t of
        Fetching k \<Rightarrow> k \<le> n
      | Writing k bs i pos \<Rightarrow> k \<le> n \<and> net k = Body bs \<and> bs \<noteq> [] \<and> pos \<le> length bs \<and>
          px_names x (temp_path path) = Some i \<and> px_data x i = take pos bs
      | Removing k e \<Rightarrow> k \<le> n
      | Finished r \<Rightarrow> True)"

definition whole_body :: "nat \<Rightarrow> (nat \<Rightarrow> fetch) \<Rightarrow> u8 list option \<Rightarrow> bool" where
  "whole_body n net c \<longleftrightarrow> (\<exists>k \<le> n. \<exists>bs. net k = Body bs \<and> bs \<noteq> [] \<and> c = Some bs)"

lemma task_ok_retry: "k \<le> n \<Longrightarrow> task_ok n net path x (retry n k e)"
  by (simp add: retry_def task_ok_def)

lemma fetch_error_None: "fetch_error spec r = None \<Longrightarrow> r = Body (fetch_body r) \<and> fetch_body r \<noteq> []"
  by (cases r) (auto simp: fetch_error_def split: if_splits)

lemma px_content_other:
  "px_ok x \<Longrightarrow> px_names x r = Some i \<Longrightarrow> q \<noteq> r \<Longrightarrow> px_content (x\<lparr>px_data := (px_data x)(i := c)\<rparr>) q = px_content x q"
  by (cases "px_names x q") (auto simp: px_content_def px_ok_def)

lemma px_ok_data [simp]: "px_ok (x\<lparr>px_data := f\<rparr>) = px_ok x"
  by (simp add: px_ok_def)

text \<open>A step of a task keeps the names apart, touches only its own two paths, and leaves at its path
  what was there or a whole body.\<close>

definition path_frame :: "nat \<Rightarrow> (nat \<Rightarrow> fetch) \<Rightarrow> string \<Rightarrow> posix \<Rightarrow> posix \<Rightarrow> bool" where
  "path_frame n net path x x' \<longleftrightarrow> px_ok x' \<and>
    (\<forall>q. q \<notin> {path, temp_path path} \<longrightarrow> px_names x' q = px_names x q \<and> px_content x' q = px_content x q) \<and>
    (px_content x' path = px_content x path \<or> whole_body n net (px_content x' path))"

lemma path_frame_refl: "px_ok x \<Longrightarrow> path_frame n net path x x"
  by (simp add: path_frame_def)

lemma path_frame_create:
  assumes "open_truncated (temp_path path) x = (i, x')" and "px_ok x"
  shows "path_frame n net path x x' \<and> px_names x' (temp_path path) = Some i \<and> px_data x' i = []"
proof (cases "px_names x (temp_path path)")
  case None
  have "px_content x' q = px_content x q" if "q \<noteq> temp_path path" for q
    using None assms that by (cases "px_names x q") (fastforce simp: open_truncated_def px_content_def px_ok_def)+
  moreover have "px_ok x'"
    using None assms
    by (auto simp: open_truncated_def px_ok_def less_Suc_eq split: if_splits) (metis less_irrefl)+
  ultimately show ?thesis using None assms by (auto simp: open_truncated_def path_frame_def)
next
  case (Some j)
  then have "i = j" "x' = x\<lparr>px_data := (px_data x)(j := [])\<rparr>" using assms(1) by (auto simp: open_truncated_def)
  then show ?thesis using Some assms(2) px_content_other [OF assms(2) Some] by (auto simp: path_frame_def)
qed

lemma path_frame_write:
  assumes "px_ok x" and "px_names x (temp_path path) = Some i"
  shows "path_frame n net path x (write_at i pos bs x)"
  using assms px_content_other [OF assms] by (auto simp: path_frame_def write_at_def Let_def)

lemma path_frame_remove:
  assumes "px_ok x"
  shows "path_frame n net path x (x\<lparr>px_names := (px_names x)(temp_path path := None)\<rparr>)"
  using assms by (auto simp: path_frame_def px_ok_def px_content_def)

lemma path_frame_rename:
  assumes "px_ok x" and "px_names x (temp_path path) = Some j" and "whole_body n net (Some (px_data x j))"
  shows "path_frame n net path x (x\<lparr>px_names := (px_names x)(path \<mapsto> j, temp_path path := None)\<rparr>)"
proof -
  have "px_ok (x\<lparr>px_names := (px_names x)(path \<mapsto> j, temp_path path := None)\<rparr>)"
    using assms(1,2) unfolding px_ok_def by auto
  then show ?thesis using assms(3) by (auto simp: path_frame_def px_content_def)
qed

lemma task_step_frame:
  assumes "task_step n net spec (x, t) (x', t')" and "px_ok x" and "task_ok n net (ds_path spec) x t"
  shows "path_frame n net (ds_path spec) x x' \<and> task_ok n net (ds_path spec) x' t'"
  using assms(1)
proof (cases rule: task_step.cases)
  case (create k i)
  then have "net k = Body (fetch_body (net k))" "fetch_body (net k) \<noteq> []" using fetch_error_None by auto
  then show ?thesis using create assms(3) path_frame_create [of "ds_path spec" x i x' n net] assms(2) by (auto simp: task_ok_def)
next
  case (append c pos bs k i)
  then have i: "px_names x (temp_path (ds_path spec)) = Some i" "px_data x i = take pos bs"
    using assms(3) by (auto simp: task_ok_def)
  have "px_data (write_at i pos (take c (drop pos bs)) x) i = take (pos + c) bs"
    using i(2) append by (simp add: write_at_def Let_def take_add)
  moreover have "px_names (write_at i pos (take c (drop pos bs)) x) (temp_path (ds_path spec)) = Some i"
    using i(1) by (simp add: write_at_def Let_def)
  ultimately show ?thesis using append assms(3) path_frame_write [OF assms(2) i(1)] by (simp add: task_ok_def)
next
  case (rename pos bs j k i)
  then have "whole_body n net (Some (px_data x j))" using assms(3) by (auto simp: task_ok_def whole_body_def)
  then show ?thesis using rename path_frame_rename [of x "ds_path spec"] assms(2) by (simp add: task_ok_def)
qed (use assms(2,3) task_ok_retry path_frame_refl path_frame_remove in \<open>auto simp: task_ok_def\<close>)

definition conc_inv :: "nat \<Rightarrow> (nat \<Rightarrow> nat \<Rightarrow> fetch) \<Rightarrow> download_spec list \<Rightarrow> posix \<Rightarrow> posix \<times> task list \<Rightarrow> bool" where
  "conc_inv n net specs x0 s \<longleftrightarrow>
     (case s of (x, ts) \<Rightarrow> px_ok x \<and> length ts = length specs \<and>
        (\<forall>i < length specs. task_ok n (net i) (ds_path (specs ! i)) x (ts ! i) \<and>
           (px_content x (ds_path (specs ! i)) = px_content x0 (ds_path (specs ! i)) \<or>
            whole_body n (net i) (px_content x (ds_path (specs ! i))))))"

lemma task_ok_cong:
  "px_names x' (temp_path path) = px_names x (temp_path path) \<Longrightarrow>
   px_content x' (temp_path path) = px_content x (temp_path path) \<Longrightarrow> task_ok n net path x t \<Longrightarrow> task_ok n net path x' t"
  by (cases t) (auto simp: task_ok_def px_content_def)

lemma temp_path_inj [simp]: "temp_path p = temp_path q \<longleftrightarrow> p = q"
  by (simp add: temp_path_def)

lemma paths_apart_nth:
  "paths_apart specs \<Longrightarrow> i < length specs \<Longrightarrow> j < length specs \<Longrightarrow> i \<noteq> j \<Longrightarrow>
     ds_path (specs ! i) \<notin> {ds_path (specs ! j), temp_path (ds_path (specs ! j))} \<and>
     temp_path (ds_path (specs ! i)) \<notin> {ds_path (specs ! j), temp_path (ds_path (specs ! j))}"
  unfolding paths_apart_def by (auto simp: distinct_conv_nth) (metis nth_mem)+

lemma conc_inv_step:
  assumes "conc_step n net specs s s'" and "conc_inv n net specs x0 s" and "paths_apart specs"
  shows "conc_inv n net specs x0 s'"
  using assms(1)
proof (cases rule: conc_step.cases)
  case (conc i ts x x' t')
  let ?p = "ds_path (specs ! i)"
  from assms(2) conc have inv: "px_ok x" "length ts = length specs"
    "\<And>j. j < length specs \<Longrightarrow> task_ok n (net j) (ds_path (specs ! j)) x (ts ! j) \<and>
       (px_content x (ds_path (specs ! j)) = px_content x0 (ds_path (specs ! j)) \<or>
        whole_body n (net j) (px_content x (ds_path (specs ! j))))"
    by (auto simp: conc_inv_def)
  from task_step_frame [OF conc(5) inv(1)] inv(3) conc(4)
  have f: "path_frame n (net i) ?p x x'" "task_ok n (net i) ?p x' t'" by auto
  have "task_ok n (net j) (ds_path (specs ! j)) x' (ts[i := t'] ! j) \<and>
      (px_content x' (ds_path (specs ! j)) = px_content x0 (ds_path (specs ! j)) \<or>
       whole_body n (net j) (px_content x' (ds_path (specs ! j))))" if j: "j < length specs" for j
  proof (cases "j = i")
    case True
    then show ?thesis using f inv(2) inv(3) [of i] conc(3) j by (auto simp: path_frame_def)
  next
    case False
    from paths_apart_nth [OF assms(3) j conc(4) False] f(1)
    have "px_names x' (temp_path (ds_path (specs ! j))) = px_names x (temp_path (ds_path (specs ! j)))"
      "px_content x' (temp_path (ds_path (specs ! j))) = px_content x (temp_path (ds_path (specs ! j)))"
      "px_content x' (ds_path (specs ! j)) = px_content x (ds_path (specs ! j))"
      by (auto simp: path_frame_def)
    then show ?thesis using inv(3) [OF j] False task_ok_cong by auto
  qed
  then show ?thesis using f(1) inv(2) conc(2) by (simp add: conc_inv_def path_frame_def)
qed

lemma conc_inv_reachable:
  assumes "(conc_step n net specs)\<^sup>*\<^sup>* (x0, spawned_tasks specs) s" and "px_ok x0" and "paths_apart specs"
  shows "conc_inv n net specs x0 s"
  using assms(1)
proof (induction rule: rtranclp_induct)
  case base
  then show ?case using assms(2) by (auto simp: conc_inv_def spawned_tasks_def task_ok_def)
next
  case (step s s')
  then show ?case using conc_inv_step assms(3) by blast
qed

text \<open>
  C35: while files are downloaded concurrently, in every interleaving of the tasks' system calls and
  with every failure of them, each configured path holds at every moment either what it held before
  or the complete body of one of its own attempts; it assumes that no configured path is repeated or
  is the temporary path of another, and a disk without hard links.
\<close>

theorem concurrent_download_never_tears:
  assumes "(conc_step n net specs)\<^sup>*\<^sup>* (x0, spawned_tasks specs) (x, ts)" and "px_ok x0" and "paths_apart specs"
    and "i < length specs"
  shows "px_content x (ds_path (specs ! i)) = px_content x0 (ds_path (specs ! i)) \<or>
    (\<exists>k \<le> n. \<exists>bs. net i k = Body bs \<and> bs \<noteq> [] \<and> px_content x (ds_path (specs ! i)) = Some bs)"
  using conc_inv_reachable [OF assms(1-3)] assms(4) by (auto simp: conc_inv_def whole_body_def)

definition empty_disk :: posix where
  "empty_disk = \<lparr>px_names = Map.empty, px_data = (\<lambda>_. []), px_next = 0\<rparr>"

lemma empty_disk_ok: "px_ok empty_disk"
  by (simp add: px_ok_def empty_disk_def)

definition demo_net :: "nat \<Rightarrow> nat \<Rightarrow> fetch" where
  "demo_net i k = Body (if i = 0 then [1, 1] else [2, 2])"

lemma conc_stepI:
  "i < length ts \<Longrightarrow> i < length specs \<Longrightarrow> task_step n (net i) (specs ! i) (x, t) s \<Longrightarrow> ts ! i = t \<Longrightarrow> s = (x', t') \<Longrightarrow> ts' = ts[i := t'] \<Longrightarrow>
     conc_step n net specs (x, ts) (x', ts')"
  using conc_step.conc by blast

definition two_specs :: "download_spec list" where
  "two_specs = [\<lparr>ds_url = ''u'', ds_path = ''a''\<rparr>, \<lparr>ds_url = ''v'', ds_path = ''b''\<rparr>]"

text \<open>Two downloads whose writes interleave: the first has published its file, the second has written
  half of its temporary file.\<close>

definition half_done :: posix where
  "half_done = \<lparr>px_names = [''a'' \<mapsto> 0, ''b.tmp'' \<mapsto> 1], px_data = (\<lambda>_. [])(0 := [1, 1], 1 := [2]), px_next = 2\<rparr>"

lemma half_done_run:
  "(conc_step 0 demo_net two_specs)\<^sup>*\<^sup>* (empty_disk, spawned_tasks two_specs)
     (half_done, [Finished None, Writing 0 [2, 2] 1 1])"
proof -
  define step where "step = conc_step 0 demo_net two_specs"
  let ?x = "\<lambda>names bs cs. \<lparr>px_names = names, px_data = (\<lambda>_. [])(0 := bs, 1 := cs), px_next = 2\<rparr> :: posix"
  let ?x1 = "\<lparr>px_names = [''a.tmp'' \<mapsto> 0], px_data = (\<lambda>_. [])(0 := []), px_next = 1\<rparr> :: posix"
  let ?n = "[''a.tmp'' \<mapsto> 0, ''b.tmp'' \<mapsto> 1] :: string \<rightharpoonup> nat"
  let ?w = "\<lambda>k. Writing 0 [1, 1] 0 k"
  let ?v = "\<lambda>k. Writing 0 [2, 2] 1 k"
  note defs = two_specs_def fetch_error_def temp_path_def open_truncated_def empty_disk_def write_at_def demo_net_def
    retry_def fun_eq_iff half_done_def
  have 1: "step (empty_disk, [Fetching 0, Fetching 0]) (?x1, [?w 0, Fetching 0])"
    unfolding step_def by (rule conc_stepI [of 0, OF _ _ task_step.create]) (auto simp: defs)
  have 2: "step (?x1, [?w 0, Fetching 0]) (?x ?n [] [], [?w 0, ?v 0])"
    unfolding step_def by (rule conc_stepI [of 1, OF _ _ task_step.create]) (auto simp: defs)
  have 3: "step (?x ?n [] [], [?w 0, ?v 0]) (?x ?n [1] [], [?w 1, ?v 0])"
    unfolding step_def by (rule conc_stepI [of 0, OF _ _ task_step.append [where c = 1]]) (auto simp: defs)
  have 4: "step (?x ?n [1] [], [?w 1, ?v 0]) (?x ?n [1] [2], [?w 1, ?v 1])"
    unfolding step_def by (rule conc_stepI [of 1, OF _ _ task_step.append [where c = 1]]) (auto simp: defs)
  have 5: "step (?x ?n [1] [2], [?w 1, ?v 1]) (?x ?n [1, 1] [2], [?w 2, ?v 1])"
    unfolding step_def by (rule conc_stepI [of 0, OF _ _ task_step.append [where c = 1]]) (auto simp: defs)
  have 6: "step (?x ?n [1, 1] [2], [?w 2, ?v 1]) (half_done, [Finished None, ?v 1])"
    unfolding step_def by (rule conc_stepI [of 0, OF _ _ task_step.rename]) (auto simp: defs)
  from 1 2 3 4 5 6 have "step\<^sup>*\<^sup>* (empty_disk, [Fetching 0, Fetching 0]) (half_done, [Finished None, ?v 1])"
    by (meson converse_rtranclp_into_rtranclp rtranclp.rtrancl_refl)
  then show ?thesis unfolding step_def by (simp add: spawned_tasks_def two_specs_def)
qed

theorem concurrent_download_never_tears_witness:
  "(conc_step 0 demo_net two_specs)\<^sup>*\<^sup>* (empty_disk, spawned_tasks two_specs)
     (half_done, [Finished None, Writing 0 [2, 2] 1 1]) \<and>
   px_content half_done ''b.tmp'' = Some [2] \<and> px_content half_done ''b'' = None \<and>
   px_content empty_disk ''a'' = None \<and> px_content half_done ''a'' = Some [1, 1]"
proof -
  have ap: "paths_apart two_specs" by (simp add: paths_apart_def two_specs_def temp_path_def less_Suc_eq)
  have c: "px_content empty_disk ''a'' = None" "px_content half_done ''a'' \<noteq> None"
    "px_content half_done ''b.tmp'' = Some [2]" "px_content half_done ''b'' = None"
    by (simp_all add: px_content_def empty_disk_def half_done_def)
  have "px_content half_done ''a'' = Some [1, 1]"
    using concurrent_download_never_tears [OF half_done_run empty_disk_ok ap, of 0] c(1,2)
    by (auto simp: two_specs_def demo_net_def)
  with half_done_run c show ?thesis by blast
qed

definition demo_specs :: "download_spec list" where
  "demo_specs = [\<lparr>ds_url = ''u'', ds_path = ''a''\<rparr>, \<lparr>ds_url = ''v'', ds_path = ''a''\<rparr>]"

text \<open>Two entries with one path share the temporary file: a task that still has it open writes into
  the file the other one has published, and leaves a mixture when it then fails.\<close>

theorem shared_path_tears_file:
  "\<exists>x. (conc_step 0 demo_net demo_specs)\<^sup>*\<^sup>* (empty_disk, spawned_tasks demo_specs)
      (x, [Finished None, Finished (Some (write_error (Io ''no space'')))]) \<and>
    px_content x ''a'' = Some [2, 1]"
proof -
  define step where "step = conc_step 0 demo_net demo_specs"
  let ?t = "[''a.tmp'' \<mapsto> 0] :: string \<rightharpoonup> nat"
  let ?a = "[''a'' \<mapsto> 0] :: string \<rightharpoonup> nat"
  let ?x = "\<lambda>names bs. \<lparr>px_names = names, px_data = (\<lambda>_. [])(0 := bs), px_next = 1\<rparr> :: posix"
  let ?e = "write_error (Io ''no space'')"
  have sp: "ds_path (demo_specs ! i) = ''a''" if "i < 2" for i
    using that by (auto simp: demo_specs_def less_2_cases_iff)
  have l: "length demo_specs = 2" by (simp add: demo_specs_def)
  note defs = sp l fetch_error_def temp_path_def open_truncated_def empty_disk_def write_at_def demo_net_def retry_def fun_eq_iff
  have 1: "step (empty_disk, [Fetching 0, Fetching 0]) (?x ?t [], [Writing 0 [1, 1] 0 0, Fetching 0])"
    unfolding step_def
    by (rule conc_stepI [of 0, OF _ _ task_step.create]) (auto simp: defs)
  have 2: "step (?x ?t [], [Writing 0 [1, 1] 0 0, Fetching 0]) (?x ?t [], [Writing 0 [1, 1] 0 0, Writing 0 [2, 2] 0 0])"
    unfolding step_def
    by (rule conc_stepI [of 1, OF _ _ task_step.create]) (auto simp: defs)
  have 3: "step (?x ?t [], [Writing 0 [1, 1] 0 0, Writing 0 [2, 2] 0 0]) (?x ?t [1, 1], [Writing 0 [1, 1] 0 2, Writing 0 [2, 2] 0 0])"
    unfolding step_def
    by (rule conc_stepI [of 0, OF _ _ task_step.append [where c = 2]]) (auto simp: defs)
  have 4: "step (?x ?t [1, 1], [Writing 0 [1, 1] 0 2, Writing 0 [2, 2] 0 0]) (?x ?a [1, 1], [Finished None, Writing 0 [2, 2] 0 0])"
    unfolding step_def
    by (rule conc_stepI [of 0, OF _ _ task_step.rename]) (auto simp: defs)
  have 5: "step (?x ?a [1, 1], [Finished None, Writing 0 [2, 2] 0 0]) (?x ?a [2, 1], [Finished None, Writing 0 [2, 2] 0 1])"
    unfolding step_def
    by (rule conc_stepI [of 1, OF _ _ task_step.append [where c = 1]]) (auto simp: defs)
  have 6: "step (?x ?a [2, 1], [Finished None, Writing 0 [2, 2] 0 1]) (?x ?a [2, 1], [Finished None, Finished (Some ?e)])"
    unfolding step_def
    by (rule conc_stepI [of 1, OF _ _ task_step.append_fails]) (auto simp: defs)
  from 1 2 3 4 5 6 have "step\<^sup>*\<^sup>* (empty_disk, [Fetching 0, Fetching 0]) (?x ?a [2, 1], [Finished None, Finished (Some ?e)])"
    by (meson converse_rtranclp_into_rtranclp rtranclp.rtrancl_refl)
  moreover have "px_content (?x ?a [2, 1]) ''a'' = Some [2, 1]" by (simp add: px_content_def)
  ultimately show ?thesis unfolding step_def by (auto simp: spawned_tasks_def demo_specs_def)
qed

end
