(* ===== verification/Memory_Metrics.thy ===== *)
theory Memory_Metrics
  imports Prelude
begin

text \<open>
  The memory gauges of \<^verbatim>\<open>src/src/metrics/memory\<close>: \<^verbatim>\<open>cgroup_reader.rs\<close>, \<^verbatim>\<open>proc_reader.rs\<close> (on Linux)
  and the sampling loop of \<^verbatim>\<open>mod.rs\<close>. The files of the system are a parameter that may change from
  sample to sample. The readers' errors are dropped or only logged by their callers and are \<open>None\<close>
  here; a gauge is the \<^verbatim>\<open>i64\<close> the metrics library keeps.
\<close>

section \<open>cgroups\<close>

record fs_view =
  fv_read :: "string \<Rightarrow> string option"
  fv_exists :: "string \<Rightarrow> bool"

record cgroup_memory_stats =
  cg_usage_bytes :: u64
  cg_limit_bytes :: "u64 option"

datatype cgroup_version = CgroupV2 | CgroupV1

text \<open>\<^verbatim>\<open>splitn\<close>.\<close>

fun splitn :: "nat \<Rightarrow> char \<Rightarrow> string \<Rightarrow> string list" where
  "splitn 0 c s = []"
| "splitn (Suc 0) c s = [s]"
| "splitn (Suc (Suc n)) c s = (case split_once c s of None \<Rightarrow> [s] | Some (a, b) \<Rightarrow> a # splitn (Suc n) c b)"

definition nth_or_empty :: "string list \<Rightarrow> nat \<Rightarrow> string" where
  "nth_or_empty xs i = (if i < length xs then xs ! i else '''')"

fun cgroup_entry :: "bool \<Rightarrow> string list \<Rightarrow> string option" where
  "cgroup_entry v2 [] = None"
| "cgroup_entry v2 (l # ls) =
     (let parts = splitn 3 (CHR '':'') l; controllers = nth_or_empty parts 1; path = nth_or_empty parts 2 in
      if (if v2 then controllers = [] else ''memory'' \<in> set (split_on (CHR '','') controllers)) then Some path
      else cgroup_entry v2 ls)"

definition own_cgroup_path :: "fs_view \<Rightarrow> bool \<Rightarrow> string option" where
  "own_cgroup_path fs v2 = Option.bind (fv_read fs ''/proc/self/cgroup'') (\<lambda>content. cgroup_entry v2 (str_lines content))"

definition in_container :: "fs_view \<Rightarrow> bool" where
  "in_container fs \<longleftrightarrow> fv_exists fs ''/.dockerenv'' \<or> fv_exists fs ''/run/.containerenv''"

definition own_cgroup_dir :: "fs_view \<Rightarrow> string \<Rightarrow> bool \<Rightarrow> string option" where
  "own_cgroup_dir fs mount v2 =
     (case own_cgroup_path fs v2 of
        None \<Rightarrow> None
      | Some path \<Rightarrow>
          if path = ''/'' \<and> \<not> in_container fs then None
          else Some (path_join (Some mount) (dropWhile (\<lambda>c. c = CHR ''/'') path)))"

definition read_u64 :: "fs_view \<Rightarrow> string \<Rightarrow> string \<Rightarrow> u64 option" where
  "read_u64 fs dir file = Option.bind (fv_read fs (path_join (Some dir) file)) (\<lambda>content. parse_u64 (trim content))"

definition read_cgroup_v2_memory :: "fs_view \<Rightarrow> cgroup_memory_stats option" where
  "read_cgroup_v2_memory fs =
     (case own_cgroup_dir fs ''/sys/fs/cgroup'' True of
        None \<Rightarrow> None
      | Some dir \<Rightarrow>
          (case read_u64 fs dir ''memory.current'' of
             None \<Rightarrow> None
           | Some usage \<Rightarrow>
               Some \<lparr>cg_usage_bytes = usage,
                 cg_limit_bytes = Option.bind (fv_read fs (path_join (Some dir) ''memory.max''))
                   (\<lambda>content. if trim content = ''max'' then None else parse_u64 (trim content))\<rparr>))"

definition read_cgroup_v1_memory :: "fs_view \<Rightarrow> cgroup_memory_stats option" where
  "read_cgroup_v1_memory fs =
     (case own_cgroup_dir fs ''/sys/fs/cgroup/memory'' False of
        None \<Rightarrow> None
      | Some dir \<Rightarrow>
          (case read_u64 fs dir ''memory.usage_in_bytes'' of
             None \<Rightarrow> None
           | Some usage \<Rightarrow>
               Some \<lparr>cg_usage_bytes = usage,
                 cg_limit_bytes = Option.bind (read_u64 fs dir ''memory.limit_in_bytes'')
                   (\<lambda>limit. if limit > push_bit 60 1 then None else Some limit)\<rparr>))"

definition read_cgroup_memory :: "fs_view \<Rightarrow> cgroup_memory_stats option" where
  "read_cgroup_memory fs =
     (case read_cgroup_v2_memory fs of Some s \<Rightarrow> Some s | None \<Rightarrow> read_cgroup_v1_memory fs)"

definition detect_cgroup_version :: "fs_view \<Rightarrow> cgroup_version option" where
  "detect_cgroup_version fs =
     (if fv_exists fs ''/sys/fs/cgroup/memory.current'' then Some CgroupV2
      else if fv_exists fs ''/sys/fs/cgroup/memory'' then Some CgroupV1
      else None)"

section \<open>The process\<close>

record proc_memory_stats =
  pm_rss_bytes :: u64
  pm_vms_bytes :: u64

text \<open>The product wraps, as in a build without overflow checks.\<close>

definition parse_memory_kb :: "string \<Rightarrow> u64 option" where
  "parse_memory_kb v = map_option (\<lambda>kb. kb * 1024) (parse_u64 (trim (trim_end_str ''kB'' (trim v))))"

fun proc_status_lines :: "string list \<Rightarrow> proc_memory_stats \<Rightarrow> proc_memory_stats option" where
  "proc_status_lines [] s = Some s"
| "proc_status_lines (l # ls) s =
     (case strip_prefix ''VmRSS:'' l of
        Some v \<Rightarrow> Option.bind (parse_memory_kb v) (\<lambda>b. proc_status_lines ls (s\<lparr>pm_rss_bytes := b\<rparr>))
      | None \<Rightarrow>
          (case strip_prefix ''VmSize:'' l of
             Some v \<Rightarrow> Option.bind (parse_memory_kb v) (\<lambda>b. proc_status_lines ls (s\<lparr>pm_vms_bytes := b\<rparr>))
           | None \<Rightarrow> proc_status_lines ls s))"

definition parse_proc_status :: "string \<Rightarrow> proc_memory_stats option" where
  "parse_proc_status content = proc_status_lines (str_lines content) \<lparr>pm_rss_bytes = 0, pm_vms_bytes = 0\<rparr>"

definition read_proc_memory :: "fs_view \<Rightarrow> proc_memory_stats option" where
  "read_proc_memory fs = Option.bind (fv_read fs ''/proc/self/status'') parse_proc_status"

section \<open>The collector\<close>

record memory_gauges =
  mg_resident :: int
  mg_virtual :: int
  mg_cgroup :: int
  mg_cgroup_limit :: int

definition gauges_new :: memory_gauges where
  "gauges_new = \<lparr>mg_resident = 0, mg_virtual = 0, mg_cgroup = 0, mg_cgroup_limit = 0\<rparr>"

definition collect_memory_metrics :: "fs_view \<Rightarrow> bool \<Rightarrow> memory_gauges \<Rightarrow> memory_gauges" where
  "collect_memory_metrics fs has_cgroup g =
     (let g = (case (if has_cgroup then read_cgroup_memory fs else None) of
                 Some s \<Rightarrow> g\<lparr>mg_cgroup := sint (cg_usage_bytes s),
                   mg_cgroup_limit := (case cg_limit_bytes s of Some l \<Rightarrow> sint l | None \<Rightarrow> 0)\<rparr>
               | None \<Rightarrow> g)
      in case read_proc_memory fs of
           Some s \<Rightarrow> g\<lparr>mg_resident := sint (pm_rss_bytes s), mg_virtual := sint (pm_vms_bytes s)\<rparr>
         | None \<Rightarrow> g)"

text \<open>The task: \<open>start\<close> is the system when it starts, \<open>samples\<close> at the ticks that follow.\<close>

definition memory_collector :: "bool \<Rightarrow> fs_view \<Rightarrow> fs_view list \<Rightarrow> memory_gauges \<Rightarrow> memory_gauges" where
  "memory_collector enabled start samples g =
     (if \<not> enabled then g
      else let has_cgroup = detect_cgroup_version start \<noteq> None
           in foldl (\<lambda>g fs. collect_memory_metrics fs has_cgroup g) g samples)"

section \<open>Facts\<close>

lemma trim_surround:
  assumes "\<forall>c \<in> set a. is_whitespace c" and "\<forall>c \<in> set b. is_whitespace c" and "s \<noteq> []"
    and "\<not> is_whitespace (hd s)" and "\<not> is_whitespace (last s)"
  shows "trim (a @ s @ b) = s"
proof -
  have d: "dropWhile is_whitespace (xs @ ys) = ys" if "\<forall>c \<in> set xs. is_whitespace c" "ys \<noteq> []" "\<not> is_whitespace (hd ys)" for xs ys
    using that by (induction xs) (auto simp: dropWhile_eq_self_iff)
  have "dropWhile is_whitespace (a @ s @ b) = s @ b" using assms by (intro d) simp_all
  moreover have "dropWhile is_whitespace (rev b @ rev s) = rev s"
    using assms by (intro d) (simp_all add: hd_rev)
  ultimately show ?thesis by (simp add: trim_def)
qed

lemma parse_memory_kb_show:
  assumes "\<forall>c \<in> set ws. is_whitespace c" and "n < 2 ^ 64"
  shows "parse_memory_kb (ws @ show_nat n @ '' kB'') = Some (of_nat n * 1024)"
proof -
  obtain c cs where s: "show_nat n = c # cs" using show_nat_not_Nil by (cases "show_nat n") auto
  have dig: "\<forall>c \<in> set (show_nat n). \<not> is_whitespace c" using show_nat_digits digit_not_whitespace by blast
  have w: "is_whitespace (CHR '' '')" "\<not> is_whitespace (CHR ''B'')" by (simp_all add: is_whitespace_def)
  have t1: "trim (ws @ show_nat n @ '' kB'') = show_nat n @ '' kB''"
    using trim_surround [of ws "[]" "show_nat n @ '' kB''"] assms(1) dig w s by simp
  have "\<not> ends_with ''kB'' (show_nat n @ '' '')" by (simp add: ends_with_def strip_suffix_def strip_prefix_def)
  then have t2: "trim_end_str ''kB'' (show_nat n @ '' kB'') = show_nat n @ '' ''"
    using trim_end_str_once [of "''kB''" "show_nat n @ '' ''"] by simp
  have "trim (show_nat n @ '' '') = show_nat n"
    using trim_surround [of "[]" "'' ''" "show_nat n"] dig w s last_in_set [of "show_nat n"] by auto
  moreover have "parse_uint 18446744073709551615 (show_nat n) = Some n" using assms(2) by (simp add: parse_uint_show_nat)
  ultimately show ?thesis by (simp add: parse_memory_kb_def t1 t2 parse_u64_def)
qed

lemma proc_status_skip:
  "\<forall>l \<in> set ls. strip_prefix ''VmRSS:'' l = None \<and> strip_prefix ''VmSize:'' l = None \<Longrightarrow>
     proc_status_lines (ls @ ms) s = proc_status_lines ms s"
  by (induction ls) auto

text \<open>
  From a \<^verbatim>\<open>/proc/self/status\<close> text whose lines hold a virtual size and, later, a resident size in
  kB (any blanks between the label and the number, any other lines around), the reader takes both
  numbers in bytes, exactly as long as they are below \<^verbatim>\<open>2^54\<close> kB.
\<close>

theorem proc_status_in_bytes:
  assumes "str_lines content = a @ [''VmSize:'' @ ws @ show_nat v @ '' kB''] @ b @ [''VmRSS:'' @ ws' @ show_nat r @ '' kB''] @ c"
    and "\<forall>l \<in> set (a @ b @ c). strip_prefix ''VmRSS:'' l = None \<and> strip_prefix ''VmSize:'' l = None"
    and "\<forall>x \<in> set (ws @ ws'). is_whitespace x" and "v < 2 ^ 54" and "r < 2 ^ 54"
  shows "\<exists>s. parse_proc_status content = Some s \<and> unat (pm_vms_bytes s) = v * 1024 \<and> unat (pm_rss_bytes s) = r * 1024"
proof -
  have k: "parse_memory_kb (ws @ show_nat v @ '' kB'') = Some (of_nat v * 1024)"
    "parse_memory_kb (ws' @ show_nat r @ '' kB'') = Some (of_nat r * 1024)"
    using assms(3-5) by (auto intro!: parse_memory_kb_show)
  have "strip_prefix ''VmRSS:'' (''VmSize:'' @ ws @ show_nat v @ '' kB'') = None" by (simp add: strip_prefix_def)
  moreover have "strip_prefix ''VmSize:'' (''VmSize:'' @ t) = Some t" "strip_prefix ''VmRSS:'' (''VmRSS:'' @ t) = Some t" for t
    by (simp_all add: strip_prefix_def)
  ultimately have "parse_proc_status content = Some \<lparr>pm_rss_bytes = of_nat r * 1024, pm_vms_bytes = of_nat v * 1024\<rparr>"
    using assms(2) proc_status_skip [of c "[]"]
    by (simp add: parse_proc_status_def assms(1) proc_status_skip k)
  moreover have "unat ((of_nat n :: u64) * 1024) = n * 1024" if "n < 2 ^ 54" for n
  proof -
    have "(of_nat n :: u64) * 1024 = of_nat (n * 1024)" by simp
    moreover have "n * 1024 < 2 ^ LENGTH(64)" using that by simp
    ultimately show ?thesis by (simp only: unat_of_nat mod_less)
  qed
  ultimately show ?thesis using assms(4,5) by simp
qed

theorem proc_status_in_bytes_witness:
  "\<exists>s. parse_proc_status (''VmSize: '' @ show_nat 10 @ '' kB'' @ [CHR 0x0A] @ ''VmRSS: '' @ show_nat 7 @ '' kB'') = Some s \<and>
     unat (pm_vms_bytes s) = 10 * 1024 \<and> unat (pm_rss_bytes s) = 7 * 1024"
proof (rule proc_status_in_bytes [where a = "[]" and b = "[]" and c = "[]" and ws = "'' ''" and ws' = "'' ''"])
  show "str_lines (''VmSize: '' @ show_nat 10 @ '' kB'' @ [CHR 0x0A] @ ''VmRSS: '' @ show_nat 7 @ '' kB'') =
    [] @ [''VmSize:'' @ '' '' @ show_nat 10 @ '' kB''] @ [] @ [''VmRSS:'' @ '' '' @ show_nat 7 @ '' kB''] @ []"
    by code_simp
qed (simp_all add: is_whitespace_def)

text \<open>On a host the root cgroup, which is the whole machine, is never taken for the process.\<close>

lemma root_cgroup_of_host_ignored:
  assumes "own_cgroup_path fs True = Some ''/''" and "own_cgroup_path fs False \<in> {None, Some ''/''}" and "\<not> in_container fs"
  shows "read_cgroup_memory fs = None"
  using assms by (auto simp: read_cgroup_memory_def read_cgroup_v2_memory_def read_cgroup_v1_memory_def own_cgroup_dir_def)

text \<open>
  The collector looks once, at its start, for \<^verbatim>\<open>memory.current\<close> in the mount root of the cgroups; when
  it is not there, the cgroup gauges are never set, whatever the samples could read of the process's
  own cgroup.
\<close>

theorem undetected_cgroup_never_reported:
  assumes "detect_cgroup_version start = None"
  shows "mg_cgroup (memory_collector enabled start samples g) = mg_cgroup g \<and>
    mg_cgroup_limit (memory_collector enabled start samples g) = mg_cgroup_limit g"
proof -
  have "mg_cgroup (collect_memory_metrics fs False g) = mg_cgroup g \<and>
      mg_cgroup_limit (collect_memory_metrics fs False g) = mg_cgroup_limit g" for fs g
    by (simp add: collect_memory_metrics_def split: option.splits)
  then have "mg_cgroup (foldl (\<lambda>g fs. collect_memory_metrics fs False g) g fss) = mg_cgroup g \<and>
      mg_cgroup_limit (foldl (\<lambda>g fs. collect_memory_metrics fs False g) g fss) = mg_cgroup_limit g" for fss g
    by (induction fss arbitrary: g) simp_all
  then show ?thesis using assms by (simp add: memory_collector_def)
qed

text \<open>A service under systemd on a host with the unified hierarchy: the root of the hierarchy has no
  \<^verbatim>\<open>memory.current\<close>.\<close>

definition service_files :: "(string \<times> string) list" where
  "service_files = [(''/proc/self/cgroup'', ''0::/system.slice/lazydns.service''),
     (''/sys/fs/cgroup/system.slice/lazydns.service/memory.current'', ''4096'')]"

definition service_host :: fs_view where
  "service_host = \<lparr>fv_read = map_of service_files, fv_exists = (\<lambda>p. map_of service_files p \<noteq> None)\<rparr>"

theorem undetected_cgroup_never_reported_witness:
  "mg_cgroup (memory_collector True service_host [service_host] gauges_new) = 0 \<and>
   read_cgroup_memory service_host = Some \<lparr>cg_usage_bytes = 4096, cg_limit_bytes = None\<rparr>"
proof -
  have "own_cgroup_dir service_host ''/sys/fs/cgroup'' True = Some ''/sys/fs/cgroup/system.slice/lazydns.service''"
    by code_simp
  moreover have "parse_u64 (trim ''4096'') = Some 4096"
    by (simp add: parse_u64_def parse_uint_def digit_val_def trim_def is_whitespace_def)
  ultimately have r: "read_cgroup_memory service_host = Some \<lparr>cg_usage_bytes = 4096, cg_limit_bytes = None\<rparr>"
    by (simp add: read_cgroup_memory_def read_cgroup_v2_memory_def read_u64_def path_join_def starts_with_def ends_with_def
      strip_prefix_def strip_suffix_def service_host_def service_files_def)
  have "detect_cgroup_version service_host = None"
    by (simp add: detect_cgroup_version_def service_host_def service_files_def)
  from undetected_cgroup_never_reported [OF this, of True "[service_host]"] r show ?thesis by (simp add: gauges_new_def)
qed

end
