(* ===== verification/Cron.thy ===== *)
theory Cron
  imports Config_Value Context
begin

text \<open>
  The scheduler of \<^verbatim>\<open>src/src/plugins/cron.rs\<close>: jobs read from the configuration, the loop of a job,
  what a firing does, and the shutdown. The crontab parser and its calendar, the HTTP client's method
  syntax and the table of plugin factories are parameters; time is in microseconds. The waits of the
  loop are events: its delay has elapsed, or one of the stop channels has woken it.

  Firings of an interval job are at least the interval apart, a stop ends the loop at its next wait,
  an occurrence of a crontab may fire twice, and a job whose plugin was dropped without a shutdown
  keeps waking and never fires.
\<close>

section \<open>Jobs\<close>

datatype 'c schedule_def = Interval u64 | Crontab 'c

datatype job_action =
    Http string string "string option"
  | InvokePlugin string "yaml option"
  | Command string

record 'c cron_job =
  cj_name :: string
  cj_schedule :: "'c schedule_def"
  cj_action :: job_action

text \<open>\<open>ct_parse\<close> reads an expression (\<open>None\<close>: its error, which is logged); \<open>ct_next\<close> is the next occurrence
  after a time, \<open>None\<close> where there is none or it cannot be read back.\<close>

record 'c cron_ops =
  ct_parse :: "string \<Rightarrow> 'c option"
  ct_next :: "'c \<Rightarrow> int \<Rightarrow> int option"

definition map_get :: "string \<Rightarrow> (yaml \<times> yaml) list \<Rightarrow> yaml option" where
  "map_get k m = map_of m (YString k)"

definition map_str :: "string \<Rightarrow> (yaml \<times> yaml) list \<Rightarrow> string option" where
  "map_str k m = Option.bind (map_get k m) as_str"

definition str_or :: "string \<Rightarrow> string option \<Rightarrow> string" where
  "str_or d s = (case s of Some x \<Rightarrow> x | None \<Rightarrow> d)"

definition job_schedule :: "'c cron_ops \<Rightarrow> (yaml \<times> yaml) list \<Rightarrow> 'c schedule_def option" where
  "job_schedule ops jmap =
     (case map_get ''interval_seconds'' jmap of
        Some (YNumber n) \<Rightarrow> Some (Interval (case as_u64 n of Some sec \<Rightarrow> sec | None \<Rightarrow> 1))
      | _ \<Rightarrow>
          (case map_get ''cron'' jmap of
             Some (YString expr) \<Rightarrow> map_option Crontab (ct_parse ops expr)
           | _ \<Rightarrow> Some (Interval 1)))"

definition parse_action :: "(yaml \<times> yaml) list \<Rightarrow> job_action option" where
  "parse_action jmap =
     (case map_get ''action'' jmap of
        Some (YMapping act) \<Rightarrow>
          (case map_get ''http'' act of
             Some (YMapping http) \<Rightarrow>
               Some (Http (str_or ''GET'' (map_str ''method'' http)) (str_or '''' (map_str ''url'' http)) (map_str ''body'' http))
           | _ \<Rightarrow>
               (case map_get ''invoke_plugin'' act of
                  Some (YMapping iv) \<Rightarrow> Some (InvokePlugin (str_or '''' (map_str ''type'' iv)) (map_get ''args'' iv))
                | _ \<Rightarrow> (case map_get ''command'' act of Some (YString cmd) \<Rightarrow> Some (Command cmd) | _ \<Rightarrow> None)))
      | _ \<Rightarrow> None)"

definition parse_job :: "'c cron_ops \<Rightarrow> yaml \<Rightarrow> 'c cron_job option" where
  "parse_job ops jb =
     (case jb of
        YMapping jmap \<Rightarrow>
          (case (job_schedule ops jmap, parse_action jmap) of
             (Some s, Some a) \<Rightarrow> Some \<lparr>cj_name = str_or ''job'' (map_str ''name'' jmap), cj_schedule = s, cj_action = a\<rparr>
           | _ \<Rightarrow> None)
      | _ \<Rightarrow> None)"

definition cron_init :: "'c cron_ops \<Rightarrow> plugin_config \<Rightarrow> 'c cron_job list" where
  "cron_init ops config =
     (case pc_args config of
        YMapping m \<Rightarrow>
          (case map_get ''jobs'' m of Some (YSequence jobs) \<Rightarrow> List.map_filter (parse_job ops) jobs | _ \<Rightarrow> [])
      | _ \<Rightarrow> [])"

section \<open>Firing\<close>

datatype 'p effect =
    SendRequest string string "string option"
  | RunPlugin 'p ctx
  | RunCommand "string list"
  | NoEffect

text \<open>\<open>valid_method\<close> accepts the texts the HTTP library takes as a method.\<close>

definition fire :: "(string \<Rightarrow> bool) \<Rightarrow> (string \<Rightarrow> (plugin_config \<Rightarrow> 'p result) option) \<Rightarrow> job_action \<Rightarrow> 'p effect" where
  "fire valid_method factory a =
     (case a of
        Http m url body \<Rightarrow> SendRequest (if valid_method m then m else ''GET'') url body
      | InvokePlugin ty args \<Rightarrow>
          (case factory ty of
             None \<Rightarrow> NoEffect
           | Some create \<Rightarrow>
               (case create \<lparr>pc_tag = None, pc_plugin_type = ty,
                   pc_args = (case args of Some v \<Rightarrow> v | None \<Rightarrow> YMapping [])\<rparr> of
                  Inr p \<Rightarrow> RunPlugin p (context_new message_new)
                | Inl e \<Rightarrow> NoEffect))
      | Command cmd \<Rightarrow> RunCommand [''sh'', ''-c'', cmd])"

section \<open>The loop of a job\<close>

text \<open>The delay before the next firing, in whole milliseconds (\<open>None\<close>: the loop stops). The clock is
  read again after the next occurrence has been computed, which here takes no time.\<close>

definition next_delay :: "'c cron_ops \<Rightarrow> 'c schedule_def \<Rightarrow> int \<Rightarrow> nat option" where
  "next_delay ops s now =
     (case s of
        Interval sec \<Rightarrow> Some (unat sec * 1000)
      | Crontab c \<Rightarrow>
          (case ct_next ops c now of
             Some t \<Rightarrow> (let ms = (if t < now then - ((now - t) div 1000) else (t - now) div 1000)
                        in Some (if ms \<le> 0 then 10 else nat ms))
           | None \<Rightarrow> None))"

text \<open>What ends a wait: the delay, with the timer late by some microseconds, or after some microseconds
  a change of a stop channel that then holds the value; a closed channel wakes at once and still
  holds \<open>False\<close>.\<close>

datatype wake = Elapsed nat | Woken nat bool

text \<open>One round: the firing, if any, and the time at which the next round starts, if any.\<close>

definition job_round :: "'c cron_ops \<Rightarrow> 'c schedule_def \<Rightarrow> int \<Rightarrow> wake \<Rightarrow> int option \<times> int option" where
  "job_round ops s now w =
     (case next_delay ops s now of
        None \<Rightarrow> (None, None)
      | Some delay \<Rightarrow>
          (case w of
             Elapsed late \<Rightarrow>
               (let e = delay * 1000 + late in
                (Some (now + int e), Some (now + int e + (if e < 10000 then 10000 else 0))))
           | Woken e stop \<Rightarrow>
               (None, if stop then None else Some (now + int e + (if e < 10000 then 10000 else 0)))))"

fun job_loop :: "'c cron_ops \<Rightarrow> 'c schedule_def \<Rightarrow> int \<Rightarrow> wake list \<Rightarrow> int list \<times> int option" where
  "job_loop ops s now [] = ([], Some now)"
| "job_loop ops s now (w # ws) =
     (case job_round ops s now w of
        (f, None) \<Rightarrow> (case f of Some t \<Rightarrow> [t] | None \<Rightarrow> [], None)
      | (f, Some now') \<Rightarrow>
          (case job_loop ops s now' ws of (fs, e) \<Rightarrow> ((case f of Some t \<Rightarrow> t # fs | None \<Rightarrow> fs), e)))"

text \<open>The plugin: its jobs and whether a shutdown was requested. A shutdown takes the handles and waits
  for each of them.\<close>

record 'c cron_plugin =
  cr_jobs :: "'c cron_job list"
  cr_stop :: bool

definition cron_new :: "'c cron_plugin" where
  "cron_new = \<lparr>cr_jobs = [], cr_stop = False\<rparr>"

definition spawn_job :: "'c cron_job \<Rightarrow> 'c cron_plugin \<Rightarrow> 'c cron_plugin" where
  "spawn_job j p = p\<lparr>cr_jobs := cr_jobs p @ [j]\<rparr>"

definition cron_shutdown :: "'c cron_plugin \<Rightarrow> 'c cron_job list \<times> 'c cron_plugin" where
  "cron_shutdown p = (cr_jobs p, p\<lparr>cr_jobs := [], cr_stop := True\<rparr>)"

section \<open>Facts\<close>

lemma interval_round:
  "job_round ops (Interval sec) now w =
     (case w of
        Elapsed late \<Rightarrow>
          (let e = unat sec * 1000000 + late in (Some (now + int e), Some (now + int e + (if e < 10000 then 10000 else 0))))
      | Woken e stop \<Rightarrow> (None, if stop then None else Some (now + int e + (if e < 10000 then 10000 else 0))))"
  by (simp add: job_round_def next_delay_def split: wake.splits)

lemma interval_loop_cases:
  obtains (elapsed) late n where "w = Elapsed late" "now + int (unat sec * 1000000 + late) \<le> n"
      "fst (job_loop ops (Interval sec) now (w # ws)) =
         (now + int (unat sec * 1000000 + late)) # fst (job_loop ops (Interval sec) n ws)"
  | (stopped) "fst (job_loop ops (Interval sec) now (w # ws)) = []"
  | (woken) n where "now \<le> n" "fst (job_loop ops (Interval sec) now (w # ws)) = fst (job_loop ops (Interval sec) n ws)"
proof (cases w)
  case (Elapsed late)
  let ?e = "unat sec * 1000000 + late"
  let ?n = "now + int ?e + (if ?e < 10000 then 10000 else 0)"
  have "fst (job_loop ops (Interval sec) now (w # ws)) = (now + int ?e) # fst (job_loop ops (Interval sec) ?n ws)"
    by (simp add: Elapsed interval_round Let_def split: prod.splits)
  then show ?thesis using elapsed [OF Elapsed, of ?n] by simp
next
  case (Woken e stop)
  let ?n = "now + int e + (if e < 10000 then 10000 else 0)"
  show ?thesis
  proof (cases stop)
    case True
    then show ?thesis using stopped by (simp add: Woken interval_round)
  next
    case False
    then have "fst (job_loop ops (Interval sec) now (w # ws)) = fst (job_loop ops (Interval sec) ?n ws)"
      by (simp add: Woken interval_round split: prod.splits)
    then show ?thesis using woken [of ?n] by simp
  qed
qed

lemma interval_firings_after:
  "t \<in> set (fst (job_loop ops (Interval sec) now ws)) \<Longrightarrow> now + int (unat sec * 1000000) \<le> t"
proof (induction ws arbitrary: now)
  case (Cons w ws)
  show ?case
  proof (rule interval_loop_cases [of w now sec ops ws])
    fix late n assume n: "now + int (unat sec * 1000000 + late) \<le> n"
      and f: "fst (job_loop ops (Interval sec) now (w # ws)) =
         (now + int (unat sec * 1000000 + late)) # fst (job_loop ops (Interval sec) n ws)"
    from Cons.prems have "t = now + int (unat sec * 1000000 + late) \<or> t \<in> set (fst (job_loop ops (Interval sec) n ws))"
      unfolding f by (simp only: list.set insert_iff)
    with Cons.IH [of n] n show ?thesis by linarith
  next
    fix n assume "now \<le> n" "fst (job_loop ops (Interval sec) now (w # ws)) = fst (job_loop ops (Interval sec) n ws)"
    with Cons.prems Cons.IH [of n] show ?thesis by simp
  qed (use Cons.prems in simp)
qed simp

text \<open>
  Two firings of a job with an interval are at least the interval apart, however late its timers
  are and however its waits end.
\<close>

theorem interval_firings_are_spaced:
  "sorted_wrt (\<lambda>t u. t + int (unat sec * 1000000) \<le> u) (fst (job_loop ops (Interval sec) now ws))"
proof (induction ws arbitrary: now)
  case (Cons w ws)
  show ?case
  proof (rule interval_loop_cases [of w now sec ops ws])
    fix late n assume "now + int (unat sec * 1000000 + late) \<le> n"
      "fst (job_loop ops (Interval sec) now (w # ws)) =
         (now + int (unat sec * 1000000 + late)) # fst (job_loop ops (Interval sec) n ws)"
    with Cons.IH [of n] interval_firings_after [of _ ops sec n ws] show ?thesis by fastforce
  next
    fix n assume "now \<le> n" "fst (job_loop ops (Interval sec) now (w # ws)) = fst (job_loop ops (Interval sec) n ws)"
    with Cons.IH [of n] show ?thesis by simp
  qed simp
qed simp

text \<open>A stop ends the loop in the round that sees it.\<close>

lemma stop_ends_loop: "snd (job_loop ops s now (Woken e True # ws)) = None" "fst (job_loop ops s now (Woken e True # ws)) = []"
  by (simp_all add: job_round_def split: option.splits)

text \<open>
  The delay of a crontab job is cut to whole milliseconds, so that its timer can end before the
  occurrence it waits for; the same occurrence is then found again and fires a second time ten
  milliseconds later.
\<close>

theorem crontab_occurrence_fires_twice:
  assumes "\<forall>u < t. ct_next ops c u = Some t" and "now + 10000 \<le> t" and "(t - now) mod 1000 \<noteq> 0"
  shows "\<exists>f < t. fst (job_loop ops (Crontab c) now [Elapsed 0, Elapsed 0]) = [f, f + 10000]"
proof -
  define k where "k = (t - now) div 1000"
  have k: "t - now = k * 1000 + (t - now) mod 1000" by (simp add: k_def)
  moreover have "0 < (t - now) mod 1000" "(t - now) mod 1000 < 1000"
    using assms(3) pos_mod_bound [of 1000 "t - now"] pos_mod_sign [of 1000 "t - now"] by linarith+
  ultimately have f: "now + k * 1000 < t" "t - (now + k * 1000) < 1000" "10 \<le> k" using assms(2) by linarith+
  have d: "next_delay ops (Crontab c) now = Some (nat k)"
    using assms(1,2) f(3) by (simp add: next_delay_def k_def Let_def)
  have "(t - (now + k * 1000)) div 1000 = 0" using f by (intro div_pos_pos_trivial) simp_all
  then have d': "next_delay ops (Crontab c) (now + k * 1000) = Some 10"
    using assms(1) f(1) by (simp add: next_delay_def Let_def)
  have "\<not> nat k * 1000 < 10000" "int (nat k * 1000) = k * 1000" using f(3) by simp_all
  then have "fst (job_loop ops (Crontab c) now [Elapsed 0, Elapsed 0]) = [now + k * 1000, now + k * 1000 + 10000]"
    using d d' by (simp add: job_round_def Let_def)
  then show ?thesis using f(1) by blast
qed

definition once_cron :: "unit cron_ops" where
  "once_cron = \<lparr>ct_parse = (\<lambda>_. Some ()), ct_next = (\<lambda>_ u. if u < 60000000 then Some 60000000 else None)\<rparr>"

theorem crontab_occurrence_fires_twice_witness:
  "\<exists>f < 60000000. fst (job_loop once_cron (Crontab ()) 1500 [Elapsed 0, Elapsed 0]) = [f, f + 10000]"
  by (rule crontab_occurrence_fires_twice) (simp_all add: once_cron_def)

text \<open>A plugin dropped without a shutdown closes the channels: every wait ends at once, and the job
  loops without ever firing.\<close>

theorem dropped_plugin_never_fires:
  "job_loop ops (Interval sec) now (replicate n (Woken 0 False)) = ([], Some (now + 10000 * int n))"
  by (induction n arbitrary: now) (simp_all add: interval_round algebra_simps)

text \<open>Every job of the configuration with a readable schedule and an action is kept, in order.\<close>

lemma cron_init_jobs:
  "pc_args config = YMapping m \<Longrightarrow> map_get ''jobs'' m = Some (YSequence jobs) \<Longrightarrow>
     set (cron_init ops config) = {j. \<exists>v \<in> set jobs. parse_job ops v = Some j}"
  by (auto simp: cron_init_def map_filter_def image_iff) force

lemma bad_interval_is_one_second:
  "map_get ''interval_seconds'' m = Some (YNumber n) \<Longrightarrow> as_u64 n = None \<Longrightarrow> job_schedule ops m = Some (Interval 1)"
  by (simp add: job_schedule_def)

end
