(* ===== verification/Web_Streams.thy ===== *)
theory Web_Streams
  imports Web_Metrics
begin

text \<open>
  The long-lived connections of the dashboard: the event streams of \<^verbatim>\<open>src/src/web/routes/audit.rs\<close> and
  the socket of \<^verbatim>\<open>src/src/web/websocket/handler.rs\<close>, each as a loop over the branches its
  \<^verbatim>\<open>select!\<close> takes, and the counters of both as step relations over all connections. What a
  channel delivers, what a client sends and whether a send succeeds are arguments; instants are
  natural numbers of nanoseconds.
\<close>

section \<open>Event streams\<close>

datatype sse_item = SseEvent string string | SseComment string

definition json_pair :: "string \<Rightarrow> string \<Rightarrow> string" where
  "json_pair k v = quoted k @ '':'' @ quoted v"

text \<open>The branch that is ready: a reception, or the tick of the keepalive. A reception that would
  still wait changes nothing but the count of lost events.\<close>

datatype sse_turn = Reception | Keepalive

fun sse_loop :: "string \<Rightarrow> ('e \<Rightarrow> string option) \<Rightarrow> sse_turn list \<Rightarrow> 'e received list \<Rightarrow> u64 \<Rightarrow> sse_item list" where
  "sse_loop name ser [] rs d = []"
| "sse_loop name ser (Keepalive # ts) rs d = SseComment ''keepalive'' # sse_loop name ser ts rs d"
| "sse_loop name ser (Reception # ts) rs d =
     (case subscriber_recv rs d of
        (Some (Some e), rs', d') \<Rightarrow>
          (case ser e of Some json \<Rightarrow> [SseEvent name json] | None \<Rightarrow> []) @ sse_loop name ser ts rs' d'
      | (Some None, rs', d') \<Rightarrow> [SseEvent ''closed'' (''{'' @ json_pair ''reason'' ''channel_closed'' @ ''}'')]
      | (None, rs', d') \<Rightarrow> sse_loop name ser ts rs' d')"

definition sse_stream :: "string \<Rightarrow> string \<Rightarrow> ('e \<Rightarrow> string option) \<Rightarrow> bool \<Rightarrow> sse_turn list \<Rightarrow> 'e received list \<Rightarrow> sse_item list" where
  "sse_stream title name ser bus ts rs =
     (if bus then
        SseEvent ''connected'' (''{'' @ json_pair ''status'' ''connected'' @ '','' @ json_pair ''stream'' title @ ''}'')
          # sse_loop name ser ts rs 0
      else [SseEvent ''error'' ''Event bus not available''])"

definition query_logs_stream ::
    "(query_log_entry \<Rightarrow> string option) \<Rightarrow> bool \<Rightarrow> sse_turn list \<Rightarrow> query_log_entry received list \<Rightarrow> sse_item list" where
  "query_logs_stream = sse_stream ''query-logs'' ''query''"

definition security_events_stream ::
    "(security_event \<Rightarrow> string option) \<Rightarrow> bool \<Rightarrow> sse_turn list \<Rightarrow> security_event received list \<Rightarrow> sse_item list" where
  "security_events_stream = sse_stream ''security-events'' ''security''"

text \<open>
  The counter of the streams. A request makes the stream; the first poll of it counts it and makes
  the guard, which counts it out when the generator ends or is dropped. A stream that was never
  polled has no guard.
\<close>

datatype stream_phase = Unpolled | Guarded

record sse_hub =
  sh_count :: u64
  sh_streams :: "nat \<rightharpoonup> stream_phase"

definition sse_hub_new :: sse_hub where
  "sse_hub_new = \<lparr>sh_count = 0, sh_streams = Map.empty\<rparr>"

inductive sse_step :: "sse_hub \<Rightarrow> sse_hub \<Rightarrow> bool" where
  sse_request: "sh_streams s i = None \<Longrightarrow> sse_step s (s\<lparr>sh_streams := (sh_streams s)(i \<mapsto> Unpolled)\<rparr>)"
| sse_first_poll: "sh_streams s i = Some Unpolled \<Longrightarrow>
    sse_step s (s\<lparr>sh_count := sh_count s + 1, sh_streams := (sh_streams s)(i \<mapsto> Guarded)\<rparr>)"
| sse_forget: "sh_streams s i = Some Unpolled \<Longrightarrow> sse_step s (s\<lparr>sh_streams := (sh_streams s)(i := None)\<rparr>)"
| sse_drop: "sh_streams s i = Some Guarded \<Longrightarrow>
    sse_step s (s\<lparr>sh_count := sh_count s - 1, sh_streams := (sh_streams s)(i := None)\<rparr>)"

section \<open>The socket\<close>

datatype client_message = Subscribe "string list" | Unsubscribe "string list" | ClientPing

record metrics_update =
  mu_timestamp :: nat
  mu_qps :: "nat \<times> nat"
  mu_total_queries :: u64
  mu_cache_hit_rate :: "u64 \<times> u64"
  mu_error_rate :: "u64 \<times> u64"

datatype server_message = Connected string | ServerPong | Metrics metrics_update | ServerError string

datatype ws_frame = TextFrame server_message | PongFrame "u8 list" | PingFrame

text \<open>What ends a wait of the loop: a message of the client, the end of its stream, or a tick.\<close>

datatype ws_event =
    WsText string
  | WsPing "u8 list"
  | WsPong
  | WsBinary
  | WsClose
  | WsFailed
  | WsEnded
  | UpdateTick
  | HeartbeatTick

record ws_wake =
  wk_event :: ws_event
  wk_now :: nat
  wk_unix :: nat
  wk_sent :: bool

record ws_session =
  wx_topics :: "string list"
  wx_last_pong :: nat

definition ws_session_new :: "nat \<Rightarrow> ws_session" where
  "ws_session_new now = \<lparr>wx_topics = [''overview''], wx_last_pong = now\<rparr>"

definition subscribe_topics :: "string list \<Rightarrow> string list \<Rightarrow> string list" where
  "subscribe_topics new topics = foldl (\<lambda>ts t. if t \<in> set ts then ts else ts @ [t]) topics new"

definition metrics_update_of :: "nat \<Rightarrow> metrics_overview \<Rightarrow> metrics_update" where
  "metrics_update_of unix ov =
     \<lparr>mu_timestamp = unix, mu_qps = mo_qps ov, mu_total_queries = mo_total ov, mu_cache_hit_rate = mo_hit_rate ov,
      mu_error_rate = pct (mo_errors ov) (mo_total ov)\<rparr>"

definition client_text :: "client_message option \<Rightarrow> nat \<Rightarrow> ws_session \<Rightarrow> ws_frame list \<times> ws_session" where
  "client_text m now s =
     (case m of
        Some (Subscribe ts) \<Rightarrow> ([], s\<lparr>wx_topics := subscribe_topics ts (wx_topics s)\<rparr>)
      | Some (Unsubscribe ts) \<Rightarrow> ([], s\<lparr>wx_topics := filter (\<lambda>t. t \<notin> set ts) (wx_topics s)\<rparr>)
      | Some ClientPing \<Rightarrow> ([TextFrame ServerPong], s\<lparr>wx_last_pong := now\<rparr>)
      | None \<Rightarrow> ([TextFrame (ServerError ''Invalid message format'')], s))"

text \<open>One round of the loop: the frames it tries to send and the session, \<open>None\<close> after a \<^verbatim>\<open>break\<close>.\<close>

definition ws_round ::
    "(string \<Rightarrow> client_message option) \<Rightarrow> (nat \<Rightarrow> metrics_overview) \<Rightarrow> websocket_config \<Rightarrow> ws_wake \<Rightarrow> ws_session
     \<Rightarrow> ws_frame list \<times> ws_session option" where
  "ws_round parse ov c w s =
     (case wk_event w of
        WsText t \<Rightarrow> (case client_text (parse t) (wk_now w) s of (fs, s') \<Rightarrow> (fs, Some s'))
      | WsPing data \<Rightarrow> ([PongFrame data], if wk_sent w then Some (s\<lparr>wx_last_pong := wk_now w\<rparr>) else None)
      | WsPong \<Rightarrow> ([], Some (s\<lparr>wx_last_pong := wk_now w\<rparr>))
      | WsBinary \<Rightarrow> ([], Some s)
      | WsClose \<Rightarrow> ([], None)
      | WsFailed \<Rightarrow> ([], None)
      | WsEnded \<Rightarrow> ([], None)
      | UpdateTick \<Rightarrow>
          if ''overview'' \<in> set (wx_topics s) then
            ([TextFrame (Metrics (metrics_update_of (wk_unix w) (ov (wk_now w))))], if wk_sent w then Some s else None)
          else ([], Some s)
      | HeartbeatTick \<Rightarrow>
          if wk_timeout_secs c * 1000000000 < wk_now w - wx_last_pong s then ([], None)
          else ([PingFrame], if wk_sent w then Some s else None))"

fun ws_loop ::
    "(string \<Rightarrow> client_message option) \<Rightarrow> (nat \<Rightarrow> metrics_overview) \<Rightarrow> websocket_config \<Rightarrow> ws_wake list \<Rightarrow> ws_session
     \<Rightarrow> ws_frame list \<times> ws_session option" where
  "ws_loop parse ov c [] s = ([], Some s)"
| "ws_loop parse ov c (w # ws) s =
     (case ws_round parse ov c w s of
        (fs, None) \<Rightarrow> (fs, None)
      | (fs, Some s') \<Rightarrow> (case ws_loop parse ov c ws s' of (gs, r) \<Rightarrow> (fs @ gs, r)))"

text \<open>The whole handler; \<open>greeted\<close> is the outcome of sending the first message.\<close>

definition handle_socket ::
    "(string \<Rightarrow> client_message option) \<Rightarrow> (nat \<Rightarrow> metrics_overview) \<Rightarrow> websocket_config \<Rightarrow> bool \<Rightarrow> nat \<Rightarrow> ws_wake list
     \<Rightarrow> ws_frame list \<times> ws_session option" where
  "handle_socket parse ov c greeted now ws =
     (if greeted then
        (case ws_loop parse ov c ws (ws_session_new now) of (fs, r) \<Rightarrow> (TextFrame (Connected ''1.0'') # fs, r))
      else ([TextFrame (Connected ''1.0'')], None))"

text \<open>The sockets that are served at the same time, with the counter of \<^verbatim>\<open>WebState\<close>.\<close>

datatype ws_phase = Greeting | Talking ws_session | Leaving

record ws_hub =
  wb_count :: u64
  wb_sockets :: "nat \<rightharpoonup> ws_phase"

definition ws_hub_new :: ws_hub where
  "ws_hub_new = \<lparr>wb_count = 0, wb_sockets = Map.empty\<rparr>"

definition to_phase :: "ws_session option \<Rightarrow> ws_phase" where
  "to_phase r = (case r of Some s \<Rightarrow> Talking s | None \<Rightarrow> Leaving)"

inductive ws_step ::
    "(string \<Rightarrow> client_message option) \<Rightarrow> (nat \<Rightarrow> metrics_overview) \<Rightarrow> websocket_config \<Rightarrow> ws_hub \<Rightarrow> ws_hub \<Rightarrow> bool"
  for parse ov c where
  ws_upgrade: "wb_sockets h i = None \<Longrightarrow>
    ws_step parse ov c h (h\<lparr>wb_count := wb_count h + 1, wb_sockets := (wb_sockets h)(i \<mapsto> Greeting)\<rparr>)"
| ws_greet: "wb_sockets h i = Some Greeting \<Longrightarrow>
    ws_step parse ov c h (h\<lparr>wb_sockets := (wb_sockets h)(i \<mapsto> (if ok then Talking (ws_session_new now) else Leaving))\<rparr>)"
| ws_talk: "wb_sockets h i = Some (Talking s) \<Longrightarrow>
    ws_step parse ov c h (h\<lparr>wb_sockets := (wb_sockets h)(i \<mapsto> to_phase (snd (ws_round parse ov c w s)))\<rparr>)"
| ws_leave: "wb_sockets h i = Some Leaving \<Longrightarrow>
    ws_step parse ov c h (h\<lparr>wb_count := wb_count h - 1, wb_sockets := (wb_sockets h)(i := None)\<rparr>)"

section \<open>Counting connections\<close>

text \<open>
  The contract both counters keep: a step starts one connection and counts it, ends one and counts
  it out, or changes neither.
\<close>

locale counted_connections =
  fixes step :: "'s \<Rightarrow> 's \<Rightarrow> bool" and counter :: "'s \<Rightarrow> u64" and live :: "'s \<Rightarrow> nat set"
  assumes step_counts: "step s s' \<Longrightarrow>
    (\<exists>i. i \<notin> live s \<and> live s' = insert i (live s) \<and> counter s' = counter s + 1) \<or>
    (\<exists>i \<in> live s. live s' = live s - {i} \<and> counter s' = counter s - 1) \<or>
    (live s' = live s \<and> counter s' = counter s)"
begin

lemma step_exact:
  assumes "step s s'" and "finite (live s)" and "counter s = of_nat (card (live s))"
  shows "finite (live s') \<and> counter s' = of_nat (card (live s'))"
  using step_counts [OF assms(1)]
proof (elim disjE exE bexE conjE)
  fix i assume "i \<in> live s" "live s' = live s - {i}" "counter s' = counter s - 1"
  moreover from \<open>i \<in> live s\<close> assms(2) have "card (live s) > 0" by (auto simp: card_gt_0_iff)
  ultimately show ?thesis using assms by (simp add: of_nat_diff Suc_leI)
qed (use assms in simp_all)

lemma counter_exact:
  assumes "step\<^sup>*\<^sup>* s0 s" and "live s0 = {}" and "counter s0 = 0"
  shows "finite (live s)" and "counter s = of_nat (card (live s))"
proof -
  from assms(1) have "finite (live s) \<and> counter s = of_nat (card (live s))"
    by (induction rule: rtranclp_induct) (use assms(2,3) step_exact in auto)
  then show "finite (live s)" and "counter s = of_nat (card (live s))" by auto
qed

end

definition guarded :: "sse_hub \<Rightarrow> nat set" where
  "guarded h = {i. sh_streams h i = Some Guarded}"

interpretation sse: counted_connections sse_step sh_count guarded
proof unfold_locales
  fix s s' assume "sse_step s s'"
  then show "(\<exists>i. i \<notin> guarded s \<and> guarded s' = insert i (guarded s) \<and> sh_count s' = sh_count s + 1) \<or>
    (\<exists>i \<in> guarded s. guarded s' = guarded s - {i} \<and> sh_count s' = sh_count s - 1) \<or>
    (guarded s' = guarded s \<and> sh_count s' = sh_count s)"
  proof cases
    case (sse_first_poll i)
    then have "i \<notin> guarded s \<and> guarded s' = insert i (guarded s) \<and> sh_count s' = sh_count s + 1"
      by (auto simp: guarded_def)
    then show ?thesis by blast
  next
    case (sse_drop i)
    then have "i \<in> guarded s" "guarded s' = guarded s - {i} \<and> sh_count s' = sh_count s - 1"
      by (auto simp: guarded_def)
    then show ?thesis by blast
  qed (auto simp: guarded_def)
qed

interpretation ws: counted_connections "ws_step parse ov c" wb_count "\<lambda>h. dom (wb_sockets h)" for parse ov c
proof unfold_locales
  fix h h' assume "ws_step parse ov c h h'"
  then show "(\<exists>i. i \<notin> dom (wb_sockets h) \<and> dom (wb_sockets h') = insert i (dom (wb_sockets h)) \<and> wb_count h' = wb_count h + 1) \<or>
    (\<exists>i \<in> dom (wb_sockets h). dom (wb_sockets h') = dom (wb_sockets h) - {i} \<and> wb_count h' = wb_count h - 1) \<or>
    (dom (wb_sockets h') = dom (wb_sockets h) \<and> wb_count h' = wb_count h)"
  proof cases
    case (ws_upgrade i)
    then have "i \<notin> dom (wb_sockets h)" by auto
    with ws_upgrade show ?thesis by auto
  next
    case (ws_leave i)
    then have "i \<in> dom (wb_sockets h)" by auto
    with ws_leave show ?thesis by auto
  qed auto
qed

section \<open>What a stream delivers\<close>

lemma recv_event:
  "subscriber_recv rs d = (Some (Some e), rs', d') \<Longrightarrow>
     received_events rs = e # received_events rs' \<and> (ChannelClosed \<in> set rs \<longleftrightarrow> ChannelClosed \<in> set rs')"
  by (induction rs d rule: subscriber_recv.induct) (auto simp: received_events_def open_part_def map_filter_def)

lemma recv_closed:
  "subscriber_recv rs d = (Some None, rs', d') \<Longrightarrow> received_events rs = [] \<and> ChannelClosed \<in> set rs"
  by (induction rs d rule: subscriber_recv.induct) (auto simp: received_events_def open_part_def map_filter_def)

lemma recv_waits:
  "subscriber_recv rs d = (None, rs', d') \<Longrightarrow> rs' = [] \<and> received_events rs = [] \<and> ChannelClosed \<notin> set rs"
  by (induction rs d rule: subscriber_recv.induct) (auto simp: received_events_def open_part_def map_filter_def)

lemma recv_nothing [simp]: "received_events [] = []"
  by (simp add: received_events_def open_part_def map_filter_def)

definition sse_events :: "sse_item list \<Rightarrow> sse_item list" where
  "sse_events = filter (\<lambda>x. case x of SseEvent _ _ \<Rightarrow> True | SseComment _ \<Rightarrow> False)"

definition closed_event :: sse_item where
  "closed_event = SseEvent ''closed'' (''{'' @ json_pair ''reason'' ''channel_closed'' @ ''}'')"

definition receptions :: "sse_turn list \<Rightarrow> nat" where
  "receptions ts = length (filter ((=) Reception) ts)"

lemma sse_loop_events:
  "sse_events (sse_loop name ser ts rs d) =
     map (SseEvent name) (List.map_filter ser (take (receptions ts) (received_events rs))) @
     (if ChannelClosed \<in> set rs \<and> length (received_events rs) < receptions ts then [closed_event] else [])"
proof (induction name ser ts rs d rule: sse_loop.induct)
  case (3 name ser ts rs d)
  show ?case
  proof (cases "subscriber_recv rs d")
    case (fields r rs' d')
    show ?thesis
    proof (cases r)
      case None
      with fields 3(1) recv_waits [of rs d rs' d'] show ?thesis by (simp add: sse_events_def receptions_def map_filter_def)
    next
      case (Some o')
      show ?thesis
      proof (cases o')
        case None
        with Some fields recv_closed [of rs d rs' d'] show ?thesis
          by (simp add: sse_events_def closed_event_def receptions_def map_filter_def)
      next
        case (Some e)
        with \<open>r = Some o'\<close> fields 3(2) recv_event [of rs d e rs' d'] show ?thesis
          by (simp add: sse_events_def receptions_def map_filter_def split: option.split)
      qed
    qed
  qed
qed (simp_all add: sse_events_def receptions_def map_filter_def)

text \<open>
  A query-log stream with a bus sends its greeting, then, for as many receptions as were ready, the
  log entries in the order in which the channel delivered them, each once and whatever keepalives
  and losses lie between, and a closing event exactly when the channel was closed behind them.
\<close>

theorem query_stream_in_order:
  "\<exists>greeting. sse_events (query_logs_stream ser True ts rs) =
     greeting # map (SseEvent ''query'') (List.map_filter ser (take (receptions ts) (received_events rs))) @
       (if ChannelClosed \<in> set rs \<and> length (received_events rs) < receptions ts then [closed_event] else [])"
  using sse_loop_events [of "''query''" ser ts rs 0] by (simp add: query_logs_stream_def sse_stream_def sse_events_def)

section \<open>How long a socket lives\<close>

definition ws_activity :: "(string \<Rightarrow> client_message option) \<Rightarrow> ws_wake \<Rightarrow> bool" where
  "ws_activity parse w =
     (case wk_event w of WsPong \<Rightarrow> True | WsPing _ \<Rightarrow> True | WsText t \<Rightarrow> parse t = Some ClientPing | _ \<Rightarrow> False)"

definition ws_goodbye :: "ws_wake \<Rightarrow> bool" where
  "ws_goodbye w \<longleftrightarrow> wk_event w \<in> {WsClose, WsFailed, WsEnded}"

definition last_activity :: "(string \<Rightarrow> client_message option) \<Rightarrow> nat \<Rightarrow> ws_wake list \<Rightarrow> nat" where
  "last_activity parse t0 ws = foldl (\<lambda>t w. if ws_activity parse w then wk_now w else t) t0 ws"

definition activity_times :: "(string \<Rightarrow> client_message option) \<Rightarrow> nat \<Rightarrow> ws_wake list \<Rightarrow> nat set" where
  "activity_times parse t0 ws = insert t0 (wk_now ` {w \<in> set ws. ws_activity parse w})"

lemma activity_times_rec [simp]:
  "activity_times parse t0 [] = {t0}"
  "activity_times parse t0 (w # ws) =
     (if ws_activity parse w then insert (wk_now w) (activity_times parse t0 ws) else activity_times parse t0 ws)"
  by (auto simp: activity_times_def)

lemma ws_loop_Cons:
  "snd (ws_loop parse ov c (w # ws) s) = Option.bind (snd (ws_round parse ov c w s)) (\<lambda>s'. snd (ws_loop parse ov c ws s'))"
  by (simp split: prod.split option.split)

lemma ws_loop_append:
  "snd (ws_loop parse ov c (xs @ ys) s) = Option.bind (snd (ws_loop parse ov c xs s)) (\<lambda>s'. snd (ws_loop parse ov c ys s'))"
  by (induction xs arbitrary: s) (simp_all add: ws_loop_Cons del: ws_loop.simps(2))

lemma ws_round_last_pong:
  "snd (ws_round parse ov c w s) = Some s' \<Longrightarrow>
     wx_last_pong s' = (if ws_activity parse w then wk_now w else wx_last_pong s)"
  by (auto simp: ws_round_def client_text_def ws_activity_def split: ws_event.splits if_splits option.splits client_message.splits)

lemma ws_round_open:
  "wk_sent w \<Longrightarrow> (\<exists>s'. snd (ws_round parse ov c w s) = Some s') \<longleftrightarrow>
     \<not> ws_goodbye w \<and> (wk_event w = HeartbeatTick \<longrightarrow> wk_now w - wx_last_pong s \<le> wk_timeout_secs c * 1000000000)"
  by (auto simp: ws_round_def ws_goodbye_def split: ws_event.split prod.split)

lemma ws_loop_last_pong:
  "snd (ws_loop parse ov c ws s) = Some s' \<Longrightarrow> wx_last_pong s' = last_activity parse (wx_last_pong s) ws"
  by (induction ws arbitrary: s)
    (auto simp: last_activity_def ws_loop_Cons bind_eq_Some_conv dest!: ws_round_last_pong simp del: ws_loop.simps(2))

lemma last_activity_max:
  assumes "sorted (t0 # map wk_now ws)"
  shows "last_activity parse t0 ws \<in> activity_times parse t0 ws" and
    "a \<in> activity_times parse t0 ws \<Longrightarrow> a \<le> last_activity parse t0 ws"
proof -
  have "sorted (t0 # map wk_now ws) \<longrightarrow> last_activity parse t0 ws \<in> activity_times parse t0 ws \<and>
    (\<forall>a \<in> activity_times parse t0 ws. a \<le> last_activity parse t0 ws)"
    by (induction ws rule: rev_induct)
      (auto simp: last_activity_def activity_times_def sorted_append)
  with assms show "last_activity parse t0 ws \<in> activity_times parse t0 ws"
    "a \<in> activity_times parse t0 ws \<Longrightarrow> a \<le> last_activity parse t0 ws" by auto
qed

lemma heartbeat_in_time:
  assumes "sorted (t0 # map wk_now ws)"
  shows "t - last_activity parse t0 ws \<le> n \<longleftrightarrow> (\<exists>a \<in> activity_times parse t0 ws. t \<le> a + n)"
proof
  assume "t - last_activity parse t0 ws \<le> n"
  then show "\<exists>a \<in> activity_times parse t0 ws. t \<le> a + n"
    using last_activity_max(1) [OF assms] by (intro bexI [of _ "last_activity parse t0 ws"]) auto
next
  assume "\<exists>a \<in> activity_times parse t0 ws. t \<le> a + n"
  then show "t - last_activity parse t0 ws \<le> n" using last_activity_max(2) [OF assms] by fastforce
qed

definition heartbeats_answered :: "(string \<Rightarrow> client_message option) \<Rightarrow> nat \<Rightarrow> nat \<Rightarrow> ws_wake list \<Rightarrow> bool" where
  "heartbeats_answered parse n t0 ws \<longleftrightarrow>
     (\<forall>i < length ws. wk_event (ws ! i) = HeartbeatTick \<longrightarrow>
        (\<exists>a \<in> activity_times parse t0 (take i ws). wk_now (ws ! i) \<le> a + n))"

lemma heartbeats_answered_snoc:
  "heartbeats_answered parse n t0 (ws @ [w]) \<longleftrightarrow> heartbeats_answered parse n t0 ws \<and>
     (wk_event w = HeartbeatTick \<longrightarrow> (\<exists>a \<in> activity_times parse t0 ws. wk_now w \<le> a + n))"
  by (auto simp: heartbeats_answered_def nth_append less_Suc_eq)

text \<open>
  C39: While its sends succeed, a socket that was opened at \<open>t0\<close> is still served after a sequence of
  events, in the order of time, exactly when the client has not said goodbye and every heartbeat found
  a sign of life (the opening, a pong, a ping of either kind) at most the configured timeout old.
\<close>

theorem socket_open_iff:
  assumes "\<forall>w \<in> set ws. wk_sent w" and "sorted (t0 # map wk_now ws)"
  shows "(\<exists>s. snd (handle_socket parse ov c True t0 ws) = Some s) \<longleftrightarrow>
    (\<forall>w \<in> set ws. \<not> ws_goodbye w) \<and> heartbeats_answered parse (wk_timeout_secs c * 1000000000) t0 ws"
proof -
  have "(\<exists>s. snd (ws_loop parse ov c ws (ws_session_new t0)) = Some s) \<longleftrightarrow>
    (\<forall>w \<in> set ws. \<not> ws_goodbye w) \<and> heartbeats_answered parse (wk_timeout_secs c * 1000000000) t0 ws"
    using assms
  proof (induction ws rule: rev_induct)
    case Nil
    show ?case by (simp add: heartbeats_answered_def)
  next
    case (snoc w ws)
    then have IH: "(\<exists>s. snd (ws_loop parse ov c ws (ws_session_new t0)) = Some s) \<longleftrightarrow>
      (\<forall>w \<in> set ws. \<not> ws_goodbye w) \<and> heartbeats_answered parse (wk_timeout_secs c * 1000000000) t0 ws"
      and srt: "sorted (t0 # map wk_now ws)" and sent: "wk_sent w" by (auto simp: sorted_append)
    show ?case
    proof (cases "snd (ws_loop parse ov c ws (ws_session_new t0))")
      case None
      then show ?thesis using IH by (auto simp: ws_loop_append heartbeats_answered_snoc)
    next
      case (Some s)
      have "wx_last_pong s = last_activity parse t0 ws"
        using ws_loop_last_pong [OF Some] by (simp add: ws_session_new_def)
      then show ?thesis
        using Some IH ws_round_open [OF sent, of parse ov c s] heartbeat_in_time [OF srt, of "wk_now w" parse]
        by (auto simp: ws_loop_append ws_loop_Cons heartbeats_answered_snoc bind_eq_Some_conv simp del: ws_loop.simps(2))
    qed
  qed
  then show ?thesis by (simp add: handle_socket_def case_prod_beta)
qed

definition demo_wakes :: "ws_wake list" where
  "demo_wakes =
     [\<lparr>wk_event = HeartbeatTick, wk_now = 30000000000, wk_unix = 30, wk_sent = True\<rparr>,
      \<lparr>wk_event = WsPong, wk_now = 31000000000, wk_unix = 31, wk_sent = True\<rparr>,
      \<lparr>wk_event = HeartbeatTick, wk_now = 60000000000, wk_unix = 60, wk_sent = True\<rparr>,
      \<lparr>wk_event = HeartbeatTick, wk_now = 90000000000, wk_unix = 90, wk_sent = True\<rparr>]"

theorem socket_open_iff_witness:
  "\<exists>s. snd (handle_socket (\<lambda>_. None) (\<lambda>t. get_overview t (collector_new 0 metrics_config_default))
     websocket_config_default True 0 demo_wakes) = Some s"
proof -
  have "\<forall>w \<in> set demo_wakes. wk_sent w" "sorted (0 # map wk_now demo_wakes)" "\<forall>w \<in> set demo_wakes. \<not> ws_goodbye w"
    by (simp_all add: demo_wakes_def ws_goodbye_def)
  moreover have "heartbeats_answered (\<lambda>_. None) (wk_timeout_secs websocket_config_default * 1000000000) 0 demo_wakes"
    by (simp add: demo_wakes_def heartbeats_answered_def ws_activity_def websocket_config_default_def All_less_Suc2)
  ultimately show ?thesis using socket_open_iff [of demo_wakes 0] by blast
qed

section \<open>What the counters show\<close>

text \<open>
  Whatever streams and sockets come and go and however their operations interleave, the two counters
  shown on the dashboard are the numbers of streams under way and of sockets being served (modulo the
  width of the counters).
\<close>

theorem connection_counters_exact:
  "sse_step\<^sup>*\<^sup>* sse_hub_new s \<Longrightarrow> (ws_step parse ov c)\<^sup>*\<^sup>* ws_hub_new h \<Longrightarrow>
     sh_count s = of_nat (card {i. sh_streams s i = Some Guarded}) \<and> wb_count h = of_nat (card (dom (wb_sockets h)))"
  using sse.counter_exact(2) [of sse_hub_new s] ws.counter_exact(2) [of parse ov c ws_hub_new h]
  by (simp add: sse_hub_new_def ws_hub_new_def guarded_def)

theorem connection_counters_exact_witness:
  "\<exists>(s :: sse_hub) (h :: ws_hub). sh_count s = of_nat (card {i. sh_streams s i = Some Guarded}) \<and> sh_count s = 1 \<and>
     wb_count h = of_nat (card (dom (wb_sockets h))) \<and> wb_count h = 1"
proof -
  let ?s1 = "sse_hub_new\<lparr>sh_streams := [0 \<mapsto> Unpolled]\<rparr>"
  let ?s = "?s1\<lparr>sh_count := 1, sh_streams := [0 \<mapsto> Guarded]\<rparr>"
  let ?h = "ws_hub_new\<lparr>wb_count := 1, wb_sockets := [0 \<mapsto> Greeting]\<rparr>"
  have "sse_step sse_hub_new ?s1" "sse_step ?s1 ?s"
    using sse_request [of sse_hub_new 0] sse_first_poll [of ?s1 0] by (simp_all add: sse_hub_new_def)
  then have "sse_step\<^sup>*\<^sup>* sse_hub_new ?s" by (rule converse_rtranclp_into_rtranclp [OF _ r_into_rtranclp])
  moreover have "(ws_step (\<lambda>_. None) (\<lambda>t. get_overview t (collector_new 0 metrics_config_default)) websocket_config_default)\<^sup>*\<^sup>*
      ws_hub_new ?h"
    using ws_upgrade [of ws_hub_new 0] by (simp add: ws_hub_new_def r_into_rtranclp)
  ultimately have "sh_count ?s = of_nat (card {i. sh_streams ?s i = Some Guarded}) \<and>
      wb_count ?h = of_nat (card (dom (wb_sockets ?h)))"
    by (rule connection_counters_exact)
  then show ?thesis by - (rule exI [where x = ?s], rule exI [where x = ?h], simp)
qed

text \<open>The configured maximum of sockets limits nothing: one more can always be upgraded.\<close>

lemma upgrades_reach:
  "\<exists>h. (ws_step parse ov c)\<^sup>*\<^sup>* ws_hub_new h \<and> dom (wb_sockets h) = {..<n}"
proof (induction n)
  case 0
  show ?case by (rule exI [of _ ws_hub_new]) (simp add: ws_hub_new_def)
next
  case (Suc n)
  then obtain h where h: "(ws_step parse ov c)\<^sup>*\<^sup>* ws_hub_new h" "dom (wb_sockets h) = {..<n}" by blast
  then have "wb_sockets h n = None" by (metis domIff lessThan_iff less_irrefl)
  let ?h = "h\<lparr>wb_count := wb_count h + 1, wb_sockets := (wb_sockets h)(n \<mapsto> Greeting)\<rparr>"
  have "(ws_step parse ov c)\<^sup>*\<^sup>* ws_hub_new ?h"
    using h(1) ws_upgrade [OF \<open>wb_sockets h n = None\<close>] by (rule rtranclp.rtrancl_into_rtrancl)
  moreover have "dom (wb_sockets ?h) = {..<Suc n}" by (simp add: h(2) lessThan_Suc)
  ultimately show ?case by blast
qed

theorem socket_limit_not_enforced:
  "\<exists>h. (ws_step parse ov c)\<^sup>*\<^sup>* ws_hub_new h \<and> card (dom (wb_sockets h)) > wk_max_connections c"
  using upgrades_reach [of parse ov c "Suc (wk_max_connections c)"] by force

section \<open>Topics\<close>

lemma subscribe_topics_set: "set (subscribe_topics new topics) = set topics \<union> set new"
  by (induction new arbitrary: topics) (auto simp: subscribe_topics_def)

lemma subscribe_topics_distinct: "distinct topics \<Longrightarrow> distinct (subscribe_topics new topics)"
  by (induction new arbitrary: topics) (auto simp: subscribe_topics_def)

lemma ws_round_topics:
  "snd (ws_round parse ov c w s) = Some s' \<Longrightarrow> distinct (wx_topics s) \<Longrightarrow> distinct (wx_topics s')"
  by (auto simp: ws_round_def client_text_def subscribe_topics_distinct
      split: ws_event.splits if_splits option.splits client_message.splits prod.splits)

lemma ws_loop_topics:
  "snd (ws_loop parse ov c ws s) = Some s' \<Longrightarrow> distinct (wx_topics s) \<Longrightarrow> distinct (wx_topics s')"
  by (induction ws arbitrary: s) (auto simp: ws_loop_Cons bind_eq_Some_conv dest: ws_round_topics simp del: ws_loop.simps(2))

text \<open>A client that gave up \<open>overview\<close> gets no numbers, whatever else it subscribed to.\<close>

lemma only_overview_is_served:
  "''overview'' \<notin> set (wx_topics s) \<Longrightarrow> wk_event w = UpdateTick \<Longrightarrow> ws_round parse ov c w s = ([], Some s)"
  by (simp add: ws_round_def)

end
