(* ===== verification/Web_Routes.thy ===== *)
theory Web_Routes
  imports Web_Streams Alerts Launcher Plugin_Builder Forward
begin

text \<open>
  The web interface: the shared state of \<^verbatim>\<open>src/src/web/state.rs\<close>, the handlers of \<^verbatim>\<open>src/src/web/routes\<close>,
  the registry of upstreams of \<^verbatim>\<open>src/src/web/upstream_registry.rs\<close>, the assets of
  \<^verbatim>\<open>src/src/web/embedded.rs\<close>, and the server of \<^verbatim>\<open>src/src/web/mod.rs\<close> with its table of routes. JSON
  texts, the parsers of origins and header values, and the comparison of floating-point rates are
  arguments; rates are pairs.
\<close>

section \<open>The shared state\<close>

text \<open>The cache plugins are those a registered address can be cast to; the web section is the one of
  the global configuration.\<close>

record 'l web_state =
  we_config :: web_config
  we_collector :: metrics_collector
  we_engine :: alert_engine
  we_start :: nat
  we_registry :: "registry option"
  we_global :: "(config \<times> web_config) option"
  we_sse :: u64
  we_ws :: u64
  we_caches :: "addr \<rightharpoonup> 'l cache_plugin"

definition web_state_new :: "nat \<Rightarrow> web_config \<Rightarrow> (addr \<rightharpoonup> 'l cache_plugin) \<Rightarrow> 'l web_state" where
  "web_state_new now c caches =
     \<lparr>we_config = c, we_collector = collector_new now (wc_metrics c), we_engine = engine_new (wc_alerts c), we_start = now,
      we_registry = None, we_global = None, we_sse = 0, we_ws = 0, we_caches = caches\<rparr>"

definition uptime_secs :: "nat \<Rightarrow> 'l web_state \<Rightarrow> nat" where
  "uptime_secs now st = (now - we_start st) div 1000000000"

text \<open>Construction; the outer \<open>None\<close> is the panic of a channel without capacity.\<close>

definition with_event_bus :: "nat \<Rightarrow> event_bus option \<Rightarrow> event_bus option" where
  "with_event_bus capacity bus = (case bus of Some b \<Rightarrow> Some b | None \<Rightarrow> bus_with_capacity capacity)"

definition web_server_with_admin ::
    "(string \<Rightarrow> string + sock_addr) \<Rightarrow> nat \<Rightarrow> web_config \<Rightarrow> registry \<Rightarrow> config \<times> web_config \<Rightarrow> (addr \<rightharpoonup> 'l cache_plugin)
     \<Rightarrow> event_bus option \<Rightarrow> ('l web_state \<times> event_bus) result option" where
  "web_server_with_admin parse now c reg global caches bus =
     (case web_validate parse c of
        Inl e \<Rightarrow> Some (Inl (Config e))
      | Inr _ \<Rightarrow>
          (case with_event_bus (wc_event_bus_capacity c) bus of
             None \<Rightarrow> None
           | Some b \<Rightarrow> Some (Inr ((web_state_new now c caches)\<lparr>we_registry := Some reg, we_global := Some global\<rparr>, b))))"

section \<open>Upstream health\<close>

record 'h registry_entry =
  re_address :: string
  re_tag :: "string option"
  re_plugin :: string
  re_health :: 'h

record upstream_snapshot =
  us_address :: string
  us_tag :: "string option"
  us_plugin :: string
  us_status :: string
  us_success_rate :: "(u64 \<times> u64) option"
  us_avg_us :: u64
  us_queries :: u64
  us_successes :: u64
  us_failures :: u64
  us_last_success :: "string option"

type_synonym 'h upstream_registry = "(string \<times> 'h registry_entry) list"

definition register_upstream :: "string \<Rightarrow> 'h registry_entry \<Rightarrow> 'h upstream_registry \<Rightarrow> 'h upstream_registry" where
  "register_upstream key e r = AList.update key e r"

definition unregister_upstream :: "string \<Rightarrow> 'h upstream_registry \<Rightarrow> 'h upstream_registry" where
  "unregister_upstream key r = AList.delete key r"

text \<open>\<open>ge p s q\<close>: the computed rate \<open>(s / q) * 100\<close> is at least \<open>p\<close>.\<close>

definition upstream_status :: "(nat \<Rightarrow> u64 \<Rightarrow> u64 \<Rightarrow> bool) \<Rightarrow> upstream_health \<Rightarrow> string" where
  "upstream_status ge h =
     (if uh_queries h = 0 then ''unknown''
      else if ge 95 (uh_successes h) (uh_queries h) then ''healthy''
      else if ge 50 (uh_successes h) (uh_queries h) then ''degraded''
      else ''unhealthy'')"

definition time_ago :: "nat \<Rightarrow> string" where
  "time_ago secs =
     (if secs < 60 then show_nat secs @ ''s ago''
      else if secs < 3600 then show_nat (secs div 60) @ ''m ago''
      else if secs < 86400 then show_nat (secs div 3600) @ ''h ago''
      else show_nat (secs div 86400) @ ''d ago'')"

definition snapshot_of :: "(nat \<Rightarrow> u64 \<Rightarrow> u64 \<Rightarrow> bool) \<Rightarrow> ('h \<Rightarrow> upstream_health) \<Rightarrow> nat \<Rightarrow> 'h registry_entry \<Rightarrow> upstream_snapshot" where
  "snapshot_of ge read now e =
     (let h = read (re_health e) in
      \<lparr>us_address = re_address e, us_tag = re_tag e, us_plugin = re_plugin e, us_status = upstream_status ge h,
       us_success_rate = (if uh_queries h > 0 then Some (uh_successes h, uh_queries h) else None), us_avg_us = uh_avg_us h,
       us_queries = uh_queries h, us_successes = uh_successes h, us_failures = uh_failures h,
       us_last_success = map_option (\<lambda>t. time_ago ((now - t) div 1000000000)) (uh_last_success h)\<rparr>)"

definition get_all :: "(nat \<Rightarrow> u64 \<Rightarrow> u64 \<Rightarrow> bool) \<Rightarrow> ('h \<Rightarrow> upstream_health) \<Rightarrow> nat \<Rightarrow> 'h upstream_registry \<Rightarrow> upstream_snapshot list" where
  "get_all ge read now r = map (snapshot_of ge read now \<circ> snd) r"

text \<open>The registration of a forward plugin; \<open>cell\<close> names the shared health record of an upstream.\<close>

definition register_plugin :: "string option \<Rightarrow> (nat \<Rightarrow> 'h) \<Rightarrow> upstream list \<Rightarrow> 'h upstream_registry \<Rightarrow> 'h upstream_registry" where
  "register_plugin tag cell us r =
     (let name = (case tag of Some t \<Rightarrow> t | None \<Rightarrow> ''forward'') in
      foldl (\<lambda>r (i, u). register_upstream (name @ '':'' @ up_addr u)
          \<lparr>re_address = up_addr u, re_tag = up_tag u, re_plugin = name, re_health = cell i\<rparr> r) r (enumerate 0 us))"

section \<open>The dump of the configuration\<close>

record step_summary =
  sm_matches :: "string option"
  sm_exec :: "string option"

record 'j plugin_summary =
  pm_tag :: string
  pm_plugin_type :: string
  pm_args :: "'j option"
  pm_is_sequence :: bool
  pm_steps :: "step_summary list option"

definition value_to_string :: "(yaml_number \<Rightarrow> string) \<Rightarrow> yaml \<Rightarrow> string option" where
  "value_to_string show_number v =
     (case v of
        YString s \<Rightarrow> Some s
      | YNumber n \<Rightarrow> Some (show_number n)
      | YBool b \<Rightarrow> Some (show_bool b)
      | _ \<Rightarrow> None)"

definition summarize_step :: "(yaml_number \<Rightarrow> string) \<Rightarrow> yaml \<Rightarrow> step_summary option" where
  "summarize_step show_number v =
     (case v of
        YMapping m \<Rightarrow>
          (let matches = Option.bind (map_of m (YString ''matches'')) (value_to_string show_number);
               exec = Option.bind (map_of m (YString ''exec'')) (value_to_string show_number)
           in if matches = None \<and> exec = None then None else Some \<lparr>sm_matches = matches, sm_exec = exec\<rparr>)
      | _ \<Rightarrow> None)"

definition dump_sequence_steps :: "(yaml_number \<Rightarrow> string) \<Rightarrow> yaml \<Rightarrow> step_summary list" where
  "dump_sequence_steps show_number args =
     (case args of YSequence vs \<Rightarrow> List.map_filter (summarize_step show_number) vs | _ \<Rightarrow> [])"

definition yaml_value_to_json :: "(yaml \<Rightarrow> 'j option) \<Rightarrow> 'j \<Rightarrow> yaml \<Rightarrow> 'j" where
  "yaml_value_to_json to_json blank v =
     (case v of
        YNull \<Rightarrow> blank
      | _ \<Rightarrow> (case to_json v of Some j \<Rightarrow> j | None \<Rightarrow> blank))"

definition summarize_plugin :: "(yaml_number \<Rightarrow> string) \<Rightarrow> (yaml \<Rightarrow> 'j option) \<Rightarrow> 'j \<Rightarrow> plugin_config \<Rightarrow> 'j plugin_summary" where
  "summarize_plugin show_number to_json blank p =
     (let is_sequence = (pc_plugin_type p = ''sequence'') in
      \<lparr>pm_tag = effective_name p, pm_plugin_type = pc_plugin_type p,
       pm_args = (if is_sequence then None else Some (yaml_value_to_json to_json blank (pc_args p))),
       pm_is_sequence = is_sequence,
       pm_steps = (if is_sequence then Some (dump_sequence_steps show_number (pc_args p)) else None)\<rparr>)"

record 'j config_dump =
  cd_version :: string
  cd_log_level :: string
  cd_log_console :: bool
  cd_log_format :: string
  cd_log_file_enabled :: bool
  cd_admin :: "bool \<times> string"
  cd_monitoring :: "bool \<times> string"
  cd_web :: "bool \<times> string"
  cd_plugin_count :: nat
  cd_plugins :: "'j plugin_summary list"

definition build_response ::
    "(yaml_number \<Rightarrow> string) \<Rightarrow> (yaml \<Rightarrow> 'j option) \<Rightarrow> 'j \<Rightarrow> string \<Rightarrow> config \<times> web_config \<Rightarrow> 'j config_dump" where
  "build_response show_number to_json blank version g =
     (case g of (c, w) \<Rightarrow>
        let plugins = map (summarize_plugin show_number to_json blank) (cf_plugins c) in
        \<lparr>cd_version = version, cd_log_level = lc_level (cf_log c), cd_log_console = lc_console (cf_log c),
         cd_log_format = lc_format (cf_log c), cd_log_file_enabled = is_file_logging_enabled (cf_log c),
         cd_admin = (ac_enabled (cf_admin c), ac_addr (cf_admin c)),
         cd_monitoring = (mc_enabled (cf_monitoring c), mc_addr (cf_monitoring c)),
         cd_web = (wc_enabled w, wc_listen w), cd_plugin_count = length plugins, cd_plugins = plugins\<rparr>)"

section \<open>The dashboard and its numbers\<close>

definition web_cache :: "'l web_state \<Rightarrow> 'l cache_plugin option" where
  "web_cache st = Option.bind (we_registry st) (\<lambda>reg. Option.bind (registry_get reg ''cache'') (we_caches st))"

record dashboard_overview =
  do_status :: string
  do_uptime_secs :: nat
  do_metrics :: metrics_overview
  do_recent_alerts :: nat
  do_active_sse :: u64
  do_active_ws :: u64

definition overview :: "nat \<Rightarrow> 'l web_state \<Rightarrow> dashboard_overview" where
  "overview now st =
     (let metrics = get_overview now (we_collector st) in
      \<lparr>do_status = ''running'', do_uptime_secs = uptime_secs now st,
       do_metrics =
         (case web_cache st of
            Some p \<Rightarrow>
              (let s = cp_stats p in
               metrics\<lparr>mo_hits := cs_hits s, mo_misses := cs_misses s, mo_hit_rate := pct (cs_hits s) (cs_hits s + cs_misses s)\<rparr>)
          | None \<Rightarrow> metrics),
       do_recent_alerts = length (en_alerts (we_engine st)), do_active_sse = we_sse st, do_active_ws = we_ws st\<rparr>)"

definition web_cache_stats :: "(cache_entry, 'l) lru_ops \<Rightarrow> 'l web_state \<Rightarrow> cache_stats_response" where
  "web_cache_stats ops st =
     (case web_cache st of
        Some p \<Rightarrow>
          (let s = cp_stats p; tot = cs_hits s + cs_misses s in
           \<lparr>sr_size = cache_size ops p, sr_hits = cs_hits s, sr_misses = cs_misses s, sr_evictions = cs_evictions s,
            sr_expirations = cs_expirations s, sr_hit_rate = (if tot > 0 then Some (cs_hits s, tot) else None)\<rparr>)
      | None \<Rightarrow> \<lparr>sr_size = 0, sr_hits = 0, sr_misses = 0, sr_evictions = 0, sr_expirations = 0, sr_hit_rate = None\<rparr>)"

definition recent_alerts_reply :: "'l web_state \<Rightarrow> alert list \<times> nat" where
  "recent_alerts_reply st = (let alerts = recent_alerts 50 (we_engine st) in (alerts, length alerts))"

definition parse_time_window :: "string option \<Rightarrow> nat option" where
  "parse_time_window w =
     (if w = Some ''1m'' then Some 60
      else if w = Some ''5m'' then Some 300
      else if w = Some ''1h'' then Some 3600
      else if w = Some ''24h'' then Some 86400
      else None)"

definition top_entries :: "nat \<Rightarrow> string option \<Rightarrow> nat \<Rightarrow> 'k top_n \<Rightarrow> 'k topn_entry list" where
  "top_entries now window limit t =
     take limit (case parse_time_window window of
        Some secs \<Rightarrow> topn_top_entries_within now secs t
      | None \<Rightarrow> topn_top_entries t)"

definition top_domains :: "nat \<Rightarrow> string option \<Rightarrow> nat \<Rightarrow> 'l web_state \<Rightarrow> string topn_entry list \<times> nat" where
  "top_domains now window limit st =
     (top_entries now window limit (co_top_domains (we_collector st)), mo_unique_domains (get_overview now (we_collector st)))"

definition top_clients :: "nat \<Rightarrow> string option \<Rightarrow> nat \<Rightarrow> 'l web_state \<Rightarrow> string topn_entry list \<times> nat" where
  "top_clients now window limit st =
     (top_entries now window limit (co_top_clients (we_collector st)), mo_unique_clients (get_overview now (we_collector st)))"

definition qps_history :: "nat \<Rightarrow> nat \<Rightarrow> 'l web_state \<Rightarrow> (nat \<times> nat) list \<times> (nat \<times> nat) \<times> series_stats_view" where
  "qps_history now unix st =
     (let q = co_qps (we_collector st) in (series_points now unix q, series_rate now q, series_stats now q))"

section \<open>Administration\<close>

text \<open>A reply with its status; an export is a file with its type and its name.\<close>

datatype web_reply = Success string | Failure nat string | Attachment string string string

definition web_clear_cache :: "(cache_entry, 'l) lru_ops \<Rightarrow> 'l web_state \<Rightarrow> web_reply \<times> 'l web_state" where
  "web_clear_cache ops st =
     (case we_registry st of
        None \<Rightarrow> (Failure 503 ''Plugin registry not available'', st)
      | Some reg \<Rightarrow>
          (case registry_get reg ''cache'' of
             None \<Rightarrow> (Failure 404 ''Cache plugin not configured'', st)
           | Some a \<Rightarrow>
               (case we_caches st a of
                  Some p \<Rightarrow>
                    (Success (''Cache cleared successfully ('' @ show_nat (cache_size ops p) @ '' entries removed)''),
                     st\<lparr>we_caches := (we_caches st)(a \<mapsto> cache_clear ops p)\<rparr>)
                | None \<Rightarrow> (Failure 500 ''Failed to access cache plugin'', st))))"

text \<open>\<open>web_of\<close> gives the web section of a loaded file; \<open>None\<close> when the includes do not end.\<close>

definition web_reload_config ::
    "(string \<Rightarrow> string + config) \<Rightarrow> (string \<Rightarrow> yaml option) \<Rightarrow> (string \<Rightarrow> string + string) \<Rightarrow> files \<Rightarrow> env \<Rightarrow> (string \<Rightarrow> web_config)
     \<Rightarrow> nat \<Rightarrow> string option \<Rightarrow> 'l web_state \<Rightarrow> (web_reply \<times> 'l web_state) option" where
  "web_reload_config parse yaml_of canonicalize fs env web_of n requested st =
     (case we_global st of
        None \<Rightarrow> Some (Failure 503 ''Configuration not available for reload'', st)
      | Some _ \<Rightarrow>
          (let path = (case requested of Some p \<Rightarrow> p | None \<Rightarrow> ''config.yaml'') in
           case load_from_file parse yaml_of canonicalize fs env n path of
             None \<Rightarrow> None
           | Some (Inr c) \<Rightarrow>
               (case validate_config c of
                  Inr _ \<Rightarrow> Some (Success (''Configuration reloaded from '' @ path), st\<lparr>we_global := Some (c, web_of path)\<rparr>)
                | Inl e \<Rightarrow> Some (Failure 400 (''Configuration validation failed: '' @ error_fmt e), st))
           | Some (Inl e) \<Rightarrow> Some (Failure 500 (''Failed to load configuration: '' @ error_fmt e), st)))"

definition acknowledge_all_alerts :: "'l web_state \<Rightarrow> web_reply \<times> 'l web_state" where
  "acknowledge_all_alerts st =
     (Success ''All alerts acknowledged'', st\<lparr>we_engine := acknowledge_all (we_engine st)\<rparr>)"

definition acknowledge_alert :: "string \<Rightarrow> 'l web_state \<Rightarrow> web_reply \<times> 'l web_state" where
  "acknowledge_alert uuid st =
     (case acknowledge uuid (we_engine st) of
        (found, en) \<Rightarrow>
          (if found then Success (''Alert '' @ uuid @ '' acknowledged'') else Failure 404 (''Alert '' @ uuid @ '' not found''),
           st\<lparr>we_engine := en\<rparr>))"

definition clear_all_alerts :: "'l web_state \<Rightarrow> web_reply \<times> 'l web_state" where
  "clear_all_alerts st = (Success ''All alerts cleared'', st\<lparr>we_engine := clear_alerts (we_engine st)\<rparr>)"

fun severity_debug :: "alert_severity \<Rightarrow> string" where
  "severity_debug SevInfo = ''Info''"
| "severity_debug SevWarning = ''Warning''"
| "severity_debug SevError = ''Error''"
| "severity_debug SevCritical = ''Critical''"

definition csv_fields :: "alert \<Rightarrow> string list" where
  "csv_fields a =
     [at_id a, at_rule_name a, severity_debug (at_severity a),
      map (\<lambda>x. if x = CHR 0x0A then CHR '' '' else x) (map (\<lambda>x. if x = CHR '','' then CHR '';'' else x) (at_message a)),
      show_nat (at_timestamp a), show_bool (at_acknowledged a)]"

definition csv_columns :: "string list" where
  "csv_columns = [''id'', ''rule_name'', ''severity'', ''message'', ''timestamp'', ''acknowledged'']"

definition csv_line :: "string list \<Rightarrow> string" where
  "csv_line xs = join_with (CHR '','') xs @ [CHR 0x0A]"

definition alerts_csv :: "alert list \<Rightarrow> string" where
  "alerts_csv as = csv_line csv_columns @ concat (map (csv_line \<circ> csv_fields) as)"

record export_request =
  er_log_type :: string
  er_format :: string
  er_limit :: nat

text \<open>\<open>header_ok\<close>: the text is a value of an HTTP header; \<open>None\<close> is the panic of the \<^verbatim>\<open>unwrap\<close>.\<close>

definition export_logs ::
    "(alert list \<Rightarrow> string option) \<Rightarrow> (string \<Rightarrow> bool) \<Rightarrow> nat \<Rightarrow> export_request \<Rightarrow> 'l web_state \<Rightarrow> web_reply option" where
  "export_logs pretty header_ok unix rq st =
     (let alerts = recent_alerts (er_limit rq) (we_engine st) in
      if er_log_type rq = ''alerts'' then
        (let csv = (er_format rq = ''csv'');
             content = (if csv then alerts_csv alerts else case pretty alerts of Some j \<Rightarrow> j | None \<Rightarrow> ''[]'');
             disposition = ''attachment; filename='' @
               quoted (''lazydns_alerts_'' @ show_nat unix @ ''.'' @ er_format rq)
         in if header_ok disposition
            then Some (Attachment (if csv then ''text/csv'' else ''application/json'') disposition content)
            else None)
      else Some (Failure 400 (''Unknown log type: '' @ er_log_type rq @ ''. Supported: alerts'')))"

section \<open>Assets\<close>

record asset_reply =
  as_status :: nat
  as_type :: string
  as_cache :: "string option"
  as_body :: "u8 list"

definition ends_with_any :: "string list \<Rightarrow> string \<Rightarrow> bool" where
  "ends_with_any exts path \<longleftrightarrow> list_ex (\<lambda>e. suffix e path) exts"

definition cache_control_header :: "string \<Rightarrow> string" where
  "cache_control_header path =
     (if ends_with_any [''.html''] path then ''no-cache''
      else if ends_with_any [''.js'', ''.css''] path then ''public, max-age=31536000, immutable''
      else if ends_with_any [''.woff2'', ''.woff'', ''.ttf'', ''.eot''] path then ''public, max-age=31536000, immutable''
      else if ends_with_any [''.png'', ''.jpg'', ''.jpeg'', ''.gif'', ''.svg'', ''.ico''] path then ''public, max-age=86400''
      else ''public, max-age=3600'')"

definition serve_embedded_file :: "(string \<rightharpoonup> u8 list \<times> string) \<Rightarrow> string \<Rightarrow> asset_reply" where
  "serve_embedded_file assets path =
     (case assets path of
        Some (data, mime) \<Rightarrow>
          \<lparr>as_status = 200, as_type = mime, as_cache = Some (cache_control_header path), as_body = data\<rparr>
      | None \<Rightarrow>
          (case (if CHR ''.'' \<notin> set path \<or> suffix ''.html'' path then assets ''index.html'' else None) of
             Some (data, _) \<Rightarrow>
               \<lparr>as_status = 200, as_type = ''text/html; charset=utf-8'', as_cache = Some ''no-cache'', as_body = data\<rparr>
           | None \<Rightarrow>
               \<lparr>as_status = 404, as_type = ''text/plain'', as_cache = None, as_body = map (of_char :: char \<Rightarrow> u8) ''Not Found''\<rparr>))"

definition has_embedded_assets :: "(string \<rightharpoonup> u8 list \<times> string) \<Rightarrow> bool" where
  "has_embedded_assets assets \<longleftrightarrow> assets ''index.html'' \<noteq> None"

section \<open>The server\<close>

record cors_layer =
  cl_origins :: "string list"
  cl_any_method :: bool
  cl_any_header :: bool
  cl_credentials :: bool

definition build_cors :: "(string \<Rightarrow> bool) \<Rightarrow> cors_config \<Rightarrow> cors_layer" where
  "build_cors valid c =
     (if cr_allowed_origins c = []
      then \<lparr>cl_origins = [], cl_any_method = False, cl_any_header = False, cl_credentials = False\<rparr>
      else \<lparr>cl_origins = filter valid (cr_allowed_origins c), cl_any_method = True, cl_any_header = True,
             cl_credentials = cr_allow_credentials c\<rparr>)"

datatype pages = StaticDir string | EmbeddedAssets | RootPage

definition web_pages :: "bool \<Rightarrow> (string \<rightharpoonup> u8 list \<times> string) \<Rightarrow> web_config \<Rightarrow> pages" where
  "web_pages embedding assets c =
     (case wc_static_dir c of
        Some dir \<Rightarrow> StaticDir dir
      | None \<Rightarrow> if embedding \<and> has_embedded_assets assets then EmbeddedAssets else RootPage)"

datatype web_handler =
    HOverview | HFeatures | HCacheStats | HServerInfo | HRecentAlerts | HTopDomains | HTopClients | HUpstreamHealth
  | HLatency | HQps | HConfigDump | HQueryStream | HSecurityStream | HSocket
  | HClearCache | HReloadConfig | HAcknowledgeAll | HAcknowledge | HClearAlerts | HExportLogs

datatype http_method = Get | Head | Post | OtherMethod

datatype route_segment = Lit string | Parameter

text \<open>The table of routes, with the prefixes under which the two routers are nested.\<close>

definition api_route :: "string list \<Rightarrow> route_segment list" where
  "api_route ps = map Lit (''api'' # ps)"

definition read_routes :: "(route_segment list \<times> web_handler) list" where
  "read_routes =
     [(api_route [''health''], HOverview), (api_route [''features''], HFeatures),
      (api_route [''dashboard'', ''overview''], HOverview), (api_route [''dashboard'', ''cache'', ''stats''], HCacheStats),
      (api_route [''dashboard'', ''server'', ''info''], HServerInfo), (api_route [''alerts'', ''recent''], HRecentAlerts),
      (api_route [''metrics'', ''top-domains''], HTopDomains), (api_route [''metrics'', ''top-clients''], HTopClients),
      (api_route [''metrics'', ''upstream-health''], HUpstreamHealth), (api_route [''metrics'', ''latency''], HLatency),
      (api_route [''metrics'', ''qps''], HQps), (api_route [''config'', ''dump''], HConfigDump),
      (api_route [''audit'', ''query-logs'', ''stream''], HQueryStream),
      (api_route [''audit'', ''security-events'', ''stream''], HSecurityStream), (map Lit [''ws'', ''metrics''], HSocket)]"

definition admin_routes :: "(route_segment list \<times> web_handler) list" where
  "admin_routes =
     [(api_route [''admin'', ''cache'', ''clear''], HClearCache), (api_route [''admin'', ''config'', ''reload''], HReloadConfig),
      (api_route [''admin'', ''alerts'', ''acknowledge-all''], HAcknowledgeAll),
      (api_route [''admin'', ''alerts'', ''acknowledge''] @ [Parameter], HAcknowledge),
      (api_route [''admin'', ''alerts'', ''clear''], HClearAlerts), (api_route [''admin'', ''logs'', ''export''], HExportLogs)]"

fun match_segments :: "route_segment list \<Rightarrow> string list \<Rightarrow> string list option" where
  "match_segments [] [] = Some []"
| "match_segments (Lit l # ss) (p # ps) = (if l = p then match_segments ss ps else None)"
| "match_segments (Parameter # ss) (p # ps) = (if p = [] then None else map_option ((#) p) (match_segments ss ps))"
| "match_segments _ _ = None"

fun find_route :: "(route_segment list \<times> web_handler) list \<Rightarrow> string list \<Rightarrow> (web_handler \<times> string list) option" where
  "find_route [] ps = None"
| "find_route ((ss, h) # rs) ps = (case match_segments ss ps of Some qs \<Rightarrow> Some (h, qs) | None \<Rightarrow> find_route rs ps)"

definition web_route :: "bool \<Rightarrow> http_method \<Rightarrow> string list \<Rightarrow> (web_handler \<times> string list) option" where
  "web_route admin m ps =
     (case m of
        Get \<Rightarrow> find_route read_routes ps
      | Head \<Rightarrow> find_route read_routes ps
      | Post \<Rightarrow> if admin then find_route admin_routes ps else None
      | OtherMethod \<Rightarrow> None)"

text \<open>What the handlers use besides the state: the libraries, the registry of upstreams, the file
  system and the build.\<close>

record ('l, 'j, 'h) web_env =
  ev_ops :: "(cache_entry, 'l) lru_ops"
  ev_show_number :: "yaml_number \<Rightarrow> string"
  ev_to_json :: "yaml \<Rightarrow> 'j option"
  ev_no_args :: 'j
  ev_pretty :: "alert list \<Rightarrow> string option"
  ev_header_ok :: "string \<Rightarrow> bool"
  ev_rate_ge :: "nat \<Rightarrow> u64 \<Rightarrow> u64 \<Rightarrow> bool"
  ev_upstreams :: "'h upstream_registry"
  ev_health :: "'h \<Rightarrow> upstream_health"
  ev_parse :: "string \<Rightarrow> string + config"
  ev_yaml :: "string \<Rightarrow> yaml option"
  ev_canonicalize :: "string \<Rightarrow> string + string"
  ev_files :: files
  ev_variables :: env
  ev_web_of :: "string \<Rightarrow> web_config"
  ev_depth :: nat
  ev_version :: string
  ev_rss :: u64
  ev_features :: "bool \<times> bool \<times> bool"

record web_input =
  wi_now :: nat
  wi_unix :: nat
  wi_window :: "string option"
  wi_limit :: nat
  wi_path :: "string option"
  wi_export :: export_request

datatype 'j web_answer =
    AReply web_reply
  | AOverview dashboard_overview
  | AFeatures "bool \<times> bool \<times> bool"
  | ACacheStats cache_stats_response
  | AServerInfo string nat u64
  | AAlerts "alert list \<times> nat"
  | ATop "string topn_entry list \<times> nat"
  | AUpstreams "upstream_snapshot list"
  | ALatency latency_snapshot
  | AQps "(nat \<times> nat) list \<times> (nat \<times> nat) \<times> series_stats_view"
  | ADump "'j config_dump"
  | AStream string
  | AUpgrade

definition dump :: "('l, 'j, 'h) web_env \<Rightarrow> 'l web_state \<Rightarrow> 'j web_answer" where
  "dump ev st =
     (case we_global st of
        None \<Rightarrow> AReply (Failure 503 ''Configuration not available (requires admin build)'')
      | Some g \<Rightarrow> ADump (build_response (ev_show_number ev) (ev_to_json ev) (ev_no_args ev) (ev_version ev) g))"

definition read_call :: "('l, 'j, 'h) web_env \<Rightarrow> web_input \<Rightarrow> web_handler \<Rightarrow> 'l web_state \<Rightarrow> 'j web_answer option" where
  "read_call ev inp h st =
     (case h of
        HOverview \<Rightarrow> Some (AOverview (overview (wi_now inp) st))
      | HFeatures \<Rightarrow> Some (AFeatures (ev_features ev))
      | HCacheStats \<Rightarrow> Some (ACacheStats (web_cache_stats (ev_ops ev) st))
      | HServerInfo \<Rightarrow> Some (AServerInfo (ev_version ev) (uptime_secs (wi_now inp) st) (ev_rss ev))
      | HRecentAlerts \<Rightarrow> Some (AAlerts (recent_alerts_reply st))
      | HTopDomains \<Rightarrow> Some (ATop (top_domains (wi_now inp) (wi_window inp) (wi_limit inp) st))
      | HTopClients \<Rightarrow> Some (ATop (top_clients (wi_now inp) (wi_window inp) (wi_limit inp) st))
      | HUpstreamHealth \<Rightarrow> Some (AUpstreams (get_all (ev_rate_ge ev) (ev_health ev) (wi_now inp) (ev_upstreams ev)))
      | HLatency \<Rightarrow> Some (ALatency (latency_view (co_latency (we_collector st))))
      | HQps \<Rightarrow> Some (AQps (qps_history (wi_now inp) (wi_unix inp) st))
      | HConfigDump \<Rightarrow> Some (dump ev st)
      | HQueryStream \<Rightarrow> Some (AStream ''query-logs'')
      | HSecurityStream \<Rightarrow> Some (AStream ''security-events'')
      | HSocket \<Rightarrow> Some AUpgrade
      | _ \<Rightarrow> None)"

definition web_call ::
    "('l, 'j, 'h) web_env \<Rightarrow> web_input \<Rightarrow> web_handler \<Rightarrow> string list \<Rightarrow> 'l web_state \<Rightarrow> ('j web_answer \<times> 'l web_state) option" where
  "web_call ev inp h ps st =
     (case h of
        HClearCache \<Rightarrow> Some (map_prod AReply id (web_clear_cache (ev_ops ev) st))
      | HReloadConfig \<Rightarrow>
          map_option (map_prod AReply id) (web_reload_config (ev_parse ev) (ev_yaml ev) (ev_canonicalize ev) (ev_files ev)
            (ev_variables ev) (ev_web_of ev) (ev_depth ev) (wi_path inp) st)
      | HAcknowledgeAll \<Rightarrow> Some (map_prod AReply id (acknowledge_all_alerts st))
      | HAcknowledge \<Rightarrow> Some (map_prod AReply id (acknowledge_alert (concat ps) st))
      | HClearAlerts \<Rightarrow> Some (map_prod AReply id (clear_all_alerts st))
      | HExportLogs \<Rightarrow>
          map_option (\<lambda>r. (AReply r, st)) (export_logs (ev_pretty ev) (ev_header_ok ev) (wi_unix inp) (wi_export inp) st)
      | _ \<Rightarrow> map_option (\<lambda>a. (a, st)) (read_call ev inp h st))"

text \<open>The tasks a running server starts beside its listener.\<close>

datatype web_task = CollectorTask | AlertTask

definition web_tasks :: "web_config \<Rightarrow> web_task list" where
  "web_tasks c = CollectorTask # (if an_enabled (wc_alerts c) then [AlertTask] else [])"

section \<open>Reading changes nothing\<close>

lemma find_route_in: "find_route rs ps = Some (h, qs) \<Longrightarrow> \<exists>ss. (ss, h) \<in> set rs"
  by (induction rs) (auto split: option.splits)

lemma read_routes_read: "(ss, h) \<in> set read_routes \<Longrightarrow> \<exists>a. web_call ev inp h ps st = Some (a, st)"
  by (auto simp: read_routes_def web_call_def read_call_def)

text \<open>
  Whatever the features of the build and whatever a client asks for by GET or HEAD, a route that
  exists answers, without a panic, and leaves metrics, alerts, caches and configuration as they were.
\<close>

theorem get_requests_change_nothing:
  "m \<in> {Get, Head} \<Longrightarrow> web_route admin m path = Some (h, ps) \<Longrightarrow> \<exists>a. web_call ev inp h ps st = Some (a, st)"
  by (auto simp: web_route_def dest!: find_route_in intro: read_routes_read)

theorem get_requests_change_nothing_witness:
  "\<forall>(ev :: (unit, unit, unit) web_env) inp st. \<exists>a. web_call ev inp HConfigDump [] st = Some (a, st)"
proof -
  have "web_route False Get [''api'', ''config'', ''dump''] = Some (HConfigDump, [])"
    by (simp add: web_route_def read_routes_def api_route_def)
  then show ?thesis using get_requests_change_nothing [of Get False] by blast
qed

text \<open>Without the admin feature no other method has a route.\<close>

lemma no_admin_no_change: "web_route False m path = Some (h, ps) \<Longrightarrow> m \<in> {Get, Head}"
  by (cases m) (auto simp: web_route_def)

section \<open>The dump and the sequences that run\<close>

lemma parse_step_dumped:
  assumes "parse_step pr v b = (Inr (Some st), b')"
  shows "\<exists>sm x. summarize_step show_number v = Some sm \<and> sm_matches sm = step_condition st \<and> sm_exec sm = Some x \<and>
    parse_exec_action pr (YString x) b = (Inr (step_plugin st), b')"
  using assms
  by (auto simp: parse_step_def summarize_step_def value_to_string_def dest: exec_action_string
      split: yaml.splits option.splits prod.splits sum.splits)

text \<open>A line of the dump shows a step: it has the text of the step's condition, and its action text is
  what the builder turned into the step's plugin, in a state between \<open>b\<close> and \<open>b'\<close>.\<close>

definition shows_step :: "'s program \<Rightarrow> 's plugin_builder \<Rightarrow> 's plugin_builder \<Rightarrow> step_summary \<Rightarrow> 's sequence_step \<Rightarrow> bool" where
  "shows_step pr b b' sm st \<longleftrightarrow> sm_matches sm = step_condition st \<and>
     (\<exists>x b1 b2. sm_exec sm = Some x \<and> extends b b1 \<and>
        parse_exec_action pr (YString x) b1 = (Inr (step_plugin st), b2) \<and> extends b2 b')"

lemma shows_step_mono:
  "extends b0 b \<Longrightarrow> extends b' b1 \<Longrightarrow> shows_step pr b b' sm st \<Longrightarrow> shows_step pr b0 b1 sm st"
  unfolding shows_step_def by (meson extends_trans)

lemma dumped_steps:
  "parse_sequence_steps pr vs b = (Inr sts, b') \<Longrightarrow>
     \<exists>shown. subseq shown (List.map_filter (summarize_step show_number) vs) \<and> list_all2 (shows_step pr b b') shown sts"
proof (induction vs arbitrary: b sts)
  case (Cons v vs)
  obtain r b1 sts' where s: "parse_step pr v b = (Inr r, b1)" "parse_sequence_steps pr vs b1 = (Inr sts', b')"
    "sts = (case r of Some x \<Rightarrow> x # sts' | None \<Rightarrow> sts')"
    using Cons.prems by (auto split: prod.splits sum.splits)
  note e1 = parse_step_extends [OF s(1)]
  have e2: "extends b1 b'" using parse_sequence_steps_installed [OF s(2)] by blast
  obtain shown where sh: "subseq shown (List.map_filter (summarize_step show_number) vs)" "list_all2 (shows_step pr b b') shown sts'"
    using Cons.IH [OF s(2)] shows_step_mono [OF e1 extends_refl] by (meson list_all2_mono)
  show ?case
  proof (cases r)
    case None
    with sh s(3) show ?thesis
      by (intro exI [of _ shown]) (auto simp: map_filter_def split: option.split)
  next
    case (Some st)
    then obtain sm x where "summarize_step show_number v = Some sm" "sm_matches sm = step_condition st" "sm_exec sm = Some x"
      "parse_exec_action pr (YString x) b = (Inr (step_plugin st), b1)"
      using parse_step_dumped s(1) by metis
    moreover from this have "shows_step pr b b' sm st" using e2 unfolding shows_step_def by blast
    ultimately show ?thesis using sh s(3) Some
      by (intro exI [of _ "sm # shown"]) (auto simp: map_filter_def)
  qed
qed simp

text \<open>
  C38: the dump of the configuration shows what runs. For a plugin whose type is written exactly
  \<^verbatim>\<open>sequence\<close> and whose arguments are a list, the lines of the dump include, in the order of the installed
  steps, one line for every step the builder installed, with the text of its condition (none for an
  unconditional step) and the action text that the builder turned into the plugin of that step. (Lines
  of entries the builder skipped may stand between them; the mapping form of a sequence and types
  such as \<^verbatim>\<open>Sequence\<close>, which the builder accepts too, are dumped without steps.)
\<close>

theorem dump_shows_installed_steps:
  assumes "pc_plugin_type p = ''sequence''" and "pc_args p = YSequence vs"
    and "parse_sequence_steps pr vs b = (Inr sts, b')"
  shows "\<exists>lines shown. pm_steps (summarize_plugin show_number to_json blank p) = Some lines \<and> subseq shown lines \<and>
    list_all2 (shows_step pr b b') shown sts"
  using dumped_steps [OF assms(3), of show_number] assms(1,2)
  by (simp add: summarize_plugin_def dump_sequence_steps_def)

theorem dump_shows_installed_steps_witness:
  "\<exists>lines sm. pm_steps (summarize_plugin (\<lambda>_. []) (\<lambda>_. None) () (seq_config ''main'' [exec_step ''nothing'', exec_step ''reject''])) =
     Some lines \<and> subseq [sm] lines \<and> sm_matches sm = None \<and> sm_exec sm = Some ''reject''"
proof -
  let ?p = "seq_config ''main'' [exec_step ''nothing'', exec_step ''reject'']"
  let ?b = "plugin_builder_new (\<lambda>_. Leaf (flow_leaf AcceptPlugin)) :: unit plugin_builder"
  obtain a b where s: "parse_sequence_steps (demo_program :: unit program) [exec_step ''nothing'', exec_step ''reject''] ?b =
      (Inr [Exec a], b)"
    by (simp add: exec_step_def parse_step_def parse_exec_action_def demo_program_def split_once_def
        get_exec_plugin_factory_def alloc_def Let_def strip_prefix_def split: prod.split)
  obtain lines shown where l: "pm_steps (summarize_plugin (\<lambda>_. []) (\<lambda>_. None) () ?p) = Some lines" "subseq shown lines"
    "list_all2 (shows_step demo_program ?b b) shown [Exec a]"
    using dump_shows_installed_steps [OF _ _ s, of ?p "\<lambda>_. []" "\<lambda>_. None" "()"]
    by (auto simp: seq_config_def)
  then obtain sm x b1 b2 where sm: "shown = [sm]" "sm_matches sm = None" "sm_exec sm = Some x"
    "parse_exec_action (demo_program :: unit program) (YString x) b1 = (Inr a, b2)" "extends ?b b1"
    by (auto simp: list_all2_Cons2 shows_step_def)
  have "lines = [\<lparr>sm_matches = None, sm_exec = Some ''nothing''\<rparr>, \<lparr>sm_matches = None, sm_exec = Some ''reject''\<rparr>]"
    using l(1) by (simp add: summarize_plugin_def dump_sequence_steps_def summarize_step_def exec_step_def
        value_to_string_def map_filter_def seq_config_def)
  then have "x = ''nothing'' \<or> x = ''reject''" using l(2) sm(1,3) by (auto split: if_splits)
  moreover have "x \<noteq> ''nothing''"
    using sm(4) by (auto simp: parse_exec_action_def demo_program_def split_once_def get_exec_plugin_factory_def strip_prefix_def)
  ultimately show ?thesis using l(1,2) sm by auto
qed

text \<open>A type the builder normalises to \<^verbatim>\<open>sequence\<close> is not dumped as a sequence.\<close>

lemma capitalised_sequence_not_dumped:
  "plugin_type_of \<lparr>pc_tag = None, pc_plugin_type = ''Sequence'', pc_args = YSequence vs\<rparr> = ''sequence'' \<and>
   pm_steps (summarize_plugin show_number to_json blank \<lparr>pc_tag = None, pc_plugin_type = ''Sequence'', pc_args = YSequence vs\<rparr>) = None"
proof -
  have "to_lowercase (trim ''Sequence'') = ''sequence''" by code_simp
  then show ?thesis by (simp add: plugin_type_of_def summarize_plugin_def)
qed

text \<open>The short form of a sequence, a mapping with the names of plugins, is built but dumped without
  steps.\<close>

lemma short_form_dumped_empty:
  "pc_plugin_type p = ''sequence'' \<Longrightarrow> pc_args p = YMapping m \<Longrightarrow> pm_steps (summarize_plugin show_number to_json blank p) = Some []"
  by (simp add: summarize_plugin_def dump_sequence_steps_def)

text \<open>A step whose action cannot be built is left out of the sequence, and still shown.\<close>

lemma skipped_step_still_shown:
  assumes "get_exec_plugin_factory (pr_execs pr) ''nothing'' = None"
  shows "fst (parse_sequence_steps pr [YMapping [(YString ''exec'', YString ''nothing'')]] b) = Inr [] \<and>
    dump_sequence_steps show_number (YSequence [YMapping [(YString ''exec'', YString ''nothing'')]]) =
      [\<lparr>sm_matches = None, sm_exec = Some ''nothing''\<rparr>]"
proof -
  have "split_once (CHR '' '') ''nothing'' = None" by (simp add: split_once_def)
  then have "fst (parse_exec_action pr (YString ''nothing'') b) = Inl (Config (''Unknown exec action: '' @ ''nothing''))"
    and "snd (parse_exec_action pr (YString ''nothing'') b) = b"
    using assms by (simp_all add: parse_exec_action_def strip_prefix_def)
  then have "parse_exec_action pr (YString ''nothing'') b = (Inl (Config (''Unknown exec action: '' @ ''nothing'')), b)"
    by (metis prod.collapse)
  then show ?thesis
    by (simp add: parse_step_def dump_sequence_steps_def summarize_step_def value_to_string_def map_filter_def)
qed

section \<open>The registry of upstreams\<close>

lemma map_of_register: "map_of (register_upstream key e r) k = (if k = key then Some e else map_of r k)"
  by (simp add: register_upstream_def update_conv')

lemma map_of_unregister: "map_of (unregister_upstream key r) k = (if k = key then None else map_of r k)"
  by (simp add: unregister_upstream_def delete_conv')

lemma distinct_register: "distinct (map fst r) \<Longrightarrow> distinct (map fst (register_upstream key e r))"
  by (simp add: register_upstream_def distinct_update)

definition forward_name :: "string option \<Rightarrow> string" where
  "forward_name tag = (case tag of Some t \<Rightarrow> t | None \<Rightarrow> ''forward'')"

definition entry_for :: "string option \<Rightarrow> (nat \<Rightarrow> 'h) \<Rightarrow> upstream list \<Rightarrow> nat \<Rightarrow> 'h registry_entry" where
  "entry_for tag cell us i =
     \<lparr>re_address = up_addr (us ! i), re_tag = up_tag (us ! i), re_plugin = forward_name tag, re_health = cell i\<rparr>"

lemma register_plugin_snoc:
  "register_plugin tag cell (us @ [u]) r =
     register_upstream (forward_name tag @ '':'' @ up_addr u) (entry_for tag cell (us @ [u]) (length us)) (register_plugin tag cell us r)"
  by (simp add: register_plugin_def forward_name_def entry_for_def Let_def enumerate_append_eq)

lemma map_of_register_plugin:
  "i < length us \<Longrightarrow> (\<And>j. i < j \<Longrightarrow> j < length us \<Longrightarrow> up_addr (us ! j) \<noteq> up_addr (us ! i)) \<Longrightarrow>
     map_of (register_plugin tag cell us r) (forward_name tag @ '':'' @ up_addr (us ! i)) = Some (entry_for tag cell us i)"
proof (induction us rule: rev_induct)
  case (snoc u us)
  show ?case
  proof (cases "i = length us")
    case True
    then show ?thesis by (simp add: register_plugin_snoc map_of_register)
  next
    case False
    then have i: "i < length us" using snoc.prems(1) by simp
    have "up_addr u \<noteq> up_addr (us ! i)" using snoc.prems(2) [of "length us"] i by (simp add: nth_append)
    moreover have "map_of (register_plugin tag cell us r) (forward_name tag @ '':'' @ up_addr (us ! i)) = Some (entry_for tag cell us i)"
    proof (rule snoc.IH [OF i])
      fix j assume "i < j" "j < length us"
      then show "up_addr (us ! j) \<noteq> up_addr (us ! i)" using snoc.prems(2) [of j] i by (simp add: nth_append)
    qed
    ultimately show ?thesis using i by (simp add: register_plugin_snoc map_of_register entry_for_def nth_append)
  qed
qed simp

text \<open>
  The upstreams of a forward plugin with different addresses are all on the health page, each with
  the address, the tag and the counters of its own.
\<close>

theorem upstreams_all_shown:
  assumes "distinct (map up_addr us)" and "i < length us"
  shows "\<exists>s \<in> set (get_all ge read now (register_plugin tag cell us r)).
    us_address s = up_addr (us ! i) \<and> us_tag s = up_tag (us ! i) \<and> us_queries s = uh_queries (read (cell i)) \<and>
    us_status s = upstream_status ge (read (cell i))"
proof -
  have "\<And>j. i < j \<Longrightarrow> j < length us \<Longrightarrow> up_addr (us ! j) \<noteq> up_addr (us ! i)"
    using assms nth_eq_iff_index_eq [OF assms(1)] by fastforce
  from map_of_register_plugin [OF assms(2) this, of tag cell r]
  have "(forward_name tag @ '':'' @ up_addr (us ! i), entry_for tag cell us i) \<in> set (register_plugin tag cell us r)"
    by (auto dest: map_of_SomeD)
  then have "snapshot_of ge read now (entry_for tag cell us i) \<in> set (get_all ge read now (register_plugin tag cell us r))"
    by (force simp: get_all_def)
  then show ?thesis by (rule bexI [rotated]) (simp add: snapshot_of_def entry_for_def Let_def)
qed

theorem upstreams_all_shown_witness:
  "\<exists>s \<in> set (get_all (\<lambda>p s q. p * unat q \<le> 100 * unat s) (\<lambda>_. upstream_health_new) 0
      (register_plugin None id [upstream_new ''1.1.1.1:53'', upstream_new ''8.8.8.8:53''] [])).
    us_address s = ''8.8.8.8:53'' \<and> us_status s = ''unknown''"
  using upstreams_all_shown [of "[upstream_new ''1.1.1.1:53'', upstream_new ''8.8.8.8:53'']" 1
      "\<lambda>p s q. p * unat q \<le> 100 * unat s" "\<lambda>_. upstream_health_new" 0 None id "[]"]
  by (force simp: upstream_new_def upstream_status_def upstream_health_new_def)

text \<open>Two upstreams with one address share a key, and the first one is not shown.\<close>

lemma same_address_hides:
  "up_addr u = up_addr v \<Longrightarrow>
     get_all ge read now (register_plugin tag cell [u, v] []) = [snapshot_of ge read now (entry_for tag cell [u, v] 1)]"
  by (simp add: register_plugin_def register_upstream_def get_all_def entry_for_def forward_name_def Let_def)

section \<open>Exports\<close>

definition plain_field :: "string \<Rightarrow> bool" where
  "plain_field s \<longleftrightarrow> CHR '','' \<notin> set s \<and> CHR 0x0A \<notin> set s"

lemma show_nat_plain: "plain_field (show_nat n)"
  using show_nat_digits [of "CHR '',''" n] show_nat_digits [of "CHR 0x0A" n] by (auto simp: plain_field_def digit_val_def)

lemma csv_fields_plain:
  assumes "plain_field (at_id a)" and "plain_field (at_rule_name a)"
  shows "\<forall>f \<in> set (csv_fields a). plain_field f"
  using assms show_nat_plain [of "at_timestamp a"]
  by (cases "at_severity a") (auto simp: csv_fields_def plain_field_def show_bool_def)

lemma join_plain: "\<forall>f \<in> set fs. plain_field f \<Longrightarrow> CHR 0x0A \<notin> set (join_with (CHR '','') fs)"
  using set_join_with [of "CHR '',''" fs] by (auto simp: plain_field_def)

lemma csv_rows:
  assumes "\<forall>row \<in> set rows. row \<noteq> [] \<and> (\<forall>f \<in> set row. plain_field f)"
  shows "map (split_on (CHR '','')) (split_on (CHR 0x0A) (concat (map csv_line rows))) = rows @ [[[]]]"
  using assms
proof (induction rows)
  case (Cons row rows)
  have "split_on (CHR 0x0A) (csv_line row @ concat (map csv_line rows)) =
      join_with (CHR '','') row # split_on (CHR 0x0A) (concat (map csv_line rows))"
    using Cons.prems join_plain [of row] by (simp add: csv_line_def split_on_append_sep)
  moreover have "split_on (CHR '','') (join_with (CHR '','') row) = row"
    using Cons.prems by (intro split_join) (auto simp: plain_field_def)
  ultimately show ?case using Cons by simp
qed simp

text \<open>
  Reading an exported table back, by cutting it at line ends and commas, gives the column names and
  for each alert its six fields, provided that ids and rule names hold neither; the messages may
  hold both.
\<close>

theorem csv_export_reads_back:
  assumes "\<And>a. a \<in> set as \<Longrightarrow> plain_field (at_id a) \<and> plain_field (at_rule_name a)"
  shows "map (split_on (CHR '','')) (split_on (CHR 0x0A) (alerts_csv as)) = csv_columns # map csv_fields as @ [[[]]]"
proof -
  have "alerts_csv as = concat (map csv_line (csv_columns # map csv_fields as))"
    by (simp add: alerts_csv_def comp_def)
  moreover have "\<forall>row \<in> set (csv_columns # map csv_fields as). row \<noteq> [] \<and> (\<forall>f \<in> set row. plain_field f)"
    using assms csv_fields_plain by (auto simp: csv_columns_def plain_field_def csv_fields_def)
  ultimately show ?thesis using csv_rows [of "csv_columns # map csv_fields as"] by simp
qed

theorem csv_export_reads_back_witness:
  "map (split_on (CHR '','')) (split_on (CHR 0x0A) (alerts_csv [alert_new ''u1'' 7 ''rule'' SevError ''a,b'']))
     = [csv_columns, [''u1'', ''rule'', ''Error'', ''a;b'', ''7'', ''false''], [[]]]"
proof -
  have "csv_fields (alert_new ''u1'' 7 ''rule'' SevError ''a,b'') = [''u1'', ''rule'', ''Error'', ''a;b'', ''7'', ''false'']"
    by (simp add: csv_fields_def alert_new_def show_nat.simps show_bool_def string_simps)
  moreover have "\<And>a. a \<in> set [alert_new ''u1'' 7 ''rule'' SevError ''a,b''] \<Longrightarrow> plain_field (at_id a) \<and> plain_field (at_rule_name a)"
    by (simp add: alert_new_def plain_field_def)
  ultimately show ?thesis using csv_export_reads_back [of "[alert_new ''u1'' 7 ''rule'' SevError ''a,b'']"] by simp
qed

text \<open>The format of a request goes unchecked into a header: with a line end in it the handler panics.\<close>

lemma export_format_panics:
  assumes "\<And>v. CHR 0x0A \<in> set v \<Longrightarrow> \<not> header_ok v" and "CHR 0x0A \<in> set (er_format rq)" and "er_log_type rq = ''alerts''"
  shows "export_logs pretty header_ok unix rq st = None"
  using assms by (simp add: export_logs_def Let_def quoted_def)

text \<open>Neither of the two log types that the request documents is supported.\<close>

lemma documented_log_types_refused:
  "er_log_type rq \<in> {''query'', ''security''} \<Longrightarrow>
     \<exists>e. export_logs pretty header_ok unix rq st = Some (Failure 400 e)"
  by (auto simp: export_logs_def Let_def)

section \<open>Two interfaces for one reload\<close>

text \<open>What the web interface makes of a reply of the admin server's reload.\<close>

fun as_web_reply :: "api_response \<Rightarrow> web_reply" where
  "as_web_reply (ApiOk t) = Success t"
| "as_web_reply (ApiError n e) = Failure n e"
| "as_web_reply _ = Failure 500 []"

text \<open>
  Reloading through the web interface and through the admin server is the same operation on the
  global configuration: from equal requests they give the same status and text, replace the
  configuration by the same one in the same cases, and keep the old one in all others.
\<close>

theorem web_and_admin_reload_agree:
  "web_reload_config parse yaml_of canonicalize fs env web_of n requested (st\<lparr>we_global := Some (ad_config ad, w)\<rparr>) =
     map_option (\<lambda>(r, ad').
         (as_web_reply r,
          st\<lparr>we_global := Some (ad_config ad',
               case r of ApiOk _ \<Rightarrow> web_of (case requested of Some p \<Rightarrow> p | None \<Rightarrow> ''config.yaml'') | _ \<Rightarrow> w)\<rparr>))
       (reload_config parse yaml_of canonicalize fs env n requested ad)"
  by (simp add: web_reload_config_def reload_config_def Let_def split: option.split sum.split)

text \<open>Clearing through either clears the same cache.\<close>

lemma web_and_admin_clear_agree:
  "we_registry st = Some (ad_registry ad) \<Longrightarrow> we_caches st = ad_caches ad \<Longrightarrow>
     we_caches (snd (web_clear_cache ops st)) = ad_caches (snd (cache_control ops ''clear'' ad))"
  by (auto simp: web_clear_cache_def cache_control_def get_cache_plugin_def split: option.split)

section \<open>Starting the server\<close>

lemma web_server_never_panics: "web_server_with_admin parse now c reg global caches bus \<noteq> None"
  by (auto simp: web_server_with_admin_def web_validate_def with_event_bus_def bus_with_capacity_def
      split: sum.splits option.splits if_splits)

text \<open>A page of the application is never served from a cache of the browser without asking.\<close>

lemma pages_not_cached:
  "CHR ''.'' \<notin> set path \<or> suffix ''.html'' path \<Longrightarrow> assets path = None \<or> suffix ''.html'' path \<Longrightarrow>
     as_status (serve_embedded_file assets path) = 200 \<Longrightarrow> as_cache (serve_embedded_file assets path) = Some ''no-cache''"
  by (auto simp: serve_embedded_file_def cache_control_header_def ends_with_any_def split: option.splits if_splits)

text \<open>Allowing credentials keeps the wildcards for methods and headers, which the protocol excludes.\<close>

lemma credentials_with_wildcards:
  "cr_allowed_origins c \<noteq> [] \<Longrightarrow> cr_allow_credentials c \<Longrightarrow>
     cl_credentials (build_cors valid c) \<and> cl_any_method (build_cors valid c) \<and> cl_any_header (build_cors valid c)"
  by (simp add: build_cors_def)

end
