(* ===== verification/Startup.thy ===== *)
theory Startup
  imports Web_Routes
begin

text \<open>
  How the process starts: the names under which the derive macros of \<^verbatim>\<open>src/lazydns-macros/src/lib.rs\<close> register
  plugins, the command line of \<^verbatim>\<open>src/src/cli.rs\<close>, and \<^verbatim>\<open>src/src/main.rs\<close> with the choice of the log level,
  the servers beside those of the plugins, and the signals that end it. The parser of options
  \<^verbatim>\<open>pico-args\<close>, the file system and the loader are arguments.
\<close>

section \<open>Names of plugin types\<close>

definition is_upper :: "char \<Rightarrow> bool" where
  "is_upper c \<longleftrightarrow> (let n = (of_char c :: nat) in 65 \<le> n \<and> n \<le> 90)"

definition snake_char :: "nat \<times> char \<Rightarrow> string" where
  "snake_char ic =
     (case ic of (i, c) \<Rightarrow> if is_upper c then (if i \<noteq> 0 then ''_'' else []) @ [lower_char c] else [c])"

definition snake_case :: "string \<Rightarrow> string" where
  "snake_case s = concat (map snake_char (enumerate 0 s))"

text \<open>\<open>path\<close>: the segments of the type's name.\<close>

definition derived_name :: "string list \<Rightarrow> string" where
  "derived_name path =
     (let l = last path in snake_case (case strip_suffix ''Plugin'' l of Some base \<Rightarrow> base | None \<Rightarrow> l))"

section \<open>The command line\<close>

record cli_args =
  ca_config :: string
  ca_dir :: "string option"
  ca_verbose :: nat

definition add_verbose :: "nat \<Rightarrow> string \<Rightarrow> nat" where
  "add_verbose n arg =
     (if arg = ''-v'' \<or> arg = ''--verbose'' then min 255 (n + 1)
      else if starts_with ''-v'' arg \<and> list_all ((=) CHR ''v'') (drop 1 arg)
      then min 255 (n + (length arg - 1) mod 256)
      else n)"

text \<open>The option parser; each question gives an answer and the arguments that remain.\<close>

record option_parser =
  op_flag :: "string list \<Rightarrow> string list \<Rightarrow> bool \<times> string list"
  op_value :: "string list \<Rightarrow> string list \<Rightarrow> (string + string option) \<times> string list"

definition option_value :: "option_parser \<Rightarrow> string list \<Rightarrow> string list \<Rightarrow> string option \<times> string list" where
  "option_value op keys args = (case op_value op keys args of (r, rest) \<Rightarrow> (case r of Inr v \<Rightarrow> v | Inl _ \<Rightarrow> None, rest))"

definition parse_args_from_vec :: "option_parser \<Rightarrow> string list \<Rightarrow> cli_args option" where
  "parse_args_from_vec op raw =
     (if length raw \<le> 1 then None
      else case op_flag op [''-h'', ''--help''] raw of
        (True, _) \<Rightarrow> None
      | (False, args) \<Rightarrow>
          (case option_value op [''-c'', ''--config''] args of
             (config, args) \<Rightarrow>
               (case option_value op [''-d'', ''--dir''] args of
                  (dir, args) \<Rightarrow>
                    if fst (op_flag op [''-V'', ''--version''] args) then None
                    else Some \<lparr>ca_config = (case config of Some s \<Rightarrow> s | None \<Rightarrow> ''config.yaml''), ca_dir = dir,
                      ca_verbose = min (foldl add_verbose 0 (tl raw)) 3\<rparr>)))"

section \<open>The start\<close>

definition effective_log_spec :: "string option \<Rightarrow> log_config \<Rightarrow> nat \<Rightarrow> string" where
  "effective_log_spec rust_log c verbose =
     (case rust_log of
        Some (x # xs) \<Rightarrow> x # xs
      | _ \<Rightarrow>
          if verbose > 0 then
            (if verbose = 1 then lc_level c @ '',lazydns=debug''
             else if verbose = 2 then lc_level c @ '',lazydns=trace''
             else ''trace'')
          else if lc_level c = [] then ''info,lazydns=info''
          else lc_level c @ '',lazydns='' @ lc_level c)"

text \<open>The web server signals its start only when it could be created; a dropped signal ends the wait
  for it as well.\<close>

definition launch_web_server ::
    "(string \<Rightarrow> string + sock_addr) \<Rightarrow> nat \<Rightarrow> registry \<Rightarrow> config \<times> web_config \<Rightarrow> (addr \<rightharpoonup> 'l cache_plugin) \<Rightarrow> event_bus option
     \<Rightarrow> ('l web_state \<times> event_bus) result option option" where
  "launch_web_server parse now reg global caches bus =
     (if wc_enabled (snd global) then Some (web_server_with_admin parse now (snd global) reg global caches bus) else None)"

datatype start_error = DirectoryFailed | LoadFailed error

record started =
  sd_log_spec :: string
  sd_bus :: "event_bus option"
  sd_admin :: "string option"
  sd_monitoring :: "(string \<times> u64 option) option"
  sd_web :: bool

text \<open>From the arguments to the servers beside the plugins. A configuration that fails validation is
  reported and used; \<open>None\<close> is the panic of an event bus without capacity.\<close>

definition start_process ::
    "(string \<Rightarrow> bool) \<Rightarrow> (string \<Rightarrow> (config \<times> web_config) result) \<Rightarrow> string option \<Rightarrow> cli_args \<Rightarrow> (start_error + started) option" where
  "start_process chdir load rust_log args =
     (if (case ca_dir args of Some d \<Rightarrow> \<not> chdir d | None \<Rightarrow> False) then Some (Inl DirectoryFailed)
      else case load (ca_config args) of
        Inl e \<Rightarrow> Some (Inl (LoadFailed e))
      | Inr (c, w) \<Rightarrow>
          (let started = \<lambda>bus. Some (Inr \<lparr>sd_log_spec = effective_log_spec rust_log (cf_log c) (ca_verbose args), sd_bus = bus,
                 sd_admin = launch_admin_server c, sd_monitoring = launch_monitoring_server c, sd_web = wc_enabled w\<rparr>)
           in if wc_enabled w
              then (case bus_with_capacity (wc_event_bus_capacity w) of None \<Rightarrow> None | Some b \<Rightarrow> started (Some b))
              else started None))"

datatype os_signal = CtrlC | SigTerm | SigHup

text \<open>The signals left over when the wait ends; \<open>None\<close>: it still waits.\<close>

fun wait_for_shutdown_signal :: "os_signal list \<Rightarrow> os_signal list option" where
  "wait_for_shutdown_signal [] = None"
| "wait_for_shutdown_signal (SigHup # ss) = wait_for_shutdown_signal ss"
| "wait_for_shutdown_signal (_ # ss) = Some ss"

section \<open>Names are unambiguous\<close>

text \<open>Reading a derived name back.\<close>

fun camel_case :: "string \<Rightarrow> string" where
  "camel_case [] = []"
| "camel_case (c # cs) =
     (if c = CHR ''_'' then (case cs of [] \<Rightarrow> [] | d # ds \<Rightarrow> upper_char d # camel_case ds) else c # camel_case cs)"

definition pascal_name :: "string \<Rightarrow> bool" where
  "pascal_name s \<longleftrightarrow> s \<noteq> [] \<and> is_upper (hd s) \<and> CHR ''_'' \<notin> set s"

lemma upper_lower: "is_upper c \<Longrightarrow> upper_char (lower_char c) = c"
  by (auto simp: is_upper_def lower_char_def upper_char_def Let_def)

lemma lower_not_underscore: "is_upper c \<Longrightarrow> lower_char c \<noteq> CHR ''_''"
proof
  assume "is_upper c" and "lower_char c = CHR ''_''"
  then have "upper_char (CHR ''_'') = c" using upper_lower by metis
  then show False using \<open>is_upper c\<close> by (auto simp: is_upper_def upper_char_def Let_def)
qed

lemma camel_snake_tail: "CHR ''_'' \<notin> set s \<Longrightarrow> camel_case (concat (map snake_char (enumerate (Suc n) s))) = s"
  by (induction s arbitrary: n) (auto simp: snake_char_def upper_lower)

lemma camel_snake:
  assumes "pascal_name s"
  shows "upper_char (hd (snake_case s)) # camel_case (tl (snake_case s)) = s"
proof -
  from assms obtain c cs where s: "s = c # cs" "is_upper c" "CHR ''_'' \<notin> set cs" by (cases s) (auto simp: pascal_name_def)
  then show ?thesis using camel_snake_tail [of cs 0] by (simp add: snake_case_def snake_char_def upper_lower)
qed

text \<open>Two plugin types never register under one name, unless their names differ in the suffix alone.\<close>

theorem derived_names_distinct:
  assumes "pascal_name a" and "pascal_name b" and "derived_name [a @ ''Plugin''] = derived_name [b @ ''Plugin'']"
  shows "a = b"
proof -
  have "strip_suffix ''Plugin'' (x @ ''Plugin'') = Some x" for x :: string
    by (simp add: strip_suffix_def strip_prefix_def)
  then have "snake_case a = snake_case b" using assms(3) by (simp add: derived_name_def)
  then show ?thesis using camel_snake [OF assms(1)] camel_snake [OF assms(2)] by metis
qed

lemma derived_name_examples:
  "derived_name [''lazydns'', ''plugins'', ''QueryAclPlugin''] = ''query_acl''"
  "derived_name [''NftSetPlugin''] = ''nft_set''" "derived_name [''Edns0OptPlugin''] = ''edns0_opt''"
  by code_simp+

section \<open>Options, levels and signals\<close>

text \<open>The verbosity is the number of letters given, as long as no argument has 256 of them.\<close>

definition v_letters :: "string \<Rightarrow> nat" where
  "v_letters arg =
     (if arg = ''--verbose'' then 1 else if starts_with ''-v'' arg \<and> list_all ((=) CHR ''v'') (drop 1 arg) then length arg - 1 else 0)"

lemma add_verbose_letters: "v_letters arg < 256 \<Longrightarrow> add_verbose n arg = (if v_letters arg = 0 then n else min 255 (n + v_letters arg))"
  by (auto simp: add_verbose_def v_letters_def starts_with_def strip_prefix_def)

lemma verbose_total:
  "\<forall>a \<in> set args. v_letters a < 256 \<Longrightarrow> n \<le> 255 \<Longrightarrow> foldl add_verbose n args = min 255 (n + sum_list (map v_letters args))"
  by (induction args arbitrary: n) (auto simp: add_verbose_letters min_def)

lemma parsed_verbosity:
  "parse_args_from_vec op raw = Some a \<Longrightarrow> \<forall>x \<in> set (tl raw). v_letters x < 256 \<Longrightarrow>
     ca_verbose a = min 3 (sum_list (map v_letters (tl raw)))"
  by (auto simp: parse_args_from_vec_def verbose_total min_def split: if_splits prod.splits bool.splits)

text \<open>A bare call prints the help text: the default configuration file is used only beside another
  option.\<close>

lemma bare_call_does_not_start: "parse_args_from_vec op [prog] = None"
  by (simp add: parse_args_from_vec_def)

lemma environment_decides_level: "rust_log \<noteq> [] \<Longrightarrow> effective_log_spec (Some rust_log) c v = rust_log"
  by (cases rust_log) (simp_all add: effective_log_spec_def)

text \<open>The process ends at the first interrupt or termination signal, however many hang-ups come before.\<close>

lemma shutdown_signal_iff: "wait_for_shutdown_signal ss \<noteq> None \<longleftrightarrow> CtrlC \<in> set ss \<or> SigTerm \<in> set ss"
  by (induction ss rule: wait_for_shutdown_signal.induct) auto

lemma shutdown_ignores_hangups: "wait_for_shutdown_signal (replicate n SigHup @ SigTerm # ss) = Some ss"
  by (induction n) auto

text \<open>Starting the event bus is not guarded by the validation of the web section, which happens only when
  the web server is created: a configured capacity of zero panics.\<close>

theorem zero_capacity_panics:
  "ca_dir args = None \<Longrightarrow> load (ca_config args) = Inr (c, w) \<Longrightarrow> wc_enabled w \<Longrightarrow> wc_event_bus_capacity w = 0 \<Longrightarrow>
     start_process chdir load rust_log args = None"
  by (simp add: start_process_def bus_with_capacity_def)

end
