(* ===== verification/File_Watcher.thy ===== *)
theory File_Watcher
  imports Config_Load
begin

text \<open>
  \<^verbatim>\<open>spawn_file_watcher\<close> of \<^verbatim>\<open>src/src/utils/mod.rs\<close>, which the data sets and \<^verbatim>\<open>src/src/config/reload.rs\<close> use to notice
  changed files: the branches of its loop, the debouncing of events by one waiting task per
  file as a step relation with a clock (in milliseconds), and the reload of the configuration as
  a step relation over overlapping tasks. The file system and the notifications are arguments.
\<close>

section \<open>The loop\<close>

datatype event_kind = Modify | Create | Remove | OtherKind

record fs_event =
  fe_kind :: event_kind
  fe_paths :: "string list"

definition relayed :: "fs_event \<Rightarrow> bool" where
  "relayed e \<longleftrightarrow> fe_kind e \<in> {Modify, Create, Remove}"

text \<open>The stop channel: nothing new, a value not yet seen, or a sender that is gone.\<close>

datatype stop_channel = StopUnchanged | StopSent bool | StopOrphaned bool

datatype watch_turn = TakeEvent fs_event | LoopEnds | LoopAgain | LoopWaits

fun select_turn :: "fs_event list \<Rightarrow> bool \<Rightarrow> stop_channel \<Rightarrow> watch_turn" where
  "select_turn (e # es) closed stop = TakeEvent e"
| "select_turn [] True stop = LoopEnds"
| "select_turn [] False StopUnchanged = LoopWaits"
| "select_turn [] False (StopSent v) = (if v then LoopEnds else LoopAgain)"
| "select_turn [] False (StopOrphaned v) = (if v then LoopEnds else LoopAgain)"

text \<open>The path of an event that is acted on: the first one that is a watched file.\<close>

definition canonical_files :: "(string \<Rightarrow> string option) \<Rightarrow> string list \<Rightarrow> string list" where
  "canonical_files canon files = List.map_filter canon files"

definition watched_path :: "(string \<Rightarrow> string option) \<Rightarrow> string list \<Rightarrow> fs_event \<Rightarrow> string option" where
  "watched_path canon cfiles e =
     Option.bind (List.find (\<lambda>p. case canon p of Some cp \<Rightarrow> cp \<in> set cfiles | None \<Rightarrow> False) (fe_paths e)) canon"

section \<open>Debouncing\<close>

datatype watch_entry = Changed nat string | Reloaded nat string

record watcher =
  wa_now :: nat
  wa_pending :: "string \<rightharpoonup> nat"
  wa_respawn :: "(string \<times> nat) option"
  wa_tasks :: "(string \<times> nat) list"
  wa_log :: "watch_entry list"

definition watcher_new :: "nat \<Rightarrow> watcher" where
  "watcher_new now = \<lparr>wa_now = now, wa_pending = Map.empty, wa_respawn = None, wa_tasks = [], wa_log = []\<rparr>"

text \<open>
  An event on a watched file. It records its time; when no task waits for the file, one is spawned,
  after a pause of 50 ms when the file was removed, in which the loop takes no further event.
\<close>

definition note_change :: "nat \<Rightarrow> bool \<Rightarrow> string \<Rightarrow> watcher \<Rightarrow> watcher" where
  "note_change d removed p s =
     (let scheduled = (wa_pending s p \<noteq> None);
          s' = s\<lparr>wa_pending := (wa_pending s)(p \<mapsto> wa_now s), wa_log := wa_log s @ [Changed (wa_now s) p]\<rparr>
      in if scheduled then s'
         else if removed then s'\<lparr>wa_respawn := Some (p, wa_now s + 50)\<rparr>
         else s'\<lparr>wa_tasks := wa_tasks s @ [(p, wa_now s + d)]\<rparr>)"

text \<open>A task whose sleep is over: it reloads after a quiet time, or sleeps again.\<close>

definition wake_task :: "nat \<Rightarrow> string \<times> nat \<Rightarrow> watcher \<Rightarrow> watcher" where
  "wake_task d task s =
     (let p = fst task in
      case wa_pending s p of
        Some ts \<Rightarrow>
          if d \<le> wa_now s - ts then
            s\<lparr>wa_pending := (wa_pending s)(p := None), wa_tasks := remove1 task (wa_tasks s),
              wa_log := wa_log s @ [Reloaded (wa_now s) p]\<rparr>
          else s\<lparr>wa_tasks := map (\<lambda>x. if x = task then (p, wa_now s + d) else x) (wa_tasks s)\<rparr>
      | None \<Rightarrow> s\<lparr>wa_tasks := remove1 task (wa_tasks s)\<rparr>)"

inductive inner_step :: "nat \<Rightarrow> watcher \<Rightarrow> watcher \<Rightarrow> bool" for d where
  time_passes: "wa_now s \<le> t \<Longrightarrow> inner_step d s (s\<lparr>wa_now := t\<rparr>)"
| respawn: "wa_respawn s = Some (p, ready) \<Longrightarrow> ready \<le> wa_now s \<Longrightarrow>
    inner_step d s (s\<lparr>wa_respawn := None, wa_tasks := wa_tasks s @ [(p, wa_now s + d)]\<rparr>)"
| wake: "task \<in> set (wa_tasks s) \<Longrightarrow> snd task \<le> wa_now s \<Longrightarrow> inner_step d s (wake_task d task s)"

inductive watch_step :: "nat \<Rightarrow> watcher \<Rightarrow> watcher \<Rightarrow> bool" for d where
  inner: "inner_step d s s' \<Longrightarrow> watch_step d s s'"
| change: "wa_respawn s = None \<Longrightarrow> watch_step d s (note_change d removed p s)"

section \<open>Every change is reloaded, after a quiet time\<close>

definition waiting :: "watcher \<Rightarrow> string list" where
  "waiting s = map fst (wa_tasks s) @ (case wa_respawn s of Some (p, _) \<Rightarrow> [p] | None \<Rightarrow> [])"

text \<open>A change of the file that no reload has followed yet.\<close>

definition unserved :: "string \<Rightarrow> watch_entry list \<Rightarrow> bool" where
  "unserved p log =
     foldl (\<lambda>b e. case e of Changed _ q \<Rightarrow> q = p \<or> b | Reloaded _ q \<Rightarrow> q \<noteq> p \<and> b) False log"

definition quiet_log :: "nat \<Rightarrow> watch_entry list \<Rightarrow> bool" where
  "quiet_log d log \<longleftrightarrow>
     (\<forall>xs t p ys. log = xs @ Reloaded t p # ys \<longrightarrow> (\<forall>s. Changed s p \<in> set xs \<longrightarrow> s + d \<le> t))"

definition watch_inv :: "nat \<Rightarrow> watcher \<Rightarrow> bool" where
  "watch_inv d s \<longleftrightarrow> distinct (waiting s) \<and> set (waiting s) = dom (wa_pending s) \<and>
     (\<forall>t p. Changed t p \<in> set (wa_log s) \<longrightarrow> t \<le> wa_now s) \<and>
     (\<forall>p ts t. wa_pending s p = Some ts \<longrightarrow> Changed t p \<in> set (wa_log s) \<longrightarrow> t \<le> ts) \<and>
     (\<forall>p ts. wa_pending s p = Some ts \<longrightarrow> ts \<le> wa_now s) \<and>
     quiet_log d (wa_log s) \<and> (\<forall>p. unserved p (wa_log s) \<longleftrightarrow> wa_pending s p \<noteq> None)"

lemma quiet_log_changed: "quiet_log d (log @ [Changed t p]) \<longleftrightarrow> quiet_log d log"
  unfolding quiet_log_def
proof (intro iffI allI impI)
  fix xs t' q ys s
  assume "\<forall>xs t' q ys. log @ [Changed t p] = xs @ Reloaded t' q # ys \<longrightarrow> (\<forall>s. Changed s q \<in> set xs \<longrightarrow> s + d \<le> t')"
    and "log = xs @ Reloaded t' q # ys" "Changed s q \<in> set xs"
  then show "s + d \<le> t'" by (metis append_Cons append_assoc)
next
  fix xs t' q ys s
  assume a: "\<forall>xs t' q ys. log = xs @ Reloaded t' q # ys \<longrightarrow> (\<forall>s. Changed s q \<in> set xs \<longrightarrow> s + d \<le> t')"
    and b: "log @ [Changed t p] = xs @ Reloaded t' q # ys" "Changed s q \<in> set xs"
  from b(1) have "ys \<noteq> []" by auto
  with b(1) have "log = xs @ Reloaded t' q # butlast ys" by (metis butlast.simps(2) butlast_append butlast_snoc list.distinct(1))
  with a b(2) show "s + d \<le> t'" by blast
qed

lemma quiet_log_reloaded:
  "quiet_log d (log @ [Reloaded t p]) \<longleftrightarrow> quiet_log d log \<and> (\<forall>s. Changed s p \<in> set log \<longrightarrow> s + d \<le> t)"
  unfolding quiet_log_def
proof (intro iffI conjI allI impI)
  fix xs t' q ys s
  assume "\<forall>xs t' q ys. log @ [Reloaded t p] = xs @ Reloaded t' q # ys \<longrightarrow> (\<forall>s. Changed s q \<in> set xs \<longrightarrow> s + d \<le> t')"
    and "log = xs @ Reloaded t' q # ys" "Changed s q \<in> set xs"
  then show "s + d \<le> t'" by (metis append_Cons append_assoc)
next
  fix s
  assume "\<forall>xs t' q ys. log @ [Reloaded t p] = xs @ Reloaded t' q # ys \<longrightarrow> (\<forall>s. Changed s q \<in> set xs \<longrightarrow> s + d \<le> t')"
    and "Changed s p \<in> set log"
  then show "s + d \<le> t" by blast
next
  fix xs t' q ys s
  assume a: "(\<forall>xs t' q ys. log = xs @ Reloaded t' q # ys \<longrightarrow> (\<forall>s. Changed s q \<in> set xs \<longrightarrow> s + d \<le> t')) \<and>
      (\<forall>s. Changed s p \<in> set log \<longrightarrow> s + d \<le> t)"
    and b: "log @ [Reloaded t p] = xs @ Reloaded t' q # ys" "Changed s q \<in> set xs"
  show "s + d \<le> t'"
  proof (cases "ys = []")
    case True
    with a b show ?thesis by auto
  next
    case False
    with b(1) have "log = xs @ Reloaded t' q # butlast ys" by (metis butlast.simps(2) butlast_append butlast_snoc list.distinct(1))
    with a b(2) show ?thesis by blast
  qed
qed

lemma unserved_snoc [simp]:
  "unserved p (log @ [Changed t q]) \<longleftrightarrow> q = p \<or> unserved p log"
  "unserved p (log @ [Reloaded t q]) \<longleftrightarrow> q \<noteq> p \<and> unserved p log"
  by (simp_all add: unserved_def)

lemma watch_inv_change:
  assumes "watch_inv d s" and "wa_respawn s = None"
  shows "watch_inv d (note_change d removed p s)"
proof (cases "wa_pending s p")
  case None
  then have "p \<notin> set (waiting s)" using assms(1) by (auto simp: watch_inv_def)
  then show ?thesis
    using assms None
    by (auto simp: watch_inv_def note_change_def waiting_def quiet_log_changed Let_def dom_def split: if_splits)
next
  case (Some ts)
  then show ?thesis
    using assms
    by (auto simp: watch_inv_def note_change_def waiting_def quiet_log_changed Let_def dom_def split: if_splits)
qed

lemma map_fst_remove1: "distinct (map fst xs) \<Longrightarrow> x \<in> set xs \<Longrightarrow> map fst (remove1 x xs) = remove1 (fst x) (map fst xs)"
  by (induction xs) force+

lemma waiting_wake:
  assumes "distinct (waiting s)" and "(p, w) \<in> set (wa_tasks s)"
  shows "waiting (s\<lparr>wa_tasks := remove1 (p, w) (wa_tasks s)\<rparr>) = remove1 p (waiting s)"
    and "waiting (s\<lparr>wa_tasks := map (\<lambda>x. if x = (p, w) then (p, w') else x) (wa_tasks s)\<rparr>) = waiting s"
proof -
  have "map fst (remove1 (p, w) (wa_tasks s)) = remove1 p (map fst (wa_tasks s))"
    using map_fst_remove1 [of "wa_tasks s" "(p, w)"] assms by (simp add: waiting_def)
  moreover have "p \<in> set (map fst (wa_tasks s))" using assms(2) by force
  ultimately show "waiting (s\<lparr>wa_tasks := remove1 (p, w) (wa_tasks s)\<rparr>) = remove1 p (waiting s)"
    by (simp add: waiting_def remove1_append)
  show "waiting (s\<lparr>wa_tasks := map (\<lambda>x. if x = (p, w) then (p, w') else x) (wa_tasks s)\<rparr>) = waiting s"
    by (simp add: waiting_def)
qed

lemma watch_inv_wake:
  assumes inv: "watch_inv d s" and task: "(p, w) \<in> set (wa_tasks s)"
  shows "watch_inv d (wake_task d (p, w) s)"
proof -
  have "p \<in> set (waiting s)" using task by (force simp: waiting_def)
  then obtain ts where ts: "wa_pending s p = Some ts" using inv by (auto simp: watch_inv_def)
  have dist: "distinct (waiting s)" using inv by (simp add: watch_inv_def)
  note w = waiting_wake [OF dist task]
  show ?thesis
  proof (cases "d \<le> wa_now s - ts")
    case True
    have "ts \<le> wa_now s" using inv ts by (simp add: watch_inv_def)
    with True have q: "Changed t p \<in> set (wa_log s) \<Longrightarrow> t + d \<le> wa_now s" for t
      using inv ts by (force simp: watch_inv_def)
    let ?s = "s\<lparr>wa_pending := (wa_pending s)(p := None), wa_tasks := remove1 (p, w) (wa_tasks s),
        wa_log := wa_log s @ [Reloaded (wa_now s) p]\<rparr>"
    have "waiting ?s = remove1 p (waiting s)" using w(1) by (simp add: waiting_def)
    then have "watch_inv d ?s"
      using inv q by (auto simp: watch_inv_def quiet_log_reloaded distinct_remove1 split: if_splits)
    then show ?thesis using True ts by (simp add: wake_task_def)
  next
    case False
    let ?s = "s\<lparr>wa_tasks := map (\<lambda>x. if x = (p, w) then (p, wa_now s + d) else x) (wa_tasks s)\<rparr>"
    have "watch_inv d ?s" using inv w(2) by (simp add: watch_inv_def)
    then show ?thesis using False ts by (simp add: wake_task_def)
  qed
qed

lemma watch_inv_inner: "inner_step d s s' \<Longrightarrow> watch_inv d s \<Longrightarrow> watch_inv d s'"
proof (induction rule: inner_step.induct)
  case (time_passes s t)
  then show ?case by (fastforce simp: watch_inv_def waiting_def)
next
  case (respawn s p ready)
  then have "waiting (s\<lparr>wa_respawn := None, wa_tasks := wa_tasks s @ [(p, wa_now s + d)]\<rparr>) = waiting s"
    by (simp add: waiting_def)
  then show ?case using respawn by (simp add: watch_inv_def)
next
  case (wake task s)
  then show ?case using watch_inv_wake [of d s "fst task" "snd task"] by simp
qed

lemma watch_inv_reachable: "(watch_step d)\<^sup>*\<^sup>* (watcher_new now) s \<Longrightarrow> watch_inv d s"
proof (induction rule: rtranclp_induct)
  case base
  show ?case by (simp add: watch_inv_def watcher_new_def waiting_def quiet_log_def unserved_def)
next
  case (step s s')
  from step.hyps(2) step.IH show ?case by cases (auto intro: watch_inv_inner watch_inv_change)
qed

text \<open>What a waiting task does when it is left alone for long enough.\<close>

lemma task_serves:
  assumes "watch_inv d s" and "(p, w) \<in> set (wa_tasks s)"
  shows "\<exists>s'. (inner_step d)\<^sup>*\<^sup>* s s' \<and> \<not> unserved p (wa_log s')"
proof -
  have "p \<in> set (waiting s)" using assms(2) by (force simp: waiting_def)
  then obtain ts where ts: "wa_pending s p = Some ts" using assms(1) by (auto simp: watch_inv_def)
  let ?t = "max (wa_now s) (max w (ts + d))"
  let ?s = "s\<lparr>wa_now := ?t\<rparr>"
  have "inner_step d s ?s" by (rule time_passes) simp
  moreover have "inner_step d ?s (wake_task d (p, w) ?s)" by (rule wake) (use assms(2) in simp_all)
  moreover have "\<not> unserved p (wa_log (wake_task d (p, w) ?s))"
    using ts by (simp add: wake_task_def le_diff_conv2 max_def)
  ultimately show ?thesis by (meson converse_rtranclp_into_rtranclp rtranclp.rtrancl_refl)
qed

lemma pending_served:
  assumes inv: "watch_inv d s" and "wa_pending s p \<noteq> None"
  shows "\<exists>s'. (inner_step d)\<^sup>*\<^sup>* s s' \<and> \<not> unserved p (wa_log s')"
proof (cases "p \<in> fst ` set (wa_tasks s)")
  case True
  then show ?thesis using task_serves [OF inv] by force
next
  case False
  have "p \<in> set (waiting s)" using inv assms(2) by (auto simp: watch_inv_def)
  with False obtain ready where r: "wa_respawn s = Some (p, ready)" by (cases "wa_respawn s") (auto simp: waiting_def)
  let ?s1 = "s\<lparr>wa_now := max (wa_now s) ready\<rparr>"
  let ?s2 = "?s1\<lparr>wa_respawn := None, wa_tasks := wa_tasks ?s1 @ [(p, wa_now ?s1 + d)]\<rparr>"
  have st: "inner_step d s ?s1" "inner_step d ?s1 ?s2"
    using time_passes [of s "max (wa_now s) ready" d] respawn [of ?s1 p ready d] r by simp_all
  then have "watch_inv d ?s2" using watch_inv_inner inv by blast
  then obtain s' where "(inner_step d)\<^sup>*\<^sup>* ?s2 s' \<and> \<not> unserved p (wa_log s')"
    using task_serves [of d ?s2 p "wa_now ?s1 + d"] by auto
  with st show ?thesis by (meson converse_rtranclp_into_rtranclp)
qed

text \<open>
  C40: However the events of a set of files and the tasks that wait for them interleave, a file is
  reloaded only when its last change lies at least the debounce time back, and no change is lost:
  whenever one is not yet served, the tasks already there bring about the reload without any
  further event.
\<close>

theorem changes_reload_after_quiet:
  assumes "(watch_step d)\<^sup>*\<^sup>* (watcher_new now) s"
  shows "(wa_log s = xs @ Reloaded t p # ys \<longrightarrow> Changed t' p \<in> set xs \<longrightarrow> t' + d \<le> t) \<and>
    (unserved q (wa_log s) \<longrightarrow> (\<exists>s'. (inner_step d)\<^sup>*\<^sup>* s s' \<and> \<not> unserved q (wa_log s')))"
proof -
  note inv = watch_inv_reachable [OF assms]
  then have "quiet_log d (wa_log s)" and "unserved q (wa_log s) \<longleftrightarrow> wa_pending s q \<noteq> None"
    by (simp_all add: watch_inv_def)
  with pending_served [OF inv] show ?thesis unfolding quiet_log_def by blast
qed

theorem changes_reload_after_quiet_witness:
  "\<exists>s. (inner_step 200)\<^sup>*\<^sup>* (note_change 200 False ''hosts'' (watcher_new 0)) s \<and> \<not> unserved ''hosts'' (wa_log s)"
proof -
  let ?s = "note_change 200 False ''hosts'' (watcher_new 0)"
  have "(watch_step 200)\<^sup>*\<^sup>* (watcher_new 0) ?s"
    by (rule r_into_rtranclp, rule change) (simp add: watcher_new_def)
  from changes_reload_after_quiet [OF this, where q = "''hosts''"]
  show ?thesis by (simp add: note_change_def watcher_new_def Let_def unserved_def)
qed

section \<open>Reloading the configuration\<close>

definition reloader_debounce_ms :: nat where
  "reloader_debounce_ms = 500"

text \<open>\<open>load\<close> stands for the loader applied to the file as it is at that time.\<close>

definition checked_load :: "('f \<Rightarrow> config result) \<Rightarrow> 'f \<Rightarrow> config result" where
  "checked_load load f =
     (case load f of
        Inl e \<Rightarrow> Inl e
      | Inr c \<Rightarrow> (case validate_config c of Inl e \<Rightarrow> Inl e | Inr _ \<Rightarrow> Inr c))"

definition reloader_reload :: "('f \<Rightarrow> config result) \<Rightarrow> 'f \<Rightarrow> config \<Rightarrow> unit result \<times> config" where
  "reloader_reload load f c0 = (case checked_load load f of Inl e \<Rightarrow> (Inl e, c0) | Inr c \<Rightarrow> (Inr (), c))"

text \<open>
  Each callback of the watcher spawns a task, which reads the file, checks it, and then waits for
  the write lock. The state counts the tasks that have not read yet and keeps what the others hold.
\<close>

record 'f reloading =
  rl_file :: 'f
  rl_config :: config
  rl_starting :: nat
  rl_loaded :: "config list"

definition reloading_new :: "'f \<Rightarrow> config \<Rightarrow> 'f reloading" where
  "reloading_new f c = \<lparr>rl_file = f, rl_config = c, rl_starting = 0, rl_loaded = []\<rparr>"

inductive reload_step :: "('f \<Rightarrow> config result) \<Rightarrow> 'f reloading \<Rightarrow> 'f reloading \<Rightarrow> bool" for load where
  save: "reload_step load s (s\<lparr>rl_file := f\<rparr>)"
| callback: "reload_step load s (s\<lparr>rl_starting := rl_starting s + 1\<rparr>)"
| load_ok: "rl_starting s > 0 \<Longrightarrow> checked_load load (rl_file s) = Inr c \<Longrightarrow>
    reload_step load s (s\<lparr>rl_starting := rl_starting s - 1, rl_loaded := rl_loaded s @ [c]\<rparr>)"
| load_failed: "rl_starting s > 0 \<Longrightarrow> checked_load load (rl_file s) = Inl e \<Longrightarrow>
    reload_step load s (s\<lparr>rl_starting := rl_starting s - 1\<rparr>)"
| install: "c \<in> set (rl_loaded s) \<Longrightarrow>
    reload_step load s (s\<lparr>rl_config := c, rl_loaded := remove1 c (rl_loaded s)\<rparr>)"

lemma checked_load_valid: "checked_load load f = Inr c \<Longrightarrow> load f = Inr c \<and> validate_config c = Inr ()"
  by (auto simp: checked_load_def split: sum.splits)

text \<open>Whatever is written to the file and however the tasks overlap, the configuration in force is the
  first one or one that a version of the file gave and that passed validation.\<close>

theorem reload_installs_valid_only:
  assumes "(reload_step load)\<^sup>*\<^sup>* (reloading_new f0 c0) s"
  shows "rl_config s = c0 \<or> (\<exists>f. load f = Inr (rl_config s) \<and> validate_config (rl_config s) = Inr ())"
proof -
  have "(rl_config s = c0 \<or> (\<exists>f. checked_load load f = Inr (rl_config s))) \<and>
    (\<forall>c \<in> set (rl_loaded s). \<exists>f. checked_load load f = Inr c)"
    using assms
  proof (induction rule: rtranclp_induct)
    case base
    show ?case by (simp add: reloading_new_def)
  next
    case (step s s')
    from step.hyps(2) step.IH show ?case by cases (auto dest: notin_set_remove1)
  qed
  then show ?thesis by (meson checked_load_valid)
qed

text \<open>Nothing orders the tasks: an older version of the file can be installed last and stay.\<close>

theorem stale_reload_wins:
  assumes "checked_load load f1 = Inr c1" and "checked_load load f2 = Inr c2"
  shows "(reload_step load)\<^sup>*\<^sup>* (reloading_new f1 c0) (reloading_new f2 c1)"
proof -
  let ?s = "\<lambda>f c n cs. \<lparr>rl_file = f, rl_config = c, rl_starting = n, rl_loaded = cs\<rparr>"
  have "(reload_step load)\<^sup>*\<^sup>* (?s f1 c0 0 []) (?s f1 c0 1 [])" using callback [of load "?s f1 c0 0 []"] by (simp add: r_into_rtranclp)
  also have "(reload_step load)\<^sup>*\<^sup>* (?s f1 c0 1 []) (?s f1 c0 0 [c1])" using load_ok [of "?s f1 c0 1 []" load c1] assms(1) by (simp add: r_into_rtranclp)
  also have "(reload_step load)\<^sup>*\<^sup>* (?s f1 c0 0 [c1]) (?s f2 c0 0 [c1])" using save [of load "?s f1 c0 0 [c1]" f2] by (simp add: r_into_rtranclp)
  also have "(reload_step load)\<^sup>*\<^sup>* (?s f2 c0 0 [c1]) (?s f2 c0 1 [c1])" using callback [of load "?s f2 c0 0 [c1]"] by (simp add: r_into_rtranclp)
  also have "(reload_step load)\<^sup>*\<^sup>* (?s f2 c0 1 [c1]) (?s f2 c0 0 [c1, c2])" using load_ok [of "?s f2 c0 1 [c1]" load c2] assms(2) by (simp add: r_into_rtranclp)
  also have "(reload_step load)\<^sup>*\<^sup>* (?s f2 c0 0 [c1, c2]) (?s f2 c2 0 [c1])"
    using install [of c2 "?s f2 c0 0 [c1, c2]" load] by (cases "c1 = c2") (simp_all add: r_into_rtranclp)
  also have "(reload_step load)\<^sup>*\<^sup>* (?s f2 c2 0 [c1]) (?s f2 c1 0 [])" using install [of c1 "?s f2 c2 0 [c1]" load] by (simp add: r_into_rtranclp)
  finally show ?thesis by (simp add: reloading_new_def)
qed

text \<open>\<^verbatim>\<open>start_watching\<close> drops the handle and with it the sender of the stop channel, so that the loop of
  its watcher never waits for an event: it turns round at once, for ever.\<close>

definition reloader_stop :: stop_channel where
  "reloader_stop = StopOrphaned False"

lemma reloader_loop_spins: "select_turn [] False reloader_stop = LoopAgain" "select_turn es closed reloader_stop \<noteq> LoopWaits"
  by (simp_all add: reloader_stop_def) (cases "(es, closed, StopOrphaned False)" rule: select_turn.cases, auto)

text \<open>A file that is gone when its event is handled is not recognised as a watched file.\<close>

lemma removed_file_ignored:
  assumes "\<forall>p \<in> set (fe_paths e). canon p = None"
  shows "watched_path canon cfiles e = None"
proof -
  have "List.find (\<lambda>p. case canon p of Some cp \<Rightarrow> cp \<in> set cfiles | None \<Rightarrow> False) (fe_paths e) = None"
    using assms by (force simp: find_None_iff)
  then show ?thesis unfolding watched_path_def by simp
qed

end
