(* ===== verification/Diagnostics.thy ===== *)
theory Diagnostics
  imports Audit_Trail
begin

text \<open>
  The executables of \<^verbatim>\<open>src/src/plugins/executable\<close> that observe a query without changing it, \<^verbatim>\<open>sleep.rs\<close>,
  \<^verbatim>\<open>debug_print.rs\<close> and \<^verbatim>\<open>collector.rs\<close>, and the handlers of \<^verbatim>\<open>src/src/server/monitoring.rs\<close>. Durations are
  milliseconds; the lines they log are results; the text form of a metric family and the parser of
  its numbers are arguments.
\<close>

section \<open>Delays\<close>

record sleep_plugin =
  sl_millis :: nat

definition bad_prefix :: "string \<Rightarrow> string \<Rightarrow> error" where
  "bad_prefix pfx expected =
     Config (''ExecPlugin quick_setup: unsupported prefix '' @ [CHR 0x27] @ pfx @ [CHR 0x27] @ '', expected '' @ expected)"

definition sleep_quick_setup :: "string \<Rightarrow> string \<Rightarrow> sleep_plugin result" where
  "sleep_quick_setup pfx exec_str =
     (if pfx \<noteq> ''sleep'' \<and> pfx \<noteq> ''delay'' then Inl (bad_prefix pfx (''one of ['' @ quoted ''delay'' @ '']''))
      else case strip_suffix ''ms'' exec_str of
        Some ms \<Rightarrow>
          (case parse_u64 ms of
             Some n \<Rightarrow> Inr \<lparr>sl_millis = unat n\<rparr>
           | None \<Rightarrow> Inl (Config (''Invalid milliseconds: '' @ ms)))
      | None \<Rightarrow>
          (case strip_suffix ''s'' exec_str of
             Some s \<Rightarrow>
               (case parse_u64 s of
                  Some n \<Rightarrow> Inr \<lparr>sl_millis = unat n * 1000\<rparr>
                | None \<Rightarrow> Inl (Config (''Invalid seconds: '' @ s)))
           | None \<Rightarrow>
               Inl (Config (''Invalid duration format: '' @ [CHR 0x27] @ exec_str @ [CHR 0x27] @ ''. Use '' @
                 [CHR 0x27] @ ''100ms'' @ [CHR 0x27] @ '' or '' @ [CHR 0x27] @ ''1s'' @ [CHR 0x27]))))"

text \<open>The time after the execution, and the context.\<close>

definition sleep_execute :: "sleep_plugin \<Rightarrow> nat \<Rightarrow> ctx \<Rightarrow> nat \<times> ctx" where
  "sleep_execute p now c = (now + sl_millis p, c)"

section \<open>Printing\<close>

record debug_print =
  dp_queries :: bool
  dp_responses :: bool
  dp_prefix :: string

definition debug_print_new :: debug_print where
  "debug_print_new = \<lparr>dp_queries = True, dp_responses = True, dp_prefix = ''DNS''\<rparr>"

fun debug_print_options :: "string list \<Rightarrow> debug_print \<Rightarrow> debug_print result" where
  "debug_print_options [] p = Inr p"
| "debug_print_options (x # xs) p =
     (let part = trim x in
      if part = ''queries'' then debug_print_options xs (p\<lparr>dp_queries := True\<rparr>)
      else if part = ''responses'' then debug_print_options xs (p\<lparr>dp_responses := True\<rparr>)
      else case strip_prefix ''prefix='' part of
        Some v \<Rightarrow> debug_print_options xs (p\<lparr>dp_prefix := v\<rparr>)
      | None \<Rightarrow>
          if part = [] then debug_print_options xs p
          else Inl (Config (''Invalid debug_print option: '' @ [CHR 0x27] @ part @ [CHR 0x27])))"

definition debug_print_quick_setup :: "string \<Rightarrow> string \<Rightarrow> debug_print result" where
  "debug_print_quick_setup pfx exec_str =
     (if pfx \<notin> {''debug_print'', ''debug'', ''print'', ''dbg''}
      then Inl (bad_prefix pfx (''one of ['' @ quoted ''debug'' @ '', '' @ quoted ''print'' @ '', '' @ quoted ''dbg'' @ '']''))
      else case debug_print_options (split_on (CHR '','') exec_str) \<lparr>dp_queries = False, dp_responses = False, dp_prefix = ''DNS''\<rparr> of
        Inl e \<Rightarrow> Inl e
      | Inr p \<Rightarrow> Inr (if dp_queries p \<or> dp_responses p then p else p\<lparr>dp_queries := True, dp_responses := True\<rparr>))"

definition query_line :: "string \<Rightarrow> question \<Rightarrow> string" where
  "query_line pfx q =
     pfx @ '' Query: '' @ qname q @ '' '' @ record_type_debug (qtype q) @ '' '' @ record_class_debug (qclass q)"

definition answer_line :: "string \<Rightarrow> nat \<times> resource_record \<Rightarrow> string" where
  "answer_line pfx ia =
     (case ia of (i, a) \<Rightarrow>
        pfx @ '' Answer['' @ show_nat i @ '']: '' @ rr_name a @ '' '' @ record_type_debug (rr_rtype a) @ '' ttl='' @ show_word (rr_ttl a))"

definition debug_print_execute :: "debug_print \<Rightarrow> ctx \<Rightarrow> string list \<times> ctx" where
  "debug_print_execute p c =
     ((if dp_queries p then (case msg_questions (request c) of [] \<Rightarrow> [] | q # _ \<Rightarrow> [query_line (dp_prefix p) q]) else []) @
      (if dp_responses p then
         (case response c of
            Some r \<Rightarrow>
              (dp_prefix p @ '' Response: '' @ show_nat (length (msg_answers r)) @ '' answers, rcode='' @ response_code_debug (msg_rcode r))
                # map (answer_line (dp_prefix p)) (enumerate 0 (msg_answers r))
          | None \<Rightarrow> [])
       else []), c)"

section \<open>Counting\<close>

record collector_plugin =
  cl_counter :: u64
  cl_last_reset :: nat
  cl_total_latency_ms :: u64

definition collector_plugin_new :: "u64 \<Rightarrow> nat \<Rightarrow> collector_plugin" where
  "collector_plugin_new n now = \<lparr>cl_counter = n, cl_last_reset = now, cl_total_latency_ms = 0\<rparr>"

text \<open>\<open>as_f64\<close> reads a boxed value as a float and truncates it, when it is one.\<close>

definition collector_execute :: "(meta_value \<Rightarrow> u64 option) \<Rightarrow> ctx \<Rightarrow> collector_plugin \<Rightarrow> collector_plugin" where
  "collector_execute as_f64 c p =
     (let p' = p\<lparr>cl_counter := cl_counter p + 1\<rparr> in
      case Option.bind (metadata c ''query_latency_ms'') as_f64 of
        Some ms \<Rightarrow> p'\<lparr>cl_total_latency_ms := cl_total_latency_ms p' + ms\<rparr>
      | None \<Rightarrow> p')"

definition average_latency_ms :: "collector_plugin \<Rightarrow> (u64 \<times> u64) option" where
  "average_latency_ms p = (if cl_counter p > 0 then Some (cl_total_latency_ms p, cl_counter p) else None)"

definition queries_per_second :: "nat \<Rightarrow> collector_plugin \<Rightarrow> (u64 \<times> nat) option" where
  "queries_per_second now p = (if now - cl_last_reset p > 0 then Some (cl_counter p, now - cl_last_reset p) else None)"

definition collector_reset :: "nat \<Rightarrow> collector_plugin \<Rightarrow> collector_plugin" where
  "collector_reset now p = \<lparr>cl_counter = 0, cl_last_reset = now, cl_total_latency_ms = 0\<rparr>"

definition collector_quick_setup :: "nat \<Rightarrow> string \<Rightarrow> collector_plugin result" where
  "collector_quick_setup now pfx =
     (if pfx \<noteq> ''metrics_collector'' then Inl (bad_prefix pfx ([CHR 0x27] @ ''metrics_collector'' @ [CHR 0x27]))
      else Inr (collector_plugin_new 0 now))"

text \<open>The name under which a Prometheus collector registers, from its short form.\<close>

definition prom_collector_name :: "string \<Rightarrow> string \<Rightarrow> string result" where
  "prom_collector_name pfx exec_str =
     (if pfx \<noteq> ''prom_metrics_collector'' then Inl (bad_prefix pfx ([CHR 0x27] @ ''prom_metrics_collector'' @ [CHR 0x27]))
      else if trim exec_str = [] then Inr ''default''
      else case strip_prefix ''name='' (trim exec_str) of
        Some name \<Rightarrow> Inr name
      | None \<Rightarrow>
          Inl (Config (''Invalid prometheus_metrics_collector configuration: '' @ [CHR 0x27] @ exec_str @ [CHR 0x27] @
            ''. Expected format: '' @ [CHR 0x27] @ ''name=<metric_name>'' @ [CHR 0x27])))"

section \<open>The monitoring server\<close>

record health_response =
  hr_status :: string
  hr_version :: string
  hr_uptime_seconds :: nat

definition health_handler :: "string \<Rightarrow> nat \<Rightarrow> nat \<Rightarrow> health_response" where
  "health_handler version start now =
     \<lparr>hr_status = ''healthy'', hr_version = version, hr_uptime_seconds = (now - start) div 1000000000\<rparr>"

record stats_response =
  st_total_queries :: nat
  st_cache_hit_rate :: "(u64 \<times> u64) option"
  st_active_connections :: int

text \<open>The number at the end of a line, and the lines that have one. \<open>number\<close> gives a float as \<^verbatim>\<open>u64\<close> and
  as \<^verbatim>\<open>i64\<close>, cut to their ranges.\<close>

definition sample_value :: "(string \<Rightarrow> 'n option) \<Rightarrow> string \<Rightarrow> 'n option" where
  "sample_value number line =
     (let l = trim line in
      if l = [] \<or> starts_with ''#'' l then None
      else if CHR '' '' \<in> set l then number (last (split_on (CHR '' '') l)) else None)"

definition family_values :: "(string \<Rightarrow> 'n option) \<Rightarrow> string option \<Rightarrow> 'n list" where
  "family_values number text =
     (case text of Some t \<Rightarrow> List.map_filter (sample_value number) (str_lines t) | None \<Rightarrow> [])"

definition saturating_add_u64 :: "nat \<Rightarrow> nat \<Rightarrow> nat" where
  "saturating_add_u64 a b = min (a + b) (2 ^ 64 - 1)"

definition saturating_add_i64 :: "int \<Rightarrow> int \<Rightarrow> int" where
  "saturating_add_i64 a b = max (- (2 ^ 63)) (min (a + b) (2 ^ 63 - 1))"

text \<open>\<open>families\<close>: the name of each metric family and its encoded text, \<open>None\<close> when encoding fails.\<close>

definition stats_handler ::
    "(string \<Rightarrow> (nat \<times> int) option) \<Rightarrow> u64 \<Rightarrow> u64 \<Rightarrow> (string \<times> string option) list \<Rightarrow> stats_response" where
  "stats_handler number hits misses families =
     (let vals = \<lambda>name. concat (map (\<lambda>(n, t). if n = name then family_values number t else []) families) in
      \<lparr>st_total_queries = foldl saturating_add_u64 0 (map fst (vals ''dns_queries_total'')),
       st_cache_hit_rate = (if hits + misses > 0 then Some (hits, hits + misses) else None),
       st_active_connections = foldl saturating_add_i64 0 (map snd (vals ''dns_active_connections''))\<rparr>)"

section \<open>What they do\<close>

lemma strip_suffix_append [simp]: "strip_suffix x (s @ x) = Some s"
  by (simp add: strip_suffix_def strip_prefix_def)

lemma parse_u64_show: "n < 2 ^ 64 \<Longrightarrow> parse_u64 (show_nat n) = Some (of_nat n)"
  by (simp add: parse_u64_def parse_uint_show_nat)

lemma digits_no_ms: "strip_suffix ''ms'' (show_nat n @ ''s'') = None"
proof -
  have "CHR ''m'' \<notin> set (show_nat n)" using show_nat_digits [of "CHR ''m''" n] by (auto simp: digit_val_def)
  then have "CHR ''m'' \<notin> set (rev (show_nat n))" by simp
  then show ?thesis by (cases "rev (show_nat n)") (auto simp: strip_suffix_def strip_prefix_def)
qed

text \<open>A duration in either unit is read back, in full width.\<close>

theorem sleep_reads_durations:
  assumes "n < 2 ^ 64"
  shows "sleep_quick_setup ''sleep'' (show_nat n @ ''ms'') = Inr \<lparr>sl_millis = n\<rparr> \<and>
    sleep_quick_setup ''delay'' (show_nat n @ ''s'') = Inr \<lparr>sl_millis = n * 1000\<rparr>"
proof -
  have "unat (of_nat n :: u64) = n" using assms by (simp add: unat_of_nat take_bit_nat_eq_self)
  then show ?thesis
    using strip_suffix_append [of "''ms''" "show_nat n"] strip_suffix_append [of "''s''" "show_nat n"]
    by (simp add: sleep_quick_setup_def parse_u64_show [OF assms] digits_no_ms)
qed

text \<open>None of them changes what the next plugin sees.\<close>

lemma diagnostics_keep_context:
  "snd (sleep_execute p now c) = c" "snd (debug_print_execute q c) = c"
  by (simp_all add: sleep_execute_def debug_print_execute_def)

text \<open>A printer always prints something: without a choice it prints both kinds of messages.\<close>

lemma debug_print_never_mute: "debug_print_quick_setup pfx s = Inr p \<Longrightarrow> dp_queries p \<or> dp_responses p"
  by (auto simp: debug_print_quick_setup_def split: if_splits sum.splits)

lemma debug_print_default: "debug_print_quick_setup ''debug'' [] = Inr debug_print_new"
  by (simp add: debug_print_quick_setup_def debug_print_new_def trim_def strip_prefix_def)

text \<open>Runs of the collector.\<close>

lemma collector_counts:
  "cl_counter (fold (collector_execute as_f64) cs p) = cl_counter p + of_nat (length cs)"
  by (induction cs arbitrary: p) (simp_all add: collector_execute_def Let_def split: option.split)

lemma saturating_sum: "a < 2 ^ 64 \<Longrightarrow> foldl saturating_add_u64 a xs = min (a + sum_list xs) (2 ^ 64 - 1)"
  by (induction xs arbitrary: a) (auto simp: saturating_add_u64_def min_def)

definition queries_samples :: "(string \<Rightarrow> (nat \<times> int) option) \<Rightarrow> (string \<times> string option) list \<Rightarrow> nat list" where
  "queries_samples number families =
     concat (map (\<lambda>(n, t). if n = ''dns_queries_total'' then map fst (family_values number t) else []) families)"

text \<open>The total is the sum over all label combinations, up to the largest number of 64 bits.\<close>

theorem stats_total_is_sum:
  "st_total_queries (stats_handler number hits misses families) = min (sum_list (queries_samples number families)) (2 ^ 64 - 1)"
proof -
  have "map fst (concat (map (\<lambda>(n, t). if n = ''dns_queries_total'' then family_values number t else []) families)) =
      queries_samples number families"
    by (induction families) (auto simp: queries_samples_def)
  then show ?thesis by (simp add: stats_handler_def saturating_sum Let_def)
qed

lemma split_on_last_piece: "c \<notin> set v \<Longrightarrow> \<exists>ps. ps \<noteq> [] \<and> split_on c (l @ c # v) = ps @ [v]"
proof (induction l)
  case Nil
  then show ?case by (intro exI [of _ "[[]]"]) (simp add: split_on_none)
next
  case (Cons a l)
  then obtain p ps where "split_on c (l @ c # v) = (p # ps) @ [v]" by (metis neq_Nil_conv)
  then show ?case
    by (cases "a = c") (auto intro: exI [of _ "[] # p # ps"] exI [of _ "(a # p) # ps"])
qed

text \<open>The labels of a line may hold spaces: the value is what follows the last one.\<close>

lemma sample_value_line:
  assumes "CHR '' '' \<notin> set v" and "trim (l @ CHR '' '' # v) = l @ CHR '' '' # v" and "\<not> starts_with ''#'' (l @ CHR '' '' # v)"
  shows "sample_value number (l @ CHR '' '' # v) = number v"
proof -
  have "last (split_on (CHR '' '') (l @ CHR '' '' # v)) = v" using split_on_last_piece [OF assms(1), of l] by auto
  then show ?thesis using assms by (simp add: sample_value_def)
qed

end
