(* ===== verification/Spec2Isabelle.thy ===== *)
theory Spec2Isabelle
  imports Resolver Wire Hosts Rate_Limit Acl Domain_Validator Plugin_Builder Rewrite_Plugins Reverse_Lookup Cache_Persistence Servers Config_Load Launcher Alerts Set_Export Geo Downloader Memory_Metrics Cron Startup File_Watcher Diagnostics
begin

text \<open>
  A verification library for \<^emph>\<open>lazydns\<close>, a DNS server built from a chain of plugins.

  \<^bold>\<open>The program.\<close> A server receives a query and hands it to \<^verbatim>\<open>PluginHandler::handle\<close>
  (\<^verbatim>\<open>src/src/plugin/mod.rs\<close>). The handler puts the query into a \<^verbatim>\<open>Context\<close>, looks up the entry
  plugin in the registry and executes it; the entry is usually a \<^verbatim>\<open>SequencePlugin\<close>, whose steps
  execute further plugins: the cache, the forwarder, fallbacks, flow control. Plugins talk to
  each other through the response and the metadata of the context (return flag, jump target,
  goto label, cache markers). After the chain the handler gives every registered cache a second
  run, its write phase, and returns the response under the id of the request. The cache starts
  background refreshes through a queue with workers, which run the chain again.

  \<^bold>\<open>The theories\<close>, in the order of their dependencies:
  \<^item> \<open>Prelude\<close>: machine integers, the error type of \<^verbatim>\<open>src/src/lib.rs\<close>, the functions of Rust's
    \<^verbatim>\<open>str\<close> that the sources use, shared lemmas and simplification rules;
  \<^item> \<open>Dns_Types\<close>: \<^verbatim>\<open>src/src/dns/types.rs\<close>, the enumerations of the protocol with their numeric and
    textual forms;
  \<^item> \<open>Ip_Addr\<close>: the addresses of \<^verbatim>\<open>std::net\<close> with their text forms and parsers;
  \<^item> \<open>Dns_Message\<close>: \<^verbatim>\<open>rdata.rs\<close>, \<^verbatim>\<open>question.rs\<close>, \<^verbatim>\<open>record.rs\<close> and \<^verbatim>\<open>message.rs\<close> of \<^verbatim>\<open>src/src/dns\<close>: the
    message as a record, one definition per method;
  \<^item> \<open>Context\<close>: \<^verbatim>\<open>src/src/plugin/context.rs\<close>; the values of the metadata map form one sum type, and
    a typed read of a value of another type gives \<open>None\<close>, as a failed downcast does;
  \<^item> \<open>Flow_Plugins\<close>: \<^verbatim>\<open>src/src/plugins/flow\<close>: accept, return, goto, jump, prefer\_ipv4,
    prefer\_ipv6 and reject;
  \<^item> \<open>Pipeline\<close>: the registry, \<^verbatim>\<open>SequencePlugin\<close>, \<^verbatim>\<open>FallbackPlugin\<close> and \<^verbatim>\<open>PluginHandler::handle\<close>.
    Plugins live in a heap of addresses, so that a registry name, a step and a fallback may share
    one plugin; the remaining plugins are leaves, functions on the context and a state;
  \<^item> \<open>Sharded_Cache\<close>: \<^verbatim>\<open>sharded.rs\<close> and \<^verbatim>\<open>entry.rs\<close> of \<^verbatim>\<open>src/src/plugins/cache\<close>. The \<^verbatim>\<open>lru\<close> crate is a
    parameter, a record of operations whose documented behaviour is the locale \<open>lru_cache\<close>;
  \<^item> \<open>Refresh_Queue\<close>: \<^verbatim>\<open>src/src/utils/task_queue\<close> and the part of the cache that starts refreshes:
    the bounded queue, the workers, the two dedup sets and the completion callback as a step
    relation over all interleavings;
  \<^item> \<open>Cache_Plugin\<close>: \<^verbatim>\<open>src/src/plugins/cache/mod.rs\<close>: keys, TTLs, serving, stale serving, lazy
    refresh, storing, cleanup, dumping;
  \<^item> \<open>Config_Value\<close>: the configuration values and \<^verbatim>\<open>PluginConfig\<close> of \<^verbatim>\<open>src/src/config/types.rs\<close>;
  \<^item> \<open>Forward\<close>: \<^verbatim>\<open>src/src/plugins/forward\<close>: upstream health, selection, sequential and concurrent
    queries, configuration, and the shared UDP socket as a step relation. The counter and the health
    records that all queries share change between the attempts of one query: what other queries do to
    them is an argument (\<open>turn\<close>). On the socket every atomic operation of a task is a step of its own
    (drawing an id, looking it up, entering it);
  \<^item> \<open>Wire\<close>: \<^verbatim>\<open>src/src/dns/wire.rs\<close>: the conversions between the program's messages and those of the
    \<^verbatim>\<open>hickory\<close> crate, a parameter with the laws of the locale \<open>hickory\<close>; the crate keeps EDNS options in
    a hash map, so the order in which they come back is part of the parameter;
  \<^item> \<open>Disk\<close>: the part of \<^verbatim>\<open>std::fs\<close> that the sources write through: files, operations and their
    failures;
  \<^item> \<open>Cache_Persistence\<close>: \<^verbatim>\<open>persistence.rs\<close> of the cache on a disk with faults, and the construction of
    the cache from its configuration;
  \<^item> \<open>Domain_Set\<close>, \<open>Ip_Net\<close>, \<open>Ip_Set\<close>: the matchers of \<^verbatim>\<open>src/src/plugins/dataset\<close>; the \<^verbatim>\<open>regex\<close> and
    \<^verbatim>\<open>ipnet\<close> crates and the file system are parameters (locale \<open>ipnet\<close>);
  \<^item> \<open>Hosts\<close>: \<^verbatim>\<open>hosts.rs\<close> and \<^verbatim>\<open>arbitrary.rs\<close> of the data sets, which answer from local tables;
  \<^item> \<open>Rate_Limit\<close>, \<open>Acl\<close>, \<open>Domain_Validator\<close>: \<^verbatim>\<open>ratelimit.rs\<close>, \<^verbatim>\<open>acl.rs\<close> and \<^verbatim>\<open>domain_validator.rs\<close> of
    \<^verbatim>\<open>src/src/plugins\<close>, which refuse queries; the verdict cache of the validator is another
    instance of the LRU parameter (locale \<open>verdict_cache\<close>);
  \<^item> \<open>Rewrite_Plugins\<close>: the executables of \<^verbatim>\<open>src/src/plugins/executable\<close> that rewrite a query or a
    response: ttl, mark, drop\_resp, black\_hole, redirect, dual\_selector, query\_summary, ecs and
    edns0opt;
  \<^item> \<open>Reverse_Lookup\<close>: \<^verbatim>\<open>reverse_lookup.rs\<close>, the table from addresses to names that answers PTR queries;
  \<^item> \<open>Conditions\<close>: \<^verbatim>\<open>src/src/plugin/condition\<close>, the conditions of sequence steps;
  \<^item> \<open>Plugin_Builder\<close>: \<^verbatim>\<open>src/src/plugin/builder.rs\<close>, the lookup of \<^verbatim>\<open>factory.rs\<close> and the loading loop of
    \<^verbatim>\<open>src/src/main.rs\<close>: from the configuration to the heap and the registry of \<open>Pipeline\<close>; the
    tables of factories are parameters;
  \<^item> \<open>Config_Load\<close>: \<^verbatim>\<open>mod.rs\<close>, \<^verbatim>\<open>validation.rs\<close> and \<^verbatim>\<open>loader.rs\<close> of \<^verbatim>\<open>src/src/config\<close>: from a text with
    variables and includes to a checked configuration;
  \<^item> \<open>Servers\<close>: \<^verbatim>\<open>src/src/server\<close>: what the UDP, TCP, TLS, QUIC and HTTPS servers read, hand to the
    handler (locale \<open>request_handler\<close>) and write, and the accept loops as a step relation;
  \<^item> \<open>Launcher\<close>: \<^verbatim>\<open>launcher.rs\<close>, \<^verbatim>\<open>tls.rs\<close> and \<^verbatim>\<open>admin.rs\<close> of \<^verbatim>\<open>src/src/server\<close>: starting servers from the plugins of a
    configuration, stopping them, and the admin API;
  \<^item> \<open>Audit_Trail\<close>: \<^verbatim>\<open>src/src/plugins/audit\<close>, the log entry of a query, security events and the event bus;
  \<^item> \<open>Top_N\<close>, \<open>Time_Series\<close>, \<open>Web_Metrics\<close>: \<^verbatim>\<open>src/src/web/metrics\<close> and \<^verbatim>\<open>src/src/web/config.rs\<close>, the numbers of the
    dashboard;
  \<^item> \<open>Alerts\<close>: \<^verbatim>\<open>src/src/web/alerts/engine.rs\<close>;
  \<^item> \<open>Web_Streams\<close>: \<^verbatim>\<open>routes/audit.rs\<close> and \<^verbatim>\<open>websocket/handler.rs\<close> of \<^verbatim>\<open>src/src/web\<close>: the event streams, the metrics
    socket, and the counters of both (locale \<open>counted_connections\<close>);
  \<^item> \<open>Web_Routes\<close>: the remaining handlers of \<^verbatim>\<open>src/src/web/routes\<close>, the shared state, the table of routes, the
    registry of upstreams and the embedded assets;
  \<^item> \<open>Set_Export\<close>: \<^verbatim>\<open>ipset.rs\<close>, \<^verbatim>\<open>nftset.rs\<close> and \<^verbatim>\<open>ros_addrlist.rs\<close>, which hand the addresses of a response
    to a packet filter;
  \<^item> \<open>Geo\<close>: \<^verbatim>\<open>geosite.rs\<close> and \<^verbatim>\<open>geoip.rs\<close>, tables from categories and countries to domains and networks
    (locale \<open>category_table\<close>); the order in which a \<^verbatim>\<open>HashMap\<close> is iterated is a parameter;
  \<^item> \<open>Downloader\<close>: \<^verbatim>\<open>downloader.rs\<close>: retries, the sequential mode on \<open>Disk\<close>, and the concurrent mode as a
    step relation over paths and inodes;
  \<^item> \<open>Cron\<close>: \<^verbatim>\<open>src/src/plugins/cron.rs\<close>, whose jobs are loops over what each wait ends with;
  \<^item> \<open>File_Watcher\<close>: \<^verbatim>\<open>src/src/utils/mod.rs\<close> and \<^verbatim>\<open>src/src/config/reload.rs\<close>: the loop of the watcher, the debouncing of
    changes and the reload of the configuration as step relations;
  \<^item> \<open>Diagnostics\<close>: \<^verbatim>\<open>sleep.rs\<close>, \<^verbatim>\<open>debug_print.rs\<close> and \<^verbatim>\<open>collector.rs\<close> of the executables and the handlers of
    \<^verbatim>\<open>src/src/server/monitoring.rs\<close>;
  \<^item> \<open>Memory_Metrics\<close>: \<^verbatim>\<open>src/src/metrics/memory\<close>, the readers of the cgroup and proc files;
  \<^item> \<open>Startup\<close>: \<^verbatim>\<open>src/src/cli.rs\<close>, \<^verbatim>\<open>src/src/main.rs\<close> and the names derived by \<^verbatim>\<open>src/lazydns-macros/src/lib.rs\<close>;
  \<^item> \<open>Resolver\<close>: cache and forwarder as leaves of one heap behind the handler;
  \<^item> this theory: the properties of that system and of the system behind an access control list.

  \<^bold>\<open>What the lemmas show.\<close> For the pipeline: the handler answers under the id of the request
  (the interpretation \<open>rid\<close> of \<open>ctx_relation\<close>), a chain whose references descend along a rank comes
  to an end, a jump cycle does not, a jump is a call, an error or the return flag stops a
  sequence. For the cache: the sharded cache refines a map (interpretation \<open>ll\<close> of \<open>lru_cache\<close>),
  never exceeds its capacity, serves only live entries with aged TTLs, finds what it stored
  (interpretation \<open>lrc\<close> of \<open>response_cache\<close>), drops exactly the expired entries, and survives a
  restart: a dump is atomic and brings back the entries that still live. For the
  refreshes: at most one per key, and no key stays locked. For the forwarder: an answer comes
  from the upstream that was asked, round robin reaches a working upstream when no other query draws
  from the shared counter meanwhile and may fail when one does, and under every interleaving the
  tasks that allocate ids make progress while an id is free and none while all are taken. For the
  codec: a message survives the conversion to the crate and back, and so do its EDNS options up to
  their order. For the data sets: the indexed rules and networks match exactly
  the names and addresses their entries stand for; hosts and arbitrary answer exactly what their
  tables list; a name that was answered with an address answers the PTR query for it until its
  TTL has passed. For the guards: the limiter acts like one fixed-window counter per client, the
  list decides by its first matching rule, the validator by the syntax of the name. For the
  configuration: a sequence is registered with a step for every entry that can be built, a reference
  is the plugin registered under the name, or dead when it is to the sequence itself or a later
  one; conditions mean what their text says; the limiters of a configuration that loads cannot
  panic if their type is written in lower case, a variable overrides one path of one plugin, and
  circular includes are not noticed. For the servers: no more tasks than permits and a bounded wait for them at the end, UDP replies within the
  client's limit or truncated, pipelined requests answered in order, and QUIC clients taken for
  localhost; the launched servers are those of the configuration, and a hanging one outlives the
  shutdown. For the dashboard: windows, counters and top lists agree with the log, alerts of a rule
  are spaced, and every answer counts as an error. For the web interface: reading changes nothing, the
  dump shows the condition and the action of the installed steps in order, a reload is that of the admin server, streams deliver
  in order, a socket lives as long as its client shows signs of life, the counters are exact and
  the configured limits are not enforced. For the plugins around the resolver: an exported
  prefix contains the answer's address and has the configured length, a name or address belongs to
  the categories its loaded lines give it, in whatever order the map is visited, concurrent
  downloads to distinct paths never leave a torn file, interval jobs fire at least their interval
  apart, and a crontab occurrence may fire twice; a watched file is reloaded after a quiet time and no
  change is lost, while overlapping reloads of the configuration may install an older version. For
  the whole: a repeated question is answered from the cache
  without the network (\<open>second_query_from_cache\<close>), and so is a refusal that was meant for
  another client (\<open>refusal_reaches_other_clients\<close>).

  \<^bold>\<open>Fuel and bounds.\<close> The executor of the pipeline takes fuel, because a chain of jumps need not
  terminate; \<open>None\<close> means that the fuel ran out. More fuel never changes a result
  (\<open>exec_plugin_fuel_mono\<close>), and for ranked chains enough fuel exists
  (\<open>ranked_chain_terminates\<close>). The loop that allocates query ids is part of a step relation and has no
  fuel; among 65536 draws of all tasks together there is one of every id
  (\<open>qid_allocation_progress\<close>). The processing of includes takes a bound
  on its depth, which ranked includes do not reach (\<open>ranked_includes_end\<close>). The loop that makes
  room for an alert is a partial function (\<open>make_room_take\<close>, \<open>make_room_zero\<close>). Everything else is total. Integers keep
  their width: counters are 64-bit words, TTLs 32-bit words, ids 16-bit words. Instants are
  natural numbers of nanoseconds.

  \<^bold>\<open>What is not modelled.\<close> Logging and metrics; the network, timers and the clock, which are
  arguments; external commands and HTTP clients, whose results are arguments; floating-point computations, which appear as the predicates or limits they
  produce; sockets, TLS, QUIC and HTTP themselves, the YAML parser and the parser of options.
\<close>

section \<open>A caching resolver\<close>

text \<open>
  C1: the resolver answers a repeated question from its cache. The configuration is an entry
  sequence that runs the cache and then the forwarder. When the handler has answered a query that
  missed the cache with a successful response that holds answers, then the next query with the
  same key whose id is not 0xFFFF (a query with that id is taken for a background refresh),
  handled before the storage lifetime has run out (the configured \<^verbatim>\<open>cache_ttl\<close> or, when none is
  configured, the smallest TTL of the response), is answered with that query's own id and question
  section and with the same records, whatever the network does: the forwarder is not run
  and its state is unchanged. The TTL of the records is the smallest TTL of the response less the
  seconds that have passed, or five seconds when that TTL has run out and a
  \<^verbatim>\<open>cache_ttl\<close> keeps the entry. This holds for every iteration order of the registry.
\<close>

theorem second_query_from_cache:
  assumes "resolver_registry reg" and "response_cache ops ok" and "sharded_ok ops ok (cp_cache p)"
    and "make_key (rc_message rc1) = Some key"
    and "lookup ops (cp_cache p) key = None" and "4 \<le> fuel1"
    and "handle (resolver_heap ops t1 u1 joins1 ask1 turns1) reg ''main'' fuel1 now1 rc1 (p, f) =
      Some (Inr r1, (p1, f1))"
    and "msg_rcode r1 = RC_NoError" and "msg_answers r1 \<noteq> []"
    and "make_key (rc_message rc2) = Some key" and "msg_id (rc_message rc2) \<noteq> 0xFFFF"
    and "t2 - t1 < unat (case cp_cache_ttl p of Some ct \<Rightarrow> ct | None \<Rightarrow> get_min_ttl r1) * nanos_per_sec"
    and "3 \<le> fuel2"
  shows "\<exists>r2 p2. handle (resolver_heap ops t2 u2 joins2 ask2 turns2) reg ''main'' fuel2 now2 rc2 (p1, f1) =
      Some (Inr r2, (p2, f1)) \<and>
    msg_id r2 = msg_id (rc_message rc2) \<and> msg_questions r2 = msg_questions (rc_message rc2) \<and>
    records r2 = map (set_ttl (if t2 - t1 < unat (get_min_ttl r1) * nanos_per_sec
      then get_min_ttl r1 - of_nat ((t2 - t1) div nanos_per_sec) else 5)) (records r1)"
proof -
  obtain n where n: "fuel1 = Suc (Suc (Suc (Suc n)))" using that [of "fuel1 - 4"] assms(6) by simp
  obtain m where m: "fuel2 = Suc (Suc (Suc m))" using that [of "fuel2 - 3"] assms(13) by simp
  obtain pm c r where c: "sharded_ok ops ok (cp_cache pm)" "cp_cache_ttl pm = cp_cache_ttl p"
    "make_key (request c) = Some key" "response c = Some r" "get_bool ''response_from_cache'' c = None"
    "cache_execute ops t1 t1 u1 c pm = (None, c, p1)" "r1 = set_id (msg_id (rc_message rc1)) r"
    using resolver_miss [OF assms(1-5) assms(7) [unfolded n]] by auto
  let ?d = "initial_context ''main'' now2 rc2"
  note ini = initial_context_facts [where entry = "''main''" and now = now2 and rc = rc2]
  have t: "t2 - t1 < unat (storage_ttl pm (get_min_ttl r)) * nanos_per_sec"
    using assms(12) c(2,7) by (cases "cp_cache_ttl p") (simp_all add: storage_ttl_def)
  obtain p2 x where hit: "cache_execute ops t2 t2 u2 ?d p1 =
      (None, set_metadata RETURN_FLAG (MBool True) (serve_cached_response x
         (aged_ttl (t2 - t1) (get_min_ttl r))
         (set_metadata ''cache_checked'' (MBool True) ?d)), p2)" and x: "ce_response x = r"
    using store_then_hit [OF assms(2) c(1,3,4) _ _ c(5,6) _ _ _ _ t, of ?d u2] assms(8-11) c(7) ini by auto
  have "aged_ttl (t2 - t1) (get_min_ttl r) = (if t2 - t1 < unat (get_min_ttl r1) * nanos_per_sec
      then get_min_ttl r1 - of_nat ((t2 - t1) div nanos_per_sec) else 5)"
    using c(7) by (simp add: aged_ttl_def STALE_RESPONSE_TTL_SECS_def)
  then show ?thesis
    using resolver_hit [OF assms(1,10) hit [folded hit_context_def], of joins2 ask2 turns2 m f1] m x c(7) by auto
qed

definition demo_reg :: registry where
  "demo_reg = [(''forward'', 2), (''main'', 0), (''cache'', 1)]"

definition demo_upstream :: ask where
  "demo_upstream attempt idx req = (0, 1000, Inr demo_response)"

definition demo_rc :: request_context where
  "demo_rc = request_context_new demo_query Udp"

lemma demo_first_answer:
  "\<exists>p1 f1. handle (resolver_heap list_lru 0 0 [] demo_upstream quiet) demo_reg ''main'' 4 0 demo_rc
     (demo_cache, demo_forward RoundRobin) = Some (Inr demo_response, (p1, f1))"
proof -
  let ?c0 = "initial_context ''main'' 0 demo_rc"
  let ?c1 = "set_metadata ''cache_checked'' (MBool True) ?c0"
  let ?c2 = "ctx_set_response (Some demo_response) ?c1"
  note ini = initial_context_facts [where entry = "''main''" and now = 0 and rc = demo_rc]
  have q: "rc_message demo_rc = demo_query" by (simp add: demo_rc_def request_context_new_def)
  have "lookup list_lru (cp_cache demo_cache) ''a.example:1:1:0'' = None"
    by (simp add: demo_cache_def cache_plugin_new_def ll.new_facts)
  then obtain pm where pm: "cache_execute list_lru 0 0 0 ?c0 demo_cache = (None, ?c1, pm)"
    using cache_miss [OF lrc.response_cache_axioms demo_cache_ok, of ?c0 _ 0 0 0] ini demo_key q by auto
  have meta: "\<not> has_metadata ''jump_target'' ?c1" "\<not> has_metadata ''goto_label'' ?c1"
    "\<not> has_metadata ''jump_target'' ?c2" "\<not> has_metadata ''goto_label'' ?c2" "get_bool RETURN_FLAG ?c1 = None"
    "get_bool ''response_from_cache'' ?c2 = None" "response ?c1 = None"
    using ini by (simp_all add: ctx_get_defs has_metadata_def RETURN_FLAG_def)
  obtain f1 where fw: "forward_execute [] demo_upstream quiet ?c1 (demo_forward RoundRobin) = (None, ?c2, f1)"
    using meta(7)
    by (simp add: forward_execute_def has_response_def demo_forward_def execute_sequential_def
        sequential_loop.simps forward_new_def plugin_select_upstream_def select_upstream_def
        forward_query_with_health_def demo_upstream_def quiet_def others_record_def while_waiting_def)
  have "exec_steps (resolver_heap list_lru 0 0 [] demo_upstream quiet) demo_reg 3 [Exec 1, Exec 2]
      ?c0 (demo_cache, demo_forward RoundRobin) = Some (None, ?c2, (pm, f1))"
    using resolver_steps [OF pm meta(1,2)] resolver_forwards [OF fw meta(3,4)] meta(5)
    by (simp add: numeral_3_eq_3)
  moreover have "cache_execute list_lru 0 0 0 ?c2 pm =
      (None, ?c2, try_store_response list_lru 0 0 ''a.example:1:1:0'' ?c2 pm)"
    using meta(6) q demo_key ini(1) by (simp add: cache_execute_def)
  moreover have "resolver_registry demo_reg" by (auto simp: resolver_registry_def demo_reg_def)
  moreover have "set_id (msg_id demo_query) demo_response = demo_response"
    by (simp add: demo_response_def demo_query_def set_id_def add_answer_def set_response_def add_question_def)
  ultimately show ?thesis
    using resolver_handle [where n = 2 and c = ?c2 and e = None and p = demo_cache
        and f = "demo_forward RoundRobin" and p' = pm and f' = f1] meta(4) ini(1) q
    by (simp add: numeral_eq_Suc finish_response_def take_response_def)
qed

theorem second_query_from_cache_witness:
  "\<exists>p1 f1 r2 p2. handle (resolver_heap list_lru 0 0 [] demo_upstream quiet) demo_reg ''main'' 4 0 demo_rc
     (demo_cache, demo_forward RoundRobin) = Some (Inr demo_response, (p1, f1)) \<and>
   handle (resolver_heap list_lru (2 * nanos_per_sec) 2 [] demo_ask quiet) demo_reg ''main'' 3 0 demo_rc
     (p1, f1) = Some (Inr r2, (p2, f1)) \<and>
   records r2 = [demo_answer 298]"
proof -
  obtain p1 f1 where first: "handle (resolver_heap list_lru 0 0 [] demo_upstream quiet) demo_reg ''main'' 4 0 demo_rc
     (demo_cache, demo_forward RoundRobin) = Some (Inr demo_response, (p1, f1))"
    using demo_first_answer by blast
  have q: "rc_message demo_rc = demo_query" by (simp add: demo_rc_def request_context_new_def)
  have l: "lookup list_lru (cp_cache demo_cache) ''a.example:1:1:0'' = None"
    by (simp add: demo_cache_def cache_plugin_new_def ll.new_facts)
  have reg: "resolver_registry demo_reg" by (auto simp: resolver_registry_def demo_reg_def)
  obtain r2 p2 where "handle (resolver_heap list_lru (2 * nanos_per_sec) 2 [] demo_ask quiet) demo_reg ''main'' 3 0 demo_rc
     (p1, f1) = Some (Inr r2, (p2, f1))" and
    "records r2 = map (set_ttl (get_min_ttl demo_response - of_nat ((2 * nanos_per_sec - 0) div nanos_per_sec)))
       (records demo_response)"
    using second_query_from_cache [OF reg lrc.response_cache_axioms demo_cache_ok _ l _ first,
        of demo_rc "2 * nanos_per_sec" 3 2 "[]" demo_ask quiet 0] demo_store_context demo_key q
    by (auto simp: demo_cache_def cache_plugin_new_def demo_query_def nanos_per_sec_def add_question_def)
  moreover have "records demo_response = [demo_answer 300]"
    by (simp add: records_def demo_response_def demo_query_def add_answer_def add_question_def set_id_def
        set_response_def message_new_def)
  ultimately show ?thesis
    using first demo_store_context(5)
    by (auto simp: nanos_per_sec_def demo_answer_def rr_new_def set_ttl_def)
qed

section \<open>A guarded resolver\<close>

text \<open>The same resolver behind an access control list, the first step of the entry sequence.\<close>

definition acl_leaf :: "'n ipnet_ops \<Rightarrow> 'n query_acl \<Rightarrow> 's leaf" where
  "acl_leaf nops acl =
     \<lparr>leaf_name = ''query_acl'',
      leaf_execute = (\<lambda>c s. case acl_execute nops acl c of (e, c) \<Rightarrow> (e, c, s)),
      leaf_save_ips_after = None\<rparr>"

definition guarded_heap :: "'n ipnet_ops \<Rightarrow> 'n query_acl \<Rightarrow> (cache_entry, 'l) lru_ops \<Rightarrow> nat \<Rightarrow> u64
    \<Rightarrow> joined list \<Rightarrow> ask \<Rightarrow> (nat \<Rightarrow> turn) \<Rightarrow> ('l cache_plugin \<times> forward_plugin) heap" where
  "guarded_heap nops acl ops t u joins ask turns =
     (resolver_heap ops t u joins ask turns)
       (0 := SequencePlugin [Exec 3, Exec 1, Exec 2] (Some ''main''), 3 := Leaf (acl_leaf nops acl))"

definition guarded_registry :: "registry \<Rightarrow> bool" where
  "guarded_registry reg \<longleftrightarrow> distinct (map fst reg) \<and>
     set reg = {(''main'', 0), (''cache'', 1), (''forward'', 2), (''query_acl'', 3)}"

lemma guarded_heap_sel [simp]:
  "guarded_heap nops acl ops t u joins ask turns 0 = SequencePlugin [Exec 3, Exec 1, Exec 2] (Some ''main'')"
  "guarded_heap nops acl ops t u joins ask turns 1 = Leaf (cache_leaf ops t u)"
  "guarded_heap nops acl ops t u joins ask turns (Suc 0) = Leaf (cache_leaf ops t u)"
  "guarded_heap nops acl ops t u joins ask turns 2 = Leaf (forward_leaf joins ask turns)"
  "guarded_heap nops acl ops t u joins ask turns 3 = Leaf (acl_leaf nops acl)"
  by (simp_all add: guarded_heap_def)

lemma guarded_entry:
  assumes "guarded_registry reg"
  shows "caching_entry (guarded_heap nops acl ops t u joins ask turns) reg [Exec 3, Exec 1, Exec 2] (cache_leaf ops t u)"
proof -
  have d: "distinct (map fst reg)"
    and s: "set reg = {(''main'', 0), (''cache'', 1), (''forward'', 2), (''query_acl'', 3)}"
    using assms by (simp_all add: guarded_registry_def)
  have g: "registry_get reg name = Some b \<longleftrightarrow> (name, b) \<in> set reg" for name b
    by (simp add: registry_get_def map_of_eq_Some_iff [OF d])
  have "plugin_name (guarded_heap nops acl ops t u joins ask turns b) \<noteq> ''cache''"
    if "name \<noteq> ''cache''" "registry_get reg name = Some b" for name b
    using that unfolding g s by (auto simp: acl_leaf_def)
  moreover have "reverse_hook (guarded_heap nops acl ops t u joins ask turns a) = None" for a
    by (simp add: guarded_heap_def reverse_hook_def resolver_heap_def acl_leaf_def)
  moreover have "registry_get reg ''main'' = Some 0" "registry_get reg ''cache'' = Some 1"
    unfolding g s by simp_all
  ultimately show ?thesis using d s by (auto simp: caching_entry_def plugin_names_def)
qed

lemma acl_step:
  assumes "h 3 = Leaf (acl_leaf nops acl)" and "acl_execute nops acl c = (None, c')"
    and "\<not> has_metadata ''jump_target'' c'" and "\<not> has_metadata ''goto_label'' c'" and "get_bool RETURN_FLAG c' = None"
  shows "exec_steps h reg (Suc (Suc n)) (Exec 3 # rest) c s = exec_steps h reg (Suc n) rest c' s"
  using assms by (subst leaf_step [where l = "acl_leaf nops acl" and c' = c' and s' = s]) (simp_all add: acl_leaf_def)

lemma client_initial_context:
  assumes "rc_client_info rc = Some ci"
  shows "get_ip ''client_ip'' (initial_context entry now rc) = Some (ci_ip ci)"
  using assms by (simp add: initial_context_def Let_def ctx_get_defs)

lemma acl_for_client:
  assumes "rc_client_info rc = Some ci"
  shows "acl_execute nops acl (initial_context entry now rc) =
    (None, if acl_evaluate nops acl (ci_ip ci) = Allow then initial_context entry now rc
           else set_refused (initial_context entry now rc))"
  unfolding acl_execute_def client_initial_context [OF assms]
  by (cases "acl_evaluate nops acl (ci_ip ci)") simp_all

lemma refused_facts:
  "\<not> has_metadata ''jump_target'' (set_refused (initial_context e now rc))"
  "\<not> has_metadata ''goto_label'' (set_refused (initial_context e now rc))"
  "get_bool RETURN_FLAG (set_refused (initial_context e now rc)) = None"
  "get_bool ''response_from_cache'' (set_refused (initial_context e now rc)) = None"
  using initial_context_facts [where entry = e and now = now and rc = rc]
  by (simp_all add: ctx_get_defs has_metadata_def)

text \<open>A denied query: its refusal goes through the cache, which stores it.\<close>

lemma denied_stores:
  assumes "guarded_registry reg" and "response_cache ops ok" and "sharded_ok ops ok (cp_cache p)"
    and "cp_negative_cache p" and "make_key (rc_message rc) = Some key"
    and "rc_client_info rc = Some ci" and "acl_evaluate nops acl (ci_ip ci) = Deny"
  shows "\<exists>r1 r p1. handle (guarded_heap nops acl ops t u joins ask turns) reg ''main'' (Suc (Suc (Suc (Suc (Suc n))))) now rc (p, f) =
      Some (Inr r1, (p1, f)) \<and> msg_rcode r1 = RC_Refused \<and> msg_rcode r = RC_Refused \<and>
    sharded_ok ops ok (cp_cache p1) \<and>
    lookup ops (cp_cache p1) key = Some (cache_entry_new t u r (cp_negative_ttl p) (storage_ttl p (cp_negative_ttl p))) \<and>
    cp_cache_ttl p1 = cp_cache_ttl p"
proof -
  let ?h = "guarded_heap nops acl ops t u joins ask turns"
  let ?c = "set_refused (initial_context ''main'' now rc)"
  obtain r where r: "response ?c = Some r" "msg_rcode r = RC_Refused"
    using set_refused_sel(3) [of "initial_context ''main'' now rc"] by blast
  let ?e = "cache_entry_new t u r (cp_negative_ttl p) (storage_ttl p (cp_negative_ttl p))"
  have ref: "request ?c = rc_message rc" by (simp add: initial_context_facts)
  have wr: "cache_execute ops t t u ?c q =
      (None, ?c, store ops key (cache_entry_new t u r (cp_negative_ttl q) (storage_ttl q (cp_negative_ttl q))) q)"
    if "cp_negative_cache q" for q
    using that assms(5) r ref refused_facts
    by (simp add: cache_execute_def try_store_response_def Let_def storage_ttl_def)
  let ?p1 = "store ops key ?e p"
  have sel: "cp_negative_cache (store ops k x q) = cp_negative_cache q" "cp_cache_ttl (store ops k x q) = cp_cache_ttl q"
    "cp_negative_ttl (store ops k x q) = cp_negative_ttl q" for k x q
    by (simp_all add: store_def Let_def record_eviction_def split: prod.split)
  have p1: "cp_negative_cache ?p1" "storage_ttl ?p1 = storage_ttl p" "cp_negative_ttl ?p1 = cp_negative_ttl p"
    using assms(4) sel by (simp_all add: storage_ttl_def fun_eq_iff)
  have fw: "forward_execute joins ask turns ?c f = (None, ?c, f)"
    using r by (simp add: forward_execute_def has_response_def)
  have "acl_execute nops acl (initial_context ''main'' now rc) = (None, ?c)"
    using acl_for_client [OF assms(6), of nops acl "''main''" now] assms(7) by simp
  then have steps: "exec_steps ?h reg (Suc (Suc (Suc (Suc n)))) [Exec 3, Exec 1, Exec 2] (initial_context ''main'' now rc) (p, f) =
      Some (None, ?c, (?p1, f))"
    using acl_step [where h = ?h and c' = ?c and nops = nops and acl = acl]
      leaf_step [where h = ?h and a = 1 and l = "cache_leaf ops t u" and c = ?c and c' = ?c and s = "(p, f)" and s' = "(?p1, f)"]
      leaf_step [where h = ?h and a = 2 and l = "forward_leaf joins ask turns" and c = ?c and c' = ?c and s = "(?p1, f)" and s' = "(?p1, f)"]
      wr [OF assms(4)] fw refused_facts exec_steps.simps(2) [of ?h reg]
    by simp
  note st = response_cache.store_facts [OF assms(2) response_cache.store_facts(1) [OF assms(2,3)], of key ?e key ?e]
  from entry_handle [OF guarded_entry [OF assms(1)] steps refused_facts(2) wr [OF p1(1)]] r p1(2,3) st sel(2) show ?thesis
    by (auto simp: finish_response_def take_response_def)
qed

text \<open>
  C21: with negative caching on, a refusal meant for one client is served to others. The
  configuration is an entry sequence that runs an access control list, the cache and the
  forwarder. When the list denies a client, its REFUSED response passes through the cache like an
  answer and is stored under the question; if the next query comes from an allowed client, asks the
  same question (the same key), has an id other than 0xFFFF and is handled before the storage
  lifetime has run out (the configured \<^verbatim>\<open>cache_ttl\<close> or, when none is configured, the negative TTL),
  that client is refused from the cache, and the forwarder is not asked.
\<close>

theorem refusal_reaches_other_clients:
  assumes "guarded_registry reg" and "response_cache ops ok" and "sharded_ok ops ok (cp_cache p)"
    and "cp_negative_cache p"
    and "make_key (rc_message rc1) = Some key" and "rc_client_info rc1 = Some ci1"
    and "acl_evaluate nops acl (ci_ip ci1) = Deny" and "5 \<le> fuel1"
    and "make_key (rc_message rc2) = Some key" and "rc_client_info rc2 = Some ci2"
    and "acl_evaluate nops acl (ci_ip ci2) = Allow" and "msg_id (rc_message rc2) \<noteq> 0xFFFF"
    and "t2 - t1 < unat (case cp_cache_ttl p of Some ct \<Rightarrow> ct | None \<Rightarrow> cp_negative_ttl p) * nanos_per_sec"
    and "4 \<le> fuel2"
  shows "\<exists>r1 p1 r2 p2.
    handle (guarded_heap nops acl ops t1 u1 joins1 ask1 turns1) reg ''main'' fuel1 now1 rc1 (p, f) = Some (Inr r1, (p1, f)) \<and>
    handle (guarded_heap nops acl ops t2 u2 joins2 ask2 turns2) reg ''main'' fuel2 now2 rc2 (p1, f) = Some (Inr r2, (p2, f)) \<and>
    msg_rcode r2 = RC_Refused \<and> msg_id r2 = msg_id (rc_message rc2)"
proof -
  obtain n where n: "fuel1 = Suc (Suc (Suc (Suc (Suc n))))" using that [of "fuel1 - 5"] assms(8) by simp
  obtain m where m: "fuel2 = Suc (Suc (Suc (Suc m)))" using that [of "fuel2 - 4"] assms(14) by simp
  let ?ct = "storage_ttl p (cp_negative_ttl p)"
  obtain r1 r p1 where h1: "handle (guarded_heap nops acl ops t1 u1 joins1 ask1 turns1) reg ''main'' fuel1 now1 rc1 (p, f) =
      Some (Inr r1, (p1, f))" and r: "msg_rcode r = RC_Refused" and ok: "sharded_ok ops ok (cp_cache p1)"
    and l: "lookup ops (cp_cache p1) key = Some (cache_entry_new t1 u1 r (cp_negative_ttl p) ?ct)"
    and ct: "cp_cache_ttl p1 = cp_cache_ttl p"
    using denied_stores [OF assms(1-7), where n = n] unfolding n by blast
  let ?d = "initial_context ''main'' now2 rc2"
  let ?e = "cache_entry_new t1 u1 r (cp_negative_ttl p) ?ct"
  let ?x = "touch t2 ?e"
  note ini = initial_context_facts [where entry = "''main''" and now = now2 and rc = rc2]
  note se = stored_entry_served [OF assms(13) [folded storage_ttl_def], of u1 r]
  have live: "remaining_ttl t2 ?e \<noteq> 0 \<or> cp_cache_ttl p1 \<noteq> None" using se(2) ct by simp
  obtain p2 where "cache_execute ops t2 t2 u2 ?d p1 = (None, hit_context ?x (served_ttl t2 ?e) ?d, p2)"
    using cache_hit_served [OF assms(2) ok _ ini(2,3) _ l se(1) live, of u2]
      assms(9,12) ini by (auto simp: hit_context_def)
  note hit = cache_stops [where h = "guarded_heap nops acl ops t2 u2 joins2 ask2 turns2", OF guarded_heap_sel(2) this ini(4,5)]
  have "acl_execute nops acl ?d = (None, ?d)" using acl_for_client [OF assms(10), of nops acl "''main''" now2] assms(11) by simp
  then have "exec_steps (guarded_heap nops acl ops t2 u2 joins2 ask2 turns2) reg (Suc (Suc (Suc m)))
      [Exec 3, Exec 1, Exec 2] ?d (p1, f) = Some (None, hit_context ?x (served_ttl t2 ?e) ?d, (p2, f))"
    using acl_step [where h = "guarded_heap nops acl ops t2 u2 joins2 ask2 turns2", OF guarded_heap_sel(5) _ ini(4-6)]
      hit by fastforce
  from hit_handle [OF guarded_entry [OF assms(1)] assms(9) this] h1 r m show ?thesis
    by (auto simp: touch_def cache_entry_new_def)
qed

definition demo_acl :: "(ip_addr \<times> nat) query_acl" where
  "demo_acl = deny_list [(V4 0x0A000000, 8)]"

definition demo_client_rc :: "ip_addr \<Rightarrow> request_context" where
  "demo_client_rc ip = request_context_with_client demo_query (Some \<lparr>sa_ip = ip, sa_port = 5353\<rparr>) Udp"

theorem refusal_reaches_other_clients_witness:
  "\<exists>p1 f r1 r2 p2.
    handle (guarded_heap mask_net demo_acl list_lru 0 0 [] demo_ask quiet)
      ((''query_acl'', 3) # demo_reg) ''main'' 5 0 (demo_client_rc (V4 0x0A000001)) (with_negative_cache 300 demo_cache, f) =
      Some (Inr r1, (p1, f)) \<and>
    handle (guarded_heap mask_net demo_acl list_lru nanos_per_sec 1 [] demo_ask quiet)
      ((''query_acl'', 3) # demo_reg) ''main'' 4 0 (demo_client_rc (V4 0xC0000202)) (p1, f) = Some (Inr r2, (p2, f)) \<and>
    msg_rcode r2 = RC_Refused"
proof -
  have reg: "guarded_registry ((''query_acl'', 3) # demo_reg)"
    by (auto simp: guarded_registry_def demo_reg_def)
  have m: "make_key (rc_message (demo_client_rc ip)) = Some ''a.example:1:1:0''"
    and i: "rc_client_info (demo_client_rc ip) = Some (client_info_from \<lparr>sa_ip = ip, sa_port = 5353\<rparr>)"
    and q: "rc_message (demo_client_rc ip) = demo_query" for ip
    using demo_key by (simp_all add: demo_client_rc_def request_context_with_client_def)
  have d: "acl_evaluate mask_net demo_acl (V4 0x0A000001) = Deny"
    by (simp add: demo_acl_def deny_list_evaluate mask_net_def mask_contains_in_prefix)
  have "acl_evaluate mask_net demo_acl (V4 0xC0000202) \<noteq> Deny"
    by (simp add: demo_acl_def deny_list_evaluate mask_net_def mask_contains_in_prefix)
  then have a: "acl_evaluate mask_net demo_acl (V4 0xC0000202) = Allow"
    by (cases "acl_evaluate mask_net demo_acl (V4 0xC0000202)") auto
  have p: "sharded_ok list_lru list_lru_ok (cp_cache (with_negative_cache 300 demo_cache))"
    "cp_negative_cache (with_negative_cache 300 demo_cache)"
    "cp_negative_ttl (with_negative_cache 300 demo_cache) = 300"
    "cp_cache_ttl (with_negative_cache 300 demo_cache) = None"
    using demo_cache_ok by (simp_all add: with_negative_cache_def demo_cache_def cache_plugin_new_def)
  show ?thesis
    using refusal_reaches_other_clients [OF reg lrc.response_cache_axioms p(1,2) m i _ _ m i,
        of mask_net demo_acl "V4 0x0A000001" 5 "V4 0xC0000202" nanos_per_sec 0 4] d a p(3,4) q
    by (simp add: client_info_from_def nanos_per_sec_def demo_query_def add_question_def) blast
qed

end
